(* ===== verification/Prelude.thy ===== *)
theory Prelude
  imports Main "HOL-Library.Word" "HOL-Library.Monad_Syntax" "HOL-Library.Signed_Division"
begin

section \<open>Shared vocabulary of the almostOS development\<close>

text \<open>
  What every component of the kernel shares: the machine integer types of
  \<^verbatim>\<open>kernel_stddef.h\<close> and \<^verbatim>\<open>system_headers/stdint.h\<close>, checked memory accesses, the
  \<^verbatim>\<open>for\<close> loop, and lemmas on them.

  \<^item> A C object (array, buffer, string with its terminator) is the list of its bytes. A pointer
    into it is the list of the bytes from that place to the end of the object, and a pointer that
    the code compares with \<open>NULL\<close> is an \<open>option\<close> of such a list.
  \<^item> A computation that C leaves undefined (an access outside the object, through \<open>NULL\<close>, the
    read of a variable that was never written) or that never returns is the value \<open>None\<close>; every
    other outcome, the error returns of the code included, is \<open>Some\<close>. The \<open>do\<close> notation is the
    one the library provides for \<open>option\<close>.
  \<^item> \<open>unsigned\<close> types are words of their width. Return codes and loop counters of type \<open>int\<close>
    are HOL integers or naturals.
\<close>

unbundle bit_operations_syntax

type_synonym u8 = "8 word"
type_synonym u16 = "16 word"
type_synonym u32 = "32 word"
type_synonym u64 = "64 word"

named_theorems mem_access \<open>facts that resolve checked reads, writes and loops\<close>

named_theorems word_nat \<open>facts that turn word arithmetic without overflow into arithmetic on nat\<close>

subsection \<open>Checked accesses\<close>

definition rd :: "'a list \<Rightarrow> nat \<Rightarrow> 'a option" where
  "rd xs i = (if i < length xs then Some (xs ! i) else None)"

definition wr :: "'a list \<Rightarrow> nat \<Rightarrow> 'a \<Rightarrow> 'a list option" where
  "wr xs i v = (if i < length xs then Some (xs[i := v]) else None)"

lemma rd_in [mem_access]: "i < length xs \<Longrightarrow> rd xs i = Some (xs ! i)"
  by (simp add: rd_def)

lemma rd_out [mem_access]: "length xs \<le> i \<Longrightarrow> rd xs i = None"
  by (simp add: rd_def)

lemma wr_in [mem_access]: "i < length xs \<Longrightarrow> wr xs i v = Some (xs[i := v])"
  by (simp add: wr_def)

lemma wr_out [mem_access]: "length xs \<le> i \<Longrightarrow> wr xs i v = None"
  by (simp add: wr_def)

lemma rd_Some_iff: "rd xs i = Some v \<longleftrightarrow> i < length xs \<and> xs ! i = v"
  by (auto simp: rd_def)

lemma wr_Some_iff: "wr xs i v = Some ys \<longleftrightarrow> i < length xs \<and> ys = xs[i := v]"
  by (auto simp: wr_def)

lemma rd_Cons_0 [simp]: "rd (x # xs) 0 = Some x"
  by (simp add: rd_def)

lemma rd_Cons_Suc [simp]: "rd (x # xs) (Suc i) = rd xs i"
  by (simp add: rd_def)

lemma rd_Nil [simp]: "rd [] i = None"
  by (simp add: rd_def)

text \<open>Evaluation of a bound computation waits for its first part: this stops the simplifier
  from unfolding recursive calls under a binder whose argument is not known yet.\<close>

lemma bind_first_cong: "m = m' \<Longrightarrow> Option.bind m f = Option.bind m' f"
  by simp

lemma option_bind_tail: "Option.bind m (\<lambda>x. Some (f x)) = map_option f m"
  by (cases m) simp_all

subsection \<open>The for loop\<close>

text \<open>\<open>for_loop i n body s\<close> is \<^verbatim>\<open>for (; i < n; i++) body\<close> over the state \<open>s\<close>.\<close>

function for_loop :: "nat \<Rightarrow> nat \<Rightarrow> (nat \<Rightarrow> 's \<Rightarrow> 's option) \<Rightarrow> 's \<Rightarrow> 's option" where
  "for_loop i n body s =
     (if i < n then do { s' \<leftarrow> body i s; for_loop (Suc i) n body s' } else Some s)"
  by pat_completeness auto
termination
  by (relation "measure (\<lambda>(i, n, _). n - i)") auto

declare for_loop.simps [simp del]

lemma for_loop_done [simp]: "n \<le> i \<Longrightarrow> for_loop i n body s = Some s"
  by (subst for_loop.simps) simp

lemma for_loop_done_fun: "n \<le> i \<Longrightarrow> for_loop i n body = Some"
  by (rule ext) simp

lemma for_loop_step:
  "i < n \<Longrightarrow> for_loop i n body s = Option.bind (body i s) (for_loop (Suc i) n body)"
  by (subst for_loop.simps) simp

text \<open>The total-correctness rule: an invariant that the body keeps, and under which the body
  is defined, holds after the loop, which returns.\<close>

lemma for_loop_rule:
  assumes "I i s" and "i \<le> n"
    and "\<And>j t. I j t \<Longrightarrow> i \<le> j \<Longrightarrow> j < n \<Longrightarrow> \<exists>t'. body j t = Some t' \<and> I (Suc j) t'"
  shows "\<exists>s'. for_loop i n body s = Some s' \<and> I n s'"
  using assms
proof (induction i n body s rule: for_loop.induct)
  case (1 i n body s)
  show ?case
  proof (cases "i < n")
    case True
    with "1.prems" obtain t where t: "body i s = Some t" "I (Suc i) t" by blast
    have "\<exists>s'. for_loop (Suc i) n body t = Some s' \<and> I n s'"
      using True t "1.prems"(3) by (intro "1.IH") auto
    with True t show ?thesis by (simp add: for_loop_step)
  next
    case False
    with "1.prems" show ?thesis by (simp add: le_antisym)
  qed
qed

text \<open>A loop whose body is a checked write of a value computed from the index.\<close>

lemma for_loop_fill:
  assumes "i \<le> n" and "n \<le> length d"
  shows "for_loop i n (\<lambda>j m. wr m j (f j)) d = Some (take i d @ map f [i..<n] @ drop n d)"
proof -
  let ?I = "\<lambda>j m. m = take i d @ map f [i..<j] @ drop j d \<and> i \<le> j"
  have "\<exists>m. for_loop i n (\<lambda>j m. wr m j (f j)) d = Some m \<and> ?I n m"
  proof (rule for_loop_rule)
    fix j m assume "?I j m" and "j < n"
    moreover from this assms have "drop j d = d ! j # drop (Suc j) d"
      by (simp add: Cons_nth_drop_Suc)
    ultimately show "\<exists>m'. wr m j (f j) = Some m' \<and> ?I (Suc j) m'"
      using assms by (simp add: wr_in list_update_append)
  qed (use assms in auto)
  then show ?thesis by simp
qed

subsection \<open>Words without overflow\<close>

lemma unat_add_lt [word_nat]:
  fixes a b :: "'a::len word"
  assumes "unat a + unat b < 2 ^ LENGTH('a)"
  shows "unat (a + b) = unat a + unat b"
  using assms by (simp add: unat_word_ariths)

lemma unat_mult_lt [word_nat]:
  fixes a b :: "'a::len word"
  assumes "unat a * unat b < 2 ^ LENGTH('a)"
  shows "unat (a * b) = unat a * unat b"
  using assms by (simp add: unat_word_ariths)

lemma unat_eqD: "unat a = unat b \<Longrightarrow> a = b"
  by (rule unsigned_word_eqI [where ?'a = nat])

lemma inj_on_unat [simp]: "inj_on unat A"
  by (auto intro: inj_onI dest: unat_eqD)

lemma unat_of_nat_u32 [word_nat]: "n < 4294967296 \<Longrightarrow> unat (of_nat n :: u32) = n"
  by (simp add: unsigned_of_nat take_bit_nat_def)

lemma inj_on_of_nat_u32: "(\<And>n. n \<in> A \<Longrightarrow> n < 4294967296) \<Longrightarrow> inj_on (of_nat :: nat \<Rightarrow> u32) A"
  by (intro inj_onI) (metis unat_of_nat_u32)

lemma unat_u8_lt: "unat (b :: u8) < 256"
  using unsigned_less [of b, where ?'a = nat] by simp

lemma unat_u32_lt: "unat (b :: u32) < 4294967296"
  using unsigned_less [of b, where ?'a = nat] by simp

lemma unat_ucast_u8_u32 [simp]: "unat (ucast (b :: u8) :: u32) = unat b"
proof -
  have "unat (ucast b :: u32) = take_bit LENGTH(32) (unat b)"
    by (simp only: unsigned_ucast_eq)
  also have "\<dots> = unat b"
    using unat_u8_lt [of b] by (simp add: take_bit_nat_def)
  finally show ?thesis .
qed

lemma ucast_u8_u32_u8 [simp]: "(ucast (ucast (b :: u8) :: u32) :: u8) = b"
  by (rule ucast_up_ucast_id) (simp add: is_up)

lemma sint_u32_small: "unat (w :: u32) < 2147483648 \<Longrightarrow> sint w = int (unat w)"
proof -
  assume "unat w < 2147483648"
  then have a: "uint w < 2147483648" using of_nat_less_iff [of "unat w" 2147483648, where ?'a = int] by simp
  have "sint w = signed_take_bit 31 (uint w)" by (simp add: sint_uint)
  also have "\<dots> = uint w"
  proof (rule signed_take_bit_int_eq_self)
    show "- (2 ^ 31) \<le> uint w" by (rule order_trans [of _ 0]) simp_all
    show "uint w < 2 ^ 31" using a by simp
  qed
  finally show ?thesis by simp
qed

lemma nat_sint_u32: "unat (w :: u32) < 2147483648 \<Longrightarrow> nat (sint w) = unat w"
  by (simp add: sint_u32_small)

lemma u16_halves: "push_bit 8 (ucast (ucast (drop_bit 8 v) :: u8)) + ucast (ucast (v AND 0xFF) :: u8) = (v :: u16)"
proof -
  have a: "ucast (ucast (drop_bit 8 v) :: u8) = (drop_bit 8 v :: u16)"
    by (rule bit_word_eqI) (auto simp: bit_simps dest: bit_imp_le_length)
  have m: "v AND 0xFF = take_bit 8 v"
    by (simp add: take_bit_eq_mask mask_eq_exp_minus_1)
  have b: "ucast (ucast (v AND 0xFF) :: u8) = (take_bit 8 v :: u16)"
    unfolding m by (rule bit_word_eqI) (auto simp: bit_simps dest: bit_imp_le_length)
  show ?thesis unfolding a b by (metis bits_ident)
qed

subsection \<open>Searching a list\<close>

text \<open>The first index from \<open>i\<close>, of \<open>n\<close> ones, with a property.\<close>

fun first_from :: "(nat \<Rightarrow> bool) \<Rightarrow> nat \<Rightarrow> nat \<Rightarrow> int" where
  "first_from P i 0 = -1"
| "first_from P i (Suc n) = (if P i then int i else first_from P (Suc i) n)"

definition first_index :: "('a \<Rightarrow> bool) \<Rightarrow> 'a list \<Rightarrow> int" where
  "first_index P xs = first_from (\<lambda>i. P (xs ! i)) 0 (length xs)"

lemma first_from_cases:
  "first_from P i n = -1 \<and> (\<forall>j. i \<le> j \<longrightarrow> j < i + n \<longrightarrow> \<not> P j) \<or>
     (\<exists>j. first_from P i n = int j \<and> i \<le> j \<and> j < i + n \<and> P j \<and> (\<forall>k. i \<le> k \<longrightarrow> k < j \<longrightarrow> \<not> P k))"
proof (induction n arbitrary: i)
  case (Suc n)
  show ?case
  proof (cases "P i")
    case True
    then show ?thesis by (auto intro!: exI [of _ i])
  next
    case False
    have less: "i \<le> j \<longleftrightarrow> j = i \<or> Suc i \<le> j" for j by auto
    from Suc [of "Suc i"] show ?thesis
    proof
      assume "first_from P (Suc i) n = - 1 \<and> (\<forall>j. Suc i \<le> j \<longrightarrow> j < Suc i + n \<longrightarrow> \<not> P j)"
      then show ?thesis using False by (auto simp: less)
    next
      assume "\<exists>j. first_from P (Suc i) n = int j \<and> Suc i \<le> j \<and> j < Suc i + n \<and> P j \<and>
          (\<forall>k. Suc i \<le> k \<longrightarrow> k < j \<longrightarrow> \<not> P k)"
      then obtain j where "first_from P (Suc i) n = int j" "Suc i \<le> j" "j < Suc i + n" "P j"
          "\<forall>k. Suc i \<le> k \<longrightarrow> k < j \<longrightarrow> \<not> P k" by blast
      then show ?thesis using False by (intro disjI2 exI [of _ j]) (auto simp: less)
    qed
  qed
qed auto

lemma first_index_None: "first_index P xs = -1 \<longleftrightarrow> (\<forall>x \<in> set xs. \<not> P x)"
  using first_from_cases [of "\<lambda>i. P (xs ! i)" 0 "length xs"]
  by (fastforce simp: first_index_def in_set_conv_nth)

lemma first_index_Some:
  assumes "first_index P xs = int i"
  shows "i < length xs" and "P (xs ! i)" and "\<forall>k < i. \<not> P (xs ! k)"
  using first_from_cases [of "\<lambda>i. P (xs ! i)" 0 "length xs"] assms
  by (auto simp: first_index_def)

lemma first_index_cases:
  obtains "first_index P xs = -1" "\<forall>x \<in> set xs. \<not> P x"
  | i where "first_index P xs = int i" "i < length xs" "P (xs ! i)" "\<forall>k < i. \<not> P (xs ! k)"
  using first_from_cases [of "\<lambda>i. P (xs ! i)" 0 "length xs"] first_index_None [of P xs]
  by (auto simp: first_index_def)

lemma first_index_map: "first_index P (map f xs) = first_index (\<lambda>x. P (f x)) xs"
proof -
  have "i + n \<le> length xs \<Longrightarrow> first_from (\<lambda>j. P (map f xs ! j)) i n = first_from (\<lambda>j. P (f (xs ! j))) i n" for i n
    by (induction n arbitrary: i) auto
  from this [of 0 "length xs"] show ?thesis by (simp add: first_index_def)
qed

end
