(* ===== verification/C_String.thy ===== *)
theory C_String
  imports Prelude
begin

section \<open>The C string functions (stdlib\_c/string.c)\<close>

text \<open>
  A \<^verbatim>\<open>char*\<close> is the list of the bytes from where it points to the end of the object. \<open>c_str s\<close> is
  the string that C reads there: the bytes before the first 0.
\<close>

abbreviation c_str :: "u8 list \<Rightarrow> u8 list" where "c_str s \<equiv> takeWhile (\<lambda>c. c \<noteq> 0) s"

definition terminated :: "u8 list \<Rightarrow> bool" where "terminated s = (0 \<in> set s)"

text \<open>The scan of \<^verbatim>\<open>strlen\<close> runs off the object when there is no 0.\<close>

fun strlen :: "u8 list \<Rightarrow> nat option" where
  "strlen [] = None"
| "strlen (c # itr) = (if c \<noteq> 0 then map_option Suc (strlen itr) else Some 0)"

fun strncmp :: "u8 list \<Rightarrow> u8 list \<Rightarrow> nat \<Rightarrow> int option" where
  "strncmp str1 str2 0 = Some 0"
| "strncmp str1 str2 (Suc n) = do {
     a \<leftarrow> rd str1 0;
     b \<leftarrow> rd str2 0;
     if a \<noteq> 0 \<and> a = b then strncmp (tl str1) (tl str2) n
     else Some (int (unat a) - int (unat b))
   }"

lemma strlen_eq: "strlen s = (if terminated s then Some (length (c_str s)) else None)"
  by (induction s) (auto simp: terminated_def)

lemma strlen_terminated: "terminated s \<Longrightarrow> strlen s = Some (length (c_str s))"
  by (simp add: strlen_eq)

lemma terminated_length: "terminated s \<Longrightarrow> length (c_str s) < length s"
  by (induction s) (auto simp: terminated_def)

lemma terminated_nth: "terminated s \<Longrightarrow> s ! length (c_str s) = 0"
  using nth_length_takeWhile [of "\<lambda>c. c \<noteq> 0" s] terminated_length by blast

lemma c_str_prefix: "take (length (c_str s)) s = c_str s"
  by (induction s) auto

lemma c_str_no_null: "0 \<notin> set (c_str s)"
  by (auto dest: set_takeWhileD)

lemma c_str_append_null: "0 \<notin> set xs \<Longrightarrow> c_str (xs @ 0 # ys) = xs"
  by (induction xs) auto

text \<open>The comparison never leaves the two strings, and finds them equal when they agree on their first
  \<open>n\<close> characters.\<close>

lemma strncmp_total:
  assumes "terminated s" and "terminated t \<or> n \<le> length t"
  shows "\<exists>r. strncmp s t n = Some r \<and> (r = 0 \<longleftrightarrow> take n (c_str s) = take n (c_str t))"
  using assms
proof (induction n arbitrary: s t)
  case (Suc n)
  obtain a s' where s: "s = a # s'" using Suc.prems by (cases s) (auto simp: terminated_def)
  obtain b t' where t: "t = b # t'" using Suc.prems by (cases t) (auto simp: terminated_def)
  show ?case
  proof (cases "a \<noteq> 0 \<and> a = b")
    case True
    then have "terminated s'" "terminated t' \<or> n \<le> length t'"
      using Suc.prems s t by (auto simp: terminated_def)
    from Suc.IH [OF this] True show ?thesis by (simp add: s t)
  next
    case False
    have "int (unat a) - int (unat b) = 0 \<longleftrightarrow> a = b" using unat_eqD [of a b] by (simp del: of_nat_unat) blast
    with False show ?thesis by (auto simp: s t simp del: of_nat_unat)
  qed
qed simp

lemma strncmp_zero:
  assumes "terminated s" and "terminated t \<or> n \<le> length t"
  shows "strncmp s t n = Some 0 \<longleftrightarrow> take n (c_str s) = take n (c_str t)"
  using strncmp_total [OF assms] by auto

end
