(* ===== verification/Interfaces.thy ===== *)
theory Interfaces
  imports C_String
begin

section \<open>Interfaces between the components\<close>

text \<open>
  The contracts the components of the kernel rely on, as locales.

  \<^item> \<open>bounded_stack\<close>: the byte stack of \<^verbatim>\<open>memory/stack.c\<close> as its two clients use it
    (\<^verbatim>\<open>memory/malloc.c\<close> and the process stack allocator of \<^verbatim>\<open>scheduler.c\<close> keep the indices
    of their free blocks in one).
  \<^item> \<open>block_pool\<close>: an allocator of equal blocks, as the callers of \<^verbatim>\<open>heap_malloc\<close> /
    \<^verbatim>\<open>heap_free\<close> and of \<^verbatim>\<open>allocate_stack_memory\<close> / \<^verbatim>\<open>free_stack_memory\<close> see it.
  \<^item> \<open>chain_store\<close>: the reads and writes of single bytes in a chain of clusters, on which the
    transfers of buffers and numbers of \<^verbatim>\<open>cluster_operations.c\<close> are built.
  \<^item> \<open>file_table\<close>: the operations of \<^verbatim>\<open>fs_operations.c\<close>, as scripts of commands see them.
  \<^item> \<open>simulation\<close>: a component that answers inputs with output, here \<^verbatim>\<open>shell.c\<close> with the console, against a specification.

  Each is interpreted on the model's own definitions in the theory of the component that
  provides it.
\<close>

subsection \<open>A bounded stack of bytes\<close>

text \<open>Sequences of operations, run on an implementation and on the abstract stack: a list (top
  first) that holds at most \<open>cap\<close> values. A pop passes a result variable that holds 0.\<close>

datatype stack_cmd = Push u8 | Pop

fun stack_run :: "('s \<Rightarrow> u8 \<Rightarrow> (bool \<times> 's) option) \<Rightarrow> ('s \<Rightarrow> u8 option \<Rightarrow> (bool \<times> u8 option \<times> 's) option)
    \<Rightarrow> stack_cmd list \<Rightarrow> 's \<Rightarrow> ((bool \<times> u8 option) list \<times> 's) option" where
  "stack_run push pop [] s = Some ([], s)"
| "stack_run push pop (Push v # cs) s =
     do { (ok, s') \<leftarrow> push s v; (rs, s'') \<leftarrow> stack_run push pop cs s'; Some ((ok, None) # rs, s'') }"
| "stack_run push pop (Pop # cs) s =
     do { (ok, v, s') \<leftarrow> pop s (Some 0); (rs, s'') \<leftarrow> stack_run push pop cs s'; Some ((ok, v) # rs, s'') }"

fun list_run :: "nat \<Rightarrow> stack_cmd list \<Rightarrow> u8 list \<Rightarrow> (bool \<times> u8 option) list \<times> u8 list" where
  "list_run cap [] xs = ([], xs)"
| "list_run cap (Push v # cs) xs =
     (let ok = length xs < cap; (rs, ys) = list_run cap cs (if ok then v # xs else xs)
      in ((ok, None) # rs, ys))"
| "list_run cap (Pop # cs) xs =
     (case xs of
        [] \<Rightarrow> let (rs, ys) = list_run cap cs [] in ((False, Some 0) # rs, ys)
      | x # xs' \<Rightarrow> let (rs, ys) = list_run cap cs xs' in ((True, Some x) # rs, ys))"

locale bounded_stack =
  fixes push :: "'s \<Rightarrow> u8 \<Rightarrow> (bool \<times> 's) option"
    and pop :: "'s \<Rightarrow> u8 option \<Rightarrow> (bool \<times> u8 option \<times> 's) option"
    and contents :: "'s \<Rightarrow> u8 list"
    and capacity :: "'s \<Rightarrow> nat"
    and invar :: "'s \<Rightarrow> bool"
  assumes fits: "invar s \<Longrightarrow> length (contents s) \<le> capacity s"
    and push_ok: "invar s \<Longrightarrow> length (contents s) < capacity s \<Longrightarrow>
      \<exists>s'. push s v = Some (True, s') \<and> invar s' \<and> contents s' = v # contents s \<and> capacity s' = capacity s"
    and push_full: "invar s \<Longrightarrow> length (contents s) = capacity s \<Longrightarrow> push s v = Some (False, s)"
    and pop_ok: "invar s \<Longrightarrow> contents s = v # vs \<Longrightarrow>
      \<exists>s'. pop s (Some old) = Some (True, Some v, s') \<and> invar s' \<and> contents s' = vs \<and> capacity s' = capacity s"
    and pop_empty: "invar s \<Longrightarrow> contents s = [] \<Longrightarrow> pop s (Some old) = Some (False, Some old, s)"
begin

lemma pop_push:
  assumes "invar s" and "length (contents s) < capacity s"
  shows "\<exists>s' s''. push s v = Some (True, s') \<and> pop s' (Some old) = Some (True, Some v, s'')
    \<and> invar s'' \<and> contents s'' = contents s"
proof -
  obtain s' where s': "push s v = Some (True, s')" "invar s'" "contents s' = v # contents s"
    using push_ok [OF assms] by blast
  with pop_ok [OF s'(2,3)] show ?thesis by blast
qed

lemma run_refines:
  "invar s \<Longrightarrow> \<exists>s'. stack_run push pop cmds s = Some (fst (list_run (capacity s) cmds (contents s)), s')
     \<and> invar s' \<and> contents s' = snd (list_run (capacity s) cmds (contents s))"
proof (induction cmds arbitrary: s)
  case Nil
  then show ?case by simp
next
  case (Cons c cs)
  show ?case
  proof (cases c)
    case (Push v)
    show ?thesis
    proof (cases "length (contents s) < capacity s")
      case True
      from push_ok [OF Cons.prems True, of v] obtain s' where "push s v = Some (True, s')" "invar s'"
        "contents s' = v # contents s" "capacity s' = capacity s" by blast
      with Cons.IH [of s'] Push True show ?thesis by (auto simp: Let_def split: prod.splits)
    next
      case False
      with fits [OF Cons.prems] push_full [OF Cons.prems, of v] Cons.IH [OF Cons.prems] Push
      show ?thesis by (auto simp: Let_def split: prod.splits)
    qed
  next
    case Pop
    note hyps = Cons.IH Cons.prems
    show ?thesis
    proof (cases "contents s")
      case Nil
      with pop_empty [OF hyps(2) Nil, of 0] hyps(1) [OF hyps(2)] Pop
      show ?thesis by (auto simp: Let_def split: prod.splits)
    next
      case (Cons x xs)
      from pop_ok [OF hyps(2) Cons, of 0] obtain s' where "pop s (Some 0) = Some (True, Some x, s')"
        "invar s'" "contents s' = xs" "capacity s' = capacity s" by blast
      with hyps(1) [of s'] Pop Cons show ?thesis by (auto simp: Let_def split: prod.splits)
    qed
  qed
qed

text \<open>Pushing a list of values one after the other, as the initialisers of both allocators do.\<close>

lemma push_loop:
  assumes "invar s" and "contents s = []" and "i \<le> n" and "n - i \<le> capacity s"
  shows "\<exists>s'. for_loop i n (\<lambda>j (ok, t). if ok then push t (f j) else Some (False, t)) (True, s) =
      Some (True, s') \<and> invar s' \<and> contents s' = rev (map f [i..<n]) \<and> capacity s' = capacity s"
proof -
  let ?I = "\<lambda>j (ok, t). ok \<and> invar t \<and> contents t = rev (map f [i..<j]) \<and> capacity t = capacity s \<and> i \<le> j"
  have "\<exists>r. for_loop i n (\<lambda>j (ok, t). if ok then push t (f j) else Some (False, t)) (True, s) = Some r \<and> ?I n r"
  proof (rule for_loop_rule)
    fix j r assume I: "?I j r" and j: "i \<le> j" "j < n"
    obtain ok t where r: "r = (ok, t)" by force
    have "length (contents t) < capacity t" using I j assms(4) r by simp
    then obtain t' where "push t (f j) = Some (True, t')" "invar t'"
        "contents t' = f j # contents t" "capacity t' = capacity t"
      using push_ok I r by blast
    with I j r show "\<exists>r'. (case r of (ok, t) \<Rightarrow> if ok then push t (f j) else Some (False, t)) = Some r' \<and> ?I (Suc j) r'"
      by auto
  qed (use assms in auto)
  then show ?thesis by auto
qed

end

subsection \<open>A pool of equal blocks\<close>

text \<open>The free blocks and the blocks held by clients partition the pool.\<close>

definition pool_partition :: "nat list \<Rightarrow> nat set \<Rightarrow> nat \<Rightarrow> bool" where
  "pool_partition free live n \<longleftrightarrow> distinct free \<and> set free \<inter> live = {} \<and> set free \<union> live = {..<n}"

text \<open>A client that requests blocks and returns only blocks it holds, by position in the
  list of the pointers it holds. A request that yields \<open>NULL\<close> leaves the list as it is.\<close>

datatype pool_cmd = Request | Return nat

fun pool_run :: "('p \<Rightarrow> (u32 \<times> 'p) option) \<Rightarrow> (u32 \<Rightarrow> 'p \<Rightarrow> 'p option) \<Rightarrow> pool_cmd list
    \<Rightarrow> u32 list \<Rightarrow> 'p \<Rightarrow> (u32 list \<times> 'p) option" where
  "pool_run get give [] held p = Some (held, p)"
| "pool_run get give (Request # cs) held p =
     do { (a, p') \<leftarrow> get p; pool_run get give cs (if a = 0 then held else a # held) p' }"
| "pool_run get give (Return i # cs) held p =
     (if i < length held
      then do { p' \<leftarrow> give (held ! i) p; pool_run get give cs (remove1 (held ! i) held) p' }
      else pool_run get give cs held p)"

lemma pool_partition_length:
  assumes "pool_partition free live n"
  shows "length free + card live = n"
proof -
  have "finite live" using assms by (auto simp: pool_partition_def intro: finite_subset [of _ "{..<n}"])
  then have "card (set free \<union> live) = card (set free) + card live"
    using assms by (intro card_Un_disjoint) (auto simp: pool_partition_def)
  then show ?thesis using assms by (simp add: pool_partition_def distinct_card)
qed

locale block_pool =
  fixes get :: "'p \<Rightarrow> (u32 \<times> 'p) option"
    and give :: "u32 \<Rightarrow> 'p \<Rightarrow> 'p option"
    and free_blocks :: "'p \<Rightarrow> nat list"
    and addr :: "'p \<Rightarrow> nat \<Rightarrow> u32"
    and n_blocks :: nat
    and pinv :: "'p \<Rightarrow> bool"
  assumes get_some: "pinv p \<Longrightarrow> free_blocks p = b # bs \<Longrightarrow>
      \<exists>p'. get p = Some (addr p b, p') \<and> pinv p' \<and> free_blocks p' = bs \<and> addr p' = addr p"
    and get_none: "pinv p \<Longrightarrow> free_blocks p = [] \<Longrightarrow> get p = Some (0, p)"
    and give_ok: "pinv p \<Longrightarrow> b < n_blocks \<Longrightarrow> length (free_blocks p) < n_blocks \<Longrightarrow>
      \<exists>p'. give (addr p b) p = Some p' \<and> pinv p' \<and> free_blocks p' = b # free_blocks p \<and> addr p' = addr p"
    and blocks_range: "pinv p \<Longrightarrow> set (free_blocks p) \<subseteq> {..<n_blocks}"
    and addr_nonnull: "pinv p \<Longrightarrow> b < n_blocks \<Longrightarrow> addr p b \<noteq> 0"
    and addr_inj: "pinv p \<Longrightarrow> b < n_blocks \<Longrightarrow> c < n_blocks \<Longrightarrow> addr p b = addr p c \<Longrightarrow> b = c"
begin

text \<open>What a client that returns only what it holds can rely on, whatever the order of its
  requests and returns: no call faults, the pointers it holds are distinct blocks of the pool,
  and no block is lost.\<close>

definition client_ok :: "u32 list \<Rightarrow> 'p \<Rightarrow> bool" where
  "client_ok held p \<longleftrightarrow> pinv p \<and> distinct held \<and>
     (\<exists>live. pool_partition (free_blocks p) live n_blocks \<and> set held = addr p ` live)"

lemma addr_inj_on: "pinv p \<Longrightarrow> live \<subseteq> {..<n_blocks} \<Longrightarrow> inj_on (addr p) live"
  by (rule inj_onI) (use addr_inj in blast)

lemma client_request:
  assumes "client_ok held p"
  shows "\<exists>a p'. get p = Some (a, p') \<and> client_ok (if a = 0 then held else a # held) p' \<and> addr p' = addr p"
proof -
  from assms obtain live where p: "pinv p" "distinct held"
    and live: "pool_partition (free_blocks p) live n_blocks" "set held = addr p ` live"
    by (auto simp: client_ok_def)
  show ?thesis
  proof (cases "free_blocks p")
    case Nil
    with p assms show ?thesis by (auto simp: get_none)
  next
    case (Cons b bs)
    from get_some [OF p(1) Cons] obtain p' where g: "get p = Some (addr p b, p')" "pinv p'"
        "free_blocks p' = bs" "addr p' = addr p" by blast
    from live Cons have b: "b < n_blocks" "b \<notin> live" "live \<subseteq> {..<n_blocks}"
      by (auto simp: pool_partition_def)
    have part: "pool_partition bs (insert b live) n_blocks"
      using live(1) Cons by (auto simp: pool_partition_def)
    have "addr p b \<notin> set held"
      using b live(2) addr_inj [OF p(1) b(1)] by auto
    then have "client_ok (addr p b # held) p'"
      using g p(2) part live(2) by (auto simp: client_ok_def intro: exI [of _ "insert b live"])
    then show ?thesis using g addr_nonnull [OF p(1) b(1)] by auto
  qed
qed

lemma client_return:
  assumes "client_ok held p" and "a \<in> set held"
  shows "\<exists>p'. give a p = Some p' \<and> client_ok (remove1 a held) p' \<and> addr p' = addr p"
proof -
  from assms obtain live where p: "pinv p" "distinct held"
    and live: "pool_partition (free_blocks p) live n_blocks" "set held = addr p ` live"
    by (auto simp: client_ok_def)
  from assms(2) live obtain b where b: "a = addr p b" "b \<in> live" by auto
  have sub: "live \<subseteq> {..<n_blocks}" using live(1) by (auto simp: pool_partition_def)
  have "card live \<noteq> 0" using b(2) sub finite_subset [of live] by (auto simp: card_eq_0_iff)
  then have room: "length (free_blocks p) < n_blocks"
    using pool_partition_length [OF live(1)] by linarith
  obtain p' where g: "give a p = Some p'" "pinv p'" "free_blocks p' = b # free_blocks p" "addr p' = addr p"
    using give_ok [OF p(1) _ room, of b] b sub by blast
  have part: "pool_partition (free_blocks p') (live - {b}) n_blocks"
    using live(1) b(2) g(3) by (auto simp: pool_partition_def)
  have "set (remove1 a held) = addr p ` (live - {b})"
    using p(2) live(2) b inj_on_image_set_diff [OF addr_inj_on [OF p(1) sub], of live "{b}"]
    by auto
  then show ?thesis using g part p(2) by (auto simp: client_ok_def)
qed

lemma client_run:
  "client_ok held p \<Longrightarrow>
   \<exists>held' p'. pool_run get give cs held p = Some (held', p') \<and> client_ok held' p' \<and> addr p' = addr p"
proof (induction cs arbitrary: held p)
  case Nil
  then show ?case by simp
next
  case (Cons c cs)
  show ?case
  proof (cases c)
    case Request
    from client_request [OF Cons.prems] obtain a p' where "get p = Some (a, p')"
        "client_ok (if a = 0 then held else a # held) p'" "addr p' = addr p" by blast
    with Cons.IH [of "if a = 0 then held else a # held" p'] Request show ?thesis by auto
  next
    case (Return i)
    show ?thesis
    proof (cases "i < length held")
      case True
      then obtain p' where "give (held ! i) p = Some p'" "client_ok (remove1 (held ! i) held) p'" "addr p' = addr p"
        using client_return [OF Cons.prems, of "held ! i"] by auto
      with Cons.IH [of "remove1 (held ! i) held" p'] Return True show ?thesis by auto
    next
      case False
      with Return Cons show ?thesis by simp
    qed
  qed
qed

lemma client_perm: "client_ok held p \<Longrightarrow> distinct held' \<Longrightarrow> set held' = set held \<Longrightarrow> client_ok held' p"
  by (simp add: client_ok_def)

lemma client_counts:
  assumes "client_ok held p"
  shows "length held + length (free_blocks p) = n_blocks"
proof -
  from assms obtain live where p: "pinv p" "distinct held"
    and live: "pool_partition (free_blocks p) live n_blocks" "set held = addr p ` live"
    by (auto simp: client_ok_def)
  have "live \<subseteq> {..<n_blocks}" using live(1) by (auto simp: pool_partition_def)
  then have "card (set held) = card live"
    using live(2) addr_inj_on [OF p(1)] by (simp add: card_image)
  then show ?thesis using p(2) pool_partition_length [OF live(1)] by (simp add: distinct_card)
qed

lemma client_held_blocks:
  assumes "client_ok held p" and "a \<in> set held"
  shows "\<exists>b < n_blocks. a = addr p b"
proof -
  from assms obtain live b where "pool_partition (free_blocks p) live n_blocks" "b \<in> live" "a = addr p b"
    by (auto simp: client_ok_def)
  then show ?thesis by (auto simp: pool_partition_def intro!: exI [of _ b])
qed

end

subsection \<open>A store of growing byte files\<close>

text \<open>
  What the root directory and the file operations of TinyFS need from the cluster layer. A file
  is named by its first cluster, \<open>view s h\<close> is its content; a write at or behind the end makes the
  file longer, up to \<open>room s h\<close> bytes, by bytes whose value nobody promises; behind that, on a disk
  of \<open>full_size\<close>, it answers \<open>disk_full\<close>. Writing a file leaves
  every file \<open>apart\<close> from it alone, and never changes the \<open>geometry\<close> of the store.
\<close>

definition store_frame :: "('s \<Rightarrow> u32 \<Rightarrow> u8 list option) \<Rightarrow> ('s \<Rightarrow> u32 \<Rightarrow> u32 \<Rightarrow> bool) \<Rightarrow> ('s \<Rightarrow> 'g) \<Rightarrow>
    's \<Rightarrow> u32 \<Rightarrow> 's \<Rightarrow> bool" where
  "store_frame view apart geometry s h s' \<longleftrightarrow> geometry s' = geometry s \<and>
     (\<forall>a. apart s h a \<longrightarrow> view s' a = view s a \<and> apart s' h a) \<and>
     (\<forall>a b. apart s h a \<longrightarrow> apart s h b \<longrightarrow> apart s' a b = apart s a b)"

lemma splice_step:
  assumes "length p = m"
  shows "take m (p @ drop m bs @ ext) @ v # drop (Suc m) (p @ drop m bs @ ext) @ ext' =
    p @ v # drop (Suc m) bs @ (if m < length bs then ext else drop 1 ext) @ ext'"
proof -
  have "drop (Suc m) (p @ drop m bs @ ext) = drop 1 (drop m bs @ ext)"
    using assms by simp
  moreover have "drop 1 (drop m bs @ ext) = drop (Suc m) bs @ (if m < length bs then ext else drop 1 ext)"
    by (cases "m < length bs") auto
  ultimately show ?thesis using assms by simp
qed

locale chain_store =
  fixes rd8 :: "'s \<Rightarrow> u32 \<Rightarrow> u32 \<Rightarrow> (int \<times> u8 option) option"
    and wr8 :: "'s \<Rightarrow> u32 \<Rightarrow> u32 \<Rightarrow> u8 \<Rightarrow> (int \<times> 's) option"
    and view :: "'s \<Rightarrow> u32 \<Rightarrow> u8 list option"
    and room :: "'s \<Rightarrow> u32 \<Rightarrow> nat"
    and apart :: "'s \<Rightarrow> u32 \<Rightarrow> u32 \<Rightarrow> bool"
    and geometry :: "'s \<Rightarrow> 'g"
    and full_size :: "'s \<Rightarrow> bool"
    and disk_full :: int
  assumes read_in: "view s h = Some bs \<Longrightarrow> unat k < length bs \<Longrightarrow> rd8 s h k = Some (0, Some (bs ! unat k))"
    and read_out: "view s h = Some bs \<Longrightarrow> length bs \<le> unat k \<Longrightarrow> rd8 s h k = Some (-1, None)"
    and write_in: "view s h = Some bs \<Longrightarrow> unat k < room s h \<Longrightarrow>
      \<exists>s' ext. wr8 s h k v = Some (0, s') \<and> view s' h = Some ((bs @ ext)[unat k := v]) \<and>
        unat k < length (bs @ ext) \<and> (unat k < length bs \<longrightarrow> ext = []) \<and> room s' h = room s h \<and>
        store_frame view apart geometry s h s'"
    and length_le_room: "view s h = Some bs \<Longrightarrow> length bs \<le> room s h"
    and room_bound: "view s h = Some bs \<Longrightarrow> room s h < 4294967296"
    and write_full: "view s h = Some bs \<Longrightarrow> full_size s \<Longrightarrow> room s h \<le> unat k \<Longrightarrow>
      \<exists>s' ext. wr8 s h k v = Some (disk_full, s') \<and> view s' h = Some (bs @ ext) \<and>
        room s' h = room s h \<and> store_frame view apart geometry s h s'"
    and full_frame: "geometry s' = geometry s \<Longrightarrow> full_size s' = full_size s"
    and full_error: "disk_full \<noteq> 0"
begin

abbreviation frame :: "'s \<Rightarrow> u32 \<Rightarrow> 's \<Rightarrow> bool" where
  "frame \<equiv> store_frame view apart geometry"

lemma frame_refl: "frame s h s"
  by (simp add: store_frame_def)

lemma frame_trans: "frame s h s1 \<Longrightarrow> frame s1 h s2 \<Longrightarrow> frame s h s2"
  by (simp add: store_frame_def)

lemma view_bound: "view s h = Some bs \<Longrightarrow> length bs < 4294967296"
  using length_le_room room_bound le_less_trans by blast

lemma offset_plus:
  assumes "unat k + n < 4294967296"
  shows "unat (k + of_nat n :: u32) = unat k + n"
proof -
  have "unat (of_nat n :: u32) = n" using assms by (intro unat_of_nat_u32) simp
  then show ?thesis using assms by (subst unat_add_lt) simp_all
qed

lemma read_run:
  assumes "view s h = Some bs" and "unat k + n \<le> length bs" and "n \<le> length buf"
  shows "for_loop 0 n
      (\<lambda>i (ret, buf). do {
         (r, v) \<leftarrow> rd8 s h (k + of_nat i);
         buf' \<leftarrow> (case v of None \<Rightarrow> Some buf | Some b \<Rightarrow> wr buf i b);
         Some (ret OR r, buf')
       }) (0, buf) = Some (0, take n (drop (unat k) bs) @ drop n buf)" (is "for_loop 0 n ?body _ = _")
proof -
  let ?I = "\<lambda>i (ret, b). ret = (0 :: int) \<and> b = take i (drop (unat k) bs) @ drop i buf"
  have "\<exists>s'. for_loop 0 n ?body (0, buf) = Some s' \<and> ?I n s'"
  proof (rule for_loop_rule)
    fix i st assume I: "?I i st" and i: "i < n"
    obtain b where st: "st = (0, b)" and b: "b = take i (drop (unat k) bs) @ drop i buf"
      using I by (cases st) auto
    have u: "unat (k + of_nat i) = unat k + i"
      using assms(2) i view_bound [OF assms(1)] by (intro offset_plus) simp
    then have r: "rd8 s h (k + of_nat i) = Some (0, Some (bs ! (unat k + i)))"
      using assms(2) i by (simp add: read_in [OF assms(1)])
    have "i < length b" and "length (take i (drop (unat k) bs)) = i"
      using b assms(2,3) i by auto
    moreover have "drop i buf = buf ! i # drop (Suc i) buf"
      using assms(3) i by (simp add: Cons_nth_drop_Suc)
    moreover have "take (Suc i) (drop (unat k) bs) = take i (drop (unat k) bs) @ [bs ! (unat k + i)]"
      using assms(2) i by (simp add: take_Suc_conv_app_nth)
    ultimately show "\<exists>t'. ?body i st = Some t' \<and> ?I (Suc i) t'"
      using b by (simp add: st r wr_in list_update_append)
  qed auto
  then show ?thesis by auto
qed

text \<open>A write, as a splice of the content.\<close>

lemma write_splice:
  assumes "view s h = Some bs" and "unat k \<le> length bs" and "unat k < room s h"
  shows "\<exists>s' ext. wr8 s h k v = Some (0, s') \<and>
    view s' h = Some (take (unat k) bs @ v # drop (Suc (unat k)) bs @ ext) \<and>
    (unat k < length bs \<longrightarrow> ext = []) \<and> room s' h = room s h \<and> frame s h s'"
proof -
  obtain s' ext where w: "wr8 s h k v = Some (0, s')" "view s' h = Some ((bs @ ext)[unat k := v])"
      "unat k < length (bs @ ext)" "unat k < length bs \<longrightarrow> ext = []" "room s' h = room s h" "frame s h s'"
    using write_in [OF assms(1,3)] by blast
  have "(bs @ ext)[unat k := v] = take (unat k) bs @ v # drop (Suc (unat k)) bs @
      (if unat k < length bs then [] else tl ext)"
  proof (cases "unat k < length bs")
    case True
    then show ?thesis using w(4) by (simp add: upd_conv_take_nth_drop)
  next
    case False
    with assms(2) w(3) have "unat k = length bs" and "ext \<noteq> []" by auto
    then show ?thesis by (cases ext) (auto simp: list_update_append)
  qed
  with w show ?thesis by (intro exI conjI) (assumption | simp)+
qed

lemma write_run:
  assumes "view s h = Some bs" and "unat k \<le> length bs" and "unat k + n \<le> room s h" and "n \<le> length buf"
  shows "\<exists>s' ext. for_loop 0 n
      (\<lambda>i (ret, t). do {
         b \<leftarrow> rd buf i;
         (r, t') \<leftarrow> wr8 t h (k + of_nat i) b;
         Some (ret OR r, t')
       }) (0, s) = Some (0, s') \<and>
     view s' h = Some (take (unat k) bs @ take n buf @ drop (unat k + n) bs @ ext) \<and>
     (unat k + n \<le> length bs \<longrightarrow> ext = []) \<and> room s' h = room s h \<and> frame s h s'"
    (is "\<exists>s' ext. for_loop 0 n ?body _ = _ \<and> _")
proof -
  let ?I = "\<lambda>i (ret, t). ret = (0 :: int) \<and> (\<exists>ext.
     view t h = Some (take (unat k) bs @ take i buf @ drop (unat k + i) bs @ ext) \<and>
     (unat k + i \<le> length bs \<longrightarrow> ext = []) \<and> room t h = room s h \<and> frame s h t)"
  have "\<exists>s'. for_loop 0 n ?body (0, s) = Some s' \<and> ?I n s'"
  proof (rule for_loop_rule)
    fix i st assume I: "?I i st" and i: "i < n"
    obtain t ext where st: "st = (0, t)"
      and t: "view t h = Some (take (unat k) bs @ take i buf @ drop (unat k + i) bs @ ext)" (is "_ = Some ?vs")
        "unat k + i \<le> length bs \<longrightarrow> ext = []" "room t h = room s h" "frame s h t"
      using I by (cases st) auto
    have u: "unat (k + of_nat i) = unat k + i"
      using assms(3) i room_bound [OF assms(1)] by (intro offset_plus) simp
    have l: "length (take (unat k) bs @ take i buf) = unat k + i" using assms(2,4) i by simp
    have "unat (k + of_nat i) \<le> length ?vs" "unat (k + of_nat i) < room t h"
      using l u t(3) assms(3) i by simp_all
    from write_splice [OF t(1) this, of "buf ! i"] obtain t' ext' where
      w: "wr8 t h (k + of_nat i) (buf ! i) = Some (0, t')"
        "view t' h = Some (take (unat k + i) ?vs @ buf ! i # drop (Suc (unat k + i)) ?vs @ ext')"
        "unat k + i < length ?vs \<longrightarrow> ext' = []" "room t' h = room t h" "frame t h t'"
      by (auto simp: u)
    have tb: "take (Suc i) buf = take i buf @ [buf ! i]"
      using assms(4) i by (simp add: take_Suc_conv_app_nth)
    let ?e = "(if unat k + i < length bs then ext else drop 1 ext) @ ext'"
    have v: "view t' h = Some (take (unat k) bs @ take (Suc i) buf @ drop (unat k + Suc i) bs @ ?e)"
      using w(2) splice_step [OF l, of bs ext "buf ! i" ext'] by (simp add: tb)
    have e: "unat k + Suc i \<le> length bs \<longrightarrow> ?e = []"
      using t(2) w(3) l by auto
    have "room t' h = room s h" "frame s h t'"
      using w(4,5) t(3,4) frame_trans by auto
    with v e have "\<exists>e. view t' h = Some (take (unat k) bs @ take (Suc i) buf @ drop (unat k + Suc i) bs @ e) \<and>
        (unat k + Suc i \<le> length bs \<longrightarrow> e = []) \<and> room t' h = room s h \<and> frame s h t'" by blast
    then have "?I (Suc i) (0, t')" by simp
    moreover have "?body i st = Some (0, t')"
      using w(1) assms(4) i by (simp add: st rd_in)
    ultimately show "\<exists>t'. ?body i st = Some t' \<and> ?I (Suc i) t'" by blast
  qed (use assms(1) frame_refl in \<open>auto intro!: exI [of _ "[]"]\<close>)
  then show ?thesis by auto
qed

text \<open>A write of a range that may or may not fit: what lies before the range is kept, and the
  result says whether it fitted. The state after \<open>i\<close> bytes:\<close>

definition written :: "'s \<Rightarrow> u32 \<Rightarrow> u32 \<Rightarrow> u8 list \<Rightarrow> u8 list \<Rightarrow> nat \<Rightarrow> int \<times> 's \<Rightarrow> bool" where
  "written s h k buf bs i st \<longleftrightarrow> fst st = (if unat k + i \<le> room s h then 0 else disk_full) \<and> (\<exists>vs.
     view (snd st) h = Some vs \<and> take (unat k) vs = take (unat k) bs \<and> length bs \<le> length vs \<and>
     (unat k + i \<le> room s h \<longrightarrow> take (unat k + i) vs = take (unat k) bs @ take i buf \<and> unat k + i \<le> length vs) \<and>
     room (snd st) h = room s h \<and> frame s h (snd st))"

lemma written_fits:
  assumes "written s h k buf bs i (ret, t)" and "unat k + i < room s h" and "i < length buf" and u: "unat (k + of_nat i) = unat k + i"
  shows "ret = 0 \<and> (\<exists>t'. wr8 t h (k + of_nat i) (buf ! i) = Some (0, t') \<and> written s h k buf bs (Suc i) (0, t'))"
proof -
  obtain vs where ret: "ret = 0" and t: "view t h = Some vs" "take (unat k) vs = take (unat k) bs" "length bs \<le> length vs"
      "take (unat k + i) vs = take (unat k) bs @ take i buf" "unat k + i \<le> length vs" "room t h = room s h" "frame s h t"
    using assms(1,2) by (auto simp: written_def)
  have "unat (k + of_nat i) \<le> length vs" "unat (k + of_nat i) < room t h" using t(5,6) assms(2) by (simp_all add: u)
  from write_splice [OF t(1) this, of "buf ! i"] obtain t' ext where
    w: "wr8 t h (k + of_nat i) (buf ! i) = Some (0, t')"
      "view t' h = Some (take (unat k + i) vs @ buf ! i # drop (Suc (unat k + i)) vs @ ext)"
      "room t' h = room t h" "frame t h t'"
    by (auto simp: u)
  let ?ws = "take (unat k + i) vs @ buf ! i # drop (Suc (unat k + i)) vs @ ext"
  have l: "length (take (unat k + i) vs) = unat k + i" using t(5) by simp
  have "take (unat k) ?ws = take (unat k) (take (unat k + i) vs)" using l by simp
  also have "\<dots> = take (unat k) bs" using t(2) by (simp add: min_def)
  finally have a: "take (unat k) ?ws = take (unat k) bs" .
  have c: "take (unat k + Suc i) ?ws = take (unat k) bs @ take (Suc i) buf"
    using l t(4) assms(3) by (simp add: take_Suc_conv_app_nth)
  have d: "length vs \<le> length ?ws" "unat k + Suc i \<le> length ?ws" using l by simp_all
  have "frame s h t'" using t(7) w(4) by (rule frame_trans)
  moreover have "room t' h = room s h" using w(3) t(6) by simp
  ultimately have "written s h k buf bs (Suc i) (0, t')"
    unfolding written_def fst_conv snd_conv using assms(2) w(2) a c d(2) order_trans [OF t(3) d(1)]
    by (intro conjI exI [of _ ?ws]) simp_all
  then show ?thesis using ret w(1) by blast
qed

lemma written_full:
  assumes "written s h k buf bs i (ret, t)" and "room s h \<le> unat k + i" and "full_size s" and "unat k \<le> length bs"
    and u: "unat (k + of_nat i) = unat k + i"
  shows "\<exists>t'. wr8 t h (k + of_nat i) (buf ! i) = Some (disk_full, t') \<and> written s h k buf bs (Suc i) (disk_full, t') \<and>
    ret OR disk_full = disk_full"
proof -
  obtain vs where ret: "ret = 0 \<or> ret = disk_full" and t: "view t h = Some vs" "take (unat k) vs = take (unat k) bs" "length bs \<le> length vs"
      "room t h = room s h" "frame s h t"
    using assms(1) by (auto simp: written_def)
  have "geometry t = geometry s" using t(5) by (simp add: store_frame_def)
  from full_frame [OF this] assms(3) have "full_size t" by simp
  moreover have "room t h \<le> unat (k + of_nat i)" using assms(2) t(4) u by simp
  ultimately obtain t' ext where
    w: "wr8 t h (k + of_nat i) (buf ! i) = Some (disk_full, t')" "view t' h = Some (vs @ ext)"
      "room t' h = room t h" "frame t h t'"
    using write_full [OF t(1)] by blast
  have "unat k \<le> length vs" using assms(4) t(3) by simp
  then have "take (unat k) (vs @ ext) = take (unat k) bs" using t(2) by simp
  moreover have "frame s h t'" using t(5) w(4) by (rule frame_trans)
  ultimately have "written s h k buf bs (Suc i) (disk_full, t')"
    unfolding written_def fst_conv snd_conv using assms(2) w(2,3) t(3,4) by (intro conjI exI [of _ "vs @ ext"]) simp_all
  then show ?thesis using w(1) ret by auto
qed

lemma write_any:
  assumes v: "view s h = Some bs" and k: "unat k \<le> length bs" and n: "n \<le> length buf"
    and b: "unat k + n < 4294967296" and full: "full_size s"
  shows "\<exists>s' bs'. for_loop 0 n
      (\<lambda>i (ret, t). do {
         b \<leftarrow> rd buf i;
         (r, t') \<leftarrow> wr8 t h (k + of_nat i) b;
         Some (ret OR r, t')
       }) (0, s) = Some (if unat k + n \<le> room s h then 0 else disk_full, s') \<and>
     view s' h = Some bs' \<and> take (unat k) bs' = take (unat k) bs \<and> length bs \<le> length bs' \<and>
     (unat k + n \<le> room s h \<longrightarrow> take (unat k + n) bs' = take (unat k) bs @ take n buf) \<and>
     room s' h = room s h \<and> frame s h s'"
    (is "\<exists>s' bs'. for_loop 0 n ?body _ = _ \<and> _")
proof -
  have "\<exists>st. for_loop 0 n ?body (0, s) = Some st \<and> written s h k buf bs n st"
  proof (rule for_loop_rule [where I = "written s h k buf bs"])
    fix i st assume I: "written s h k buf bs i st" and i: "i < n"
    obtain ret t where st: "st = (ret, t)" by force
    have u: "unat (k + of_nat i) = unat k + i" using b i by (intro offset_plus) simp
    have il: "i < length buf" using n i by simp
    show "\<exists>st'. ?body i st = Some st' \<and> written s h k buf bs (Suc i) st'"
    proof (cases "unat k + i < room s h")
      case True
      then show ?thesis using written_fits [OF I [unfolded st] True il u] il by (auto simp: st rd_in)
    next
      case False
      then show ?thesis using written_full [OF I [unfolded st] _ full k u] il by (auto simp: st rd_in)
    qed
  qed (use assms length_le_room [OF v] frame_refl in \<open>auto simp: written_def\<close>)
  then obtain st where st: "for_loop 0 n ?body (0, s) = Some st" "written s h k buf bs n st" by blast
  show ?thesis using st by (cases st) (auto simp: written_def)
qed

end

subsection \<open>A table of files\<close>

text \<open>
  What a user of the file operations relies on: the directory is a list of slots, each free or a name
  with its content, and a command changes one slot or, when the disk is full, none.
\<close>

type_synonym directory = "(u8 list \<times> u8 list) option list"

text \<open>The slot of a name: the first whose name is the name's first 13 characters; -1 when none is.\<close>

definition named :: "u8 list \<Rightarrow> (u8 list \<times> u8 list) option \<Rightarrow> bool" where
  "named n x = (case x of None \<Rightarrow> False | Some (m, _) \<Rightarrow> take 13 n = m)"

definition slot_of :: "u8 list \<Rightarrow> (u8 list \<times> u8 list) option list \<Rightarrow> int" where
  "slot_of n d = first_index (named n) d"

definition free_slot :: "(u8 list \<times> u8 list) option list \<Rightarrow> int" where
  "free_slot d = first_index (\<lambda>x. x = None) d"

datatype dir_cmd =
    Create "u8 list"
  | Append "u8 list" "u8 list" u32
  | Remove "u8 list"

text \<open>What the caller has to see to: C strings with their terminator, a name that is not empty, a slot
  for a new file, the buffer as long as it says, and contents that a 16-bit size can count.\<close>

fun dir_allowed :: "directory \<Rightarrow> dir_cmd \<Rightarrow> bool" where
  "dir_allowed d (Create f) = (terminated f \<and> c_str f \<noteq> [] \<and> None \<in> set d)"
| "dir_allowed d (Append f b n) = (terminated f \<and> unat n \<le> length b \<and>
     (\<forall>x \<in> set d. case x of None \<Rightarrow> True | Some (m, c) \<Rightarrow> length c + unat n < 65536))"
| "dir_allowed d (Remove f) = terminated f"

inductive dir_step :: "int \<Rightarrow> directory \<Rightarrow> dir_cmd \<Rightarrow> int \<Rightarrow> directory \<Rightarrow> bool" for full where
  created: "free_slot d = int i \<Longrightarrow> dir_step full d (Create f) (int i) (d[i := Some (take 12 (c_str f), [])])"
| create_full: "dir_step full d (Create f) full d"
| appended: "slot_of (c_str f) d = int i \<Longrightarrow> d ! i = Some (m, c) \<Longrightarrow>
    dir_step full d (Append f b n) 0 (d[i := Some (m, c @ take (unat n) b)])"
| append_full: "slot_of (c_str f) d = int i \<Longrightarrow> dir_step full d (Append f b n) full d"
| append_absent: "slot_of (c_str f) d = -1 \<Longrightarrow> dir_step full d (Append f b n) (-1) d"
| removed: "slot_of (c_str f) d = int i \<Longrightarrow> dir_step full d (Remove f) 0 (d[i := None])"
| remove_absent: "slot_of (c_str f) d = -1 \<Longrightarrow> dir_step full d (Remove f) (-1) d"

inductive dir_steps :: "int \<Rightarrow> directory \<Rightarrow> dir_cmd list \<Rightarrow> int list \<Rightarrow> directory \<Rightarrow> bool" for full where
  steps_Nil: "dir_steps full d [] [] d"
| steps_Cons: "dir_step full d c r d1 \<Longrightarrow> dir_steps full d1 cs rs d2 \<Longrightarrow> dir_steps full d (c # cs) (r # rs) d2"

inductive_cases dir_step_CreateE: "dir_step full d (Create f) r d'"
inductive_cases dir_step_AppendE: "dir_step full d (Append f b n) r d'"
inductive_cases dir_step_RemoveE: "dir_step full d (Remove f) r d'"
inductive_simps dir_steps_Nil [simp]: "dir_steps full d [] rs d'"
inductive_simps dir_steps_Cons: "dir_steps full d (c # cs) rs d'"

text \<open>A script is ready when each of its commands is allowed, however the ones before it end.\<close>

primrec dir_ready :: "int \<Rightarrow> directory \<Rightarrow> dir_cmd list \<Rightarrow> bool" where
  "dir_ready full d [] = True"
| "dir_ready full d (c # cs) =
     (dir_allowed d c \<and> (\<forall>r d'. dir_step full d c r d' \<longrightarrow> dir_ready full d' cs))"

primrec dir_run :: "(dir_cmd \<Rightarrow> 's \<Rightarrow> (int \<times> 's) option) \<Rightarrow> dir_cmd list \<Rightarrow> 's \<Rightarrow> (int list \<times> 's) option" where
  "dir_run exec [] s = Some ([], s)"
| "dir_run exec (c # cs) s = do {
     (r, s1) \<leftarrow> exec c s;
     (rs, s2) \<leftarrow> dir_run exec cs s1;
     Some (r # rs, s2)
   }"

lemma slot_cases:
  obtains "slot_of n d = -1" | i m c where "slot_of n d = int i" "i < length d" "d ! i = Some (m, c)"
  unfolding slot_of_def
  by (cases rule: first_index_cases [of "named n" d]) (auto simp: named_def split: option.splits)

locale file_table =
  fixes openf :: "'s \<Rightarrow> u8 list option \<Rightarrow> int option"
    and createf :: "'s \<Rightarrow> u8 list option \<Rightarrow> (int \<times> 's) option"
    and deletef :: "'s \<Rightarrow> u8 list option \<Rightarrow> (int \<times> 's) option"
    and writef :: "'s \<Rightarrow> int \<Rightarrow> u8 list \<Rightarrow> u32 \<Rightarrow> (int \<times> 's) option"
    and files :: "'s \<Rightarrow> directory"
    and inv :: "'s \<Rightarrow> bool"
    and disk_full :: int
  assumes open_law: "inv s \<Longrightarrow> terminated f \<Longrightarrow> openf s (Some f) = Some (slot_of (c_str f) (files s))"
    and create_law: "inv s \<Longrightarrow> terminated f \<Longrightarrow> c_str f \<noteq> [] \<Longrightarrow> None \<in> set (files s) \<Longrightarrow>
      \<exists>r s'. createf s (Some f) = Some (r, s') \<and> inv s' \<and>
        (r = free_slot (files s) \<and> 0 \<le> r \<and> files s' = (files s)[nat r := Some (take 12 (c_str f), [])] \<or>
         r = disk_full \<and> files s' = files s)"
    and write_law: "inv s \<Longrightarrow> i < length (files s) \<Longrightarrow> files s ! i = Some (m, c) \<Longrightarrow>
      length c + unat n < 65536 \<Longrightarrow> unat n \<le> length b \<Longrightarrow>
      \<exists>r s'. writef s (int i) b n = Some (r, s') \<and> inv s' \<and>
        (r = 0 \<and> files s' = (files s)[i := Some (m, c @ take (unat n) b)] \<or>
         r = disk_full \<and> files s' = files s)"
    and delete_law: "inv s \<Longrightarrow> terminated f \<Longrightarrow> slot_of (c_str f) (files s) = int i \<Longrightarrow>
      \<exists>s'. deletef s (Some f) = Some (0, s') \<and> inv s' \<and> files s' = (files s)[i := None]"
    and delete_absent: "inv s \<Longrightarrow> terminated f \<Longrightarrow> slot_of (c_str f) (files s) = -1 \<Longrightarrow>
      deletef s (Some f) = Some (-1, s)"
begin

fun exec :: "dir_cmd \<Rightarrow> 's \<Rightarrow> (int \<times> 's) option" where
  "exec (Create f) s = createf s (Some f)"
| "exec (Append f b n) s = do { h \<leftarrow> openf s (Some f); if h < 0 then Some (h, s) else writef s h b n }"
| "exec (Remove f) s = deletef s (Some f)"

lemma exec_step:
  assumes "inv s" and "dir_allowed (files s) c"
  shows "\<exists>r s'. exec c s = Some (r, s') \<and> inv s' \<and> dir_step disk_full (files s) c r (files s')"
proof (cases c)
  case (Create f)
  then show ?thesis
    using create_law [OF assms(1), of f] assms(2) created [of "files s" "nat (free_slot (files s))" disk_full f]
      create_full [of disk_full "files s" f] by fastforce
next
  case [simp]: (Append f b n)
  have t: "terminated f" using assms(2) by simp
  show ?thesis
  proof (cases rule: slot_cases [of "c_str f" "files s"])
    case 1
    then show ?thesis using assms(1) t append_absent [OF 1] by (simp add: open_law)
  next
    case (2 i m x)
    then have "length x + unat n < 65536" "unat n \<le> length b" using assms(2) nth_mem [OF 2(2)] by auto
    from write_law [OF assms(1) 2(2,3) this] show ?thesis
      using 2 assms(1) t appended [OF 2(1,3)] append_full [OF 2(1)] by (auto simp: open_law)
  qed
next
  case [simp]: (Remove f)
  have t: "terminated f" using assms(2) by simp
  show ?thesis
  proof (cases rule: slot_cases [of "c_str f" "files s"])
    case 1
    then show ?thesis using assms(1) t remove_absent [OF 1] by (simp add: delete_absent)
  next
    case (2 i m x)
    then show ?thesis using delete_law [OF assms(1) t 2(1)] removed [OF 2(1)] by auto
  qed
qed

theorem run_refines:
  assumes "inv s" and "dir_ready disk_full (files s) cs"
  shows "\<exists>rs s'. dir_run exec cs s = Some (rs, s') \<and> inv s' \<and> dir_steps disk_full (files s) cs rs (files s')"
  using assms
proof (induction cs arbitrary: s)
  case (Cons c cs)
  then obtain r s1 where s1: "exec c s = Some (r, s1)" "inv s1" "dir_step disk_full (files s) c r (files s1)"
    using exec_step [of s c] by auto
  with Cons.prems have "dir_ready disk_full (files s1) cs" by simp
  from Cons.IH [OF s1(2) this] s1 show ?case by (auto intro: steps_Cons)
qed (simp add: steps_Nil)

end

subsection \<open>Simulation of a specification with output\<close>

text \<open>Inputs one after the other, on an implementation that can fail and on a specification: a step relation
  from a state and an input to an output and a state.\<close>

fun run_all :: "('i \<Rightarrow> 'c \<Rightarrow> 'c option) \<Rightarrow> 'i list \<Rightarrow> 'c \<Rightarrow> 'c option" where
  "run_all run [] c = Some c"
| "run_all run (i # is) c = do { c' \<leftarrow> run i c; run_all run is c' }"

inductive spec_run :: "('i \<Rightarrow> 'a \<Rightarrow> 'o list \<Rightarrow> 'a \<Rightarrow> bool) \<Rightarrow> 'i list \<Rightarrow> 'a \<Rightarrow> 'o list \<Rightarrow> 'a \<Rightarrow> bool" for spec where
  stop: "spec_run spec [] a [] a"
| step: "spec i a out a1 \<Longrightarrow> spec_run spec is a1 outs a2 \<Longrightarrow> spec_run spec (i # is) a (out @ outs) a2"

locale simulation =
  fixes run :: "'i \<Rightarrow> 'c \<Rightarrow> 'c option"
    and spec :: "'i \<Rightarrow> 'a \<Rightarrow> 'o list \<Rightarrow> 'a \<Rightarrow> bool"
    and emits :: "'o list \<Rightarrow> 'c \<Rightarrow> 'c \<Rightarrow> bool"
    and sim :: "'a \<Rightarrow> 'c \<Rightarrow> bool"
  assumes one: "sim a c \<Longrightarrow> spec i a out a' \<Longrightarrow> \<exists>c'. run i c = Some c' \<and> emits out c c' \<and> sim a' c'"
    and quiet: "sim a c \<Longrightarrow> emits [] c c"
    and both: "emits out c c1 \<Longrightarrow> emits outs c1 c2 \<Longrightarrow> emits (out @ outs) c c2"
begin

lemma all:
  assumes "spec_run spec is a out a'" and "sim a c"
  shows "\<exists>c'. run_all run is c = Some c' \<and> emits out c c' \<and> sim a' c'"
  using assms
proof (induction arbitrary: c rule: spec_run.induct)
  case (stop a)
  then show ?case using quiet by auto
next
  case (step i a out a1 "is" outs a2)
  obtain c1 where c1: "run i c = Some c1" "emits out c c1" "sim a1 c1" using one [OF step.prems step.hyps(1)] by blast
  obtain c2 where "run_all run is c1 = Some c2" "emits outs c1 c2" "sim a2 c2" using step.IH [OF c1(3)] by blast
  then show ?case using c1(1) both [OF c1(2)] by auto
qed

end

end
