(* ===== verification/Stack.thy ===== *)
theory Stack
  imports Interfaces
begin

section \<open>The byte stack (memory/stack.c)\<close>

text \<open>
  \<^verbatim>\<open>stack_handle_t\<close> with its three operations and the kernel's start-up self test. The
  buffer is the memory at \<^verbatim>\<open>buffer_start\<close>, and \<^verbatim>\<open>stack_pointer\<close> is kept as its distance
  from there. \<^verbatim>\<open>NULL\<close> handles, buffers and result pointers are \<open>None\<close>.
\<close>

record stack_handle =
  sh_buffer_size :: int
  sh_buffer :: "u8 list"
  sh_stack_pointer :: nat

definition stack_init :: "stack_handle option \<Rightarrow> u8 list option \<Rightarrow> u32 \<Rightarrow> bool \<times> stack_handle option" where
  "stack_init handle buffer buffer_size =
     (case handle of
        None \<Rightarrow> (False, handle)
      | Some h \<Rightarrow>
          (case buffer of
             None \<Rightarrow> (False, handle)
           | Some b \<Rightarrow>
               if buffer_size = 0 then (False, handle)
               else (True, Some \<lparr>sh_buffer_size = sint buffer_size, sh_buffer = b, sh_stack_pointer = 0\<rparr>)))"

definition stack_push :: "stack_handle option \<Rightarrow> u8 \<Rightarrow> (bool \<times> stack_handle option) option" where
  "stack_push handle value =
     (case handle of
        None \<Rightarrow> Some (False, None)
      | Some h \<Rightarrow>
          if int (sh_stack_pointer h) > sh_buffer_size h - 1 then Some (False, handle)
          else do {
            b \<leftarrow> wr (sh_buffer h) (sh_stack_pointer h) value;
            Some (True, Some (h\<lparr>sh_buffer := b, sh_stack_pointer := sh_stack_pointer h + 1\<rparr>))
          })"

definition stack_pop ::
  "stack_handle option \<Rightarrow> u8 option \<Rightarrow> (bool \<times> u8 option \<times> stack_handle option) option" where
  "stack_pop handle value =
     (case handle of
        None \<Rightarrow> Some (False, value, None)
      | Some h \<Rightarrow>
          (case value of
             None \<Rightarrow> Some (False, None, handle)
           | Some _ \<Rightarrow>
               if sh_stack_pointer h = 0 then Some (False, value, handle)
               else do {
                 let sp = sh_stack_pointer h - 1;
                 v \<leftarrow> rd (sh_buffer h) sp;
                 b \<leftarrow> wr (sh_buffer h) sp 0;
                 Some (True, Some v, Some (h\<lparr>sh_buffer := b, sh_stack_pointer := sp\<rparr>))
               }))"

text \<open>
  The self test. Each step counts a failure. The test of the popped values is
  \<^verbatim>\<open>if (returned_val =! 3)\<close>, which C reads as \<^verbatim>\<open>returned_val = (!3)\<close>: it stores 0
  and its condition is false, so a wrong value is never counted.
\<close>

definition expect :: "bool \<Rightarrow> int \<Rightarrow> int" where
  "expect passed failures = (if passed then failures else failures + 1)"

definition run_unittests_stack :: "stack_handle \<Rightarrow> u8 list \<Rightarrow> int option" where
  "run_unittests_stack handle buffer =
     (case stack_init (Some handle) (Some buffer) (of_nat (length buffer)) of
        (False, _) \<Rightarrow> Some 0
      | (True, s0) \<Rightarrow> do {
          (r1, v1, s1) \<leftarrow> stack_pop s0 (Some 0);
          (r2, s2) \<leftarrow> stack_push s1 1;
          (r3, s3) \<leftarrow> stack_push s2 2;
          (r4, s4) \<leftarrow> stack_push s3 3;
          (r5, s5) \<leftarrow> stack_push s4 4;
          (r6, v6, s6) \<leftarrow> stack_pop s5 v1;
          (r7, v7, s7) \<leftarrow> stack_pop s6 (Some 0);
          (r8, v8, s8) \<leftarrow> stack_pop s7 (Some 0);
          (r9, v9, s9) \<leftarrow> stack_pop s8 (Some 0);
          Some (expect (\<not> r9) (expect r8 (expect r7 (expect r6
               (expect (\<not> r5) (expect r4 (expect r3 (expect r2 (expect (\<not> r1) 0)))))))))
        })"

subsection \<open>The invariant and the interpretation\<close>

text \<open>A usable handle: its size is that of its buffer and the pointer stays inside.\<close>

definition stack_wf :: "stack_handle \<Rightarrow> bool" where
  "stack_wf h \<longleftrightarrow> sh_buffer_size h = int (length (sh_buffer h)) \<and> sh_stack_pointer h \<le> length (sh_buffer h)"

definition stack_ok :: "stack_handle option \<Rightarrow> bool" where
  "stack_ok s \<longleftrightarrow> (\<exists>h. s = Some h \<and> stack_wf h)"

text \<open>What the stack holds, top first.\<close>

definition stack_contents :: "stack_handle option \<Rightarrow> u8 list" where
  "stack_contents s = (case s of None \<Rightarrow> [] | Some h \<Rightarrow> rev (take (sh_stack_pointer h) (sh_buffer h)))"

definition stack_capacity :: "stack_handle option \<Rightarrow> nat" where
  "stack_capacity s = (case s of None \<Rightarrow> 0 | Some h \<Rightarrow> length (sh_buffer h))"

lemma stack_push_cases:
  assumes "stack_wf h"
  shows "stack_push (Some h) v =
    (if sh_stack_pointer h < length (sh_buffer h)
     then Some (True, Some (h\<lparr>sh_buffer := (sh_buffer h)[sh_stack_pointer h := v],
                             sh_stack_pointer := sh_stack_pointer h + 1\<rparr>))
     else Some (False, Some h))"
  using assms by (auto simp: stack_push_def stack_wf_def wr_in)

lemma stack_pop_cases:
  assumes "stack_wf h"
  shows "stack_pop (Some h) (Some old) =
    (if sh_stack_pointer h = 0 then Some (False, Some old, Some h)
     else Some (True, Some (sh_buffer h ! (sh_stack_pointer h - 1)),
            Some (h\<lparr>sh_buffer := (sh_buffer h)[sh_stack_pointer h - 1 := 0],
                    sh_stack_pointer := sh_stack_pointer h - 1\<rparr>)))"
  using assms by (auto simp: stack_pop_def stack_wf_def wr_in rd_in Let_def)

lemma take_top:
  "sp \<noteq> 0 \<Longrightarrow> sp \<le> length b \<Longrightarrow> rev (take sp b) = b ! (sp - 1) # rev (take (sp - 1) b)"
  by (cases sp) (simp_all add: take_Suc_conv_app_nth)

interpretation byte_stack: bounded_stack stack_push stack_pop stack_contents stack_capacity stack_ok
proof unfold_locales
  fix s :: "stack_handle option" and v old :: u8 and vs
  assume ok: "stack_ok s"
  then obtain h where s: "s = Some h" and wf: "stack_wf h" by (auto simp: stack_ok_def)
  show "length (stack_contents s) \<le> stack_capacity s"
    using s by (simp add: stack_contents_def stack_capacity_def)
  have len: "length (stack_contents s) = sh_stack_pointer h" and cap: "stack_capacity s = length (sh_buffer h)"
    using s wf by (simp_all add: stack_contents_def stack_capacity_def stack_wf_def)
  show "\<exists>s'. stack_push s v = Some (True, s') \<and> stack_ok s' \<and>
      stack_contents s' = v # stack_contents s \<and> stack_capacity s' = stack_capacity s"
    if "length (stack_contents s) < stack_capacity s"
    using that wf s len cap
    by (auto simp: stack_push_cases stack_ok_def stack_wf_def stack_contents_def stack_capacity_def
        take_Suc_conv_app_nth)
  show "stack_push s v = Some (False, s)" if "length (stack_contents s) = stack_capacity s"
    using that wf s len cap by (simp add: stack_push_cases)
  show "\<exists>s'. stack_pop s (Some old) = Some (True, Some v, s') \<and> stack_ok s' \<and>
      stack_contents s' = vs \<and> stack_capacity s' = stack_capacity s"
    if c: "stack_contents s = v # vs"
  proof -
    have sp: "sh_stack_pointer h \<noteq> 0" using c len by auto
    then have "sh_buffer h ! (sh_stack_pointer h - 1) = v"
        "rev (take (sh_stack_pointer h - 1) (sh_buffer h)) = vs"
      using c s wf take_top [OF sp, of "sh_buffer h"] by (simp_all add: stack_contents_def stack_wf_def)
    then show ?thesis
      using sp wf s
      by (auto simp: stack_pop_cases stack_ok_def stack_wf_def stack_contents_def stack_capacity_def)
  qed
  show "stack_pop s (Some old) = Some (False, Some old, s)" if "stack_contents s = []"
    using that wf s len by (simp add: stack_pop_cases)
qed

lemma stack_init_ok:
  assumes "buffer \<noteq> []" and "length buffer < 2147483648"
  shows "\<exists>s. stack_init (Some h) (Some buffer) (of_nat (length buffer)) = (True, s) \<and> stack_ok s
    \<and> stack_contents s = [] \<and> stack_capacity s = length buffer"
proof -
  have u: "unat (of_nat (length buffer) :: u32) = length buffer"
    using assms(2) by (simp add: unsigned_of_nat take_bit_nat_def)
  then have "(of_nat (length buffer) :: u32) \<noteq> 0" using assms(1) by (auto dest: arg_cong [where f = unat])
  moreover have "sint (of_nat (length buffer) :: u32) = int (length buffer)"
    using assms(2) u sint_u32_small [of "of_nat (length buffer)"] by simp
  ultimately show ?thesis
    by (simp add: stack_init_def stack_ok_def stack_wf_def stack_contents_def stack_capacity_def)
qed

subsection \<open>Properties\<close>

text \<open>Claim C7. From a usable handle every sequence of pushes and pops runs without touching
  memory outside the buffer and answers exactly as the bounded list does: a push fails just when
  the buffer is full, a pop yields the last value pushed and fails just when nothing is left.\<close>

theorem stack_refines_bounded_list:
  assumes "stack_wf h"
  shows "\<exists>s'. stack_run stack_push stack_pop cmds (Some h) =
      Some (fst (list_run (length (sh_buffer h)) cmds (stack_contents (Some h))), s')
    \<and> stack_ok s'
    \<and> stack_contents s' = snd (list_run (length (sh_buffer h)) cmds (stack_contents (Some h)))"
proof -
  have "stack_ok (Some h)" using assms by (simp add: stack_ok_def)
  from byte_stack.run_refines [OF this, of cmds] show ?thesis
    by (simp add: stack_capacity_def)
qed

theorem stack_refines_bounded_list_witness:
  "\<exists>s'. stack_run stack_push stack_pop [Push 7, Push 9, Push 1, Pop, Pop, Pop]
      (Some \<lparr>sh_buffer_size = 2, sh_buffer = [0, 0], sh_stack_pointer = 0\<rparr>) =
      Some ([(True, None), (True, None), (False, None), (True, Some 9), (True, Some 7), (False, Some 0)], s')"
  using stack_refines_bounded_list
    [of "\<lparr>sh_buffer_size = 2, sh_buffer = [0, 0], sh_stack_pointer = 0\<rparr>"
        "[Push 7, Push 9, Push 1, Pop, Pop, Pop]"]
  by (auto simp: stack_wf_def stack_contents_def)

text \<open>The start-up self test reports no failure, whatever its handle and its three-byte
  buffer hold when it starts.\<close>

theorem run_unittests_stack_passes:
  "run_unittests_stack handle [b0, b1, b2] = Some 0"
  by (simp add: run_unittests_stack_def stack_init_def stack_push_def stack_pop_def expect_def
      wr_def rd_def)

end
