(* ===== verification/Heap_Allocator.thy ===== *)
theory Heap_Allocator
  imports Stack
begin

section \<open>The kernel heap (memory/malloc.c)\<close>

text \<open>
  A pool of three blocks of 128 bytes, each followed by a red zone of 32, whose free blocks are
  the indices in a byte stack. Addresses are \<^verbatim>\<open>u32\<close> values with \<open>NULL\<close> = 0. Where the linker
  puts the static array \<^verbatim>\<open>heap_buffer\<close> is a parameter of the initialiser, and so are the
  bytes that the static \<^verbatim>\<open>stack_buffer\<close> holds when it runs. \<^verbatim>\<open>free_blocks_stack\<close> is the
  handle it points to, \<open>None\<close> before the first initialisation.
\<close>

record heap_bin_contex =
  hb_block_size :: u32
  hb_block_count :: u32
  hb_buffer_size :: u32
  hb_buffer_start :: u32
  hb_free_blocks_stack :: "stack_handle option"

definition BIN_BLOCK_COUNT :: u32 where "BIN_BLOCK_COUNT = 3"
definition BIN_BLOCK_SIZE :: u32 where "BIN_BLOCK_SIZE = 128"
definition BIN_RED_ZONE_SIZE :: u32 where "BIN_RED_ZONE_SIZE = 32"

lemmas bin_consts = BIN_BLOCK_COUNT_def BIN_BLOCK_SIZE_def BIN_RED_ZONE_SIZE_def

text \<open>The handle before its first initialisation: a zeroed static.\<close>

definition zero_handle :: stack_handle where
  "zero_handle = \<lparr>sh_buffer_size = 0, sh_buffer = [], sh_stack_pointer = 0\<rparr>"

definition init_heap_memory_allocator :: "u32 \<Rightarrow> u8 list \<Rightarrow> heap_bin_contex \<Rightarrow> (bool \<times> heap_bin_contex) option" where
  "init_heap_memory_allocator heap_buffer stack_buffer heap_bin =
     (let hb = heap_bin\<lparr>hb_block_count := BIN_BLOCK_COUNT, hb_block_size := BIN_BLOCK_SIZE,
                        hb_buffer_start := heap_buffer,
                        hb_buffer_size := BIN_BLOCK_COUNT * (BIN_BLOCK_SIZE + BIN_RED_ZONE_SIZE)\<rparr>
      in if hb_block_count hb * (hb_block_size hb + BIN_RED_ZONE_SIZE) > hb_buffer_size hb
         then Some (False, hb)
         else
           (case stack_init (Some zero_handle) (Some stack_buffer) BIN_BLOCK_COUNT of
              (False, _) \<Rightarrow> Some (False, hb)
            | (True, s) \<Rightarrow> do {
                (ok, s') \<leftarrow> for_loop 0 (unat BIN_BLOCK_COUNT)
                   (\<lambda>i (ok, t). if ok then stack_push t (of_nat i) else Some (False, t)) (True, s);
                if ok then Some (True, hb\<lparr>hb_free_blocks_stack := s'\<rparr>) else Some (False, hb)
              }))"

definition heap_malloc :: "u32 \<Rightarrow> heap_bin_contex \<Rightarrow> (u32 \<times> heap_bin_contex) option" where
  "heap_malloc sz heap_bin =
     (if sz = 0 then Some (0, heap_bin)
      else if sz > hb_block_size heap_bin then Some (0, heap_bin)
      else do {
        (ok, index, s) \<leftarrow> stack_pop (hb_free_blocks_stack heap_bin) (Some 0);
        let hb = heap_bin\<lparr>hb_free_blocks_stack := s\<rparr>;
        if ok then do {
          i \<leftarrow> index;
          if ucast i \<ge> hb_block_count hb then Some (0, hb)
          else Some (hb_buffer_start hb + ucast i * (hb_block_size hb + BIN_RED_ZONE_SIZE), hb)
        }
        else Some (0, hb)
      })"

definition heap_free :: "u32 \<Rightarrow> heap_bin_contex \<Rightarrow> heap_bin_contex option" where
  "heap_free pointer heap_bin =
     (if pointer = 0 then Some heap_bin
      else do {
        let offset = pointer - hb_buffer_start heap_bin;
        let index = (ucast (offset div (hb_block_size heap_bin + BIN_RED_ZONE_SIZE)) :: u8);
        (ok, s) \<leftarrow> stack_push (hb_free_blocks_stack heap_bin) index;
        Some (heap_bin\<lparr>hb_free_blocks_stack := s\<rparr>)
      })"

subsection \<open>The invariant\<close>

text \<open>The array lies in the address space and not at address 0.\<close>

definition heap_placed :: "u32 \<Rightarrow> bool" where
  "heap_placed base \<longleftrightarrow> base \<noteq> 0 \<and> unat base + 480 \<le> 2 ^ 32"

definition heap_ok :: "heap_bin_contex \<Rightarrow> bool" where
  "heap_ok hb \<longleftrightarrow> hb_block_size hb = BIN_BLOCK_SIZE \<and> hb_block_count hb = BIN_BLOCK_COUNT
     \<and> heap_placed (hb_buffer_start hb)
     \<and> stack_ok (hb_free_blocks_stack hb) \<and> stack_capacity (hb_free_blocks_stack hb) = 3
     \<and> (\<forall>i \<in> set (stack_contents (hb_free_blocks_stack hb)). unat i < 3)"

definition heap_free_blocks :: "heap_bin_contex \<Rightarrow> nat list" where
  "heap_free_blocks hb = map unat (stack_contents (hb_free_blocks_stack hb))"

lemma heap_ok_update:
  "heap_ok hb \<Longrightarrow> stack_ok s \<Longrightarrow> stack_capacity s = 3 \<Longrightarrow> \<forall>i \<in> set (stack_contents s). unat i < 3 \<Longrightarrow>
   heap_ok (hb\<lparr>hb_free_blocks_stack := s\<rparr>)"
  by (simp add: heap_ok_def)

lemma heap_ok_contents:
  "heap_ok hb \<Longrightarrow> i \<in> set (stack_contents (hb_free_blocks_stack hb)) \<Longrightarrow> unat i < 3"
  by (simp add: heap_ok_def)

definition block_addr :: "u32 \<Rightarrow> nat \<Rightarrow> u32" where
  "block_addr base b = base + of_nat b * 160"

lemma unat_block_addr:
  assumes "heap_placed base" and "b < 3"
  shows "unat (block_addr base b) = unat base + b * 160"
proof -
  have "unat (of_nat b * 160 :: u32) = b * 160"
    using assms(2) by (simp add: unat_word_ariths unsigned_of_nat take_bit_nat_def)
  with assms show ?thesis by (simp add: block_addr_def heap_placed_def word_nat)
qed

lemma block_addr_index:
  assumes "heap_placed base" and "b < 3"
  shows "(ucast ((block_addr base b - base) div 160) :: u8) = of_nat b"
proof -
  have "b = 0 \<or> b = 1 \<or> b = 2" using assms(2) by auto
  then show ?thesis by (auto simp: block_addr_def)
qed

interpretation heap_pool: block_pool "heap_malloc n" heap_free heap_free_blocks
  "\<lambda>hb. block_addr (hb_buffer_start hb)" 3 "\<lambda>hb. heap_ok hb \<and> 0 < n \<and> n \<le> BIN_BLOCK_SIZE" for n
proof unfold_locales
  fix hb :: heap_bin_contex and b c :: nat and bs
  let ?s = "hb_free_blocks_stack hb"
  assume p: "heap_ok hb \<and> 0 < n \<and> n \<le> BIN_BLOCK_SIZE"
  then have ok: "stack_ok ?s" and cap: "stack_capacity ?s = 3" and placed: "heap_placed (hb_buffer_start hb)"
    and fields: "hb_block_size hb = 128" "hb_block_count hb = 3" and n: "n \<noteq> 0" "\<not> n > 128"
    by (auto simp: heap_ok_def bin_consts)
  show "set (heap_free_blocks hb) \<subseteq> {..<3}"
    using p by (auto simp: heap_ok_def heap_free_blocks_def)
  show "heap_malloc n hb = Some (0, hb)" if "heap_free_blocks hb = []"
    using that byte_stack.pop_empty [OF ok, of 0] n fields
    by (simp add: heap_malloc_def heap_free_blocks_def)
  show "\<exists>p'. heap_malloc n hb = Some (block_addr (hb_buffer_start hb) b, p') \<and>
      (heap_ok p' \<and> 0 < n \<and> n \<le> BIN_BLOCK_SIZE) \<and> heap_free_blocks p' = bs \<and>
      block_addr (hb_buffer_start p') = block_addr (hb_buffer_start hb)"
    if f: "heap_free_blocks hb = b # bs"
  proof -
    from f obtain i js where c: "stack_contents ?s = i # js" and i: "b = unat i" "bs = map unat js"
      by (auto simp: heap_free_blocks_def)
    from byte_stack.pop_ok [OF ok c, of 0] obtain s' where s': "stack_pop ?s (Some 0) = Some (True, Some i, s')"
        "stack_ok s'" "stack_contents s' = js" "stack_capacity s' = 3" using cap by auto
    have "unat i < 3" using p c by (auto simp: heap_ok_def)
    then have lt: "(ucast i :: u32) < 3" by (simp add: word_less_nat_alt)
    have "(of_nat b :: u32) = ucast i" using i(1) by simp
    then show ?thesis
      using s' p n fields lt i c
      by (auto simp: heap_malloc_def heap_ok_def heap_free_blocks_def block_addr_def bin_consts not_le Let_def)
  qed
  show "\<exists>p'. heap_free (block_addr (hb_buffer_start hb) b) hb = Some p' \<and>
      (heap_ok p' \<and> 0 < n \<and> n \<le> BIN_BLOCK_SIZE) \<and> heap_free_blocks p' = b # heap_free_blocks hb \<and>
      block_addr (hb_buffer_start p') = block_addr (hb_buffer_start hb)"
    if b: "b < 3" and room: "length (heap_free_blocks hb) < 3"
  proof -
    define i :: u8 where "i = of_nat b"
    have u: "unat i = b" using b by (simp add: i_def unsigned_of_nat take_bit_nat_def)
    from byte_stack.push_ok [OF ok, of i] room cap obtain s' where
      s': "stack_push ?s i = Some (True, s')" "stack_ok s'"
        "stack_contents s' = i # stack_contents ?s" "stack_capacity s' = 3"
      by (auto simp: heap_free_blocks_def)
    have "unat (block_addr (hb_buffer_start hb) b) \<noteq> 0"
      using unat_block_addr [OF placed b] placed by (auto simp: heap_placed_def unat_eq_0)
    then have "block_addr (hb_buffer_start hb) b \<noteq> 0" by auto
    then have "heap_free (block_addr (hb_buffer_start hb) b) hb = Some (hb\<lparr>hb_free_blocks_stack := s'\<rparr>)"
      by (simp add: heap_free_def Let_def fields bin_consts block_addr_index [OF placed b] s'(1) flip: i_def)
    moreover have "heap_ok (hb\<lparr>hb_free_blocks_stack := s'\<rparr>)"
    proof (rule heap_ok_update [OF _ s'(2,4)])
      show "heap_ok hb" by (rule conjunct1 [OF p])
      show "\<forall>j \<in> set (stack_contents s'). unat j < 3"
        using heap_ok_contents [of hb] p b u s'(3) by auto
    qed
    moreover have "heap_free_blocks (hb\<lparr>hb_free_blocks_stack := s'\<rparr>) = b # heap_free_blocks hb"
      using s'(3) u by (simp add: heap_free_blocks_def)
    ultimately show ?thesis using p by simp
  qed
  show "block_addr (hb_buffer_start hb) b \<noteq> 0" if "b < 3"
    using unat_block_addr [OF placed that] placed by (auto simp: heap_placed_def unat_eq_0)
  show "b = c" if "b < 3" "c < 3" "block_addr (hb_buffer_start hb) b = block_addr (hb_buffer_start hb) c"
  proof -
    have "unat (hb_buffer_start hb) + b * 160 = unat (hb_buffer_start hb) + c * 160"
      unfolding unat_block_addr [OF placed that(1), symmetric] that(3)
      by (rule unat_block_addr [OF placed that(2)])
    then show ?thesis by simp
  qed
qed

text \<open>The initialiser establishes the invariant with every block free, the highest index first.\<close>

lemma init_heap_ok:
  assumes "heap_placed base" and "length sb = 3"
  shows "\<exists>hb. init_heap_memory_allocator base sb hb0 = Some (True, hb) \<and> heap_ok hb
    \<and> hb_buffer_start hb = base \<and> heap_free_blocks hb = [2, 1, 0]"
proof -
  obtain s where s: "stack_init (Some zero_handle) (Some sb) BIN_BLOCK_COUNT = (True, s)" "stack_ok s"
      "stack_contents s = []" "stack_capacity s = 3"
    using stack_init_ok [of sb zero_handle] assms(2) by (fastforce simp: bin_consts)
  from byte_stack.push_loop [OF s(2,3), of 0 3 of_nat] s(4) obtain s' where
    s': "for_loop 0 3 (\<lambda>j (ok, t). if ok then stack_push t (of_nat j) else Some (False, t)) (True, s) =
        Some (True, s')" "stack_ok s'" "stack_contents s' = [2, 1, 0]" "stack_capacity s' = 3"
    by (auto simp: numeral_3_eq_3)
  then show ?thesis
    using s assms(1)
    by (simp add: init_heap_memory_allocator_def bin_consts heap_ok_def heap_free_blocks_def)
qed

subsection \<open>The start-up self test\<close>

text \<open>
  \<^verbatim>\<open>run_unittests_heap_allocator\<close> fills the blocks it gets with patterns, so it also runs on
  the bytes of \<^verbatim>\<open>heap_buffer\<close>. \<open>poke\<close> and \<open>peek\<close> are the accesses through a pointer. The
  loop that frees the blocks is bounded by \<^verbatim>\<open>sizeof(returned_addresses)\<close>, the size of the
  array in bytes (two pointers of four bytes each on this 32-bit target) where the number of its
  elements is meant. The bound is a parameter of \<open>unittests_heap_bounded\<close>, so that the effect of
  that slip can be stated; the code's own value is in \<open>run_unittests_heap_allocator\<close>.
\<close>

definition poke :: "u32 \<Rightarrow> u32 \<Rightarrow> nat \<Rightarrow> u8 \<Rightarrow> u8 list \<Rightarrow> u8 list option" where
  "poke base p i v mem = wr mem (unat (p - base) + i) v"

definition peek :: "u32 \<Rightarrow> u32 \<Rightarrow> nat \<Rightarrow> u8 list \<Rightarrow> u8 option" where
  "peek base p i mem = rd mem (unat (p - base) + i)"

definition unittests_heap_bounded ::
  "nat \<Rightarrow> u32 \<Rightarrow> u8 list \<Rightarrow> u8 list \<Rightarrow> heap_bin_contex \<Rightarrow> int option" where
  "unittests_heap_bounded bound base stack_buffer mem0 hb0 = do {
     (ok, hb) \<leftarrow> init_heap_memory_allocator base stack_buffer hb0;
     if ok then do {
       hb \<leftarrow> heap_free 0 hb;
       (too_big, hb) \<leftarrow> heap_malloc (BIN_BLOCK_SIZE + 1) hb;
       let f = expect (too_big = 0) 0;
       (pattern, hb) \<leftarrow> heap_malloc BIN_BLOCK_SIZE hb;
       let f = expect (pattern \<noteq> 0) f;
       mem \<leftarrow> for_loop 0 (unat BIN_BLOCK_SIZE) (\<lambda>i m. poke base pattern i 0xff m) mem0;
       (f, returned, hb, mem) \<leftarrow> for_loop 0 (unat BIN_BLOCK_COUNT - 1)
         (\<lambda>x (f, returned, hb, mem). do {
            (buffer, hb) \<leftarrow> heap_malloc BIN_BLOCK_SIZE hb;
            mem \<leftarrow> (if buffer \<noteq> 0
                   then for_loop 0 (unat BIN_BLOCK_SIZE) (\<lambda>i m. poke base buffer i 0x11 m) mem
                   else Some mem);
            returned \<leftarrow> wr returned x buffer;
            Some (expect (buffer \<noteq> 0) f, returned, hb, mem)
          }) (f, [0, 0 :: u32], hb, mem);
       (extra, hb) \<leftarrow> heap_malloc BIN_BLOCK_SIZE hb;
       let f = expect (extra = 0) f;
       pointer \<leftarrow> rd returned 0;
       hb \<leftarrow> heap_free pointer hb;
       (buffer, hb) \<leftarrow> heap_malloc 5 hb;
       let f = expect (buffer \<noteq> 0) f;
       returned \<leftarrow> wr returned 0 buffer;
       hb \<leftarrow> for_loop 0 bound (\<lambda>i hb. do { p \<leftarrow> rd returned i; heap_free p hb }) hb;
       f \<leftarrow> for_loop 0 (unat BIN_BLOCK_SIZE)
         (\<lambda>i f. do { b \<leftarrow> peek base pattern i mem; Some (expect (b = 0xff) f) }) f;
       hb \<leftarrow> heap_free pattern hb;
       Some f
     }
     else Some 1
   }"

definition run_unittests_heap_allocator :: "u32 \<Rightarrow> u8 list \<Rightarrow> u8 list \<Rightarrow> heap_bin_contex \<Rightarrow> int option" where
  "run_unittests_heap_allocator = unittests_heap_bounded (2 * 4)"

lemma bind_NoneI: "(\<And>x. m = Some x \<Longrightarrow> f x = None) \<Longrightarrow> Option.bind m f = None"
  by (cases m) auto

text \<open>A loop that reaches an undefined iteration is undefined.\<close>

lemma for_loop_reaches:
  "i \<le> k \<Longrightarrow> k < n \<Longrightarrow> (\<And>s. body k s = None) \<Longrightarrow> for_loop i n body s = None"
proof (induction i n body s rule: for_loop.induct)
  case (1 i n body s)
  show ?case
  proof (cases "i = k")
    case True
    with "1.prems" show ?thesis by (simp add: for_loop_step)
  next
    case False
    with "1.prems" have "for_loop (Suc i) n body t = None" if "body i s = Some t" for t
      using "1.IH" [of t] that by auto
    with "1.prems" False show ?thesis by (simp add: for_loop_step bind_NoneI)
  qed
qed

lemma for_loop_keeps:
  assumes "for_loop i n body s = Some t" and "P s"
    and "\<And>j a b. body j a = Some b \<Longrightarrow> P a \<Longrightarrow> P b"
  shows "P t"
  using assms
proof (induction i n body s rule: for_loop.induct)
  case (1 i n body s)
  show ?case
  proof (cases "i < n")
    case True
    with "1.prems"(1) obtain u where "body i s = Some u" "for_loop (Suc i) n body u = Some t"
      by (auto simp: for_loop_step Option.bind_eq_Some_conv)
    with "1.IH" True "1.prems" show ?thesis by blast
  next
    case False
    with "1.prems" show ?thesis by simp
  qed
qed

text \<open>Filling a block, and what is read back.\<close>

lemma fill_block:
  assumes "heap_placed base" and "b < 3" and "length mem = 480"
  shows "\<exists>m. for_loop 0 128 (\<lambda>i m. poke base (block_addr base b) i v m) mem = Some m \<and> length m = 480 \<and>
    (\<forall>j < 480. m ! j = (if b * 160 \<le> j \<and> j < b * 160 + 128 then v else mem ! j))"
proof -
  have u: "unat (block_addr base b - base) = b * 160"
  proof -
    have "block_addr base b - base = of_nat (b * 160)" by (simp add: block_addr_def)
    moreover have "unat (of_nat (b * 160) :: u32) = b * 160" using assms(2) by (intro unat_of_nat_u32) simp
    ultimately show ?thesis by (simp only:)
  qed
  let ?I = "\<lambda>i m. length m = 480 \<and> (\<forall>j < 480. m ! j = (if b * 160 \<le> j \<and> j < b * 160 + i then v else mem ! j))"
  show ?thesis
  proof (rule for_loop_rule [where I = ?I])
    fix i m assume I: "?I i m" and i: "i < 128"
    have "b * 160 + i < 480" using assms(2) i by simp
    then show "\<exists>m'. poke base (block_addr base b) i v m = Some m' \<and> ?I (Suc i) m'"
      using I by (auto simp: poke_def u wr_in nth_list_update)
  qed (use assms(3) in auto)
qed

text \<open>Single requests and returns, with the block that they concern.\<close>

lemma malloc_step:
  assumes "heap_ok hb" and "hb_buffer_start hb = base" and "heap_free_blocks hb = b # bs" and "0 < n" and "n \<le> BIN_BLOCK_SIZE"
  shows "\<exists>hb'. heap_malloc n hb = Some (block_addr base b, hb') \<and> heap_ok hb' \<and> hb_buffer_start hb' = base \<and> heap_free_blocks hb' = bs"
proof -
  have "heap_ok hb \<and> 0 < n \<and> n \<le> BIN_BLOCK_SIZE" using assms by blast
  from heap_pool.get_some [OF this assms(3)] obtain hb' where hb': "heap_malloc n hb = Some (block_addr base b, hb')"
      "heap_ok hb'" "heap_free_blocks hb' = bs" "block_addr (hb_buffer_start hb') = block_addr (hb_buffer_start hb)"
    using assms(2) by auto
  have "hb_buffer_start hb' = base" using fun_cong [OF hb'(4), of 0] assms(2) by (simp add: block_addr_def)
  then show ?thesis using hb' by blast
qed

lemma free_step:
  assumes "heap_ok hb" and "hb_buffer_start hb = base" and "b < 3" and "length (heap_free_blocks hb) < 3"
  shows "\<exists>hb'. heap_free (block_addr base b) hb = Some hb' \<and> heap_ok hb' \<and> hb_buffer_start hb' = base \<and>
    heap_free_blocks hb' = b # heap_free_blocks hb"
proof -
  have "heap_ok hb \<and> 0 < BIN_BLOCK_SIZE \<and> BIN_BLOCK_SIZE \<le> BIN_BLOCK_SIZE" using assms by (simp add: bin_consts)
  from heap_pool.give_ok [OF this assms(3,4)] obtain hb' where hb': "heap_free (block_addr base b) hb = Some hb'"
      "heap_ok hb'" "heap_free_blocks hb' = b # heap_free_blocks hb" "block_addr (hb_buffer_start hb') = block_addr (hb_buffer_start hb)"
    using assms(2) by auto
  have "hb_buffer_start hb' = base" using fun_cong [OF hb'(4), of 0] assms(2) by (simp add: block_addr_def)
  then show ?thesis using hb' by blast
qed

lemma block_addr_nonzero: "heap_placed base \<Longrightarrow> b < 3 \<Longrightarrow> block_addr base b \<noteq> 0"
  using unat_block_addr [of base b] by (auto simp: heap_placed_def unat_eq_0)

lemma refused_step: "heap_ok hb \<Longrightarrow> heap_free_blocks hb = [] \<Longrightarrow> 0 < n \<Longrightarrow> n \<le> BIN_BLOCK_SIZE \<Longrightarrow> heap_malloc n hb = Some (0, hb)"
  using heap_pool.get_none [of hb n] by simp

lemma for_loop_2: "for_loop 0 2 body s = do { t \<leftarrow> body 0 s; body 1 t }"
proof -
  have e: "for_loop (Suc (Suc 0)) 2 body = Some" by (simp add: fun_eq_iff)
  have "for_loop (Suc 0) 2 body = body 1" by (rule ext, subst for_loop_step) (simp_all add: e)
  then show ?thesis by (subst for_loop_step) simp_all
qed

text \<open>The patterns: three fills of separate blocks leave the first as it was.\<close>

lemma patterns_ok:
  assumes "heap_placed base" and "length mem = 480"
  shows "\<exists>m1 m2 m3. for_loop 0 128 (\<lambda>i m. poke base (block_addr base 2) i 0xff m) mem = Some m1 \<and>
    for_loop 0 128 (\<lambda>i m. poke base (block_addr base (Suc 0)) i 0x11 m) m1 = Some m2 \<and>
    for_loop 0 128 (\<lambda>i m. poke base (block_addr base 0) i 0x11 m) m2 = Some m3 \<and>
    for_loop 0 128 (\<lambda>i f. do { b \<leftarrow> peek base (block_addr base 2) i m3; Some (if b = 0xff then f else f + 1) }) (0 :: int) = Some 0"
proof -
  obtain m1 where m1: "for_loop 0 128 (\<lambda>i m. poke base (block_addr base 2) i 0xff m) mem = Some m1" "length m1 = 480"
      "\<forall>j < 480. m1 ! j = (if 2 * 160 \<le> j \<and> j < 2 * 160 + 128 then 0xff else mem ! j)"
    using fill_block [OF assms(1) _ assms(2), of 2 "0xff"] by auto
  obtain m2 where m2: "for_loop 0 128 (\<lambda>i m. poke base (block_addr base (Suc 0)) i 0x11 m) m1 = Some m2" "length m2 = 480"
      "\<forall>j < 480. m2 ! j = (if 1 * 160 \<le> j \<and> j < 1 * 160 + 128 then 0x11 else m1 ! j)"
    using fill_block [OF assms(1) _ m1(2), of 1 "0x11"] by auto
  obtain m3 where m3: "for_loop 0 128 (\<lambda>i m. poke base (block_addr base 0) i 0x11 m) m2 = Some m3" "length m3 = 480"
      "\<forall>j < 480. m3 ! j = (if 0 * 160 \<le> j \<and> j < 0 * 160 + 128 then 0x11 else m2 ! j)"
    using fill_block [OF assms(1) _ m2(2), of 0 "0x11"] by auto
  have u: "unat (block_addr base 2 - base) = 320" by (simp add: block_addr_def)
  have "\<exists>f. for_loop 0 128 (\<lambda>i f. do { b \<leftarrow> peek base (block_addr base 2) i m3; Some (if b = 0xff then f else f + 1) }) (0 :: int) = Some f \<and> f = 0"
  proof (rule for_loop_rule [where I = "\<lambda>_ f. f = 0"])
    fix i :: nat and f :: int assume "i < 128" "f = 0"
    then show "\<exists>f'. do { b \<leftarrow> peek base (block_addr base 2) i m3; Some (if b = 0xff then f else f + 1) } = Some f' \<and> f' = 0"
      using m1(3) m2(2,3) m3(2,3) by (simp add: peek_def u rd_in)
  qed simp_all
  then show ?thesis using m1(1) m2(1) m3(1) by blast
qed

lemma unittests_heap_passes:
  assumes "heap_placed base" and "length sb = 3" and "length mem = 480"
  shows "unittests_heap_bounded 2 base sb mem hb0 = Some 0"
proof -
  obtain h0 where h0: "init_heap_memory_allocator base sb hb0 = Some (True, h0)" "heap_ok h0" "hb_buffer_start h0 = base"
      "heap_free_blocks h0 = [2, 1, 0]" using init_heap_ok [OF assms(1,2)] by blast
  have free0: "heap_free 0 h = Some h" for h by (simp add: heap_free_def)
  have big: "heap_malloc (BIN_BLOCK_SIZE + 1) h0 = Some (0, h0)"
    using h0(2) by (simp add: heap_malloc_def heap_ok_def bin_consts)
  have n: "0 < BIN_BLOCK_SIZE" "BIN_BLOCK_SIZE \<le> BIN_BLOCK_SIZE" "0 < (5 :: u32)" "5 \<le> BIN_BLOCK_SIZE" "unat BIN_BLOCK_SIZE = 128" "unat BIN_BLOCK_COUNT = 3"
    by (simp_all add: bin_consts)
  obtain h1 where h1: "heap_malloc BIN_BLOCK_SIZE h0 = Some (block_addr base 2, h1)" "heap_ok h1" "hb_buffer_start h1 = base" "heap_free_blocks h1 = [1, 0]"
    using malloc_step [OF h0(2-4) n(1,2)] by blast
  obtain h2 where h2: "heap_malloc BIN_BLOCK_SIZE h1 = Some (block_addr base (Suc 0), h2)" "heap_ok h2" "hb_buffer_start h2 = base" "heap_free_blocks h2 = [0]"
    using malloc_step [OF h1(2-4) n(1,2)] by auto
  obtain h3 where h3: "heap_malloc BIN_BLOCK_SIZE h2 = Some (block_addr base 0, h3)" "heap_ok h3" "hb_buffer_start h3 = base" "heap_free_blocks h3 = []"
    using malloc_step [OF h2(2-4) n(1,2)] by blast
  have extra: "heap_malloc BIN_BLOCK_SIZE h3 = Some (0, h3)" by (rule refused_step [OF h3(2,4) n(1,2)])
  obtain h4 where h4: "heap_free (block_addr base (Suc 0)) h3 = Some h4" "heap_ok h4" "hb_buffer_start h4 = base" "heap_free_blocks h4 = [1]"
    using free_step [OF h3(2,3), of 1] h3(4) by auto
  obtain h5 where h5: "heap_malloc 5 h4 = Some (block_addr base (Suc 0), h5)" "heap_ok h5" "hb_buffer_start h5 = base" "heap_free_blocks h5 = []"
    using malloc_step [OF h4(2-4) n(3,4)] by auto
  obtain h6 where h6: "heap_free (block_addr base (Suc 0)) h5 = Some h6" "heap_ok h6" "hb_buffer_start h6 = base" "heap_free_blocks h6 = [1]"
    using free_step [OF h5(2,3), of 1] h5(4) by auto
  obtain h7 where h7: "heap_free (block_addr base 0) h6 = Some h7" "heap_ok h7" "hb_buffer_start h7 = base" "heap_free_blocks h7 = [0, 1]"
    using free_step [OF h6(2,3), of 0] h6(4) by auto
  obtain h8 where h8: "heap_free (block_addr base 2) h7 = Some h8"
    using free_step [OF h7(2,3), of 2] h7(4) by auto
  note nz = block_addr_nonzero [OF assms(1)]
  have nz2: "block_addr base 0 \<noteq> 0" "block_addr base (Suc 0) \<noteq> 0" "block_addr base 2 \<noteq> 0" using nz by simp_all
  obtain m1 m2 m3 where m: "for_loop 0 128 (\<lambda>i m. poke base (block_addr base 2) i 0xff m) mem = Some m1"
      "for_loop 0 128 (\<lambda>i m. poke base (block_addr base (Suc 0)) i 0x11 m) m1 = Some m2"
      "for_loop 0 128 (\<lambda>i m. poke base (block_addr base 0) i 0x11 m) m2 = Some m3"
      "for_loop 0 128 (\<lambda>i f. do { b \<leftarrow> peek base (block_addr base 2) i m3; Some (if b = 0xff then f else f + 1) }) (0 :: int) = Some 0"
    using patterns_ok [OF assms(1,3)] by blast
  show ?thesis
    unfolding unittests_heap_bounded_def h0(1) n(5,6)
    by (simp add: free0 big h1(1) for_loop_2 h2(1) h3(1) extra h4(1) h5(1) h6(1) h7(1) h8(1) m nz2 expect_def wr_def rd_def Let_def)
qed

subsection \<open>Properties\<close>

text \<open>Claim C8. Clients that return only blocks they hold, in any order of requests and
  returns: no call of \<^verbatim>\<open>heap_malloc\<close> or \<^verbatim>\<open>heap_free\<close> touches memory it does not own, the
  pointers held are distinct, are starts of blocks of the array, lie at least a block and a red
  zone apart, and no block is lost.\<close>

theorem heap_clients_never_share:
  assumes "heap_placed base" and "length sb = 3" and "0 < n" and "n \<le> BIN_BLOCK_SIZE"
    and "init_heap_memory_allocator base sb hb0 = Some (True, hb)"
  shows "\<exists>held hb'. pool_run (heap_malloc n) heap_free cmds [] hb = Some (held, hb')
     \<and> distinct held
     \<and> (\<forall>a \<in> set held. \<exists>b < 3. unat a = unat base + b * 160)
     \<and> (\<forall>a \<in> set held. \<forall>c \<in> set held. a \<noteq> c \<longrightarrow> 160 \<le> \<bar>int (unat a) - int (unat c)\<bar>)
     \<and> length held + length (heap_free_blocks hb') = 3"
proof -
  from init_heap_ok [OF assms(1,2), of hb0] assms(5)
  have hb: "heap_ok hb" "hb_buffer_start hb = base" "heap_free_blocks hb = [2, 1, 0]" by auto
  have "{..<3::nat} = {2, 1, 0}" by auto
  then have "pool_partition [2, 1, 0] {} 3" by (simp add: pool_partition_def)
  then have "heap_pool.client_ok n [] hb"
    unfolding heap_pool.client_ok_def using hb(1,3) assms(3,4) by simp
  from heap_pool.client_run [OF this, of cmds] obtain held hb' where
    run: "pool_run (heap_malloc n) heap_free cmds [] hb = Some (held, hb')"
    and ok: "heap_pool.client_ok n held hb'"
    and addr: "block_addr (hb_buffer_start hb') = block_addr base"
    using hb(2) by auto
  have at: "\<exists>b < 3. unat a = unat base + b * 160" if "a \<in> set held" for a
    using heap_pool.client_held_blocks [OF ok that] unat_block_addr [OF assms(1)] addr by metis
  have apart: "160 \<le> \<bar>int (unat a) - int (unat c)\<bar>" if "a \<in> set held" "c \<in> set held" "a \<noteq> c" for a c
  proof -
    from at [OF that(1)] at [OF that(2)] obtain b d where
      "unat a = unat base + b * 160" "unat c = unat base + d * 160" by blast
    moreover from this that(3) have "b \<noteq> d" by (metis word_unat_eq_iff)
    ultimately show ?thesis by (cases b d rule: linorder_cases) auto
  qed
  show ?thesis
    using run at apart heap_pool.client_counts [OF ok] ok by (auto simp: heap_pool.client_ok_def)
qed

theorem heap_clients_never_share_witness:
  "\<exists>hb held hb'. init_heap_memory_allocator 0x106000 [0, 0, 0]
       \<lparr>hb_block_size = 0, hb_block_count = 0, hb_buffer_size = 0, hb_buffer_start = 0,
        hb_free_blocks_stack = None\<rparr> = Some (True, hb)
     \<and> pool_run (heap_malloc 128) heap_free [Request, Request, Return 1, Request] [] hb = Some (held, hb')
     \<and> distinct held \<and> length held + length (heap_free_blocks hb') = 3"
proof -
  let ?hb0 = "\<lparr>hb_block_size = 0, hb_block_count = 0, hb_buffer_size = 0, hb_buffer_start = 0,
        hb_free_blocks_stack = None\<rparr>"
  have placed: "heap_placed 0x106000" by (simp add: heap_placed_def)
  obtain hb where hb: "init_heap_memory_allocator 0x106000 [0, 0, 0] ?hb0 = Some (True, hb)"
    using init_heap_ok [OF placed, of "[0, 0, 0]"] by auto
  with heap_clients_never_share [OF placed _ _ _ hb, of 128 "[Request, Request, Return 1, Request]"]
  show ?thesis by (simp add: bin_consts del: pool_run.simps) blast
qed

text \<open>A request for no bytes or for more than a block yields \<open>NULL\<close> and leaves the
  allocator as it is; when every block is taken, a fourth request does too.\<close>

theorem heap_malloc_refuses:
  assumes "heap_ok hb" and "n = 0 \<or> n > BIN_BLOCK_SIZE \<or> heap_free_blocks hb = []"
  shows "heap_malloc n hb = Some (0, hb)"
proof (cases "n = 0 \<or> n > BIN_BLOCK_SIZE")
  case True
  with assms(1) show ?thesis by (auto simp: heap_malloc_def heap_ok_def)
next
  case False
  then show ?thesis using assms heap_pool.get_none [of hb n] by (auto simp: word_gt_0 not_less)
qed

text \<open>An initialised allocator, for the witnesses: all blocks of the array at 1 MB are free.\<close>

definition sample_heap :: heap_bin_contex where
  "sample_heap = \<lparr>hb_block_size = 128, hb_block_count = 3, hb_buffer_size = 480, hb_buffer_start = 0x100000,
     hb_free_blocks_stack = Some \<lparr>sh_buffer_size = 3, sh_buffer = [0, 1, 2], sh_stack_pointer = 1\<rparr>\<rparr>"

lemma sample_heap_ok: "heap_ok sample_heap" "heap_free_blocks sample_heap = [0]"
  by (simp_all add: sample_heap_def heap_ok_def bin_consts heap_placed_def stack_ok_def stack_wf_def
      stack_capacity_def stack_contents_def heap_free_blocks_def)

theorem heap_malloc_refuses_witness: "heap_malloc 129 sample_heap = Some (0, sample_heap)"
  by (rule heap_malloc_refuses) (simp_all add: sample_heap_ok bin_consts)

text \<open>Freeing the same block twice while another block is taken is not noticed: both
  of the next two requests return that block.\<close>

theorem heap_double_free_shares:
  assumes "heap_ok hb" and "b < 3" and "length (heap_free_blocks hb) < 2"
    and "0 < n" and "n \<le> BIN_BLOCK_SIZE"
  shows "\<exists>hb1 hb2 hb3 hb4. let a = block_addr (hb_buffer_start hb) b in
     heap_free a hb = Some hb1 \<and> heap_free a hb1 = Some hb2
     \<and> heap_malloc n hb2 = Some (a, hb3) \<and> heap_malloc n hb3 = Some (a, hb4)"
proof -
  have p: "heap_ok hb \<and> 0 < n \<and> n \<le> BIN_BLOCK_SIZE" using assms by blast
  from heap_pool.give_ok [OF p assms(2)] assms(3) obtain hb1 where
    1: "heap_free (block_addr (hb_buffer_start hb) b) hb = Some hb1"
      "heap_ok hb1 \<and> 0 < n \<and> n \<le> BIN_BLOCK_SIZE" "heap_free_blocks hb1 = b # heap_free_blocks hb"
      "block_addr (hb_buffer_start hb1) = block_addr (hb_buffer_start hb)"
    by force
  from heap_pool.give_ok [OF 1(2) assms(2)] assms(3) 1(3,4) obtain hb2 where
    2: "heap_free (block_addr (hb_buffer_start hb) b) hb1 = Some hb2"
      "heap_ok hb2 \<and> 0 < n \<and> n \<le> BIN_BLOCK_SIZE" "heap_free_blocks hb2 = b # b # heap_free_blocks hb"
      "block_addr (hb_buffer_start hb2) = block_addr (hb_buffer_start hb)"
    by force
  from heap_pool.get_some [OF 2(2,3)] 2(4) obtain hb3 where
    3: "heap_malloc n hb2 = Some (block_addr (hb_buffer_start hb) b, hb3)"
      "heap_ok hb3 \<and> 0 < n \<and> n \<le> BIN_BLOCK_SIZE" "heap_free_blocks hb3 = b # heap_free_blocks hb"
      "block_addr (hb_buffer_start hb3) = block_addr (hb_buffer_start hb)" by auto
  from heap_pool.get_some [OF 3(2,3)] 3(4) obtain hb4 where
    "heap_malloc n hb3 = Some (block_addr (hb_buffer_start hb) b, hb4)" by auto
  with 1 2 3 show ?thesis by (auto simp: Let_def)
qed

theorem heap_double_free_shares_witness:
  "\<exists>hb1 hb2 hb3 hb4. heap_free 0x100140 sample_heap = Some hb1 \<and> heap_free 0x100140 hb1 = Some hb2
     \<and> heap_malloc 5 hb2 = Some (0x100140, hb3) \<and> heap_malloc 5 hb3 = Some (0x100140, hb4)"
  using heap_double_free_shares [of sample_heap 2 5] sample_heap_ok
  by (auto simp: bin_consts block_addr_def sample_heap_def)

text \<open>The self test as written is undefined: its loop over
  \<^verbatim>\<open>sizeof(returned_addresses)\<close> reads the array of two pointers at index 2.\<close>

theorem run_unittests_heap_allocator_undefined:
  assumes "heap_placed base" and "length sb = 3"
  shows "run_unittests_heap_allocator base sb mem hb0 = None"
proof -
  obtain hb where init: "init_heap_memory_allocator base sb hb0 = Some (True, hb)"
    using init_heap_ok [OF assms] by blast
  have loop: "for_loop 0 8 (\<lambda>i hb. do { p \<leftarrow> rd returned i; heap_free p hb }) h = None"
    if "length returned = 2" for returned :: "u32 list" and h
    by (rule for_loop_reaches [of _ 2]) (use that in \<open>auto simp: rd_def\<close>)
  have len: "length r' = 2"
    if "for_loop 0 n (\<lambda>x (f, returned, hb, mem). do {
            (buffer, hb) \<leftarrow> heap_malloc BIN_BLOCK_SIZE hb;
            mem \<leftarrow> (if buffer \<noteq> 0
                   then for_loop 0 (unat BIN_BLOCK_SIZE) (\<lambda>i m. poke base buffer i 0x11 m) mem
                   else Some mem);
            returned \<leftarrow> wr returned x buffer;
            Some (expect (buffer \<noteq> 0) f, returned, hb, mem)
          }) (f, [0, 0 :: u32], h, m) = Some (f', r', h', m')" for n f h m f' r' h' m'
    using for_loop_keeps [OF that, of "\<lambda>(f, r, h, m). length r = 2"]
    by (force simp: Option.bind_eq_Some_conv wr_Some_iff)
  show ?thesis
    unfolding run_unittests_heap_allocator_def unittests_heap_bounded_def init
    by (auto simp: Let_def loop wr_Some_iff dest!: len intro!: bind_NoneI)
qed

theorem run_unittests_heap_allocator_undefined_witness:
  "run_unittests_heap_allocator 0x106000 [0, 0, 0] (replicate 480 0) sample_heap = None"
  by (rule run_unittests_heap_allocator_undefined) (simp_all add: heap_placed_def)

text \<open>Claim C31. What the self test finds: with its last loop bounded by the two elements of the array, no check fails, whatever the
  memory holds before; as it is written, bounded by the size of the array in bytes, it reads behind the array.\<close>

theorem heap_self_test_verdict:
  assumes "heap_placed base" and "length sb = 3" and "length mem = 480"
  shows "unittests_heap_bounded 2 base sb mem hb0 = Some 0 \<and> run_unittests_heap_allocator base sb mem hb0 = None"
  using unittests_heap_passes [OF assms] run_unittests_heap_allocator_undefined [OF assms(1,2)] by blast

theorem heap_self_test_verdict_witness:
  "unittests_heap_bounded 2 0x106000 [0, 0, 0] (replicate 480 7) sample_heap = Some 0"
  by (rule conjunct1 [OF heap_self_test_verdict]) (simp_all add: heap_placed_def)

end
