(* ===== verification/Util.thy ===== *)
theory Util
  imports C_String
begin

section \<open>Memory and number helpers (utils/util.c)\<close>

text \<open>
  The code is compiled for 32 bits, where \<^verbatim>\<open>int\<close> and \<^verbatim>\<open>long\<close> have the same range. \<open>c_int\<close> is the result of
  a signed operation: C leaves one that leaves the range undefined (\<open>None\<close>).
\<close>

definition c_int :: "int \<Rightarrow> int option" where
  "c_int x = (if - 2147483648 \<le> x \<and> x < 2147483648 then Some x else None)"

lemma c_int_in [simp]: "- 2147483648 \<le> x \<Longrightarrow> x < 2147483648 \<Longrightarrow> c_int x = Some x"
  by (simp add: c_int_def)

definition map_of_char :: "char list \<Rightarrow> u8 list" where
  "map_of_char cs = map (\<lambda>c. of_nat (of_char c)) cs"

subsection \<open>Memory\<close>

definition memory_is_equal :: "u8 list option \<Rightarrow> int \<Rightarrow> u8 list option \<Rightarrow> int \<Rightarrow> int option" where
  "memory_is_equal mem1 mem1_size mem2 mem2_size = (case (mem1, mem2) of
     (Some m1, Some m2) \<Rightarrow>
       if mem1_size \<noteq> mem2_size then Some 0
       else for_loop 0 (nat mem1_size)
         (\<lambda>i is_equal. do { a \<leftarrow> rd m1 i; b \<leftarrow> rd m2 i; Some (if a \<noteq> b then 0 else is_equal) }) 1
   | _ \<Rightarrow> Some 0)"

text \<open>\<^verbatim>\<open>mem_copy\<close>: the return value and the destination. A negative size copies nothing and is returned.\<close>

definition mem_copy :: "u8 list option \<Rightarrow> int \<Rightarrow> u8 list option \<Rightarrow> int \<Rightarrow> (int \<times> u8 list option) option" where
  "mem_copy destination destination_size source src_size = (case (destination, source) of
     (Some d, Some s) \<Rightarrow>
       (let sz = (if src_size > destination_size then destination_size else src_size) in
        do {
          d' \<leftarrow> for_loop 0 (nat sz) (\<lambda>i d. do { b \<leftarrow> rd s i; wr d i b }) d;
          Some (sz, Some d')
        })
   | _ \<Rightarrow> Some (-1, destination))"

definition memset :: "u8 list \<Rightarrow> int \<Rightarrow> u32 \<Rightarrow> u8 list option" where
  "memset p v num = for_loop 0 (unat num) (\<lambda>i p. wr p i (of_int v)) p"

subsection \<open>Numbers\<close>

definition byte_to_hexchar :: "u8 \<Rightarrow> u8" where
  "byte_to_hexchar byte = (if byte > 15 then 0 else if byte < 10 then 48 + byte else 65 + byte - 10)"

definition hex_digit :: "u8 \<Rightarrow> int option" where
  "hex_digit chr =
     (if chr \<ge> 48 \<and> chr \<le> 57 then Some (int (unat chr) - 48)
      else if chr \<ge> 97 \<and> chr \<le> 102 then Some (int (unat chr) - 97 + 10)
      else if chr \<ge> 65 \<and> chr \<le> 70 then Some (int (unat chr) - 65 + 10)
      else None)"

text \<open>\<^verbatim>\<open>strlen_unsafe\<close> of utils/string.c, which the conversions call: it gives up after 100 characters.\<close>

fun strlen_scan :: "u8 list \<Rightarrow> nat \<Rightarrow> nat option" where
  "strlen_scan [] i = None"
| "strlen_scan (c # cs) i =
     (if c = 0 then Some i else if Suc i > 100 then Some 0 else strlen_scan cs (Suc i))"

definition strlen_unsafe :: "u8 list option \<Rightarrow> nat option" where
  "strlen_unsafe input_string = (case input_string of None \<Rightarrow> Some 0 | Some s \<Rightarrow> strlen_scan s 0)"

text \<open>The loops of the conversions, with the number of characters left to the front.\<close>

fun hex_to_long_loop :: "u8 list \<Rightarrow> nat \<Rightarrow> int \<Rightarrow> int \<Rightarrow> int option" where
  "hex_to_long_loop str 0 res multiplier = Some res"
| "hex_to_long_loop str (Suc index) res multiplier = do {
     chr \<leftarrow> rd str index;
     (case hex_digit chr of
        None \<Rightarrow> hex_to_long_loop str index res multiplier
      | Some chr_value \<Rightarrow> do {
          p \<leftarrow> c_int (chr_value * multiplier);
          res' \<leftarrow> c_int (res + p);
          multiplier' \<leftarrow> c_int (multiplier * 16);
          hex_to_long_loop str index res' multiplier'
        })
   }"

definition hex_to_long :: "u8 list option \<Rightarrow> int option" where
  "hex_to_long str = (case str of
     None \<Rightarrow> Some 0
   | Some s \<Rightarrow> do { len \<leftarrow> strlen_unsafe str; hex_to_long_loop s len 0 1 })"

fun long_to_hex_loop :: "nat \<Rightarrow> int \<Rightarrow> u8 list \<Rightarrow> int \<Rightarrow> u8 list option" where
  "long_to_hex_loop 0 number string_buffer base = Some string_buffer"
| "long_to_hex_loop (Suc index) number string_buffer base =
     (if base = 0 then None
      else do {
        let reminder = (of_int (number smod base) :: u8);
        b \<leftarrow> wr string_buffer index (byte_to_hexchar reminder);
        long_to_hex_loop index (number sdiv base) b base
      })"

definition long_to_hex :: "int \<Rightarrow> u8 list option \<Rightarrow> int \<Rightarrow> u8 \<Rightarrow> u8 list option option" where
  "long_to_hex number string_buffer string_buffer_len base = (case string_buffer of
     None \<Rightarrow> Some None
   | Some b \<Rightarrow> do { b' \<leftarrow> long_to_hex_loop (nat string_buffer_len) number b (uint base); Some (Some b') })"

fun atoi_loop :: "u8 list \<Rightarrow> nat \<Rightarrow> int \<Rightarrow> int \<Rightarrow> int option" where
  "atoi_loop str 0 res multiplier = Some res"
| "atoi_loop str (Suc index) res multiplier = do {
     chr \<leftarrow> rd str index;
     if chr \<ge> 48 \<and> chr \<le> 57 then do {
       p \<leftarrow> c_int ((int (unat chr) - 48) * multiplier);
       res' \<leftarrow> c_int (res + p);
       multiplier' \<leftarrow> c_int (multiplier * 10);
       atoi_loop str index res' multiplier'
     }
     else atoi_loop str index res multiplier
   }"

definition atoi :: "u8 list option \<Rightarrow> int option" where
  "atoi str = (case str of
     None \<Rightarrow> Some 0
   | Some s \<Rightarrow> do { len \<leftarrow> strlen_unsafe str; atoi_loop s len 0 1 })"

subsection \<open>Facts about the memory helpers\<close>

lemma mem_copy_eq:
  assumes "0 \<le> n" and "nat n \<le> length s" and "nat n \<le> length d" and "n \<le> dn"
  shows "mem_copy (Some d) dn (Some s) n = Some (n, Some (take (nat n) s @ drop (nat n) d))"
proof -
  have "for_loop 0 (nat n) (\<lambda>i d. do { b \<leftarrow> rd s i; wr d i b }) d = Some (take (nat n) s @ drop (nat n) d)"
  proof -
    let ?I = "\<lambda>j e. e = take j s @ drop j d \<and> j \<le> nat n"
    have "\<exists>e. for_loop 0 (nat n) (\<lambda>i d. do { b \<leftarrow> rd s i; wr d i b }) d = Some e \<and> ?I (nat n) e"
    proof (rule for_loop_rule [where I = ?I])
      fix j e assume I: "?I j e" and j: "j < nat n"
      then have "drop j d = d ! j # drop (Suc j) d" "take (Suc j) s = take j s @ [s ! j]"
        using assms by (simp_all add: Cons_nth_drop_Suc take_Suc_conv_app_nth)
      then show "\<exists>e'. (rd s j \<bind> wr e j) = Some e' \<and> ?I (Suc j) e'"
        using I j assms by (simp add: rd_in wr_in list_update_append)
    qed auto
    then show ?thesis by simp
  qed
  then show ?thesis using assms by (simp add: mem_copy_def Let_def)
qed

lemma mem_copy_min:
  assumes "0 \<le> dn" and "0 \<le> n" and "nat (min n dn) \<le> length s" and "nat (min n dn) \<le> length d"
  shows "mem_copy (Some d) dn (Some s) n =
    Some (min n dn, Some (take (nat (min n dn)) s @ drop (nat (min n dn)) d))"
proof -
  have "mem_copy (Some d) dn (Some s) n = mem_copy (Some d) dn (Some s) (min n dn)"
    by (auto simp: mem_copy_def Let_def min_def)
  also have "\<dots> = Some (min n dn, Some (take (nat (min n dn)) s @ drop (nat (min n dn)) d))"
    using assms by (intro mem_copy_eq) auto
  finally show ?thesis .
qed

lemma memset_eq:
  assumes "unat n \<le> length p"
  shows "memset p v n = Some (replicate (unat n) (of_int v) @ drop (unat n) p)"
  using for_loop_fill [of 0 "unat n" p "\<lambda>_. of_int v"] assms
  by (simp add: memset_def map_replicate_const)

lemma memory_is_equal_eq:
  assumes "0 \<le> n" and "nat n \<le> length a" and "nat n \<le> length b"
  shows "memory_is_equal (Some a) n (Some b) n = Some (if take (nat n) a = take (nat n) b then 1 else 0)"
proof -
  let ?I = "\<lambda>j r. r = (if take j a = take j b then 1 else (0 :: int))"
  have "\<exists>r. for_loop 0 (nat n)
      (\<lambda>i is_equal. do { x \<leftarrow> rd a i; y \<leftarrow> rd b i; Some (if x \<noteq> y then 0 else is_equal) }) 1 = Some r \<and> ?I (nat n) r"
  proof (rule for_loop_rule [where I = ?I])
    fix j r assume "?I j r" and "j < nat n"
    then show "\<exists>r'. do { x \<leftarrow> rd a j; y \<leftarrow> rd b j; Some (if x \<noteq> y then 0 else r) } = Some r' \<and> ?I (Suc j) r'"
      using assms by (auto simp: rd_in take_Suc_conv_app_nth)
  qed auto
  then show ?thesis by (simp add: memory_is_equal_def)
qed

subsection \<open>Facts about strings and numbers\<close>

lemma strlen_scan_eq:
  "terminated s \<Longrightarrow> i \<le> 100 \<Longrightarrow>
     strlen_scan s i = Some (if i + length (c_str s) \<le> 100 then i + length (c_str s) else 0)"
proof (induction s arbitrary: i)
  case (Cons c s)
  show ?case
  proof (cases "c = 0")
    case False
    then have t: "terminated s" using Cons.prems by (simp add: terminated_def)
    show ?thesis
    proof (cases "Suc i > 100")
      case True
      then show ?thesis using False by simp
    next
      case less: False
      then show ?thesis using False Cons.IH [OF t, of "Suc i"] by simp
    qed
  qed (use Cons.prems in simp)
qed (simp add: terminated_def)

lemma strlen_unsafe_eq:
  "terminated s \<Longrightarrow> strlen_unsafe (Some s) = Some (if length (c_str s) \<le> 100 then length (c_str s) else 0)"
  by (simp add: strlen_unsafe_def strlen_scan_eq)

text \<open>The digits of a number, most significant first.\<close>

fun hex_digits :: "nat \<Rightarrow> int \<Rightarrow> u8 list" where
  "hex_digits 0 n = []"
| "hex_digits (Suc k) n = hex_digits k (n div 16) @ [byte_to_hexchar (of_int (n mod 16))]"

lemma length_hex_digits [simp]: "length (hex_digits k n) = k"
  by (induction k arbitrary: n) simp_all

lemma int_16_cases:
  assumes "0 \<le> d" and "d < (16 :: int)"
  shows "d = 0 \<or> d = 1 \<or> d = 2 \<or> d = 3 \<or> d = 4 \<or> d = 5 \<or> d = 6 \<or> d = 7 \<or> d = 8 \<or> d = 9 \<or>
    d = 10 \<or> d = 11 \<or> d = 12 \<or> d = 13 \<or> d = 14 \<or> d = 15"
  using assms by presburger

lemma hex_digit_char: "0 \<le> d \<Longrightarrow> d < 16 \<Longrightarrow> hex_digit (byte_to_hexchar (of_int d)) = Some d"
  by (drule (1) int_16_cases) (elim disjE; simp add: byte_to_hexchar_def hex_digit_def)

lemma hexchar_nonzero: "0 \<le> d \<Longrightarrow> d < 16 \<Longrightarrow> byte_to_hexchar (of_int d) \<noteq> 0"
  by (drule (1) int_16_cases) (elim disjE; simp add: byte_to_hexchar_def)

lemma hex_digits_nonzero: "0 \<notin> set (hex_digits k n)"
  by (induction k arbitrary: n) (auto simp: hexchar_nonzero [symmetric])

lemma long_to_hex_loop_eq:
  "0 \<le> n \<Longrightarrow> k \<le> length b \<Longrightarrow> long_to_hex_loop k n b 16 = Some (hex_digits k n @ drop k b)"
proof (induction k arbitrary: n b)
  case (Suc k)
  have "n smod 16 = n mod 16" "n sdiv 16 = n div 16"
    using Suc.prems(1)
    by (cases "n = 0"; simp add: signed_modulo_int_eq_modulo_int signed_divide_int_eq_divide_int)+
  moreover have "drop k (b[k := c]) = c # drop (Suc k) b" for c
    using Suc.prems(2) by (simp add: Cons_nth_drop_Suc [symmetric])
  ultimately show ?case
    using Suc by (simp add: Let_def wr_in)
qed simp

lemma hex_to_long_loop_eq:
  "0 \<le> n \<Longrightarrow> n < 16 ^ k \<Longrightarrow> 0 \<le> m \<Longrightarrow> 0 \<le> r \<Longrightarrow> m * 16 ^ k < 2147483648 \<Longrightarrow> r + m * n < 2147483648 \<Longrightarrow>
     hex_to_long_loop (hex_digits k n @ rest) k r m = Some (r + m * n)"
proof (induction k arbitrary: n m r rest)
  case (Suc k)
  let ?d = "n mod 16"
  have n: "n = 16 * (n div 16) + ?d" by simp
  have d: "0 \<le> ?d" "?d < 16" by simp_all
  have q: "0 \<le> n div 16" "n div 16 < 16 ^ k" using Suc.prems by (auto simp: div_less_iff_less_mult)
  have r1: "r + m * n = (r + ?d * m) + (m * 16) * (n div 16)"
    using n by (metis (no_types, opaque_lifting) add.assoc add.commute distrib_left mult.assoc mult.commute)
  have m16: "(m * 16) * 16 ^ k < 2147483648" using Suc.prems(5) by (simp add: mult.assoc)
  have "m * 16 * 1 \<le> (m * 16) * 16 ^ k" using Suc.prems(3) by (intro mult_left_mono) auto
  then have mlt: "m * 16 < 2147483648" using m16 by simp
  have "0 \<le> (m * 16) * (n div 16)" using Suc.prems(3) q by simp
  then have rd: "r + ?d * m < 2147483648" using Suc.prems(6) r1 by linarith
  have dm: "0 \<le> ?d * m" using d Suc.prems(3) by simp
  have c1: "c_int (?d * m) = Some (?d * m)" "c_int (r + ?d * m) = Some (r + ?d * m)"
    using rd dm Suc.prems(4) by (simp_all add: c_int_def)
  have c3: "c_int (m * 16) = Some (m * 16)"
    using mlt Suc.prems(3) by (simp add: c_int_def)
  have "rd (hex_digits (Suc k) n @ rest) k = Some (byte_to_hexchar (of_int ?d))"
    by (simp add: rd_def nth_append)
  then have "hex_to_long_loop (hex_digits (Suc k) n @ rest) (Suc k) r m =
      hex_to_long_loop (hex_digits k (n div 16) @ (byte_to_hexchar (of_int ?d) # rest)) k (r + ?d * m) (m * 16)"
    using hex_digit_char [OF d] c1 c3 by simp
  also have "\<dots> = Some ((r + ?d * m) + (m * 16) * (n div 16))"
    using Suc.prems(3,4,6) q m16 r1 dm by (intro Suc.IH) auto
  finally show ?case by (simp only: r1)
qed simp

text \<open>A number written with at most 7 hexadecimal digits and a terminator is read back.\<close>

theorem hex_roundtrip:
  assumes "0 \<le> n" and "n < 16 ^ k" and "k \<le> 7" and "k < length b" and "b ! k = 0"
  shows "\<exists>b'. long_to_hex n (Some b) (int k) 16 = Some (Some b') \<and> hex_to_long (Some b') = Some n"
proof -
  have l: "long_to_hex n (Some b) (int k) 16 = Some (Some (hex_digits k n @ drop k b))"
    using assms by (simp add: long_to_hex_def long_to_hex_loop_eq)
  have d: "drop k b = 0 # drop (Suc k) b" using assms(4,5) by (simp add: Cons_nth_drop_Suc [symmetric])
  have "terminated (hex_digits k n @ drop k b)" by (simp add: d terminated_def)
  moreover have "c_str (hex_digits k n @ drop k b) = hex_digits k n"
    unfolding d by (rule c_str_append_null [OF hex_digits_nonzero])
  ultimately have "strlen_unsafe (Some (hex_digits k n @ drop k b)) = Some k"
    using assms(3) by (simp add: strlen_unsafe_eq)
  moreover have "16 ^ k \<le> (16 :: int) ^ 7" using assms(3) by (intro power_increasing) simp_all
  then have "(16 :: int) ^ k < 2147483648" by simp
  moreover from this have "n < 2147483648" using assms(2) by linarith
  ultimately have "hex_to_long (Some (hex_digits k n @ drop k b)) = Some n"
    using hex_to_long_loop_eq [OF assms(1,2), of 1 0 "drop k b"] by (simp add: hex_to_long_def)
  with l show ?thesis by blast
qed

theorem hex_roundtrip_witness:
  "\<exists>b'. long_to_hex 4096 (Some [9, 9, 9, 9, 9, 0]) 5 16 = Some (Some b') \<and> hex_to_long (Some b') = Some 4096"
  using hex_roundtrip [of 4096 5 "[9, 9, 9, 9, 9, 0]"] by simp

lemma hex_loop_overflow:
  assumes "list_all (\<lambda>c. hex_digit c \<noteq> None) (take k s)" and "k \<le> length s"
    and "0 \<le> m" and "2147483648 \<le> m * 16 ^ k" and "m < 2147483648"
  shows "hex_to_long_loop s k r m = None"
  using assms
proof (induction k arbitrary: r m)
  case (Suc k)
  have rd: "rd s k = Some (s ! k)" using Suc.prems(2) by (simp add: rd_in)
  have "take (Suc k) s = take k s @ [s ! k]" using Suc.prems(2) by (simp add: take_Suc_conv_app_nth)
  with Suc.prems(1) obtain v where v: "hex_digit (s ! k) = Some v"
    and a: "list_all (\<lambda>c. hex_digit c \<noteq> None) (take k s)" by auto
  show ?case
  proof (cases "m * 16 < 2147483648")
    case True
    then have "hex_to_long_loop s k r' (m * 16) = None" for r'
      using Suc.prems a by (intro Suc.IH) (auto simp: mult.assoc)
    then show ?thesis
      using rd v by (simp add: c_int_def split: bind_splits)
  next
    case False
    then have "c_int (m * 16) = None" by (simp add: c_int_def)
    then show ?thesis using rd v by (simp split: bind_splits)
  qed
qed simp

text \<open>A string of 8 hexadecimal digits or more makes the parser's multiplier leave the signed range:
  the result is undefined, whatever the digits are.\<close>

theorem hex_to_long_eight_digits_overflow:
  assumes "terminated s" and "8 \<le> length (c_str s)" and "length (c_str s) \<le> 100"
    and "list_all (\<lambda>c. hex_digit c \<noteq> None) (c_str s)"
  shows "hex_to_long (Some s) = None"
proof -
  have "(16 :: int) ^ 8 \<le> 16 ^ length (c_str s)" using assms(2) by (intro power_increasing) simp_all
  then have "hex_to_long_loop s (length (c_str s)) 0 1 = None"
    using assms(4) terminated_length [OF assms(1)]
    by (intro hex_loop_overflow) (simp_all add: c_str_prefix)
  then show ?thesis using assms(3) by (simp add: hex_to_long_def strlen_unsafe_eq [OF assms(1)])
qed

theorem hex_to_long_eight_digits_overflow_witness:
  "hex_to_long (Some [0x30, 0x30, 0x30, 0x42, 0x38, 0x30, 0x30, 0x30, 0]) = None"
  by (rule hex_to_long_eight_digits_overflow) (simp_all add: terminated_def hex_digit_def)
subsection \<open>Decimal numbers\<close>

definition dec_char :: "u8 \<Rightarrow> bool" where "dec_char c \<longleftrightarrow> 48 \<le> c \<and> c \<le> 57"

definition decimal :: "u8 list \<Rightarrow> int" where "decimal ds = foldl (\<lambda>n d. 10 * n + (int (unat d) - 48)) 0 ds"

lemma dec_char_value: "dec_char c \<Longrightarrow> 0 \<le> uint c - 48 \<and> uint c - 48 \<le> 9"
  unfolding dec_char_def word_le_def by simp

lemma c_int_place:
  "0 \<le> p \<Longrightarrow> p \<le> 9 * m \<Longrightarrow> 0 \<le> r \<Longrightarrow> r < m \<Longrightarrow> m * 10 < 2147483648 \<Longrightarrow> c_int p = Some p \<and> c_int (r + p) = Some (r + p) \<and> c_int (m * 10) = Some (m * 10)"
  by (simp add: c_int_def)

lemma decimal_snoc: "decimal (ds @ [d]) = 10 * decimal ds + (int (unat d) - 48)"
  by (simp add: decimal_def)

text \<open>The loop reads from the last character on: \<open>m\<close> is the value of the next digit's place.\<close>

lemma atoi_loop_eq:
  "k \<le> length s \<Longrightarrow> 0 \<le> r \<Longrightarrow> r < m \<Longrightarrow> m < 2147483648 \<Longrightarrow>
     atoi_loop s k r m = (let ds = filter dec_char (take k s) in
       if m * 10 ^ length ds < 2147483648 then Some (r + m * decimal ds) else None)"
proof (induction k arbitrary: r m)
  case 0
  then show ?case by (simp add: decimal_def)
next
  case (Suc k)
  let ?v = "int (unat (s ! k)) - 48" and ?ds = "filter dec_char (take k s)"
  have rd: "rd s k = Some (s ! k)" using Suc.prems(1) by (simp add: rd_in)
  have t: "take (Suc k) s = take k s @ [s ! k]" using Suc.prems(1) by (simp add: take_Suc_conv_app_nth)
  show ?case
  proof (cases "dec_char (s ! k)")
    case False
    then show ?thesis using Suc rd t by (auto simp: dec_char_def)
  next
    case True
    have v: "0 \<le> ?v * m" "?v * m \<le> 9 * m" using dec_char_value [OF True] Suc.prems by auto
    have p: "(1 :: int) \<le> 10 ^ length ?ds" by simp
    show ?thesis
    proof (cases "m * 10 < 2147483648")
      case small: True
      have c: "c_int (?v * m) = Some (?v * m)" "c_int (r + ?v * m) = Some (r + ?v * m)" "c_int (m * 10) = Some (m * 10)"
        using c_int_place [OF v Suc.prems(2,3) small] by simp_all
      have "atoi_loop s (Suc k) r m = atoi_loop s k (r + ?v * m) (m * 10)"
        using rd True c by (simp add: dec_char_def)
      also have "\<dots> = (if m * 10 * 10 ^ length ?ds < 2147483648 then Some (r + ?v * m + m * 10 * decimal ?ds) else None)"
      proof (rule Suc.IH [unfolded Let_def])
        show "r + ?v * m < m * 10" using v Suc.prems(3) by linarith
        show "0 \<le> r + ?v * m" using v Suc.prems(2) by linarith
      qed (use Suc.prems(1) small in simp_all)
      finally show ?thesis using True t by (simp add: Let_def decimal_snoc algebra_simps)
    next
      case False
      have "m * 10 \<le> m * 10 ^ length (filter dec_char (take (Suc k) s))" using p Suc.prems True t by (intro mult_left_mono) simp_all
      then have "\<not> m * 10 ^ length (filter dec_char (take (Suc k) s)) < 2147483648" using False by linarith
      moreover have "c_int (m * 10) = None" using False by (simp add: c_int_def)
      then have "atoi_loop s (Suc k) r m = None" using rd True by (simp add: dec_char_def split: bind_splits)
      ultimately show ?thesis by (simp add: Let_def)
    qed
  qed
qed

lemma pow10_bound: "(10 :: int) ^ n < 2147483648 \<longleftrightarrow> n \<le> 9"
proof
  assume "n \<le> 9"
  then have "(10 :: int) ^ n \<le> 10 ^ 9" by (intro power_increasing) simp_all
  then show "(10 :: int) ^ n < 2147483648" by simp
next
  assume a: "(10 :: int) ^ n < 2147483648"
  show "n \<le> 9"
  proof (rule ccontr)
    assume "\<not> n \<le> 9"
    then have "(10 :: int) ^ 10 \<le> 10 ^ n" by (intro power_increasing) simp_all
    then show False using a by simp
  qed
qed

lemma atoi_reads_decimal_ok:
  assumes "terminated s"
  shows "atoi (Some s) = (let ds = (if length (c_str s) \<le> 100 then filter dec_char (c_str s) else []) in
    if length ds \<le> 9 then Some (decimal ds) else None)"
  using terminated_length [OF assms] atoi_loop_eq [of "length (c_str s)" s 0 1] atoi_loop_eq [of 0 s 0 1]
  by (simp add: atoi_def strlen_unsafe_eq [OF assms] c_str_prefix Let_def pow10_bound)

text \<open>Claim C28. The number that \<^verbatim>\<open>atoi\<close> reads is the decimal value of the digits of the string, whatever stands between them (signs
  included); it overflows, on its multiplier, exactly from ten digits on, whatever their value, and a string of more than
  100 characters counts as empty.\<close>

theorem atoi_reads_decimal:
  assumes "terminated s"
  shows "atoi (Some s) = (let ds = (if length (c_str s) \<le> 100 then filter dec_char (c_str s) else []) in
    if length ds \<le> 9 then Some (decimal ds) else None)"
  by (rule atoi_reads_decimal_ok [OF assms])

theorem atoi_reads_decimal_witness: "atoi (Some (map_of_char ''-12'' @ [0])) = Some 12"
  using atoi_reads_decimal [of "map_of_char ''-12'' @ [0]"]
  by (simp add: terminated_def map_of_char_def dec_char_def decimal_def)

end
