(* ===== verification/Util_String.thy ===== *)
theory Util_String
  imports Util
begin

section \<open>String helpers (utils/string.c)\<close>

text \<open>
  Scans over a buffer return the index at which they stop, \<open>None\<close> when they leave the buffer.
  \<^verbatim>\<open>trim_string\<close> works in place: its result is the index of the trimmed string and the memory.
\<close>

text \<open>The loop of \<^verbatim>\<open>append_string\<close> and \<^verbatim>\<open>get_string_size\<close>, which goes on while the character is not 0
  \<^emph>\<open>or\<close> the size is reached.\<close>

fun scan_end :: "u8 list \<Rightarrow> nat \<Rightarrow> u32 \<Rightarrow> nat option" where
  "scan_end [] i sz = None"
| "scan_end (c # cs) i sz = (if c \<noteq> 0 \<or> of_nat i \<ge> sz then scan_end cs (Suc i) sz else Some i)"

definition append_string :: "u8 list option \<Rightarrow> u32 \<Rightarrow> u8 list option \<Rightarrow> u32 \<Rightarrow> u8 list option option" where
  "append_string destination destination_size source src_size = (case (destination, source) of
     (Some d, Some s) \<Rightarrow> do {
       e \<leftarrow> scan_end d 0 destination_size;
       let space_left_in_buffer = destination_size - of_nat e;
       (_, tail) \<leftarrow> mem_copy (Some (drop e d)) (sint (space_left_in_buffer - 1)) (Some s) (sint src_size);
       t \<leftarrow> tail;
       d' \<leftarrow> wr (take e d @ t) (unat (destination_size - 1)) 0;
       Some (Some d')
     }
   | _ \<Rightarrow> Some destination)"

definition get_string_size :: "u8 list option \<Rightarrow> u32 \<Rightarrow> u32 option" where
  "get_string_size buffer_ptr buffer_size = (case buffer_ptr of
     None \<Rightarrow> Some 0
   | Some b \<Rightarrow> do { e \<leftarrow> scan_end b 0 buffer_size; Some (of_nat e) })"

definition strlen_unsafe_logless :: "u8 list option \<Rightarrow> u32 option" where
  "strlen_unsafe_logless input_string = (case input_string of
     None \<Rightarrow> Some 0
   | Some s \<Rightarrow> map_option of_nat (strlen_scan s 0))"

fun skip_spaces :: "u8 list \<Rightarrow> nat \<Rightarrow> nat option" where
  "skip_spaces [] i = None"
| "skip_spaces (c # cs) i = (if c = 32 then skip_spaces cs (Suc i) else Some i)"

text \<open>The loop that overwrites trailing spaces, from the length \<open>len\<close>.\<close>

fun trim_end :: "u8 list \<Rightarrow> nat \<Rightarrow> u8 list option" where
  "trim_end s 0 = Some s"
| "trim_end s (Suc len) = do {
     c \<leftarrow> rd s len;
     if c \<noteq> 32 then Some s else do { s' \<leftarrow> wr s len 0; trim_end s' len }
   }"

definition trim_string :: "u8 list option \<Rightarrow> (nat \<times> u8 list) option option" where
  "trim_string input_string = (case input_string of
     None \<Rightarrow> Some None
   | Some s \<Rightarrow> do {
       start \<leftarrow> skip_spaces s 0;
       len \<leftarrow> strlen_unsafe (Some (drop start s));
       t \<leftarrow> trim_end (drop start s) len;
       Some (Some (start, take start s @ t))
     })"

subsection \<open>Facts\<close>

lemma scan_end_found:
  "terminated s \<Longrightarrow> i + length (c_str s) < unat sz \<Longrightarrow> scan_end s i sz = Some (i + length (c_str s))"
proof (induction s arbitrary: i)
  case (Cons c s)
  have lt: "i < unat sz" using Cons.prems(2) by simp
  then have "unat (of_nat i :: u32) = i" using unat_u32_lt [of sz] by (intro unat_of_nat_u32) linarith
  then have n: "\<not> sz \<le> of_nat i" using lt by (simp add: word_le_nat_alt)
  show ?case
  proof (cases "c = 0")
    case False
    then have "terminated s" using Cons.prems by (simp add: terminated_def)
    then show ?thesis using Cons.IH [of "Suc i"] Cons.prems(2) False by simp
  qed (use n in simp)
qed (simp add: terminated_def)

text \<open>Without a terminator before the size the scan cannot stop: it runs off the buffer.\<close>

lemma scan_end_runs_off:
  assumes "unat sz \<le> i + length (c_str s)" and "i + length s < 4294967296"
  shows "scan_end s i sz = None"
  using assms
proof (induction s arbitrary: i)
  case (Cons c s)
  have u: "unat (of_nat i :: u32) = i" using Cons.prems(2) by (intro unat_of_nat_u32) simp
  show ?case
  proof (cases "c = 0")
    case True
    then have "sz \<le> of_nat i" using Cons.prems(1) u by (simp add: word_le_nat_alt)
    moreover have "scan_end s (Suc i) sz = None"
      using Cons.prems True by (intro Cons.IH) auto
    ultimately show ?thesis by simp
  next
    case False
    then show ?thesis using Cons.IH [of "Suc i"] Cons.prems by simp
  qed
qed simp

lemma c_str_update_after:
  assumes "0 \<notin> set xs" and "length xs < k" and "k < length (xs @ 0 # ys)"
  shows "c_str ((xs @ 0 # ys)[k := v]) = xs"
proof -
  have "k - length xs \<noteq> 0" using assms(2) by simp
  then have "(xs @ 0 # ys)[k := v] = xs @ 0 # ys[k - length xs - 1 := v]"
    using assms(2) by (cases "k - length xs") (auto simp: list_update_append)
  then show ?thesis using c_str_append_null [OF assms(1)] by simp
qed

text \<open>The copied bytes behind the first string, closed by a terminator at the end of the buffer.\<close>

lemma appended_text:
  assumes d: "terminated d" "length (c_str d) < N" "N \<le> length d" and s: "terminated s"
    and k: "k = min (length (c_str s) + 1) (N - length (c_str d) - 1)"
    and X: "X = take (length (c_str d)) d @ take k s @ drop k (drop (length (c_str d)) d)" and lX: "length X = length d"
  shows "c_str (X[N - 1 := 0]) = take (N - 1) (c_str d @ c_str s)"
proof -
  let ?e = "length (c_str d)" and ?n = "length (c_str s)"
  show ?thesis
  proof (cases "?n + 1 \<le> N - ?e - 1")
    case True
    then have "k = ?n + 1" by (simp add: k)
    then have "take k s = c_str s @ [0]"
      using terminated_nth [OF s] terminated_length [OF s] c_str_prefix [of s]
      by (simp add: take_Suc_conv_app_nth)
    then have X': "X = (c_str d @ c_str s) @ 0 # drop k (drop ?e d)" by (simp add: X c_str_prefix)
    have n0: "0 \<notin> set (c_str d @ c_str s)" using c_str_no_null [of d] c_str_no_null [of s] by simp
    have lt: "length (c_str d @ c_str s) < N - 1" using True by simp
    have "N - 1 < length X" using lX d(2,3) by simp
    then have lt': "N - 1 < length ((c_str d @ c_str s) @ 0 # drop k (drop ?e d))" by (simp only: X')
    have "c_str (X[N - 1 := 0]) = c_str d @ c_str s"
      unfolding X' by (rule c_str_update_after [OF n0 lt lt'])
    then show ?thesis using True by simp
  next
    case False
    then have kk: "k = N - ?e - 1" "k \<le> ?n" by (auto simp: k)
    have "take k (take ?n s) = take k s" using kk(2) by (simp add: min_def)
    then have tk: "take k s = take k (c_str s)" by (simp only: c_str_prefix)
    have ek: "?e + k = N - 1" using kk(1) d(2) by simp
    have "drop k (drop ?e d) = d ! (N - 1) # drop (N) d"
      using Cons_nth_drop_Suc [of "N - 1" d] d(2,3) ek by (simp add: add.commute)
    then have X': "X = (c_str d @ take k (c_str s)) @ d ! (N - 1) # drop (N) d"
      by (simp add: X c_str_prefix tk)
    have lp: "length (c_str d @ take k (c_str s)) = N - 1" using ek kk(2) by simp
    have "X[N - 1 := 0] = (c_str d @ take k (c_str s)) @ 0 # drop (N) d"
      unfolding X' lp [symmetric] by (rule list_update_length)
    moreover have "0 \<notin> set (c_str d @ take k (c_str s))"
      using c_str_no_null [of d] c_str_no_null [of s] by (auto dest: in_set_takeD)
    ultimately have "c_str (X[N - 1 := 0]) = c_str d @ take k (c_str s)"
      using c_str_append_null by metis
    also have "\<dots> = take (N - 1) (c_str d @ c_str s)"
      using ek [symmetric] by simp
    finally show ?thesis .
  qed
qed

lemma append_string_ex:
  assumes d: "terminated d" "length (c_str d) < unat sz" "unat sz \<le> length d" "unat sz < 2147483648"
    and s: "terminated s" "length (c_str s) < 2147483647"
  shows "\<exists>d'. append_string (Some d) sz (Some s) (of_nat (length (c_str s) + 1)) = Some (Some d') \<and>
    length d' = length d \<and> terminated d' \<and> c_str d' = take (unat sz - 1) (c_str d @ c_str s)"
proof -
  let ?e = "length (c_str d)" and ?n = "length (c_str s)"
  have e: "scan_end d 0 sz = Some ?e" using scan_end_found [OF d(1), of 0 sz] d(2) by simp
  have ue: "unat (of_nat ?e :: u32) = ?e" using d(2,4) by (intro unat_of_nat_u32) simp
  have "of_nat ?e \<le> sz" using d(2) ue by (simp add: word_le_nat_alt)
  then have sp: "unat (sz - of_nat ?e) = unat sz - ?e" by (simp add: unat_sub ue)
  then have "sz - of_nat ?e \<noteq> 0" using d(2) by auto
  then have sp1: "unat (sz - of_nat ?e - 1) = unat sz - ?e - 1" by (simp add: unat_minus_one sp)
  then have si: "sint (sz - of_nat ?e - 1) = int (unat sz - ?e - 1)"
    using d(4) by (subst sint_u32_small) simp_all
  have un: "unat (of_nat (?n + 1) :: u32) = ?n + 1" using s(2) by (intro unat_of_nat_u32) simp
  then have sn: "sint (of_nat (?n + 1) :: u32) = int (?n + 1)"
    using s(2) sint_u32_small [of "of_nat (?n + 1)"] by (simp only: un)
  obtain k where k: "k = min (?n + 1) (unat sz - ?e - 1)" by simp
  have kn: "nat (min (int (?n + 1)) (int (unat sz - ?e - 1))) = k"
    by (simp only: k of_nat_min [symmetric] nat_int)
  have ks: "k \<le> length s" using terminated_length [OF s(1)] by (simp add: k)
  have kd: "k \<le> length (drop ?e d)" using d(2,3) by (simp add: k)
  have mc: "mem_copy (Some (drop ?e d)) (sint (sz - of_nat ?e - 1)) (Some s) (sint (of_nat (?n + 1) :: u32)) =
      Some (min (int (?n + 1)) (int (unat sz - ?e - 1)), Some (take k s @ drop k (drop ?e d)))"
    unfolding si sn using mem_copy_min [of "int (unat sz - ?e - 1)" "int (?n + 1)" s "drop ?e d"] ks kd
    by (simp add: kn [simplified])
  have sz1: "unat (sz - 1) = unat sz - 1"
  proof -
    have "sz \<noteq> 0" using d(2) by auto
    then show ?thesis by (rule unat_minus_one)
  qed
  obtain X where X: "X = take ?e d @ take k s @ drop k (drop ?e d)" by simp
  have lX: "length X = length d" using ks kd d(2,3) by (simp add: X)
  have "append_string (Some d) sz (Some s) (of_nat (?n + 1)) = Some (Some (X[unat sz - 1 := 0]))"
    using e mc sz1 lX d(2,3) by (simp only: append_string_def) (simp add: Let_def wr_in X)
  moreover have "terminated (X[unat sz - 1 := 0])"
    using lX d(2,3) by (simp add: terminated_def set_update_memI)
  moreover have "c_str (X[unat sz - 1 := 0]) = take (unat sz - 1) (c_str d @ c_str s)"
    by (rule appended_text [OF d(1-3) s(1) k X lX])
  ultimately show ?thesis using lX by (intro exI [of _ "X[unat sz - 1 := 0]"]) simp
qed

text \<open>Appending a string, with its terminator counted as every caller does, gives the two strings one
  after the other, cut to what the buffer holds, always terminated and never outside the buffer.\<close>

theorem append_string_appends:
  assumes "terminated d" and "length (c_str d) < unat sz" and "unat sz \<le> length d" and "unat sz < 2147483648"
    and "terminated s" and "length (c_str s) < 2147483647"
  shows "\<exists>d'. append_string (Some d) sz (Some s) (of_nat (length (c_str s) + 1)) = Some (Some d') \<and>
    length d' = length d \<and> terminated d' \<and> c_str d' = take (unat sz - 1) (c_str d @ c_str s)"
  by (rule append_string_ex [OF assms])

theorem append_string_appends_witness:
  "\<exists>d'. append_string (Some [0x61, 0, 1, 1]) 4 (Some [0x62, 0x63, 0x64, 0]) 4 = Some (Some d') \<and>
    c_str d' = [0x61, 0x62, 0x63]"
  using append_string_appends [of "[0x61, 0, 1, 1]" 4 "[0x62, 0x63, 0x64, 0]"] by (auto simp: terminated_def)

text \<open>On a buffer without a terminator inside its size, the scan of \<^verbatim>\<open>append_string\<close> cannot stop (its
  test against the size is inverted): it reads on behind the buffer. The same holds for
  \<^verbatim>\<open>get_string_size\<close>.\<close>

theorem append_string_unterminated_overruns:
  assumes "unat sz \<le> length (c_str d)" and "length d < 4294967296"
  shows "append_string (Some d) sz (Some s) n = None \<and> get_string_size (Some d) sz = None"
  using scan_end_runs_off [of sz 0 d] assms by (simp add: append_string_def get_string_size_def)

theorem append_string_unterminated_overruns_witness:
  "append_string (Some [0x61, 0x62, 0]) 2 (Some [0]) 1 = None"
  using append_string_unterminated_overruns [of 2 "[0x61, 0x62, 0]" "[0]" 1] by simp

subsection \<open>Trimming\<close>

lemma skip_spaces_eq:
  "terminated s \<Longrightarrow> skip_spaces s i = Some (i + length (takeWhile (\<lambda>c. c = 32) s))"
  by (induction s arbitrary: i) (auto simp: terminated_def)

lemma drop_spaces: "drop (length (takeWhile (\<lambda>c. c = (32 :: u8)) s)) s = dropWhile (\<lambda>c. c = 32) s"
  by (induction s) auto

lemma terminated_dropWhile: "terminated s \<Longrightarrow> terminated (dropWhile (\<lambda>c. c = 32) s)"
  by (induction s) (auto simp: terminated_def)

lemma c_str_dropWhile: "c_str (dropWhile (\<lambda>c. c = 32) s) = dropWhile (\<lambda>c. c = 32) (c_str s)"
  by (induction s) auto

lemma trim_end_eq:
  assumes "len \<le> length s" and "0 \<notin> set (take len s)" and "s ! len = 0" and "len < length s"
  shows "\<exists>t. trim_end s len = Some t \<and> length t = length s \<and>
    c_str t = rev (dropWhile (\<lambda>c. c = 32) (rev (take len s)))"
  using assms
proof (induction len arbitrary: s)
  case 0
  then show ?case by (cases s) auto
next
  case (Suc len)
  have tk: "take (Suc len) s = take len s @ [s ! len]" using Suc.prems by (simp add: take_Suc_conv_app_nth)
  show ?case
  proof (cases "s ! len = 32")
    case True
    let ?s = "s[len := 0]"
    have "take len ?s = take len s" by simp
    moreover have "\<exists>t. trim_end ?s len = Some t \<and> length t = length ?s \<and>
        c_str t = rev (dropWhile (\<lambda>c. c = 32) (rev (take len ?s)))"
      using Suc.prems tk by (intro Suc.IH) auto
    ultimately show ?thesis using True Suc.prems by (simp add: tk rd_in wr_in)
  next
    case False
    have "s = take (Suc len) s @ 0 # drop (Suc (Suc len)) s"
      using Suc.prems by (metis append_take_drop_id Cons_nth_drop_Suc)
    then have "c_str s = take (Suc len) s" using c_str_append_null [OF Suc.prems(2)] by metis
    then show ?thesis using False Suc.prems by (simp add: tk rd_in)
  qed
qed

text \<open>Trimming returns the string without its leading and trailing spaces, in the memory of the
  original.\<close>

theorem trim_string_trims:
  assumes "terminated s" and "length (c_str s) \<le> 100"
  shows "\<exists>start t. trim_string (Some s) = Some (Some (start, t)) \<and> length t = length s \<and>
    c_str (drop start t) = rev (dropWhile (\<lambda>c. c = 32) (rev (dropWhile (\<lambda>c. c = 32) (c_str s))))"
proof -
  let ?start = "length (takeWhile (\<lambda>c. c = 32) s)"
  let ?u = "dropWhile (\<lambda>c. c = 32) s"
  have st: "skip_spaces s 0 = Some ?start" using skip_spaces_eq [OF assms(1), of 0] by simp
  have tu: "terminated ?u" using assms(1) by (rule terminated_dropWhile)
  have cu: "c_str ?u = dropWhile (\<lambda>c. c = 32) (c_str s)" by (rule c_str_dropWhile)
  have lu: "length (c_str ?u) \<le> 100"
    using assms(2) length_dropWhile_le [of "\<lambda>c. c = 32" "c_str s"] by (simp only: cu)
  have len: "strlen_unsafe (Some ?u) = Some (length (c_str ?u))" using lu by (simp add: strlen_unsafe_eq [OF tu])
  have "\<exists>t. trim_end ?u (length (c_str ?u)) = Some t \<and> length t = length ?u \<and>
      c_str t = rev (dropWhile (\<lambda>c. c = 32) (rev (take (length (c_str ?u)) ?u)))"
    using terminated_length [OF tu] terminated_nth [OF tu] c_str_no_null [of ?u]
    by (intro trim_end_eq) (simp_all add: c_str_prefix)
  then obtain t where t: "trim_end ?u (length (c_str ?u)) = Some t" "length t = length ?u"
      "c_str t = rev (dropWhile (\<lambda>c. c = 32) (rev (c_str ?u)))"
    by (auto simp: c_str_prefix)
  have le: "?start \<le> length s" by (rule length_takeWhile_le)
  have "trim_string (Some s) = Some (Some (?start, take ?start s @ t))"
    using st len t(1) by (simp add: trim_string_def drop_spaces)
  moreover have "drop ?start (take ?start s @ t) = t" using le by simp
  moreover have "length (take ?start s @ t) = length s"
    using le t(2) drop_spaces [of s] by (metis append_take_drop_id length_append)
  ultimately show ?thesis using t(3) cu by (intro exI [of _ ?start] exI [of _ "take ?start s @ t"]) simp
qed

theorem trim_string_trims_witness:
  "\<exists>start t. trim_string (Some [32, 0x6C, 0x73, 32, 32, 0]) = Some (Some (start, t)) \<and>
    c_str (drop start t) = [0x6C, 0x73]"
  using trim_string_trims [of "[32, 0x6C, 0x73, 32, 32, 0]"] by (auto simp: terminated_def)

end
