(* ===== verification/Shell_Input.thy ===== *)
theory Shell_Input
  imports Heap_Allocator Util_String
begin

section \<open>The shell: command lines and paths (shell/shell.c, shell/cmd\_*.c)\<close>

text \<open>
  The parts of the shell that work on strings: the loops that cut a line into its words, in place, and the code that
  the commands share to make a path absolute. A pointer into the line is an index into its memory.
\<close>

subsection \<open>Cutting a line into words\<close>

lemma skip_spaces_le: "skip_spaces s i = Some j \<Longrightarrow> i \<le> j"
  by (induction s i rule: skip_spaces.induct) (auto split: if_splits)

text \<open>The loop that counts the arguments, from index \<open>i\<close>.\<close>

function count_args :: "u8 list \<Rightarrow> nat \<Rightarrow> nat \<Rightarrow> nat option" where
  "count_args trimmed_input i len =
     (if i < len
      then do {
        c \<leftarrow> rd trimmed_input i;
        j \<leftarrow> skip_spaces (drop i trimmed_input) i;
        num_of_args \<leftarrow> count_args trimmed_input (Suc j) len;
        Some (if c = 32 then Suc num_of_args else num_of_args)
      }
      else Some 0)"
  by pat_completeness auto
termination
  by (relation "measure (\<lambda>(_, i, len). len - i)") (auto dest: skip_spaces_le)

declare count_args.simps [simp del]

fun word_end :: "u8 list \<Rightarrow> nat \<Rightarrow> nat option" where
  "word_end [] i = None"
| "word_end (c # cs) i = (if c \<noteq> 32 \<and> c \<noteq> 0 then word_end cs (Suc i) else Some i)"

text \<open>The loop that fills \<^verbatim>\<open>argv\<close>: the memory of the line, the start of the next word, the words to come.\<close>

fun split_args :: "u8 list \<Rightarrow> nat \<Rightarrow> nat \<Rightarrow> (u8 list \<times> nat list) option" where
  "split_args input string_start 0 = Some (input, [])"
| "split_args input string_start (Suc n) = do {
     string_end \<leftarrow> word_end (drop string_start input) string_start;
     input \<leftarrow> wr input string_end 0;
     next_start \<leftarrow> skip_spaces (drop (Suc string_end) input) (Suc string_end);
     (input, argv) \<leftarrow> split_args input next_start n;
     Some (input, string_start # argv)
   }"

subsection \<open>Paths\<close>

text \<open>The block that \<^verbatim>\<open>cd\<close>, \<^verbatim>\<open>cat\<close>, \<^verbatim>\<open>ls\<close>, \<^verbatim>\<open>hexdump\<close> and \<^verbatim>\<open>run\<close> have in common.\<close>

definition absolute_path :: "u8 list \<Rightarrow> u8 list \<Rightarrow> u8 list option" where
  "absolute_path current_dir arg = do {
     let abs_path = replicate 100 0;
     c \<leftarrow> rd arg 0;
     n \<leftarrow> strlen_unsafe (Some arg);
     if c = 47
     then do { (_, p) \<leftarrow> mem_copy (Some abs_path) 100 (Some arg) (int n + 1); p }
     else do {
       m \<leftarrow> strlen_unsafe (Some current_dir);
       p \<leftarrow> append_string (Some abs_path) 100 (Some current_dir) (of_nat (m + 1));
       q \<leftarrow> append_string p 100 (Some arg) (of_nat (n + 1));
       q
     }
   }"

definition set_current_dir :: "u8 list \<Rightarrow> u8 list \<Rightarrow> u8 list option" where
  "set_current_dir path current_dir = do {
     n \<leftarrow> strlen_unsafe (Some path);
     (_, p) \<leftarrow> mem_copy (Some current_dir) 100 (Some path) (int n + 1);
     d \<leftarrow> p;
     wr d 99 0
   }"

definition command_cd :: "u8 list \<Rightarrow> u8 list \<Rightarrow> u8 list option" where
  "command_cd arg_path current_dir = do {
     abs_path \<leftarrow> absolute_path current_dir arg_path;
     n \<leftarrow> strlen_unsafe (Some abs_path);
     c \<leftarrow> (if n = 0 then None else rd abs_path (n - 1));
     abs_path \<leftarrow> (if c \<noteq> 47 then do { p \<leftarrow> append_string (Some abs_path) 100 (Some [47, 0]) 2; p } else Some abs_path);
     set_current_dir abs_path current_dir
   }"

text \<open>The commands only read their arguments: \<^verbatim>\<open>argv\<close> is the list of what its pointers point to.\<close>

definition execute__cd :: "int \<Rightarrow> u8 list list \<Rightarrow> u8 list \<Rightarrow> u8 list option" where
  "execute__cd argc argv current_dir =
     (if argc > 1 then do { arg \<leftarrow> rd argv 1; command_cd arg current_dir }
      else command_cd [47, 0] current_dir)"

subsection \<open>The words of a text\<close>

function words :: "u8 list \<Rightarrow> u8 list list" where
  "words x = takeWhile (\<lambda>c. c \<noteq> 32) x #
     (case dropWhile (\<lambda>c. c = 32) (dropWhile (\<lambda>c. c \<noteq> 32) x) of [] \<Rightarrow> [] | c # r \<Rightarrow> words (c # r))"
  by pat_completeness auto
termination
proof (relation "measure length", goal_cases)
  case (2 x c r)
  obtain d e where d: "dropWhile (\<lambda>c. c \<noteq> 32) x = d # e" using 2 by (cases "dropWhile (\<lambda>c. c \<noteq> 32) x") auto
  then have "d = 32" using hd_dropWhile [of "\<lambda>c. c \<noteq> 32" x] by simp
  then have "length (c # r) \<le> length e" using 2 [symmetric] d length_dropWhile_le [of "\<lambda>c. c = 32" e] by simp
  moreover have "length (d # e) \<le> length x" using length_dropWhile_le [of "\<lambda>c. c \<noteq> 32" x] d by simp
  ultimately show ?case by simp
qed simp

declare words.simps [simp del]

fun gaps :: "u8 list \<Rightarrow> nat" where
  "gaps [] = 0"
| "gaps [c] = (if c = 32 then 1 else 0)"
| "gaps (c # d # cs) = (if c = 32 \<and> d \<noteq> 32 then Suc (gaps (d # cs)) else gaps (d # cs))"

abbreviation spaces :: "u8 list \<Rightarrow> u8 list" where "spaces x \<equiv> takeWhile (\<lambda>c. c = 32) x"
abbreviation word :: "u8 list \<Rightarrow> u8 list" where "word x \<equiv> takeWhile (\<lambda>c. c \<noteq> 32) x"
abbreviation next_word :: "u8 list \<Rightarrow> u8 list" where
  "next_word x \<equiv> dropWhile (\<lambda>c. c = 32) (dropWhile (\<lambda>c. c \<noteq> 32) x)"

lemma gaps_word: "32 \<notin> set w \<Longrightarrow> gaps (w @ y) = gaps y"
proof (induction w)
  case (Cons c w)
  then show ?case by (cases "w @ y") auto
qed simp

lemma gaps_spaces: "y = [] \<or> hd y \<noteq> 32 \<Longrightarrow> gaps (replicate (Suc k) 32 @ y) = Suc (gaps y)"
proof (induction k)
  case 0
  then show ?case by (cases y) auto
next
  case (Suc k)
  then show ?case by (cases y) auto
qed

lemma spaces_split: "x = replicate (length (spaces x)) 32 @ dropWhile (\<lambda>c. c = 32) x"
proof -
  have "spaces x = replicate (length (spaces x)) 32"
    by (induction x) auto
  then show ?thesis by (metis takeWhile_dropWhile_id)
qed

lemma hd_next: "dropWhile (\<lambda>c. c = (32 :: u8)) x = [] \<or> hd (dropWhile (\<lambda>c. c = 32) x) \<noteq> 32"
  using hd_dropWhile [of "\<lambda>c. c = 32" x] by blast

lemma gaps_drop_spaces: "spaces x \<noteq> [] \<Longrightarrow> gaps x = Suc (gaps (dropWhile (\<lambda>c. c = 32) x))"
proof -
  assume "spaces x \<noteq> []"
  then obtain k where "length (spaces x) = Suc k" by (cases "spaces x") auto
  then show ?thesis using spaces_split [of x] gaps_spaces [OF hd_next, of k x] by metis
qed

lemma last_dropWhile': "dropWhile P x \<noteq> [] \<Longrightarrow> last (dropWhile P x) = last x"
  by (induction x) auto

lemma spaces_stop: "spaces (y @ 0 # z) = spaces y"
  by (induction y) auto

text \<open>The two shapes of a text: one word, or a word, spaces and the rest.\<close>

lemma one_word:
  assumes "next_word x = []" and "x = [] \<or> last x \<noteq> 32"
  shows "word x = x" and "words x = [x]"
proof -
  let ?y = "dropWhile (\<lambda>c. c \<noteq> 32) x"
  have "?y = []"
  proof (rule ccontr)
    assume y: "?y \<noteq> []"
    have "\<forall>c \<in> set ?y. c = 32" using assms(1) unfolding dropWhile_eq_Nil_conv .
    from bspec [OF this last_in_set [OF y]] have "last x = 32" using last_dropWhile' [OF y] by simp
    then show False using assms(2) y by (metis dropWhile.simps(1))
  qed
  then show w: "word x = x" by (metis append_Nil2 takeWhile_dropWhile_id)
  show "words x = [x]" by (subst words.simps) (simp only: assms(1) list.case w)
qed

lemma more_words:
  assumes "next_word x = c # r"
  shows "\<exists>b. x = word x @ 32 # b @ c # r \<and> (\<forall>s \<in> set b. s = 32)" and "c \<noteq> 32" and "words x = word x # words (c # r)"
    and "last (c # r) = last x"
proof -
  let ?y = "dropWhile (\<lambda>c. c \<noteq> 32) x"
  have y: "?y \<noteq> []"
  proof
    assume "?y = []"
    then have "next_word x = []" by (simp only: dropWhile.simps)
    with assms show False by (simp only: list.distinct)
  qed
  then obtain e where e: "?y = 32 # e" using hd_dropWhile [OF y] by (metis list.collapse)
  have "dropWhile (\<lambda>c. c = 32) e = c # r" using assms unfolding e by simp
  then have s: "spaces e @ c # r = e" using takeWhile_dropWhile_id [of "\<lambda>c. c = 32" e] by simp
  have "word x @ 32 # e = x" using takeWhile_dropWhile_id [of "\<lambda>c. c \<noteq> 32" x] unfolding e .
  then have "x = word x @ 32 # spaces e @ c # r" unfolding s by (rule sym)
  then show "\<exists>b. x = word x @ 32 # b @ c # r \<and> (\<forall>s \<in> set b. s = 32)"
    by (intro exI [of _ "spaces e"] conjI, assumption) (auto dest: set_takeWhileD)
  show "c \<noteq> 32" using hd_next [of ?y] assms by simp
  show "words x = word x # words (c # r)" by (subst words.simps) (simp only: assms list.case)
  show "last (c # r) = last x"
    using last_dropWhile' [OF y] last_dropWhile' [of "\<lambda>c. c = 32" ?y] assms by simp
qed

lemma length_words: "x = [] \<or> last x \<noteq> 32 \<Longrightarrow> length (words x) = Suc (gaps x)"
proof (induction x rule: words.induct)
  case (1 x)
  have w: "32 \<notin> set (word x)" by (auto dest: set_takeWhileD)
  show ?case
  proof (cases "next_word x")
    case Nil
    note one = one_word [OF Nil "1.prems"]
    have "gaps x = 0" using gaps_word [OF w, of "[]"] unfolding one(1) by simp
    then show ?thesis using one(2) by simp
  next
    case (Cons c r)
    obtain b where b: "x = word x @ 32 # b @ c # r" "\<forall>s \<in> set b. s = 32" using more_words(1) [OF Cons] by blast
    note more = more_words(2-4) [OF Cons]
    have "replicate (Suc (length b)) 32 = 32 # b" using b(2) by (simp add: replicate_length_same)
    then have "gaps (32 # b @ c # r) = Suc (gaps (c # r))" using gaps_spaces [of "c # r" "length b"] more(1) by simp
    then have "gaps x = Suc (gaps (c # r))" using gaps_word [OF w, of "32 # b @ c # r"] b(1) by simp
    moreover have "last (c # r) \<noteq> 32" using "1.prems" b(1) more(3) by auto
    then have "length (words (c # r)) = Suc (gaps (c # r))" by (intro "1.IH" [OF Cons] disjI2)
    ultimately show ?thesis using more(2) by simp
  qed
qed

lemma gaps_Cons: "c \<noteq> 32 \<Longrightarrow> gaps (c # x) = gaps x"
  by (cases x) auto

lemma count_args_eq:
  assumes "terminated s" and "i \<le> Suc (length (c_str s))"
  shows "count_args s i (length (c_str s)) = Some (gaps (drop i (c_str s)))"
  using assms(2)
proof (induction "Suc (length (c_str s)) - i" arbitrary: i rule: less_induct)
  case less
  obtain x where x: "x = c_str s" by simp
  show ?case
  proof (cases "i < length x")
    case False
    then show ?thesis by (subst count_args.simps) (simp add: x)
  next
    case True
    obtain z where s: "s = x @ 0 # z"
      using assms(1) terminated_length [OF assms(1)] terminated_nth [OF assms(1)] c_str_prefix [of s] x
      by (metis append_take_drop_id Cons_nth_drop_Suc)
    let ?y = "drop i x" and ?k = "length (spaces (drop i x))"
    have sp: "spaces (drop i s) = spaces ?y" using True spaces_stop [of ?y z] by (simp add: s)
    have t: "terminated (drop i s)" using True by (simp add: terminated_def s)
    have sk: "skip_spaces (drop i s) i = Some (i + ?k)" using skip_spaces_eq [OF t, of i] by (simp add: sp)
    have r: "rd s i = Some (x ! i)" using True by (simp add: rd_def s nth_append)
    have le: "i + ?k \<le> length x" using length_takeWhile_le [of "\<lambda>c. c = 32" ?y] True by simp
    have IH: "count_args s (Suc (i + ?k)) (length x) = Some (gaps (drop (Suc (i + ?k)) x))"
      using less.hyps [of "Suc (i + ?k)"] True le x by simp
    have dw: "dropWhile (\<lambda>c. c = 32) ?y = drop (i + ?k) x" by (simp add: dropWhile_eq_drop add.commute)
    have tl: "gaps (drop (i + ?k) x) = gaps (drop (Suc (i + ?k)) x)"
    proof (cases "i + ?k < length x")
      case lt: True
      then have "drop (i + ?k) x = x ! (i + ?k) # drop (Suc (i + ?k)) x" by (simp add: Cons_nth_drop_Suc)
      moreover from this have "x ! (i + ?k) \<noteq> 32" using hd_next [of ?y] by (simp add: dw)
      ultimately show ?thesis by (simp add: gaps_Cons)
    qed (use le in simp)
    have y: "?y = x ! i # drop (Suc i) x" using True by (simp add: Cons_nth_drop_Suc)
    have "gaps ?y = (if x ! i = 32 then Suc (gaps (drop (i + ?k) x)) else gaps (drop (i + ?k) x))"
    proof (cases "x ! i = 32")
      case c: True
      then have "spaces ?y \<noteq> []" by (simp add: y)
      from gaps_drop_spaces [OF this] show ?thesis using c by (simp add: dw)
    qed (simp add: y)
    then show ?thesis using True r sk IH tl by (subst count_args.simps) (simp flip: x)
  qed
qed

lemma word_end_eq:
  "terminated s \<Longrightarrow> word_end s i = Some (i + length (takeWhile (\<lambda>c. c \<noteq> 32) (c_str s)))"
  by (induction s arbitrary: i) (auto simp: terminated_def)

lemma skip_spaces_ex: "\<exists>c \<in> set s. c \<noteq> 32 \<Longrightarrow> skip_spaces s i = Some (i + length (spaces s))"
  by (induction s arbitrary: i) auto

lemma c_str_decomp:
  assumes "terminated s"
  obtains z where "s = c_str s @ 0 # z"
  using assms terminated_length [OF assms] terminated_nth [OF assms] c_str_prefix [of s]
  by (metis append_take_drop_id Cons_nth_drop_Suc)

text \<open>Cutting: each word is terminated in place, and nothing outside the text changes.\<close>

lemma cut_last_word:
  assumes "0 \<notin> set x" and "32 \<notin> set x" and "\<exists>c \<in> set post. c \<noteq> 32"
  shows "split_args (pre @ x @ 0 # post) (length pre) 1 = Some (pre @ x @ 0 # post, [length pre])"
proof -
  let ?s = "pre @ x @ 0 # post"
  have cx: "c_str (x @ 0 # post) = x" by (rule c_str_append_null [OF assms(1)])
  have wx: "word x = x" using assms(2) by (auto simp: takeWhile_eq_all_conv)
  have we: "word_end (drop (length pre) ?s) (length pre) = Some (length pre + length x)"
    using word_end_eq [of "x @ 0 # post" "length pre"] unfolding cx wx by (simp add: terminated_def)
  have "?s[length pre + length x := 0] = ?s" using list_update_length [of "pre @ x" 0 post 0] by simp
  moreover have "\<exists>j. skip_spaces (drop (Suc (length pre + length x)) ?s) (Suc (length pre + length x)) = Some j"
    using skip_spaces_ex [OF assms(3)] by simp
  ultimately show ?thesis using we by (auto simp: wr_in)
qed

lemma cut_next_word:
  assumes "0 \<notin> set w" and "32 \<notin> set w" and "\<forall>s \<in> set b. s = 32" and "c \<noteq> 32"
  shows "split_args (pre @ w @ 32 # b @ c # r) (length pre) (Suc n) =
    map_option (\<lambda>(m, argv). (m, length pre # argv)) (split_args ((pre @ w @ 0 # b) @ c # r) (length (pre @ w @ 0 # b)) n)"
proof -
  let ?s = "pre @ w @ 32 # b @ c # r" and ?t = "(pre @ w @ 0 # b) @ c # r"
  have we: "word_end (w @ 32 # z) i = Some (i + length w)" for z i
    using assms(1,2) by (induction w arbitrary: i) auto
  have up: "?s[length pre + length w := 0] = ?t" by (simp add: list_update_append)
  have "spaces (b @ c # r) = b" using assms(3,4) by (simp add: takeWhile_append)
  then have sk: "skip_spaces (b @ c # r) (Suc (length pre + length w)) = Some (length (pre @ w @ 0 # b))"
    using skip_spaces_ex [of "b @ c # r"] assms(4) by simp
  have d: "drop (length pre) ?s = w @ 32 # b @ c # r" "drop (Suc (length pre + length w)) ?t = b @ c # r" by simp_all
  show ?thesis
    unfolding split_args.simps d(1) we Option.bind_lunit
    using up sk d(2) by (simp add: wr_in option_bind_tail split_def)
qed

lemma split_args_ok:
  assumes "s = pre @ x @ 0 # post" and "0 \<notin> set x" and "x = [] \<or> last x \<noteq> 32" and "\<exists>c \<in> set post. c \<noteq> 32"
  shows "\<exists>x' argv. split_args s (length pre) (length (words x)) = Some (pre @ x' @ 0 # post, argv) \<and>
    length x' = length x \<and> length argv = length (words x) \<and> argv ! 0 = length pre \<and>
    (\<forall>i < length argv. length pre \<le> argv ! i \<and> argv ! i \<le> length pre + length x \<and>
       c_str (drop (argv ! i) (pre @ x' @ 0 # post)) = words x ! i)"
  using assms
proof (induction x arbitrary: s pre rule: words.induct)
  case (1 x)
  obtain w where w: "w = word x" by simp
  have w32: "32 \<notin> set w" unfolding w by (auto dest: set_takeWhileD)
  have w0: "0 \<notin> set w" using "1.prems"(2) by (auto simp: w dest: set_takeWhileD)
  show ?case
  proof (cases "next_word x")
    case Nil
    note one = one_word [OF Nil "1.prems"(3)]
    have x32: "32 \<notin> set x" using w32 unfolding w one(1) .
    have "c_str (drop (length pre) s) = x" using "1.prems"(1) c_str_append_null [OF "1.prems"(2)] by simp
    then show ?thesis
      using cut_last_word [OF "1.prems"(2) x32 "1.prems"(4), of pre] "1.prems"(1) one(2)
      by (intro exI [of _ x] exI [of _ "[length pre]"]) (auto simp: less_Suc_eq_0_disj)
  next
    case (Cons c r)
    obtain b where b: "x = w @ 32 # b @ c # r" "\<forall>s \<in> set b. s = 32" using more_words(1) [OF Cons] unfolding w by blast
    note more = more_words(2-4) [OF Cons]
    let ?pre = "pre @ w @ 0 # b" and ?q = "c # r"
    have q: "0 \<notin> set ?q" "last ?q \<noteq> 32" using "1.prems"(2,3) more(3) b(1) by auto
    obtain q' argv where IH: "split_args (?pre @ ?q @ 0 # post) (length ?pre) (length (words ?q)) = Some (?pre @ q' @ 0 # post, argv)"
        "length q' = length ?q" "length argv = length (words ?q)"
        "\<forall>i < length argv. length ?pre \<le> argv ! i \<and> argv ! i \<le> length ?pre + length ?q \<and>
           c_str (drop (argv ! i) (?pre @ q' @ 0 # post)) = words ?q ! i"
      using "1.IH" [OF Cons refl q(1) disjI2 [OF q(2)] "1.prems"(4), of ?pre] by metis
    have s: "s = pre @ w @ 32 # b @ c # r @ 0 # post" using "1.prems"(1) b(1) by simp
    have l: "length (words x) = Suc (length (words ?q))" using more(2) by simp
    let ?x' = "w @ 0 # b @ q'"
    have "split_args s (length pre) (length (words x)) = Some (pre @ ?x' @ 0 # post, length pre # argv)"
      unfolding s l cut_next_word [OF w0 w32 b(2) more(1)] using IH(1) by simp
    moreover have "c_str (drop (length pre) (pre @ ?x' @ 0 # post)) = w"
      using c_str_append_null [OF w0, of "b @ q' @ 0 # post"] by simp
    moreover have "length ?x' = length x" "length x = length w + Suc (length b) + length ?q" using IH(2) b(1) by simp_all
    moreover have "words x = w # words ?q" using more(2) w by simp
    ultimately show ?thesis using IH(3,4)
      by (intro exI [of _ ?x'] exI [of _ "length pre # argv"]) (auto simp: less_Suc_eq_0_disj nth_Cons split: nat.split)
  qed
qed

definition strip :: "u8 list \<Rightarrow> u8 list" where
  "strip y = rev (dropWhile (\<lambda>c. c = 32) (rev (dropWhile (\<lambda>c. c = 32) y)))"

lemma strip_last: "strip y = [] \<or> last (strip y) \<noteq> 32"
  using hd_next [of "rev (dropWhile (\<lambda>c. c = 32) y)"] by (auto simp: strip_def last_rev)

lemma length_strip: "length (strip y) \<le> length y"
  using length_dropWhile_le [of "\<lambda>c. c = 32" "rev (dropWhile (\<lambda>c. c = 32) y)"] length_dropWhile_le [of "\<lambda>c. c = 32" y]
  by (simp add: strip_def)

lemma set_strip: "set (strip y) \<subseteq> set y"
  by (auto simp: strip_def dest!: set_dropWhileD)

lemma trim_end_shape:
  assumes "0 \<notin> set y"
  shows "\<exists>k. trim_end (y @ 0 # z) (length y) =
    Some (rev (dropWhile (\<lambda>c. c = 32) (rev y)) @ 0 # replicate k 0 @ z) \<and>
    length (rev (dropWhile (\<lambda>c. c = 32) (rev y))) + k = length y"
  using assms
proof (induction y arbitrary: z rule: rev_induct)
  case (snoc c y)
  show ?case
  proof (cases "c = 32")
    case True
    have "rd ((y @ [c]) @ 0 # z) (length y) = Some 32" using True by (simp add: rd_def)
    moreover have "wr ((y @ [c]) @ 0 # z) (length y) 0 = Some (y @ 0 # 0 # z)" by (simp add: wr_def)
    moreover obtain k where "trim_end (y @ 0 # 0 # z) (length y) =
        Some (rev (dropWhile (\<lambda>c. c = 32) (rev y)) @ 0 # replicate k 0 @ 0 # z)"
        "length (rev (dropWhile (\<lambda>c. c = 32) (rev y))) + k = length y"
      using snoc.IH [of "0 # z"] snoc.prems by auto
    ultimately show ?thesis using True by (intro exI [of _ "Suc k"]) (simp add: replicate_append_same)
  next
    case False
    then show ?thesis by (intro exI [of _ 0]) (simp add: rd_def)
  qed
qed (intro exI [of _ 0], simp)

lemma trim_string_shape:
  assumes "0 \<notin> set y" and "length y \<le> 100"
  shows "\<exists>k. trim_string (Some (y @ 0 # z)) =
    Some (Some (length (spaces y), spaces y @ strip y @ 0 # replicate k 0 @ z)) \<and>
    length (spaces y) + length (strip y) + k = length y"
proof -
  let ?u = "dropWhile (\<lambda>c. c = 32) y"
  have t: "terminated (y @ 0 # z)" by (simp add: terminated_def)
  have sk: "skip_spaces (y @ 0 # z) 0 = Some (length (spaces y))"
    using skip_spaces_eq [OF t, of 0] by (simp add: spaces_stop)
  have dr: "drop (length (spaces y)) (y @ 0 # z) = ?u @ 0 # z"
    by (simp add: dropWhile_eq_drop length_takeWhile_le)
  have tk: "take (length (spaces y)) (y @ 0 # z) = spaces y"
    using takeWhile_eq_take [of "\<lambda>c. c = 32" y] length_takeWhile_le [of "\<lambda>c. c = 32" y] by simp
  have u0: "0 \<notin> set ?u" using assms(1) by (auto dest: set_dropWhileD)
  have "c_str (?u @ 0 # z) = ?u" by (rule c_str_append_null [OF u0])
  then have sl: "strlen_unsafe (Some (?u @ 0 # z)) = Some (length ?u)"
    using strlen_unsafe_eq [of "?u @ 0 # z"] length_dropWhile_le [of "\<lambda>c. c = 32" y] assms(2)
    by (simp add: terminated_def)
  obtain k where k: "trim_end (?u @ 0 # z) (length ?u) = Some (strip y @ 0 # replicate k 0 @ z)"
      "length (strip y) + k = length ?u"
    using trim_end_shape [OF u0, of z] by (auto simp: strip_def)
  have "length y = length (spaces y) + length ?u" by (metis length_append takeWhile_dropWhile_id)
  moreover have "trim_string (Some (y @ 0 # z)) = Some (Some (length (spaces y), spaces y @ strip y @ 0 # replicate k 0 @ z))"
    unfolding trim_string_def option.case sk Option.bind_lunit dr sl k(1) tk by simp
  ultimately show ?thesis using k(2) by (intro exI [of _ k]) (simp only: add.assoc)
qed

text \<open>The line is cut exactly at its spaces: the arguments counted are its words, and each entry of \<^verbatim>\<open>argv\<close> points to
  one, terminated, inside the memory of the line. (A byte that is no space must follow the line: the code skips
  spaces behind the terminator too.)\<close>

lemma parse_words:
  assumes "0 \<notin> set y" and "length y \<le> 100" and "\<exists>c \<in> set z. c \<noteq> 32"
  shows "\<exists>start m m' argv. trim_string (Some (y @ 0 # z)) = Some (Some (start, m)) \<and>
    strlen_unsafe (Some (drop start m)) = Some (length (strip y)) \<and>
    count_args (drop start m) 0 (length (strip y)) = Some (length (words (strip y)) - 1) \<and>
    split_args m start (length (words (strip y))) = Some (m', argv) \<and>
    length m' = length (y @ 0 # z) \<and> drop (length y) m' = 0 # z \<and> length argv = length (words (strip y)) \<and>
    argv ! 0 = length (spaces y) \<and> (\<forall>i < length argv. argv ! i \<le> length y \<and> terminated (drop (argv ! i) m') \<and> c_str (drop (argv ! i) m') = words (strip y) ! i)"
proof -
  let ?x = "strip y"
  obtain k where k: "trim_string (Some (y @ 0 # z)) = Some (Some (length (spaces y), spaces y @ ?x @ 0 # replicate k 0 @ z))"
      "length (spaces y) + length ?x + k = length y"
    using trim_string_shape [OF assms(1,2)] by blast
  let ?m = "spaces y @ ?x @ 0 # replicate k 0 @ z"
  have x0: "0 \<notin> set ?x" using set_strip assms(1) by blast
  have ne: "\<exists>c \<in> set (replicate k 0 @ z). c \<noteq> 32" using assms(3) by auto
  obtain x' argv where s: "split_args ?m (length (spaces y)) (length (words ?x)) = Some (spaces y @ x' @ 0 # replicate k 0 @ z, argv)"
      "length x' = length ?x" "length argv = length (words ?x)" "argv ! 0 = length (spaces y)"
      "\<forall>i < length argv. length (spaces y) \<le> argv ! i \<and> argv ! i \<le> length (spaces y) + length ?x \<and>
         c_str (drop (argv ! i) (spaces y @ x' @ 0 # replicate k 0 @ z)) = words ?x ! i"
    using split_args_ok [OF refl x0 strip_last ne, of "spaces y"] by metis
  let ?m' = "spaces y @ x' @ 0 # replicate k 0 @ z"
  have dm: "drop (length (spaces y)) ?m = ?x @ 0 # replicate k 0 @ z" by simp
  have cx: "c_str (?x @ 0 # replicate k 0 @ z) = ?x" by (rule c_str_append_null [OF x0])
  have tx: "terminated (?x @ 0 # replicate k 0 @ z)" by (simp add: terminated_def)
  have "length ?x \<le> 100" using length_strip [of y] assms(2) by simp
  then have sl: "strlen_unsafe (Some (drop (length (spaces y)) ?m)) = Some (length ?x)"
    using strlen_unsafe_eq [OF tx] by (simp add: cx)
  have ct: "count_args (drop (length (spaces y)) ?m) 0 (length ?x) = Some (length (words ?x) - 1)"
    using count_args_eq [OF tx, of 0] length_words [OF strip_last, of y] unfolding dm cx by simp
  have dl: "drop (length y) ?m' = 0 # z"
  proof -
    have e: "length y = length (spaces y @ x') + k" using k(2) s(2) by simp
    have "drop (length y) ((spaces y @ x') @ 0 # replicate k 0 @ z) = drop k (0 # replicate k 0 @ z)"
      unfolding e by (simp only: drop_append) simp
    then have "drop (length y) ?m' = drop k (0 # replicate k 0 @ z)" by simp
    also have "\<dots> = drop k (replicate k 0 @ 0 # z)" by (simp add: replicate_app_Cons_same)
    finally show ?thesis by simp
  qed
  have tm: "terminated (drop a ?m')" if "a \<le> length y" for a
  proof -
    have "drop (length y) M = drop (length y - a) (drop a M)" for M :: "u8 list" using that by simp
    then have "0 \<in> set (drop (length y - a) (drop a ?m'))" using dl by (metis list.set_intros(1))
    then show ?thesis unfolding terminated_def by (rule in_set_dropD)
  qed
  have l: "length ?m' = length (y @ 0 # z)" using s(2) k(2) by simp
  have le: "argv ! i \<le> length y" if "i < length argv" for i
  proof -
    have "argv ! i \<le> length (spaces y) + length ?x" using s(5) that by blast
    then show ?thesis using k(2) by linarith
  qed
  have "\<forall>i < length argv. argv ! i \<le> length y \<and> terminated (drop (argv ! i) ?m') \<and> c_str (drop (argv ! i) ?m') = words ?x ! i"
    using le tm [OF le] s(5) by blast
  from k(1) sl ct s(1) l dl s(3,4) this show ?thesis by (intro exI conjI)
qed

subsection \<open>Facts about paths\<close>

text \<open>Where a path leads from a directory.\<close>

definition path_from :: "u8 list \<Rightarrow> u8 list \<Rightarrow> u8 list" where
  "path_from dir arg = take 99 (if hd arg = 47 then arg else dir @ arg)"

definition with_slash :: "u8 list \<Rightarrow> u8 list" where
  "with_slash p = take 99 (if last p = 47 then p else p @ [47])"

definition path_buffer :: "u8 list \<Rightarrow> bool" where
  "path_buffer d \<longleftrightarrow> length d = 100 \<and> terminated d"

lemma copied_string:
  assumes "terminated s" and "length (c_str s) < n" and "length d = n"
  shows "mem_copy (Some d) (int n) (Some s) (int (length (c_str s)) + 1) =
      Some (int (length (c_str s)) + 1, Some (c_str s @ 0 # drop (Suc (length (c_str s))) d))"
proof -
  let ?k = "length (c_str s)"
  have l: "?k < length s" by (rule terminated_length [OF assms(1)])
  have n: "nat (int ?k + 1) = Suc ?k" by simp
  have "take (Suc ?k) s = c_str s @ [0]"
    using terminated_nth [OF assms(1)] l by (simp add: take_Suc_conv_app_nth c_str_prefix)
  then show ?thesis using mem_copy_eq [of "int ?k + 1" s d "int n"] l assms(2,3) by (simp add: n)
qed

lemma absolute_path_ok:
  assumes "path_buffer dir" and "terminated arg" and "c_str arg \<noteq> []" and "length (c_str arg) \<le> 99"
  shows "\<exists>p. absolute_path dir arg = Some p \<and> path_buffer p \<and> c_str p = path_from (c_str dir) (c_str arg)"
proof -
  obtain c as where a: "arg = c # as" using assms(2) by (cases arg) (auto simp: terminated_def)
  have c0: "c \<noteq> 0" using assms(3) a by auto
  have h: "hd (c_str arg) = c" using a c0 by simp
  obtain n where n: "n = length (c_str arg)" by simp
  have sn: "strlen_unsafe (Some arg) = Some n" using strlen_unsafe_eq [OF assms(2)] assms(4) n by simp
  have dl: "length (c_str dir) < 100" using terminated_length [of dir] assms(1) by (simp add: path_buffer_def)
  show ?thesis
  proof (cases "c = 47")
    case True
    let ?p = "c_str arg @ 0 # drop (Suc n) (replicate 100 0)"
    have "mem_copy (Some (replicate 100 0)) 100 (Some arg) (int n + 1) = Some (int n + 1, Some ?p)"
      using copied_string [OF assms(2), of 100 "replicate 100 0"] assms(4) n by simp
    then have "absolute_path dir arg = Some ?p"
      using sn True unfolding absolute_path_def by (simp add: a)
    moreover have "path_buffer ?p" using assms(4) n by (simp add: path_buffer_def terminated_def)
    moreover have "c_str ?p = c_str arg" by (rule c_str_append_null [OF c_str_no_null])
    ultimately show ?thesis using True assms(4) h by (intro exI [of _ ?p]) (simp add: path_from_def)
  next
    case False
    have sd: "strlen_unsafe (Some dir) = Some (length (c_str dir))"
      using strlen_unsafe_eq [of dir] assms(1) dl by (simp add: path_buffer_def)
    have z: "terminated (replicate 100 (0 :: u8))" "c_str (replicate 100 (0 :: u8)) = []"
      by (simp_all add: terminated_def)
    obtain p where p: "append_string (Some (replicate 100 0)) 100 (Some dir) (of_nat (length (c_str dir) + 1)) = Some (Some p)"
        "length p = 100" "terminated p" "c_str p = take 99 (c_str dir)"
      using append_string_ex [OF z(1), of 100 dir] z(2) dl assms(1) by (auto simp: path_buffer_def)
    have pd: "c_str p = c_str dir" using p(4) dl by simp
    obtain q where q: "append_string (Some p) 100 (Some arg) (of_nat (n + 1)) = Some (Some q)"
        "length q = 100" "terminated q" "c_str q = take 99 (c_str dir @ c_str arg)"
      using append_string_ex [OF p(3), of 100 arg] p(2) dl assms(2,4) n unfolding pd by auto
    have "absolute_path dir arg = Some q"
      using sn sd p(1) q(1) False unfolding absolute_path_def by (simp add: a)
    then show ?thesis using q False h by (intro exI [of _ q]) (simp add: path_from_def path_buffer_def)
  qed
qed

lemma set_current_dir_ok:
  assumes "path_buffer p" and "path_buffer d"
  shows "\<exists>d'. set_current_dir p d = Some d' \<and> path_buffer d' \<and> c_str d' = c_str p"
proof -
  let ?n = "length (c_str p)"
  have n: "?n < 100" using terminated_length [of p] assms(1) by (simp add: path_buffer_def)
  have sp: "strlen_unsafe (Some p) = Some ?n" using strlen_unsafe_eq [of p] assms(1) n by (simp add: path_buffer_def)
  let ?e = "c_str p @ 0 # drop (Suc ?n) d"
  have mc: "mem_copy (Some d) 100 (Some p) (int ?n + 1) = Some (int ?n + 1, Some ?e)"
    using copied_string [of p 100 d] assms n by (simp add: path_buffer_def)
  have l: "length ?e = 100" using assms(2) n by (simp add: path_buffer_def)
  have "c_str (?e[99 := 0]) = c_str p"
  proof (cases "?n = 99")
    case True
    then have "?e[99 := 0] = ?e" by (metis list_update_length)
    then show ?thesis using c_str_append_null [OF c_str_no_null, of p] by simp
  next
    case False
    then show ?thesis using c_str_update_after [OF c_str_no_null, of p 99 "drop (Suc ?n) d"] n l by simp
  qed
  moreover have "terminated (?e[99 := 0])" using l by (simp add: terminated_def set_update_memI)
  ultimately show ?thesis using sp mc l
    by (intro exI [of _ "?e[99 := 0]"]) (simp add: set_current_dir_def wr_in path_buffer_def)
qed

lemma command_cd_ok:
  assumes "path_buffer dir" and "terminated arg" and "c_str arg \<noteq> []" and "length (c_str arg) \<le> 99"
  shows "\<exists>d. command_cd arg dir = Some d \<and> path_buffer d \<and> c_str d = with_slash (path_from (c_str dir) (c_str arg))"
proof -
  obtain p where p: "absolute_path dir arg = Some p" "path_buffer p" "c_str p = path_from (c_str dir) (c_str arg)"
    using absolute_path_ok [OF assms] by blast
  let ?n = "length (c_str p)"
  have n: "?n < 100" "?n < length p" using terminated_length [of p] p(2) by (simp_all add: path_buffer_def)
  have n0: "c_str p \<noteq> []" using p(3) assms(3) by (simp add: path_from_def)
  have sp: "strlen_unsafe (Some p) = Some ?n" using strlen_unsafe_eq [of p] p(2) n by (simp add: path_buffer_def)
  have "p ! (?n - 1) = c_str p ! (?n - 1)"
    using n0 nth_take [of "?n - 1" ?n p] by (simp add: c_str_prefix)
  then have rdl: "rd p (?n - 1) = Some (last (c_str p))" using n0 n by (simp add: rd_in last_conv_nth)
  obtain q where q: "(if last (c_str p) \<noteq> 47 then do { p \<leftarrow> append_string (Some p) 100 (Some [47, 0]) 2; p } else Some p) = Some q"
      "path_buffer q" "c_str q = with_slash (c_str p)"
  proof (cases "last (c_str p) = 47")
    case True
    then show ?thesis using that [of p] p(2) n by (simp add: with_slash_def)
  next
    case False
    have "terminated [47, 0 :: u8]" by (simp add: terminated_def)
    then obtain q where "append_string (Some p) 100 (Some [47, 0]) 2 = Some (Some q)" "length q = 100" "terminated q"
        "c_str q = take 99 (c_str p @ [47])"
      using append_string_ex [of p 100 "[47, 0]"] p(2) n by (auto simp: path_buffer_def)
    then show ?thesis using that [of q] False by (simp add: with_slash_def path_buffer_def)
  qed
  obtain d where d: "set_current_dir q dir = Some d" "path_buffer d" "c_str d = c_str q"
    using set_current_dir_ok [OF q(2) assms(1)] by blast
  have "command_cd arg dir = Some d"
    unfolding command_cd_def p(1) Option.bind_lunit sp using n0 rdl q(1) d(1) by simp
  then show ?thesis using d q(3) p(3) by simp
qed

text \<open>Claim C20. \<^verbatim>\<open>cd\<close> leads to the absolute path of its argument, taken from the current directory when it is relative, with a
  \<^verbatim>\<open>/\<close> at its end, cut to 99 characters; without an argument it leads to the root. It never leaves its buffers.\<close>

theorem cd_changes_directory:
  assumes "path_buffer dir" and "argc > 1 \<Longrightarrow> 1 < length argv \<and> terminated (argv ! 1) \<and> c_str (argv ! 1) \<noteq> [] \<and>
    length (c_str (argv ! 1)) \<le> 99"
  shows "\<exists>d. execute__cd argc argv dir = Some d \<and> path_buffer d \<and>
    c_str d = (if argc > 1 then with_slash (path_from (c_str dir) (c_str (argv ! 1))) else [47])"
proof (cases "argc > 1")
  case True
  from assms(2) [OF True] show ?thesis
    using command_cd_ok [OF assms(1), of "argv ! 1"] True by (simp add: execute__cd_def rd_in Let_def)
next
  case False
  have "terminated [47, 0 :: u8]" by (simp add: terminated_def)
  then show ?thesis
    using command_cd_ok [OF assms(1), of "[47, 0]"] False by (simp add: execute__cd_def path_from_def with_slash_def)
qed

theorem cd_changes_directory_witness:
  "\<exists>d. execute__cd 2 [[0x63, 0x64, 0], [0x6D, 0x6E, 0x74, 0]] (47 # replicate 99 0) = Some d \<and> c_str d = [47, 0x6D, 0x6E, 0x74, 47]"
proof -
  have "path_buffer (47 # replicate 99 0)" by (simp add: path_buffer_def terminated_def)
  from cd_changes_directory [OF this, of 2 "[[0x63, 0x64, 0], [0x6D, 0x6E, 0x74, 0]]"]
  show ?thesis by (auto simp: terminated_def path_from_def with_slash_def replicate_Suc [of 98, simplified])
qed

end
