(* ===== verification/Vga.thy ===== *)
theory Vga
  imports C_String
begin

section \<open>The VGA text display and the serial line (drivers/poors\_man\_VGA\_driver.c, arch/x86-32/COM\_port.c, tty.c)\<close>

text \<open>
  The machine as the drivers see it: the bytes at \<^verbatim>\<open>0xB8000\<close>, indexed by the 16-bit positions the driver computes, and
  the bytes written to I/O ports, in order. What a port answers to a read is an argument of the functions that read.
\<close>

record machine =
  vga_ram :: "u16 \<Rightarrow> u8"
  port_writes :: "(u16 \<times> u8) list"

definition write_byte_to_IO_port :: "u16 \<Rightarrow> u8 \<Rightarrow> machine \<Rightarrow> machine" where
  "write_byte_to_IO_port port val m = m\<lparr>port_writes := port_writes m @ [(port, val)]\<rparr>"

definition VGA_TEXTMODE_WIDTH :: nat where "VGA_TEXTMODE_WIDTH = 80"
definition CRTC_CONTROLLER_ADDRESS :: u16 where "CRTC_CONTROLLER_ADDRESS = 0x3D4"
definition CRTC_CONTROLLER_DATA :: u16 where "CRTC_CONTROLLER_DATA = 0x3D5"
definition CRTC_REG_CURSOR_LOCATION_HIGH :: u8 where "CRTC_REG_CURSOR_LOCATION_HIGH = 0xE"
definition CRTC_REG_CURSOR_LOCATION_LOW :: u8 where "CRTC_REG_CURSOR_LOCATION_LOW = 0xF"
definition DEFAULT_BACKGROUND_COLOR :: u8 where "DEFAULT_BACKGROUND_COLOR = 0"
definition DEFAULT_FOREGROUND_COLOR :: u8 where "DEFAULT_FOREGROUND_COLOR = 7"

definition set_cursor_position :: "u16 \<Rightarrow> u16 \<Rightarrow> machine \<Rightarrow> machine" where
  "set_cursor_position x y m =
     (let offset = (ucast y * of_nat VGA_TEXTMODE_WIDTH + ucast x :: u32);
          m = write_byte_to_IO_port CRTC_CONTROLLER_ADDRESS CRTC_REG_CURSOR_LOCATION_LOW m;
          m = write_byte_to_IO_port CRTC_CONTROLLER_DATA (ucast offset) m;
          m = write_byte_to_IO_port CRTC_CONTROLLER_ADDRESS CRTC_REG_CURSOR_LOCATION_HIGH m
      in write_byte_to_IO_port CRTC_CONTROLLER_DATA (ucast (drop_bit 8 offset)) m)"

definition print_char_to_VGA_display_buffer :: "u16 \<Rightarrow> u8 \<Rightarrow> u8 \<Rightarrow> u8 \<Rightarrow> machine \<Rightarrow> machine" where
  "print_char_to_VGA_display_buffer position chr background_color foreground_color m =
     (let position = position * 2
      in m\<lparr>vga_ram := (vga_ram m)(position := chr, position + 1 := push_bit 4 background_color + foreground_color)\<rparr>)"

definition print_char_to_VGA_display :: "u8 \<Rightarrow> u8 \<Rightarrow> u8 \<Rightarrow> u8 \<Rightarrow> u8 \<Rightarrow> machine \<Rightarrow> machine" where
  "print_char_to_VGA_display x y chr background_color foreground_color m =
     (let position = (ucast y * of_nat VGA_TEXTMODE_WIDTH + ucast x :: u32)
      in print_char_to_VGA_display_buffer (ucast position) chr background_color foreground_color m)"

definition print_string_to_VGA_display_buffer :: "u16 \<Rightarrow> u8 list \<Rightarrow> nat \<Rightarrow> machine \<Rightarrow> machine option" where
  "print_string_to_VGA_display_buffer position string string_size m =
     for_loop 0 string_size
       (\<lambda>i m. do {
          c \<leftarrow> rd string i;
          Some (print_char_to_VGA_display_buffer (position + of_nat i) c DEFAULT_BACKGROUND_COLOR DEFAULT_FOREGROUND_COLOR m)
        }) m"

subsection \<open>The serial line\<close>

definition COM1_PORT :: u16 where "COM1_PORT = 0x3F8"
definition LSR_DATA_READY :: u8 where "LSR_DATA_READY = 0x01"

definition COM_port_TX :: "u8 \<Rightarrow> machine \<Rightarrow> machine" where
  "COM_port_TX data m =
     (let m = write_byte_to_IO_port COM1_PORT data m
      in if data = 13 then write_byte_to_IO_port COM1_PORT 10 m else m)"

text \<open>\<^verbatim>\<open>COM_port_RX\<close> reads the line status and, when a byte is there, the data port.\<close>

definition COM_port_RX :: "u8 \<Rightarrow> u8 \<Rightarrow> u8" where
  "COM_port_RX line_status data = (if line_status AND LSR_DATA_READY = 0 then 0xff else data)"

definition tty_write :: "u8 \<Rightarrow> machine \<Rightarrow> machine" where "tty_write = COM_port_TX"

definition tty_read :: "u8 \<Rightarrow> u8 \<Rightarrow> u8" where "tty_read = COM_port_RX"

subsection \<open>Cells of the screen\<close>

text \<open>The character in column \<open>x\<close> of row \<open>y\<close>, and its colour.\<close>

definition cell_at :: "nat \<Rightarrow> nat \<Rightarrow> u16" where "cell_at x y = of_nat (2 * (80 * y + x))"

definition shown :: "machine \<Rightarrow> nat \<Rightarrow> nat \<Rightarrow> u8" where "shown m x y = vga_ram m (cell_at x y)"

lemma unat_of_nat_u16: "n < 65536 \<Longrightarrow> unat (of_nat n :: u16) = n"
  by (simp add: unsigned_of_nat take_bit_nat_def)

lemma unat_cell_at:
  assumes "x < 80" and "y < 25"
  shows "unat (cell_at x y) = 2 * (80 * y + x)" and "unat (cell_at x y + 1) = 2 * (80 * y + x) + 1"
proof -
  show u: "unat (cell_at x y) = 2 * (80 * y + x)"
    unfolding cell_at_def by (rule unat_of_nat_u16) (use assms in simp)
  then show "unat (cell_at x y + 1) = 2 * (80 * y + x) + 1"
    using unat_add_lt [of "cell_at x y" 1] assms by simp
qed

lemma cell_at_inj:
  assumes "x < 80" and "y < 25" and "x' < 80" and "y' < 25"
  shows "cell_at x y = cell_at x' y' \<longleftrightarrow> x = x' \<and> y = y'"
proof
  assume "cell_at x y = cell_at x' y'"
  then have "2 * (80 * y + x) = 2 * (80 * y' + x')"
    using unat_cell_at(1) [OF assms(1,2)] unat_cell_at(1) [OF assms(3,4)] by (simp only:)
  then have e: "80 * y + x = 80 * y' + x'" by simp
  have "(80 * y + x) div 80 = y" "(80 * y' + x') div 80 = y'" using assms by simp_all
  with e have "y = y'" by metis
  with e show "x = x' \<and> y = y'" by simp
qed simp

lemma cell_at_colour:
  assumes "x < 80" and "y < 25" and "x' < 80" and "y' < 25"
  shows "cell_at x y \<noteq> cell_at x' y' + 1"
proof
  assume "cell_at x y = cell_at x' y' + 1"
  then have "2 * (80 * y + x) = 2 * (80 * y' + x') + 1"
    using unat_cell_at(1) [OF assms(1,2)] unat_cell_at(2) [OF assms(3,4)] by (simp only:)
  then have "even (2 * (80 * y' + x') + 1)" by (metis dvd_triv_left)
  then show False by simp
qed

text \<open>Printing a character on the screen changes its cell and no other.\<close>

lemma print_char_position:
  assumes "x < 80" and "y < 25"
  shows "(ucast (ucast (of_nat y :: u8) * of_nat VGA_TEXTMODE_WIDTH + ucast (of_nat x :: u8) :: u32) :: u16) * 2 = cell_at x y"
proof -
  have b: "n < 256 \<Longrightarrow> (ucast (of_nat n :: u8) :: u32) = of_nat n" for n
    by (rule unat_eqD) (simp add: unat_of_nat_u32 unsigned_of_nat take_bit_nat_def)
  have e: "(ucast (of_nat y :: u8) * of_nat VGA_TEXTMODE_WIDTH + ucast (of_nat x :: u8) :: u32) = of_nat (80 * y + x)"
    using assms by (simp add: b VGA_TEXTMODE_WIDTH_def)
  have "(ucast (of_nat (80 * y + x) :: u32) :: u16) = of_nat (80 * y + x)"
    by (rule unat_eqD, subst unsigned_ucast_eq)
      (use assms in \<open>simp only: unat_of_nat_u32 unat_of_nat_u16, simp add: take_bit_nat_def\<close>)
  then show ?thesis unfolding e by (simp add: cell_at_def)
qed

lemma shown_print_char:
  assumes "x < 80" and "y < 25" and "x' < 80" and "y' < 25"
  shows "shown (print_char_to_VGA_display (of_nat x) (of_nat y) c bg fg m) x' y' =
    (if x' = x \<and> y' = y then c else shown m x' y')"
  using cell_at_inj [OF assms(3,4,1,2)] cell_at_colour [OF assms(3,4,1,2)]
  unfolding print_char_to_VGA_display_def print_char_to_VGA_display_buffer_def Let_def shown_def
    print_char_position [OF assms(1,2)]
  by auto

text \<open>Printing on the screen stays inside the 4000 bytes of the screen.\<close>

lemma print_char_inside:
  assumes "x < 80" and "y < 25" and "4000 \<le> a"
  shows "vga_ram (print_char_to_VGA_display (of_nat x) (of_nat y) c bg fg m) a = vga_ram m a"
proof -
  note u = unat_cell_at [OF assms(1,2)]
  have "4000 \<le> unat a" using assms(3) by (simp add: word_le_nat_alt)
  then have "a \<noteq> cell_at x y" "a \<noteq> cell_at x y + 1" using u assms(1,2) by auto
  then show ?thesis
    unfolding print_char_to_VGA_display_def print_char_to_VGA_display_buffer_def Let_def
      print_char_position [OF assms(1,2)] by simp
qed

lemma print_char_ports [simp]: "port_writes (print_char_to_VGA_display x y c bg fg m) = port_writes m"
  by (simp add: print_char_to_VGA_display_def print_char_to_VGA_display_buffer_def Let_def)

lemma set_cursor_vga [simp]: "vga_ram (set_cursor_position x y m) = vga_ram m"
  by (simp add: set_cursor_position_def write_byte_to_IO_port_def Let_def)

lemma tty_write_vga [simp]: "vga_ram (tty_write c m) = vga_ram m"
  by (simp add: tty_write_def COM_port_TX_def write_byte_to_IO_port_def Let_def)

lemma shown_cong [simp]:
  "shown (set_cursor_position x y m) a b = shown m a b" "shown (tty_write c m) a b = shown m a b"
  by (simp_all add: shown_def)

end
