(* ===== verification/Terminal.thy ===== *)
theory Terminal
  imports Vga
begin

section \<open>Terminals (shell/terminal.c)\<close>

text \<open>
  A terminal is a ring of 25 lines of 80 characters, of which the lines from \<^verbatim>\<open>current_first_line\<close> up to
  \<^verbatim>\<open>current_end_line\<close> are shown in a window of the screen. The counters that only this file sets, and that never become
  negative, are naturals. Contexts are static objects, so the tests for \<open>NULL\<close> are left out, and so are the error
  messages.
\<close>

record terminal_contex =
  tc_buffer :: "u8 list list"
  tc_input_line :: "u8 list"
  tc_window_position_y :: int
  tc_window_size_y :: int
  tc_current_first_line :: nat
  tc_current_end_line :: nat
  tc_current_end_x :: nat
  tc_is_input_enabled :: bool

definition TERMINAL_MAX_X :: nat where "TERMINAL_MAX_X = 80"
definition TERMINAL_MAX_Y :: nat where "TERMINAL_MAX_Y = 25"

lemmas terminal_consts = TERMINAL_MAX_X_def TERMINAL_MAX_Y_def

definition terminal_get_current_line_count :: "terminal_contex \<Rightarrow> int" where
  "terminal_get_current_line_count t =
     (let first_line = tc_current_first_line t; end_line = tc_current_end_line t
      in if end_line \<ge> first_line then int end_line - int first_line
         else int TERMINAL_MAX_Y - int first_line + int end_line)"

definition terminal_get_next_line_buffer :: "nat \<Rightarrow> nat" where
  "terminal_get_next_line_buffer current_line =
     (let next_line = current_line + 1 in if next_line \<ge> TERMINAL_MAX_Y then 0 else next_line)"

text \<open>The result is the index of the line, \<open>None\<close> for \<open>NULL\<close>.\<close>

definition terminal_get_next_free_line_buffer :: "terminal_contex \<Rightarrow> (nat option \<times> terminal_contex) option" where
  "terminal_get_next_free_line_buffer t =
     (let free_line = tc_current_end_line t
      in if free_line \<ge> TERMINAL_MAX_Y then Some (None, t)
         else do {
           let t = t\<lparr>tc_current_end_line := terminal_get_next_line_buffer (tc_current_end_line t)\<rparr>;
           let t = (if terminal_get_current_line_count t > tc_window_size_y t
             then t\<lparr>tc_current_first_line := terminal_get_next_line_buffer (tc_current_first_line t)\<rparr> else t);
           row \<leftarrow> rd (tc_buffer t) free_line;
           row \<leftarrow> for_loop 0 TERMINAL_MAX_X (\<lambda>i r. wr r i 0) row;
           b \<leftarrow> wr (tc_buffer t) free_line row;
           Some (Some free_line, t\<lparr>tc_buffer := b\<rparr>)
         })"

definition terminal_clear_VGA :: "terminal_contex \<Rightarrow> machine \<Rightarrow> machine option" where
  "terminal_clear_VGA t m =
     for_loop 0 (nat (tc_window_size_y t))
       (\<lambda>k m. for_loop 0 TERMINAL_MAX_X
         (\<lambda>x m. Some (print_char_to_VGA_display (of_nat x) (of_int (tc_window_position_y t + int k)) 32
            DEFAULT_BACKGROUND_COLOR DEFAULT_FOREGROUND_COLOR m)) m) m"

text \<open>One line of \<open>width\<close> characters, and the lines from \<^verbatim>\<open>current_line\<close> to the end of the ring.\<close>

definition render_row :: "u8 list \<Rightarrow> nat \<Rightarrow> bool \<Rightarrow> int \<Rightarrow> machine \<Rightarrow> machine option" where
  "render_row row width with_cursor y m =
     for_loop 0 width
       (\<lambda>x m. do {
          character \<leftarrow> rd row x;
          let m = (if with_cursor then set_cursor_position 80 80 m else m);
          Some (print_char_to_VGA_display (of_nat x) (of_int y) character DEFAULT_BACKGROUND_COLOR DEFAULT_FOREGROUND_COLOR m)
        }) m"

partial_function (option) render_lines :: "terminal_contex \<Rightarrow> nat \<Rightarrow> int \<Rightarrow> machine \<Rightarrow> (int \<times> machine) option" where
  "render_lines t current_line line_counter m =
     (if current_line \<noteq> tc_current_end_line t
      then do {
        row \<leftarrow> rd (tc_buffer t) current_line;
        m' \<leftarrow> render_row row TERMINAL_MAX_X False (tc_window_position_y t + line_counter) m;
        render_lines t (terminal_get_next_line_buffer current_line) (line_counter + 1) m'
      }
      else Some (line_counter, m))"

definition terminal_render_to_VGA :: "terminal_contex \<Rightarrow> machine \<Rightarrow> machine option" where
  "terminal_render_to_VGA t m = do {
     (line_counter, m) \<leftarrow> render_lines t (tc_current_first_line t) 0 m;
     if tc_is_input_enabled t
     then render_row (tc_input_line t) (TERMINAL_MAX_X - 2) True (tc_window_position_y t + line_counter) m
     else Some m
   }"

text \<open>\<^verbatim>\<open>current_end_x\<close> and the input line keep what the static object held.\<close>

definition terminal_init :: "terminal_contex \<Rightarrow> int \<Rightarrow> int \<Rightarrow> bool \<Rightarrow> machine \<Rightarrow> (terminal_contex \<times> machine) option" where
  "terminal_init t window_position_y window_size_y is_input_enabled m = do {
     let window_position_y = (if window_position_y \<ge> int TERMINAL_MAX_Y then int TERMINAL_MAX_Y else window_position_y);
     let window_size_y = (if window_size_y \<ge> int TERMINAL_MAX_Y then int TERMINAL_MAX_Y else window_size_y);
     let t = t\<lparr>tc_is_input_enabled := is_input_enabled\<rparr>;
     b \<leftarrow> for_loop 0 TERMINAL_MAX_Y
       (\<lambda>y b. do { row \<leftarrow> rd b y; row \<leftarrow> for_loop 0 TERMINAL_MAX_X (\<lambda>x r. wr r x 32) row; wr b y row }) (tc_buffer t);
     let t = t\<lparr>tc_buffer := b, tc_window_size_y := window_size_y, tc_window_position_y := window_position_y,
               tc_current_first_line := 0, tc_current_end_line := 0\<rparr>;
     m \<leftarrow> terminal_clear_VGA t m;
     m \<leftarrow> terminal_render_to_VGA t m;
     Some (t, m)
   }"

definition terminal_putchar :: "u8 \<Rightarrow> terminal_contex \<times> machine \<Rightarrow> (terminal_contex \<times> machine) option" where
  "terminal_putchar new_char s = (let (t, m) = s in
     if new_char = 10 \<or> new_char = 13
     then do {
       m \<leftarrow> terminal_render_to_VGA t m;
       (_, t) \<leftarrow> terminal_get_next_free_line_buffer t;
       Some (t\<lparr>tc_current_end_x := 0\<rparr>, m)
     }
     else do {
       (line_buf, t) \<leftarrow> (if tc_current_end_x t \<ge> TERMINAL_MAX_X then terminal_get_next_free_line_buffer t
         else Some (Some (if tc_current_end_line t = 0 then TERMINAL_MAX_Y - 1 else tc_current_end_line t - 1), t));
       case line_buf of
         None \<Rightarrow> Some (t, m)
       | Some l \<Rightarrow> do {
           row \<leftarrow> rd (tc_buffer t) l;
           let pos_x = tc_current_end_x t mod TERMINAL_MAX_X;
           if new_char = 8 \<or> new_char = 0x7f
           then
             (if pos_x > 0
              then do {
                row \<leftarrow> wr row (pos_x - 1) 32;
                b \<leftarrow> wr (tc_buffer t) l row;
                Some (t\<lparr>tc_buffer := b, tc_current_end_x := tc_current_end_x t - 1\<rparr>, m)
              }
              else Some (t, m))
           else do {
             row \<leftarrow> wr row pos_x new_char;
             b \<leftarrow> wr (tc_buffer t) l row;
             Some (t\<lparr>tc_buffer := b, tc_current_end_x := pos_x + 1\<rparr>, m)
           }
         }
     })"

fun put_string :: "u8 list \<Rightarrow> terminal_contex \<times> machine \<Rightarrow> (terminal_contex \<times> machine) option" where
  "put_string [] s = None"
| "put_string (c # string) s = (if c \<noteq> 0 then do { s' \<leftarrow> terminal_putchar c s; put_string string s' } else Some s)"

definition terminal_print :: "u8 list \<Rightarrow> terminal_contex \<times> machine \<Rightarrow> (terminal_contex \<times> machine) option" where
  "terminal_print string s = do {
     (t, m) \<leftarrow> put_string string s;
     m \<leftarrow> terminal_render_to_VGA t m;
     Some (t, m)
   }"

definition terminal_printline :: "u8 list \<Rightarrow> terminal_contex \<times> machine \<Rightarrow> (terminal_contex \<times> machine) option" where
  "terminal_printline string s = do {
     s \<leftarrow> terminal_print string s;
     (t, m) \<leftarrow> terminal_putchar 10 s;
     m \<leftarrow> terminal_render_to_VGA t m;
     Some (t, m)
   }"

subsection \<open>What a terminal is\<close>

text \<open>Its lines are a list that scrolls in a window of \<open>size\<close> lines.\<close>

definition scroll :: "nat \<Rightarrow> u8 list list \<Rightarrow> u8 list list" where
  "scroll n ls = (let ls' = ls @ [replicate 80 0] in drop (length ls' - n) ls')"

definition write_last :: "nat \<Rightarrow> u8 \<Rightarrow> u8 list list \<Rightarrow> u8 list list" where
  "write_last p c ls = (if ls = [] then [] else butlast ls @ [(last ls)[p := c]])"

definition screen_put :: "nat \<Rightarrow> u8 \<Rightarrow> u8 list list \<times> nat \<Rightarrow> u8 list list \<times> nat" where
  "screen_put n c s = (let (ls, x) = s in
     if c = 10 \<or> c = 13 then (scroll n ls, 0)
     else
       let ls' = (if x \<ge> 80 then scroll n ls else ls); p = x mod 80
       in if c = 8 \<or> c = 0x7f then (if p > 0 then (write_last (p - 1) 32 ls', x - 1) else (ls', x))
          else (write_last p c ls', p + 1))"

definition terminal_lines :: "terminal_contex \<Rightarrow> u8 list list" where
  "terminal_lines t = map (\<lambda>k. tc_buffer t ! ((tc_current_first_line t + k) mod 25))
     [0..<nat (terminal_get_current_line_count t)]"

definition window_size :: "terminal_contex \<Rightarrow> nat" where
  "window_size t = nat (tc_window_size_y t)"

text \<open>The ring is in order, and the window leaves at least two lines of it unused.\<close>

definition terminal_ok :: "terminal_contex \<Rightarrow> bool" where
  "terminal_ok t \<longleftrightarrow> length (tc_buffer t) = 25 \<and> (\<forall>row \<in> set (tc_buffer t). length row = 80) \<and>
     length (tc_input_line t) = 78 \<and> tc_current_first_line t < 25 \<and> tc_current_end_line t < 25 \<and>
     terminal_get_current_line_count t \<le> tc_window_size_y t \<and> 0 \<le> tc_window_size_y t \<and> tc_window_size_y t \<le> 23 \<and>
     tc_current_end_x t \<le> 80"

text \<open>The window, its input line included, lies on the screen.\<close>

definition window_ok :: "terminal_contex \<Rightarrow> bool" where
  "window_ok t \<longleftrightarrow> 0 \<le> tc_window_position_y t \<and>
     tc_window_position_y t + tc_window_size_y t + (if tc_is_input_enabled t then 1 else 0) \<le> 25"

subsection \<open>The ring\<close>

definition ring_lines :: "'a list \<Rightarrow> nat \<Rightarrow> nat \<Rightarrow> 'a list" where
  "ring_lines b f c = map (\<lambda>k. b ! ((f + k) mod 25)) [0..<c]"

lemma ring_distinct: "j < k \<Longrightarrow> k < j + 25 \<Longrightarrow> (f + j) mod 25 \<noteq> (f + k) mod (25 :: nat)"
proof
  assume jk: "j < k" "k < j + 25" and e: "(f + j) mod 25 = (f + k) mod (25 :: nat)"
  have "(f + j) mod 25 = (f + k) mod 25 \<longleftrightarrow> 25 dvd (f + k) - (f + j)"
    using jk by (metis add_le_cancel_left less_imp_le mod_eq_dvd_iff_nat e)
  then have "25 dvd (k - j)" using e by simp
  then show False using jk by (auto dest: dvd_imp_le)
qed

lemma ring_length [simp]: "length (ring_lines b f c) = c"
  by (simp add: ring_lines_def)

lemma ring_Suc: "ring_lines b f (Suc c) = ring_lines b f c @ [b ! ((f + c) mod 25)]"
  by (simp add: ring_lines_def)

lemma ring_tail: "ring_lines b ((f + 1) mod 25) c = drop 1 (ring_lines b f (Suc c))"
proof -
  have "((f + 1) mod 25 + k) mod 25 = (f + Suc k) mod 25" for k by presburger
  then show ?thesis
    by (intro nth_equalityI) (simp_all add: ring_lines_def del: upt_Suc)
qed

lemma ring_update_other:
  assumes "c \<le> d" and "d < 25"
  shows "ring_lines (b[(f + d) mod 25 := r]) f c = ring_lines b f c"
  unfolding ring_lines_def
proof (rule map_cong [OF refl])
  fix k assume "k \<in> set [0..<c]"
  then have "k < c" by simp
  then have "(f + k) mod 25 \<noteq> (f + d) mod 25" using assms by (intro ring_distinct) auto
  then show "b[(f + d) mod 25 := r] ! ((f + k) mod 25) = b ! ((f + k) mod 25)" by simp
qed

lemma ring_update_last:
  assumes "c < 25" and "length b = 25"
  shows "ring_lines (b[(f + c) mod 25 := r]) f (Suc c) = butlast (ring_lines b f (Suc c)) @ [r]"
  using ring_update_other [of c c b f r] assms by (simp add: ring_Suc)

lemma line_count_mod:
  assumes "tc_current_first_line t < 25" and "tc_current_end_line t < 25"
  shows "terminal_get_current_line_count t = int ((tc_current_end_line t + 25 - tc_current_first_line t) mod 25)"
proof (cases "tc_current_first_line t \<le> tc_current_end_line t")
  case True
  then have "(tc_current_end_line t + 25 - tc_current_first_line t) mod 25 = tc_current_end_line t - tc_current_first_line t"
    using assms by (simp add: mod_if)
  with True show ?thesis by (simp add: terminal_get_current_line_count_def Let_def)
next
  case False
  then have "(tc_current_end_line t + 25 - tc_current_first_line t) mod 25 = tc_current_end_line t + 25 - tc_current_first_line t"
    using assms by simp
  with False assms show ?thesis by (simp add: terminal_get_current_line_count_def terminal_consts Let_def)
qed

text \<open>The count of the lines, from which the end of the ring follows.\<close>

definition line_count :: "terminal_contex \<Rightarrow> nat" where
  "line_count t = nat (terminal_get_current_line_count t)"

lemma terminal_lines_ring: "terminal_lines t = ring_lines (tc_buffer t) (tc_current_first_line t) (line_count t)"
  by (simp add: terminal_lines_def ring_lines_def line_count_def)

lemma line_count_ring:
  assumes "tc_current_first_line t < 25" and "tc_current_end_line t = (tc_current_first_line t + c) mod 25" and "c < 25"
  shows "terminal_get_current_line_count t = int c" and "line_count t = c"
proof -
  have e: "tc_current_end_line t < 25" unfolding assms(2) by simp
  have "((tc_current_first_line t + c) mod 25 + 25 - tc_current_first_line t) mod 25 = c"
    using assms(1,3) by (cases "tc_current_first_line t + c < 25") (simp_all add: mod_if)
  then show "terminal_get_current_line_count t = int c" using line_count_mod [OF assms(1) e] assms(2) by simp
  then show "line_count t = c" by (simp add: line_count_def)
qed

lemma terminal_okD:
  assumes "terminal_ok t"
  shows "length (tc_buffer t) = 25" and "row \<in> set (tc_buffer t) \<Longrightarrow> length row = 80" and "length (tc_input_line t) = 78"
    and "tc_current_first_line t < 25" and "tc_current_end_line t = (tc_current_first_line t + line_count t) mod 25"
    and "line_count t \<le> window_size t" and "window_size t \<le> 23" and "tc_window_size_y t = int (window_size t)"
    and "tc_current_end_x t \<le> 80" and "terminal_get_current_line_count t = int (line_count t)"
proof -
  show f: "tc_current_first_line t < 25" and b: "length (tc_buffer t) = 25" and "length (tc_input_line t) = 78"
    "tc_current_end_x t \<le> 80" "row \<in> set (tc_buffer t) \<Longrightarrow> length row = 80"
    using assms by (simp_all add: terminal_ok_def)
  have e: "tc_current_end_line t < 25" using assms by (simp add: terminal_ok_def)
  note lc = line_count_mod [OF f e]
  then have l: "line_count t = (tc_current_end_line t + 25 - tc_current_first_line t) mod 25" by (simp add: line_count_def)
  then show "terminal_get_current_line_count t = int (line_count t)" using lc by simp
  then show "line_count t \<le> window_size t" "window_size t \<le> 23" "tc_window_size_y t = int (window_size t)"
    using assms by (auto simp: terminal_ok_def window_size_def nat_le_iff le_nat_iff)
  show "tc_current_end_line t = (tc_current_first_line t + line_count t) mod 25"
    unfolding l using f e by (simp add: mod_simps)
qed

lemma terminal_okI:
  assumes "length (tc_buffer t) = 25" and "\<And>row. row \<in> set (tc_buffer t) \<Longrightarrow> length row = 80" and "length (tc_input_line t) = 78"
    and "tc_current_first_line t < 25" and "tc_current_end_line t = (tc_current_first_line t + c) mod 25"
    and "c \<le> n" and "n \<le> 23" and "tc_window_size_y t = int n" and "tc_current_end_x t \<le> 80"
  shows "terminal_ok t" and "line_count t = c"
  using line_count_ring [OF assms(4,5)] assms by (auto simp: terminal_ok_def)

lemma next_line_mod: "i < 25 \<Longrightarrow> terminal_get_next_line_buffer i = (i + 1) mod 25"
  by (cases "i = 24") (auto simp: terminal_get_next_line_buffer_def terminal_consts)

text \<open>Where a terminal is, which no operation but the initialisation changes.\<close>

definition same_window :: "terminal_contex \<Rightarrow> terminal_contex \<Rightarrow> bool" where
  "same_window t t' \<longleftrightarrow> tc_window_position_y t' = tc_window_position_y t \<and> tc_window_size_y t' = tc_window_size_y t \<and>
     tc_is_input_enabled t' = tc_is_input_enabled t \<and> tc_input_line t' = tc_input_line t"

lemma clear_row: "length row = 80 \<Longrightarrow> for_loop 0 TERMINAL_MAX_X (\<lambda>i r. wr r i c) row = Some (replicate 80 c)"
  using for_loop_fill [of 0 80 row "\<lambda>_. c"] by (simp add: terminal_consts map_replicate_const)

lemma next_free_line_ok:
  assumes "terminal_ok t"
  shows "\<exists>t'. terminal_get_next_free_line_buffer t = Some (Some (tc_current_end_line t), t') \<and> terminal_ok t' \<and>
    terminal_lines t' = scroll (window_size t) (terminal_lines t) \<and> same_window t t' \<and>
    tc_current_end_x t' = tc_current_end_x t \<and> tc_current_end_line t' = (tc_current_end_line t + 1) mod 25"
proof -
  note ok = terminal_okD [OF assms]
  let ?f = "tc_current_first_line t" and ?e = "tc_current_end_line t" and ?c = "line_count t" and ?n = "window_size t"
  let ?b = "(tc_buffer t)[?e := replicate 80 0]"
  have e: "?e < 25" unfolding ok(5) by simp
  have len: "length (tc_buffer t ! ?e) = 80" using ok(1,2) e by simp
  let ?t1 = "t\<lparr>tc_current_end_line := (?e + 1) mod 25\<rparr>"
  have e1: "tc_current_end_line ?t1 = (tc_current_first_line ?t1 + Suc ?c) mod 25" using ok(5) by (simp add: mod_simps)
  have c1: "terminal_get_current_line_count ?t1 = int (Suc ?c)"
    by (rule line_count_ring(1) [OF _ e1]) (use ok in simp_all)
  let ?f' = "if ?c < ?n then ?f else (?f + 1) mod 25"
  let ?t' = "t\<lparr>tc_current_end_line := (?e + 1) mod 25, tc_current_first_line := ?f', tc_buffer := ?b\<rparr>"
  have run: "terminal_get_next_free_line_buffer t = Some (Some ?e, ?t')"
    using e c1 ok(1,4,6,8) len clear_row [OF len, of 0]
    by (simp add: terminal_get_next_free_line_buffer_def Let_def next_line_mod rd_in wr_in terminal_consts)
  have rows: "length row = 80" if "row \<in> set ?b" for row
    using that ok(2) set_update_subset_insert [of "tc_buffer t" ?e "replicate 80 0"] by auto
  let ?c' = "if ?c < ?n then Suc ?c else ?c"
  have e2: "tc_current_end_line ?t' = (tc_current_first_line ?t' + ?c') mod 25" using e1 ok(5) by (simp add: mod_simps)
  have ok': "terminal_ok ?t'" by (rule terminal_okI(1) [OF _ _ _ _ e2, of ?n]) (use rows ok in simp_all)
  have lc': "line_count ?t' = ?c'" by (rule terminal_okI(2) [OF _ _ _ _ e2, of ?n]) (use rows ok in simp_all)
  have upd: "ring_lines ?b ?f (Suc ?c) = ring_lines (tc_buffer t) ?f ?c @ [replicate 80 0]"
    using ring_update_last [of ?c "tc_buffer t" ?f "replicate 80 0"] ok by (simp add: ring_Suc)
  have "terminal_lines ?t' = scroll ?n (terminal_lines t)"
  proof (cases "?c < ?n")
    case True
    then show ?thesis using lc' upd by (simp add: terminal_lines_ring scroll_def)
  next
    case False
    then have "?c = ?n" using ok(6) by simp
    then show ?thesis using lc' upd ring_tail [of ?b ?f ?c] False
      by (simp add: terminal_lines_ring scroll_def)
  qed
  then show ?thesis using run ok' by (simp add: same_window_def)
qed

subsection \<open>Characters\<close>

lemma write_last_ring:
  assumes "c < 25" and "length b = 25"
  shows "ring_lines (b[(f + c) mod 25 := (b ! ((f + c) mod 25))[p := v]]) f (Suc c) = write_last p v (ring_lines b f (Suc c))"
  using ring_update_last [OF assms, of f] by (simp add: write_last_def ring_Suc)

text \<open>The line before the end of the ring is the last one shown, or none when nothing is.\<close>

lemma write_line_ok:
  assumes "terminal_ok t" and "l = (if tc_current_end_line t = 0 then 24 else tc_current_end_line t - 1)" and "p < 80" and "x \<le> 80"
  shows "\<exists>b. (do { row \<leftarrow> rd (tc_buffer t) l; row \<leftarrow> wr row p v; wr (tc_buffer t) l row }) = Some b \<and>
    terminal_ok (t\<lparr>tc_buffer := b, tc_current_end_x := x\<rparr>) \<and>
    terminal_lines (t\<lparr>tc_buffer := b, tc_current_end_x := x\<rparr>) = write_last p v (terminal_lines t)"
proof -
  note ok = terminal_okD [OF assms(1)]
  let ?f = "tc_current_first_line t" and ?e = "tc_current_end_line t" and ?c = "line_count t" and ?n = "window_size t"
  have e: "?e < 25" unfolding ok(5) by simp
  have l: "l = (?e + 24) mod 25" using assms(2) e by (auto simp: mod_if)
  then have l25: "l < 25" by simp
  let ?row = "tc_buffer t ! l"
  have len: "length ?row = 80" using ok(1,2) l25 by simp
  let ?b = "(tc_buffer t)[l := ?row[p := v]]"
  let ?t' = "t\<lparr>tc_buffer := ?b, tc_current_end_x := x\<rparr>"
  have rows: "length row = 80" if "row \<in> set ?b" for row
    using that ok(2) len set_update_subset_insert [of "tc_buffer t" l "?row[p := v]"] by auto
  have e2: "tc_current_end_line ?t' = (tc_current_first_line ?t' + ?c) mod 25" using ok(5) by simp
  have ok': "terminal_ok ?t'" by (rule terminal_okI(1) [OF _ _ _ _ e2, of ?n]) (use rows ok assms(4) in simp_all)
  have lc': "line_count ?t' = ?c" by (rule terminal_okI(2) [OF _ _ _ _ e2, of ?n]) (use rows ok assms(4) in simp_all)
  have "terminal_lines ?t' = write_last p v (terminal_lines t)"
  proof (cases ?c)
    case 0
    then show ?thesis using lc' by (simp add: terminal_lines_ring ring_lines_def write_last_def)
  next
    case (Suc d)
    have "(?f + ?c + 24) mod 25 = (?f + d) mod 25" using Suc by (simp add: mod_simps)
    then have ld: "l = (?f + d) mod 25" unfolding l ok(5) by (simp add: mod_simps)
    have "d < 25" using Suc ok(6,7) by simp
    from write_last_ring [OF this ok(1), of ?f p v] show ?thesis
      using lc' Suc by (simp add: terminal_lines_ring flip: ld)
  qed
  moreover have "(do { row \<leftarrow> rd (tc_buffer t) l; row \<leftarrow> wr row p v; wr (tc_buffer t) l row }) = Some ?b"
    using len l25 ok(1) assms(3) by (simp add: rd_in wr_in)
  ultimately show ?thesis using ok' by blast
qed

subsection \<open>Rendering\<close>

text \<open>What went out on the serial line.\<close>

definition serial :: "machine \<Rightarrow> u8 list" where
  "serial m = map snd (filter (\<lambda>(p, _). p = COM1_PORT) (port_writes m))"

text \<open>A picture is a partial map of the cells of the screen. \<open>draws p m m'\<close>: the machine \<open>m'\<close> is \<open>m\<close> with the picture
  \<open>p\<close> drawn on the screen, nothing written outside the screen and nothing sent.\<close>

definition draws :: "(nat \<times> nat \<Rightarrow> u8 option) \<Rightarrow> machine \<Rightarrow> machine \<Rightarrow> bool" where
  "draws p m m' \<longleftrightarrow>
     (\<forall>x < 80. \<forall>y < 25. shown m' x y = (case p (x, y) of None \<Rightarrow> shown m x y | Some c \<Rightarrow> c)) \<and>
     (\<forall>a \<ge> 4000. vga_ram m' a = vga_ram m a) \<and> serial m' = serial m"

lemma draws_refl: "draws Map.empty m m"
  by (simp add: draws_def)

lemma draws_trans: "draws p m m' \<Longrightarrow> draws q m' m'' \<Longrightarrow> draws (p ++ q) m m''"
  by (auto simp: draws_def map_add_def split: option.splits)

lemma draws_shown: "draws p m m' \<Longrightarrow> x < 80 \<Longrightarrow> y < 25 \<Longrightarrow> shown m' x y = (case p (x, y) of None \<Rightarrow> shown m x y | Some c \<Rightarrow> c)"
  by (simp add: draws_def)

definition row_picture :: "u8 list \<Rightarrow> nat \<Rightarrow> nat \<Rightarrow> nat \<times> nat \<Rightarrow> u8 option" where
  "row_picture row width y = (\<lambda>(x, y'). if y' = y \<and> x < width then Some (row ! x) else None)"

lemma draws_char:
  assumes "x < 80" and "y < 25"
  shows "draws [(x, y) \<mapsto> c] m (print_char_to_VGA_display (of_nat x) (of_nat y) c bg fg
    (if cursor then set_cursor_position 80 80 m else m))"
proof -
  have "serial (set_cursor_position 80 80 m) = serial m"
    by (simp add: serial_def set_cursor_position_def write_byte_to_IO_port_def Let_def
        CRTC_CONTROLLER_ADDRESS_def CRTC_CONTROLLER_DATA_def COM1_PORT_def)
  moreover have "serial (print_char_to_VGA_display a b c bg fg m') = serial m'" for a b m'
    by (simp add: serial_def)
  ultimately show ?thesis
    using shown_print_char [OF assms] print_char_inside [OF assms] by (cases cursor) (auto simp: draws_def)
qed

lemma render_row_ok:
  assumes "width \<le> 80" and "width \<le> length row" and "y < 25"
  shows "\<exists>m'. render_row row width cursor (int y) m = Some m' \<and> draws (row_picture row width y) m m'"
proof -
  let ?I = "\<lambda>n m'. draws (row_picture row n y) m m'"
  have "row_picture row 0 y = Map.empty" by (auto simp: row_picture_def)
  then have "?I 0 m" by (simp add: draws_refl)
  then have "\<exists>m'. render_row row width cursor (int y) m = Some m' \<and> ?I width m'"
    unfolding render_row_def
  proof (rule for_loop_rule [where I = ?I])
    fix x t assume I: "?I x t" and x: "x < width"
    have "row_picture row x y ++ [(x, y) \<mapsto> row ! x] = row_picture row (Suc x) y"
      by (auto simp: row_picture_def map_add_def fun_eq_iff)
    with draws_trans [OF I draws_char [of x y "row ! x" t]] x assms
    show "\<exists>t'. (do {
        character \<leftarrow> rd row x;
        let m = (if cursor then set_cursor_position 80 80 t else t);
        Some (print_char_to_VGA_display (of_nat x) (of_int (int y)) character DEFAULT_BACKGROUND_COLOR DEFAULT_FOREGROUND_COLOR m)
      }) = Some t' \<and> ?I (Suc x) t'"
      by (simp add: rd_in)
  qed simp
  then show ?thesis .
qed

definition lines_picture :: "u8 list list \<Rightarrow> nat \<Rightarrow> nat \<times> nat \<Rightarrow> u8 option" where
  "lines_picture ls y0 = (\<lambda>(x, y). if x < 80 \<and> y0 \<le> y \<and> y < y0 + length ls then Some (ls ! (y - y0) ! x) else None)"

text \<open>The whole window: the lines, then the input line where it is enabled.\<close>

definition terminal_picture :: "terminal_contex \<Rightarrow> nat \<times> nat \<Rightarrow> u8 option" where
  "terminal_picture t =
     (let y0 = nat (tc_window_position_y t); ls = terminal_lines t
      in lines_picture ls y0 ++
         (if tc_is_input_enabled t then row_picture (tc_input_line t) 78 (y0 + length ls) else Map.empty))"

lemma lines_picture_Cons: "row_picture row 80 y ++ lines_picture ls (Suc y) = lines_picture (row # ls) y"
  by (auto simp: row_picture_def lines_picture_def map_add_def fun_eq_iff nth_Cons' Suc_diff_le)

lemma lines_picture_Nil: "lines_picture [] y = Map.empty"
  by (auto simp: lines_picture_def)

lemma render_lines_ok:
  assumes "terminal_ok t" and "k \<le> line_count t" and "tc_window_position_y t = int y0" and "y0 + line_count t \<le> 25"
  shows "\<exists>m'. render_lines t ((tc_current_first_line t + k) mod 25) (int k) m = Some (int (line_count t), m') \<and>
    draws (lines_picture (drop k (terminal_lines t)) (y0 + k)) m m'"
  using assms(2)
proof (induction "line_count t - k" arbitrary: k m)
  case 0
  note ok = terminal_okD [OF assms(1)]
  have "k = line_count t" using 0 by simp
  then show ?case using ok(5) draws_refl [of m]
    by (subst render_lines.simps) (simp add: terminal_lines_ring lines_picture_Nil)
next
  case (Suc d)
  note ok = terminal_okD [OF assms(1)]
  let ?i = "(tc_current_first_line t + k) mod 25" and ?c = "line_count t"
  have k: "k < ?c" using Suc.hyps(2) by simp
  have ne: "?i \<noteq> tc_current_end_line t"
    unfolding ok(5) by (rule ring_distinct) (use k ok(6,7) in simp_all)
  have i: "?i < length (tc_buffer t)" using ok(1) by simp
  let ?row = "tc_buffer t ! ?i"
  have len: "length ?row = 80" using ok(2) i by simp
  have "y0 + k < 25" using k assms(4) by simp
  then obtain m1 where m1: "render_row ?row 80 False (int (y0 + k)) m = Some m1" "draws (row_picture ?row 80 (y0 + k)) m m1"
    using render_row_ok [of 80 ?row "y0 + k" False m] len by auto
  have nx: "terminal_get_next_line_buffer ?i = (tc_current_first_line t + Suc k) mod 25"
    by (subst next_line_mod) (simp_all add: mod_simps)
  have d: "d = ?c - Suc k" "Suc k \<le> ?c" using Suc.hyps(2) k by simp_all
  from Suc.hyps(1) [OF d, of m1] obtain m2 where
    m2: "render_lines t ((tc_current_first_line t + Suc k) mod 25) (int (Suc k)) m1 = Some (int ?c, m2)"
      "draws (lines_picture (drop (Suc k) (terminal_lines t)) (y0 + Suc k)) m1 m2" by blast
  have "?row # drop (Suc k) (terminal_lines t) = drop k (terminal_lines t)"
    using k Cons_nth_drop_Suc [of k "terminal_lines t"] by (simp add: terminal_lines_ring) (simp add: ring_lines_def)
  with draws_trans [OF m1(2) m2(2)] have "draws (lines_picture (drop k (terminal_lines t)) (y0 + k)) m m2"
    using lines_picture_Cons [of ?row "y0 + k" "drop (Suc k) (terminal_lines t)"] by simp
  moreover have "render_lines t ?i (int k) m = Some (int ?c, m2)"
    using ne i m1(1) m2(1) assms(3) nx
    by (subst render_lines.simps) (simp add: rd_in terminal_consts add.commute)
  ultimately show ?case by blast
qed

lemma render_ok:
  assumes "terminal_ok t" and "window_ok t"
  shows "\<exists>m'. terminal_render_to_VGA t m = Some m' \<and> draws (terminal_picture t) m m'"
proof -
  note ok = terminal_okD [OF assms(1)]
  let ?y = "nat (tc_window_position_y t)" and ?c = "line_count t"
  have y: "tc_window_position_y t = int ?y" using assms(2) by (simp add: window_ok_def)
  have w: "?y + ?c + (if tc_is_input_enabled t then 1 else 0) \<le> 25"
    using assms(2) ok(6,8) unfolding window_ok_def by (auto split: if_splits)
  have lc: "length (terminal_lines t) = ?c" by (simp add: terminal_lines_ring)
  have f: "(tc_current_first_line t + 0) mod 25 = tc_current_first_line t" using ok(4) by simp
  obtain m1 where m1: "render_lines t (tc_current_first_line t) 0 m = Some (int ?c, m1)"
      "draws (lines_picture (terminal_lines t) ?y) m m1"
    using render_lines_ok [OF assms(1) _ y, of 0 m] w f by auto
  show ?thesis
  proof (cases "tc_is_input_enabled t")
    case False
    then show ?thesis using m1 by (simp add: terminal_render_to_VGA_def terminal_picture_def Let_def)
  next
    case True
    then have "?y + ?c < 25" using w by simp
    with render_row_ok [of 78 "tc_input_line t" "?y + ?c" True m1] ok(3) obtain m2 where
      m2: "render_row (tc_input_line t) 78 True (int (?y + ?c)) m1 = Some m2"
        "draws (row_picture (tc_input_line t) 78 (?y + ?c)) m1 m2" by auto
    have "terminal_render_to_VGA t m = Some m2"
      using m1(1) m2(1) True y by (simp add: terminal_render_to_VGA_def terminal_consts)
    then show ?thesis using draws_trans [OF m1(2) m2(2)] True lc
      by (simp add: terminal_picture_def Let_def)
  qed
qed

text \<open>The rows of a window, its input line included.\<close>

definition window_rows :: "terminal_contex \<Rightarrow> nat set" where
  "window_rows t = {nat (tc_window_position_y t)..<nat (tc_window_position_y t) + window_size t + (if tc_is_input_enabled t then 1 else 0)}"

lemma terminal_picture_rows:
  assumes "terminal_ok t" and "terminal_picture t (x, y) = Some c"
  shows "y \<in> window_rows t"
  using assms(2) terminal_okD(6) [OF assms(1)]
  by (auto simp: terminal_picture_def window_rows_def lines_picture_def row_picture_def Let_def terminal_lines_ring map_add_def
      split: if_splits option.splits)

lemma same_windowD:
  assumes "same_window t t'"
  shows "window_rows t' = window_rows t" and "window_ok t' = window_ok t" and "window_size t' = window_size t"
  using assms by (auto simp: same_window_def window_rows_def window_ok_def window_size_def)

lemma same_window_trans: "same_window t t' \<Longrightarrow> same_window t' t'' \<Longrightarrow> same_window t t''"
  by (simp add: same_window_def)

lemma same_window_refl [simp]: "same_window t t"
  by (simp add: same_window_def)

text \<open>Outside its window a terminal changes nothing.\<close>

definition only_rows :: "nat set \<Rightarrow> machine \<Rightarrow> machine \<Rightarrow> bool" where
  "only_rows R m m' \<longleftrightarrow> (\<forall>x < 80. \<forall>y < 25. y \<notin> R \<longrightarrow> shown m' x y = shown m x y) \<and>
     (\<forall>a \<ge> 4000. vga_ram m' a = vga_ram m a) \<and> serial m' = serial m"

lemma only_rows_refl [simp]: "only_rows R m m"
  by (simp add: only_rows_def)

lemma only_rows_trans: "only_rows R m m' \<Longrightarrow> only_rows R m' m'' \<Longrightarrow> only_rows R m m''"
  by (simp add: only_rows_def)

lemma draws_only_rows: "draws p m m' \<Longrightarrow> (\<And>x y c. p (x, y) = Some c \<Longrightarrow> y \<in> R) \<Longrightarrow> only_rows R m m'"
  by (fastforce simp: draws_def only_rows_def split: option.splits)

lemma render_rows:
  assumes "terminal_ok t" and "window_ok t"
  shows "\<exists>m'. terminal_render_to_VGA t m = Some m' \<and> draws (terminal_picture t) m m' \<and> only_rows (window_rows t) m m'"
  using render_ok [OF assms, of m] terminal_picture_rows [OF assms(1)] draws_only_rows by blast

lemma previous_line: "e < 25 \<Longrightarrow> e = (if (e + 1) mod 25 = 0 then 24 else (e + 1) mod 25 - 1)" for e :: nat
  by (cases "e = 24") simp_all

text \<open>The line that a character goes to: a new one when the last is full.\<close>

lemma active_line_ok:
  assumes "terminal_ok t"
  shows "\<exists>l t2. (if tc_current_end_x t \<ge> TERMINAL_MAX_X then terminal_get_next_free_line_buffer t
       else Some (Some (if tc_current_end_line t = 0 then TERMINAL_MAX_Y - 1 else tc_current_end_line t - 1), t)) = Some (Some l, t2) \<and>
    terminal_ok t2 \<and> same_window t t2 \<and> tc_current_end_x t2 = tc_current_end_x t \<and>
    terminal_lines t2 = (if tc_current_end_x t \<ge> 80 then scroll (window_size t) (terminal_lines t) else terminal_lines t) \<and>
    l = (if tc_current_end_line t2 = 0 then 24 else tc_current_end_line t2 - 1)"
proof (cases "tc_current_end_x t \<ge> 80")
  case True
  obtain t1 where n: "terminal_get_next_free_line_buffer t = Some (Some (tc_current_end_line t), t1)" "terminal_ok t1"
      "terminal_lines t1 = scroll (window_size t) (terminal_lines t)" "same_window t t1" "tc_current_end_x t1 = tc_current_end_x t"
      "tc_current_end_line t1 = (tc_current_end_line t + 1) mod 25"
    using next_free_line_ok [OF assms] by blast
  have e: "tc_current_end_line t < 25" unfolding terminal_okD(5) [OF assms] by simp
  have x: "(tc_current_end_x t \<ge> TERMINAL_MAX_X) = True" "(tc_current_end_x t \<ge> 80) = True" using True by (simp_all add: terminal_consts)
  show ?thesis
    by (rule exI [of _ "tc_current_end_line t"], rule exI [of _ t1]) (use n in \<open>simp only: x if_True simp_thms\<close>, rule previous_line [OF e])
next
  case False
  then show ?thesis using assms by (simp add: terminal_consts)
qed

lemma line_write_ok:
  assumes "terminal_ok t" and "l = (if tc_current_end_line t = 0 then 24 else tc_current_end_line t - 1)" and "p < 80" and "x \<le> 80"
  shows "\<exists>row row' b. rd (tc_buffer t) l = Some row \<and> wr row p v = Some row' \<and> wr (tc_buffer t) l row' = Some b \<and>
    terminal_ok (t\<lparr>tc_buffer := b, tc_current_end_x := x\<rparr>) \<and>
    terminal_lines (t\<lparr>tc_buffer := b, tc_current_end_x := x\<rparr>) = write_last p v (terminal_lines t)"
proof -
  obtain b where b: "(do { row \<leftarrow> rd (tc_buffer t) l; row \<leftarrow> wr row p v; wr (tc_buffer t) l row }) = Some b"
      "terminal_ok (t\<lparr>tc_buffer := b, tc_current_end_x := x\<rparr>)"
      "terminal_lines (t\<lparr>tc_buffer := b, tc_current_end_x := x\<rparr>) = write_last p v (terminal_lines t)"
    using write_line_ok [OF assms] by blast
  then show ?thesis by (auto simp: bind_eq_Some_conv)
qed

lemma putchar_newline_ok:
  assumes "terminal_ok t" and "window_ok t" and "c = 10 \<or> c = 13"
  shows "\<exists>t' m'. terminal_putchar c (t, m) = Some (t', m') \<and> terminal_ok t' \<and> same_window t t' \<and>
    (terminal_lines t', tc_current_end_x t') = screen_put (window_size t) c (terminal_lines t, tc_current_end_x t) \<and>
    only_rows (window_rows t) m m'"
proof -
  obtain t1 where n: "terminal_get_next_free_line_buffer t = Some (Some (tc_current_end_line t), t1)" "terminal_ok t1"
      "terminal_lines t1 = scroll (window_size t) (terminal_lines t)" "same_window t t1"
    using next_free_line_ok [OF assms(1)] by blast
  obtain m1 where m1: "terminal_render_to_VGA t m = Some m1" "only_rows (window_rows t) m m1"
    using render_rows [OF assms(1,2), of m] by blast
  have "terminal_ok (t1\<lparr>tc_current_end_x := 0\<rparr>)" "terminal_lines (t1\<lparr>tc_current_end_x := 0\<rparr>) = terminal_lines t1"
    using n(2) by (simp_all add: terminal_ok_def terminal_get_current_line_count_def terminal_lines_def Let_def)
  then show ?thesis using assms(3) m1 n
    by (auto simp: terminal_putchar_def screen_put_def same_window_def)
qed

lemma putchar_ok:
  assumes "terminal_ok t" and "window_ok t"
  shows "\<exists>t' m'. terminal_putchar c (t, m) = Some (t', m') \<and> terminal_ok t' \<and> same_window t t' \<and>
    (terminal_lines t', tc_current_end_x t') = screen_put (window_size t) c (terminal_lines t, tc_current_end_x t) \<and>
    only_rows (window_rows t) m m'"
proof (cases "c = 10 \<or> c = 13")
  case True
  then show ?thesis by (rule putchar_newline_ok [OF assms])
next
  case False
  let ?x = "tc_current_end_x t" and ?p = "tc_current_end_x t mod 80"
  obtain l t2 where t2: "(if ?x \<ge> TERMINAL_MAX_X then terminal_get_next_free_line_buffer t
       else Some (Some (if tc_current_end_line t = 0 then TERMINAL_MAX_Y - 1 else tc_current_end_line t - 1), t)) = Some (Some l, t2)"
      "terminal_ok t2" "same_window t t2" "tc_current_end_x t2 = ?x"
      "terminal_lines t2 = (if ?x \<ge> 80 then scroll (window_size t) (terminal_lines t) else terminal_lines t)"
      "l = (if tc_current_end_line t2 = 0 then 24 else tc_current_end_line t2 - 1)"
    using active_line_ok [OF assms(1)] by blast
  have sw: "same_window t (t2\<lparr>tc_buffer := b, tc_current_end_x := x\<rparr>)" for b x
    using t2(3) by (simp add: same_window_def)
  note put = line_write_ok [OF t2(2,6)]
  note open_putchar = terminal_putchar_def Let_def prod.case t2(1) [unfolded TERMINAL_MAX_X_def] bind.bind_lunit option.case
    if_not_P [OF False] t2(4) TERMINAL_MAX_X_def
  show ?thesis
  proof (cases "c = 8 \<or> c = 127")
    case e: True
    show ?thesis
    proof (cases "?p > 0")
      case True
      have "?x - 1 \<le> 80" "?p - 1 < 80" using terminal_okD(9) [OF assms(1)] by auto
      with put [of "?p - 1" "?x - 1" 32] obtain row row' b where b: "rd (tc_buffer t2) l = Some row" "wr row (?p - 1) 32 = Some row'"
          "wr (tc_buffer t2) l row' = Some b" "terminal_ok (t2\<lparr>tc_buffer := b, tc_current_end_x := ?x - 1\<rparr>)"
          "terminal_lines (t2\<lparr>tc_buffer := b, tc_current_end_x := ?x - 1\<rparr>) = write_last (?p - 1) 32 (terminal_lines t2)" by blast
      have "terminal_putchar c (t, m) = Some (t2\<lparr>tc_buffer := b, tc_current_end_x := ?x - 1\<rparr>, m)"
        unfolding open_putchar b(1) bind.bind_lunit if_P [OF e] if_P [OF True] b(2,3) ..
      then show ?thesis using b(4,5) sw e False True t2(5) by (auto simp: screen_put_def Let_def)
    next
      case p: False
      obtain row where r: "rd (tc_buffer t2) l = Some row" using put [of 0 0 0] by auto
      have "terminal_putchar c (t, m) = Some (t2, m)"
        unfolding open_putchar r bind.bind_lunit if_P [OF e] if_not_P [OF p] ..
      then show ?thesis using t2 e False p by (auto simp: screen_put_def Let_def)
    qed
  next
    case nb: False
    have "?p < 80" "?p + 1 \<le> 80" by (simp_all add: Suc_le_eq)
    with put [of ?p "?p + 1" c] obtain row row' b where b: "rd (tc_buffer t2) l = Some row" "wr row ?p c = Some row'"
        "wr (tc_buffer t2) l row' = Some b" "terminal_ok (t2\<lparr>tc_buffer := b, tc_current_end_x := ?p + 1\<rparr>)"
        "terminal_lines (t2\<lparr>tc_buffer := b, tc_current_end_x := ?p + 1\<rparr>) = write_last ?p c (terminal_lines t2)" by blast
    have "terminal_putchar c (t, m) = Some (t2\<lparr>tc_buffer := b, tc_current_end_x := ?p + 1\<rparr>, m)"
      unfolding open_putchar b(1) bind.bind_lunit if_not_P [OF nb] b(2,3) ..
    then show ?thesis using b(4,5) sw nb False t2(5) by (auto simp: screen_put_def Let_def)
  qed
qed

definition screen_text :: "nat \<Rightarrow> u8 list \<Rightarrow> u8 list list \<times> nat \<Rightarrow> u8 list list \<times> nat" where
  "screen_text n cs s = foldl (\<lambda>s c. screen_put n c s) s cs"

lemma put_string_ok:
  assumes "terminated string" and "terminal_ok t" and "window_ok t"
  shows "\<exists>t' m'. put_string string (t, m) = Some (t', m') \<and> terminal_ok t' \<and> same_window t t' \<and>
    (terminal_lines t', tc_current_end_x t') = screen_text (window_size t) (c_str string) (terminal_lines t, tc_current_end_x t) \<and>
    only_rows (window_rows t) m m'"
  using assms
proof (induction string arbitrary: t m)
  case (Cons c string)
  show ?case
  proof (cases "c = 0")
    case True
    then show ?thesis using Cons.prems by (simp add: screen_text_def)
  next
    case False
    obtain t1 m1 where 1: "terminal_putchar c (t, m) = Some (t1, m1)" "terminal_ok t1" "same_window t t1"
        "(terminal_lines t1, tc_current_end_x t1) = screen_put (window_size t) c (terminal_lines t, tc_current_end_x t)"
        "only_rows (window_rows t) m m1"
      using putchar_ok [OF Cons.prems(2,3), of c m] by blast
    note w = same_windowD [OF 1(3)]
    have "terminated string" using Cons.prems(1) False by (auto simp: terminated_def)
    from Cons.IH [OF this 1(2), of m1] Cons.prems(3) w obtain t2 m2 where
      2: "put_string string (t1, m1) = Some (t2, m2)" "terminal_ok t2" "same_window t1 t2"
        "(terminal_lines t2, tc_current_end_x t2) = screen_text (window_size t) (c_str string) (terminal_lines t1, tc_current_end_x t1)"
        "only_rows (window_rows t) m1 m2" by auto
    have "screen_text (window_size t) (c_str (c # string)) (terminal_lines t, tc_current_end_x t) =
        screen_text (window_size t) (c_str string) (terminal_lines t1, tc_current_end_x t1)"
      using False 1(4) by (simp add: screen_text_def)
    then show ?thesis using 1 2 False same_window_trans [OF 1(3) 2(3)] only_rows_trans [OF 1(5) 2(5)]
      by (intro exI [of _ t2] exI [of _ m2]) simp
  qed
qed (simp add: terminated_def)

lemma terminal_print_ok:
  assumes "terminated string" and "terminal_ok t" and "window_ok t"
  shows "\<exists>t' m0 m'. terminal_print string (t, m) = Some (t', m') \<and> terminal_ok t' \<and> same_window t t' \<and>
    (terminal_lines t', tc_current_end_x t') = screen_text (window_size t) (c_str string) (terminal_lines t, tc_current_end_x t) \<and>
    draws (terminal_picture t') m0 m' \<and> only_rows (window_rows t) m m'"
proof -
  obtain t1 m1 where 1: "put_string string (t, m) = Some (t1, m1)" "terminal_ok t1" "same_window t t1"
      "(terminal_lines t1, tc_current_end_x t1) = screen_text (window_size t) (c_str string) (terminal_lines t, tc_current_end_x t)"
      "only_rows (window_rows t) m m1"
    using put_string_ok [OF assms, of m] by blast
  note w = same_windowD [OF 1(3)]
  obtain m2 where 2: "terminal_render_to_VGA t1 m1 = Some m2" "draws (terminal_picture t1) m1 m2"
      "only_rows (window_rows t) m1 m2"
    using render_rows [OF 1(2), of m1] w assms(3) by auto
  have "terminal_print string (t, m) = Some (t1, m2)" using 1(1) 2(1) by (simp add: terminal_print_def)
  then show ?thesis using 1 2 only_rows_trans [OF 1(5) 2(3)] by blast
qed

lemma terminal_printline_ok:
  assumes "terminated string" and "terminal_ok t" and "window_ok t"
  shows "\<exists>t' m0 m'. terminal_printline string (t, m) = Some (t', m') \<and> terminal_ok t' \<and> same_window t t' \<and>
    (terminal_lines t', tc_current_end_x t') =
      screen_text (window_size t) (c_str string @ [10]) (terminal_lines t, tc_current_end_x t) \<and>
    draws (terminal_picture t') m0 m' \<and> only_rows (window_rows t) m m'"
proof -
  obtain t1 m1 where 1: "terminal_print string (t, m) = Some (t1, m1)" "terminal_ok t1" "same_window t t1"
      "(terminal_lines t1, tc_current_end_x t1) = screen_text (window_size t) (c_str string) (terminal_lines t, tc_current_end_x t)"
      "only_rows (window_rows t) m m1"
    using terminal_print_ok [OF assms, of m] by blast
  note w = same_windowD [OF 1(3)]
  then have w1: "window_ok t1" using assms(3) by simp
  obtain t2 m2 where 2: "terminal_putchar 10 (t1, m1) = Some (t2, m2)" "terminal_ok t2" "same_window t1 t2"
      "(terminal_lines t2, tc_current_end_x t2) = screen_put (window_size t) 10 (terminal_lines t1, tc_current_end_x t1)"
      "only_rows (window_rows t) m1 m2"
    using putchar_ok [OF 1(2) w1, of 10 m1] w by auto
  note w2 = same_windowD [OF 2(3)]
  obtain m3 where 3: "terminal_render_to_VGA t2 m2 = Some m3" "draws (terminal_picture t2) m2 m3"
      "only_rows (window_rows t) m2 m3"
    using render_rows [OF 2(2), of m2] w w1 w2 by auto
  have "terminal_printline string (t, m) = Some (t2, m3)" using 1(1) 2(1) 3(1) by (simp add: terminal_printline_def)
  moreover have "(terminal_lines t2, tc_current_end_x t2) =
      screen_text (window_size t) (c_str string @ [10]) (terminal_lines t, tc_current_end_x t)"
    using 1(4) 2(4) by (simp add: screen_text_def)
  ultimately show ?thesis
    using 2(2) 3(2) same_window_trans [OF 1(3) 2(3)] only_rows_trans [OF only_rows_trans [OF 1(5) 2(5)] 3(3)] by blast
qed

subsection \<open>Initialisation\<close>

lemma terminal_init_ok:
  assumes "length (tc_buffer t) = 25" and "\<forall>row \<in> set (tc_buffer t). length row = 80" and "length (tc_input_line t) = 78"
    and "tc_current_end_x t \<le> 80" and "0 \<le> pos" and "0 \<le> sz" and "sz \<le> 23" and "pos + sz + (if enabled then 1 else 0) \<le> 25"
    and "pos < 25"
  shows "\<exists>t' m'. terminal_init t pos sz enabled m = Some (t', m') \<and> terminal_ok t' \<and> window_ok t' \<and>
    terminal_lines t' = [] \<and> tc_current_end_x t' = tc_current_end_x t \<and> tc_window_position_y t' = pos \<and>
    tc_window_size_y t' = sz \<and> tc_is_input_enabled t' = enabled \<and> only_rows (window_rows t') m m'"
proof -
  let ?I = "\<lambda>n b. length b = 25 \<and> (\<forall>row \<in> set b. length row = 80)"
  have "\<exists>b. for_loop 0 25 (\<lambda>y b. do { row \<leftarrow> rd b y; row \<leftarrow> for_loop 0 80 (\<lambda>x r. wr r x 32) row; wr b y row }) (tc_buffer t) = Some b \<and> ?I 25 b"
  proof (rule for_loop_rule [where I = ?I])
    fix y :: nat and b :: "u8 list list" assume I: "?I y b" and y: "y < 25"
    then have "length (b ! y) = 80" by simp
    then have "for_loop 0 80 (\<lambda>x r. wr r x 32) (b ! y) = Some (replicate 80 (32 :: u8))"
      using clear_row [of "b ! y" 32] by (simp add: terminal_consts)
    then show "\<exists>b'. (do { row \<leftarrow> rd b y; row \<leftarrow> for_loop 0 80 (\<lambda>x r. wr r x 32) row; wr b y row }) = Some b' \<and> ?I (Suc y) b'"
      using I y set_update_subset_insert [of b y "replicate 80 32"] by (auto simp: rd_in wr_in)
  qed (use assms in auto)
  then obtain b where b: "for_loop 0 25 (\<lambda>y b. do { row \<leftarrow> rd b y; row \<leftarrow> for_loop 0 80 (\<lambda>x r. wr r x 32) row; wr b y row })
      (tc_buffer t) = Some b" "length b = 25" "\<forall>row \<in> set b. length row = 80" by blast
  let ?t = "t\<lparr>tc_is_input_enabled := enabled, tc_buffer := b, tc_window_size_y := sz, tc_window_position_y := pos,
      tc_current_first_line := 0, tc_current_end_line := 0\<rparr>"
  have ok: "terminal_ok ?t" "window_ok ?t" "terminal_lines ?t = []"
    using assms b by (simp_all add: terminal_ok_def window_ok_def terminal_lines_def terminal_get_current_line_count_def Let_def)
  let ?R = "window_rows ?t"
  have row: "\<exists>m'. for_loop 0 80 (\<lambda>x m. Some (print_char_to_VGA_display (of_nat x) (of_int (pos + int k)) 32
      DEFAULT_BACKGROUND_COLOR DEFAULT_FOREGROUND_COLOR m)) m = Some m' \<and> only_rows ?R m m'" if k: "k < nat sz" for k m
  proof (rule for_loop_rule [where I = "\<lambda>_ m'. only_rows ?R m m'"])
    fix x :: nat and m1 assume m1: "only_rows ?R m m1" and x: "x < 80"
    have y: "nat pos + k < 25" "(of_int (pos + int k) :: u8) = of_nat (nat pos + k)" using k assms(5,8) by (auto split: if_splits)
    have "nat pos + k \<in> ?R" using k by (auto simp: window_rows_def window_size_def)
    then have "only_rows ?R m1 (print_char_to_VGA_display (of_nat x) (of_nat (nat pos + k)) 32 DEFAULT_BACKGROUND_COLOR DEFAULT_FOREGROUND_COLOR m1)"
      using draws_char [OF x y(1), of 32 m1 DEFAULT_BACKGROUND_COLOR DEFAULT_FOREGROUND_COLOR False]
      by (intro draws_only_rows [where p = "[(x, nat pos + k) \<mapsto> 32]"]) (auto split: if_splits)
    then show "\<exists>m'. Some (print_char_to_VGA_display (of_nat x) (of_int (pos + int k)) 32 DEFAULT_BACKGROUND_COLOR
        DEFAULT_FOREGROUND_COLOR m1) = Some m' \<and> only_rows ?R m m'"
      using only_rows_trans [OF m1] y(2) by auto
  qed simp_all
  have "\<exists>m'. terminal_clear_VGA ?t m = Some m' \<and> only_rows ?R m m'"
    unfolding terminal_clear_VGA_def
  proof (rule for_loop_rule [where I = "\<lambda>_ m'. only_rows ?R m m'"])
    fix k m1 assume m1: "only_rows ?R m m1" and "k < nat (tc_window_size_y ?t)"
    then have "k < nat sz" by simp
    from row [OF this, of m1] only_rows_trans [OF m1]
    show "\<exists>m'. for_loop 0 TERMINAL_MAX_X (\<lambda>x m. Some (print_char_to_VGA_display (of_nat x) (of_int (tc_window_position_y ?t + int k)) 32
        DEFAULT_BACKGROUND_COLOR DEFAULT_FOREGROUND_COLOR m)) m1 = Some m' \<and> only_rows ?R m m'"
      by (auto simp: terminal_consts)
  qed simp_all
  then obtain m1 where m1: "terminal_clear_VGA ?t m = Some m1" "only_rows ?R m m1" by blast
  obtain m2 where m2: "terminal_render_to_VGA ?t m1 = Some m2" "only_rows ?R m1 m2"
    using render_rows [OF ok(1,2), of m1] by blast
  have "terminal_init t pos sz enabled m = Some (?t, m2)"
    using b(1) m1(1) m2(1) assms(7,9) by (simp add: terminal_init_def Let_def terminal_consts)
  then show ?thesis using ok only_rows_trans [OF m1(2) m2(2)] by (intro exI [of _ ?t] exI [of _ m2]) simp
qed

end
