(* ===== verification/Format.thy ===== *)
theory Format
  imports Util_String
begin

section \<open>Formatted output (kernel\_stdio.c: print\_decimal, print\_hex, kernel\_printf)\<close>

text \<open>
  The state is the 256-byte buffer and the index \<^verbatim>\<open>buf_i\<close>. The variable arguments, which the code reads
  as an array of words behind \<^verbatim>\<open>format\<close>, are a list; reading behind its end, or a word as a string, is
  undefined. The rest of the format is the list of bytes from the current index.
\<close>

datatype printf_arg = Arg_Int u32 | Arg_Str "u8 list option"

text \<open>\<^verbatim>\<open>while (... && *buf_i < maxlen - 1) buffer[(*buf_i)++] = ...\<close> over given characters.\<close>

fun emit :: "int \<Rightarrow> u8 list \<Rightarrow> u8 list \<times> nat \<Rightarrow> (u8 list \<times> nat) option" where
  "emit maxlen [] st = Some st"
| "emit maxlen (c # cs) (buffer, buf_i) =
     (if int buf_i < maxlen - 1 then do { b \<leftarrow> wr buffer buf_i c; emit maxlen cs (b, Suc buf_i) }
      else Some (buffer, buf_i))"

text \<open>The \<^verbatim>\<open>do ... while\<close> loops that fill \<^verbatim>\<open>numbuf\<close>, least significant digit first, with the room left.\<close>

fun dec_digits :: "nat \<Rightarrow> int \<Rightarrow> u8 list" where
  "dec_digits 0 val = []"
| "dec_digits (Suc room) val =
     (48 + of_int (val mod 10)) # (if val div 10 \<noteq> 0 \<and> 0 < room then dec_digits room (val div 10) else [])"

definition hex_char :: "bool \<Rightarrow> u32 \<Rightarrow> u8" where
  "hex_char uppercase digit =
     (if digit < 10 then 48 + ucast digit else (if uppercase then 65 else 97) + ucast digit - 10)"

fun hex_digits_of :: "nat \<Rightarrow> bool \<Rightarrow> u32 \<Rightarrow> u8 list" where
  "hex_digits_of 0 uppercase val = []"
| "hex_digits_of (Suc room) uppercase val =
     hex_char uppercase (val mod 16) #
       (if val div 16 \<noteq> 0 \<and> 0 < room then hex_digits_of room uppercase (val div 16) else [])"

definition print_decimal :: "int \<Rightarrow> int \<Rightarrow> int \<Rightarrow> bool \<Rightarrow> u8 list \<times> nat \<Rightarrow> (u8 list \<times> nat) option" where
  "print_decimal val maxlen width zero_pad st = do {
     let is_negative = (val < 0);
     v \<leftarrow> (if is_negative then c_int (- val) else Some val);
     let numbuf = dec_digits 16 v;
     let num_i = int (length numbuf);
     st1 \<leftarrow> (if zero_pad \<and> width > num_i \<and> \<not> is_negative
       then emit maxlen (replicate (nat (width - num_i)) 48) st else Some st);
     st2 \<leftarrow> (if is_negative then emit maxlen [45] st1 else Some st1);
     emit maxlen (rev numbuf) st2
   }"

definition print_hex :: "u32 \<Rightarrow> int \<Rightarrow> int \<Rightarrow> bool \<Rightarrow> bool \<Rightarrow> u8 list \<times> nat \<Rightarrow> (u8 list \<times> nat) option" where
  "print_hex val maxlen width zero_pad uppercase st = do {
     let numbuf = hex_digits_of 16 uppercase val;
     let num_i = int (length numbuf);
     st1 \<leftarrow> (if zero_pad \<and> width > num_i then emit maxlen (replicate (nat (width - num_i)) 48) st else Some st);
     emit maxlen (rev numbuf) st1
   }"

fun parse_width :: "u8 list \<Rightarrow> int \<Rightarrow> (int \<times> u8 list) option" where
  "parse_width [] width = None"
| "parse_width (c # cs) width =
     (if c \<ge> 48 \<and> c \<le> 57
      then do { w10 \<leftarrow> c_int (width * 10); w \<leftarrow> c_int (w10 + (int (unat c) - 48)); parse_width cs w }
      else Some (width, c # cs))"

text \<open>The copy of a \<^verbatim>\<open>%s\<close> argument.\<close>

fun emit_str :: "u8 list \<Rightarrow> u8 list \<times> nat \<Rightarrow> (u8 list \<times> nat) option" where
  "emit_str str (buffer, buf_i) = (case str of
     [] \<Rightarrow> None
   | c # cs \<Rightarrow>
       if c \<noteq> 0 \<and> buf_i < 255 then do { b \<leftarrow> wr buffer buf_i c; emit_str cs (b, Suc buf_i) }
       else Some (buffer, buf_i))"

text \<open>One conversion, chosen by the character behind \<^verbatim>\<open>%\<close>, flag and width.\<close>

definition conversion :: "u8 \<Rightarrow> int \<Rightarrow> bool \<Rightarrow> printf_arg list \<Rightarrow> u8 list \<times> nat \<Rightarrow>
    (printf_arg list \<times> (u8 list \<times> nat)) option" where
  "conversion c width zero_pad args st =
     (if c = 115 then
        (case args of Arg_Str str # as \<Rightarrow>
           (case str of None \<Rightarrow> Some (as, st) | Some s \<Rightarrow> do { st' \<leftarrow> emit_str s st; Some (as, st') })
         | _ \<Rightarrow> None)
      else if c = 100 then
        (case args of Arg_Int w # as \<Rightarrow> do { st' \<leftarrow> print_decimal (sint w) 256 width zero_pad st; Some (as, st') }
         | _ \<Rightarrow> None)
      else if c = 120 then
        (case args of Arg_Int w # as \<Rightarrow> do { st' \<leftarrow> print_hex w 256 width zero_pad False st; Some (as, st') }
         | _ \<Rightarrow> None)
      else if c = 88 then
        (case args of Arg_Int w # as \<Rightarrow> do { st' \<leftarrow> print_hex w 256 width zero_pad True st; Some (as, st') }
         | _ \<Rightarrow> None)
      else if c = 99 then
        (case args of Arg_Int w # as \<Rightarrow> do { b \<leftarrow> wr (fst st) (snd st) (ucast w); Some (as, (b, Suc (snd st))) }
         | _ \<Rightarrow> None)
      else do {
        b \<leftarrow> wr (fst st) (snd st) 37;
        let i = Suc (snd st);
        if c \<noteq> 0 \<and> i < 255 then do { b' \<leftarrow> wr b i c; Some (args, (b', Suc i)) } else Some (args, (b, i))
      })"

lemma parse_width_length: "parse_width cs w = Some (w', ds) \<Longrightarrow> length ds \<le> length cs"
proof (induction cs w rule: parse_width.induct)
  case (2 c cs width)
  show ?case
  proof (cases "48 \<le> c \<and> c \<le> 57")
    case True
    with "2.prems" obtain a b where "c_int (width * 10) = Some a" "c_int (a + (int (unat c) - 48)) = Some b"
        "parse_width cs b = Some (w', ds)"
      by (auto split: bind_splits)
    from "2.IH" [OF True this] show ?thesis by simp
  qed (use "2.prems" in auto)
qed simp

function printf_loop :: "u8 list \<Rightarrow> printf_arg list \<Rightarrow> u8 list \<times> nat \<Rightarrow> (u8 list \<times> nat) option" where
  "printf_loop format args st = (case format of
     [] \<Rightarrow> None
   | c # rest \<Rightarrow>
       if c = 0 \<or> \<not> snd st < 255 then Some st
       else if c = 37 then do {
         f \<leftarrow> rd rest 0;
         let zero_pad = (f = 48);
         let digits = (if zero_pad then tl rest else rest);
         (width, spec) \<leftarrow> parse_width digits 0;
         k \<leftarrow> rd spec 0;
         (args', st') \<leftarrow> conversion k width zero_pad args st;
         printf_loop (tl spec) args' st'
       }
       else do {
         b \<leftarrow> wr (fst st) (snd st) c;
         printf_loop rest args (b, Suc (snd st))
       })"
  by pat_completeness auto
termination
  by (relation "measure (\<lambda>(format, _, _). length format)")
    (auto simp: Let_def dest!: parse_width_length split: if_splits)

declare printf_loop.simps [simp del]

text \<open>The text that \<^verbatim>\<open>kernel_printf\<close> hands to \<^verbatim>\<open>kernel_print\<close>; \<open>buffer\<close> is what the array held before.\<close>

definition printf_buffer :: "u8 list \<Rightarrow> printf_arg list \<Rightarrow> u8 list \<Rightarrow> u8 list option" where
  "printf_buffer format args buffer = do {
     (b, buf_i) \<leftarrow> printf_loop format args (buffer, 0);
     wr b buf_i 0
   }"

subsection \<open>What the output is\<close>

text \<open>A format as a list of directives, its text, the text of its arguments, and the output it asks for.\<close>

datatype directive = Lit u8 | Str | Chr | Dec bool nat | Hex bool bool nat

fun dec_text :: "nat \<Rightarrow> u8 list" where
  "dec_text n = (if n < 10 then [] else dec_text (n div 10)) @ [48 + of_nat (n mod 10)]"

declare dec_text.simps [simp del]

fun hex_text :: "bool \<Rightarrow> nat \<Rightarrow> u8 list" where
  "hex_text up n = (if n < 16 then [] else hex_text up (n div 16)) @ [hex_char up (of_nat (n mod 16))]"

declare hex_text.simps [simp del]

definition width_text :: "bool \<Rightarrow> nat \<Rightarrow> u8 list" where
  "width_text pad w = (if pad then [48] else []) @ (if w = 0 then [] else dec_text w)"

fun directive_text :: "directive \<Rightarrow> u8 list" where
  "directive_text (Lit c) = [c]"
| "directive_text Str = [37, 115]"
| "directive_text Chr = [37, 99]"
| "directive_text (Dec pad w) = 37 # width_text pad w @ [100]"
| "directive_text (Hex up pad w) = 37 # width_text pad w @ [if up then 88 else 120]"

definition padding :: "bool \<Rightarrow> nat \<Rightarrow> u8 list \<Rightarrow> u8 list" where
  "padding pad w digits = (if pad then replicate (w - length digits) 48 else []) @ digits"

fun rendered :: "directive list \<Rightarrow> printf_arg list \<Rightarrow> u8 list option" where
  "rendered [] args = Some []"
| "rendered (Lit c # ds) args = map_option ((#) c) (rendered ds args)"
| "rendered (Str # ds) (Arg_Str str # args) =
     map_option ((@) (case str of None \<Rightarrow> [] | Some s \<Rightarrow> c_str s)) (rendered ds args)"
| "rendered (Chr # ds) (Arg_Int w # args) = map_option ((#) (ucast w)) (rendered ds args)"
| "rendered (Dec pad n # ds) (Arg_Int w # args) =
     map_option ((@) (if sint w < 0 then 45 # dec_text (nat (- sint w)) else padding pad n (dec_text (nat (sint w)))))
       (rendered ds args)"
| "rendered (Hex up pad n # ds) (Arg_Int w # args) =
     map_option ((@) (padding pad n (hex_text up (unat w)))) (rendered ds args)"
| "rendered (d # ds) args = None"

text \<open>Directives the code can print: plain characters, widths that fit an \<^verbatim>\<open>int\<close>, terminated strings, and no
  \<^verbatim>\<open>INT_MIN\<close>, whose negation overflows.\<close>

definition printable :: "directive \<Rightarrow> bool" where
  "printable d = (case d of Lit c \<Rightarrow> c \<noteq> 0 \<and> c \<noteq> 37 | Dec pad w \<Rightarrow> w < 2147483648
     | Hex up pad w \<Rightarrow> w < 2147483648 | _ \<Rightarrow> True)"

definition arg_ok :: "printf_arg \<Rightarrow> bool" where
  "arg_ok a = (case a of Arg_Int w \<Rightarrow> w \<noteq> 0x80000000 | Arg_Str None \<Rightarrow> True | Arg_Str (Some s) \<Rightarrow> terminated s)"

definition holds :: "u8 list \<Rightarrow> u8 list \<times> nat \<Rightarrow> bool" where
  "holds out st = (length (fst st) = 256 \<and> snd st = min 255 (length out) \<and> take (snd st) (fst st) = take 255 out)"

lemma holds_put:
  assumes "holds out (b, i)" and "i < 255"
  shows "wr b i c = Some (b[i := c])" and "holds (out @ [c]) (b[i := c], Suc i)"
proof -
  have l: "length b = 256" "i = length out" "take i b = out" using assms by (auto simp: holds_def min_def split: if_splits)
  then show "wr b i c = Some (b[i := c])" using assms(2) by (simp add: wr_in)
  have "take (Suc i) (b[i := c]) = out @ [c]"
    using l assms(2) by (simp add: take_Suc_conv_app_nth)
  then show "holds (out @ [c]) (b[i := c], Suc i)" using l assms(2) by (simp add: holds_def)
qed

lemma holds_full: "holds out (b, i) \<Longrightarrow> \<not> i < 255 \<Longrightarrow> holds (out @ cs) (b, i)"
  by (auto simp: holds_def min_def split: if_splits)

lemma emit_holds: "holds out st \<Longrightarrow> \<exists>st'. emit 256 cs st = Some st' \<and> holds (out @ cs) st'"
proof (induction cs arbitrary: out st)
  case (Cons c cs)
  obtain b i where st: "st = (b, i)" by (cases st) auto
  show ?case
  proof (cases "i < 255")
    case True
    have h: "holds out (b, i)" using Cons.prems st by simp
    from Cons.IH [OF holds_put(2) [OF h True]] show ?thesis
      using True st by (simp add: holds_put(1) [OF h True])
  next
    case False
    then show ?thesis using holds_full [of out b i "c # cs"] Cons.prems st by simp
  qed
qed simp

lemma emit_str_holds: "terminated s \<Longrightarrow> holds out st \<Longrightarrow> \<exists>st'. emit_str s st = Some st' \<and> holds (out @ c_str s) st'"
proof (induction s arbitrary: out st)
  case (Cons c s)
  obtain b i where st: "st = (b, i)" by (cases st) auto
  have h: "holds out (b, i)" using Cons.prems st by simp
  show ?case
  proof (cases "c \<noteq> 0 \<and> i < 255")
    case True
    then have i: "i < 255" by simp
    have "terminated s" using Cons.prems True by (auto simp: terminated_def)
    from Cons.IH [OF this holds_put(2) [OF h i]] show ?thesis
      using True st by (simp add: holds_put(1) [OF h i])
  next
    case False
    then show ?thesis using holds_full [OF h, of "c_str (c # s)"] h st by (cases "c = 0") auto
  qed
qed (simp add: terminated_def)

lemma of_int_digit: "0 \<le> d \<Longrightarrow> (of_int d :: u8) = of_nat (nat d)"
  by (metis int_nat_eq of_int_of_nat_eq)

lemma dec_digits_text: "0 \<le> v \<Longrightarrow> v < 10 ^ Suc room \<Longrightarrow> rev (dec_digits (Suc room) v) = dec_text (nat v)"
proof (induction room arbitrary: v)
  case 0
  then have v: "v div 10 = 0" "v mod 10 = v" "nat v < 10" "nat v mod 10 = nat v" by auto
  have "dec_text (nat v) = [48 + of_nat (nat v)]" using v(3,4) by (subst dec_text.simps) simp
  moreover have "dec_digits (Suc 0) v = [48 + of_int v]" using v(1,2) by simp
  ultimately show ?case using of_int_digit [of v] 0 by (simp only: rev_singleton_conv)
next
  case (Suc room)
  have m: "(of_int (v mod 10) :: u8) = of_nat (nat v mod 10)"
    using Suc.prems by (simp add: of_int_digit nat_mod_distrib)
  show ?case
  proof (cases "v div 10 = 0")
    case True
    then have "v < 10" using Suc.prems by auto
    then have "nat v < 10" by simp
    then show ?thesis using True m by (subst dec_text.simps) simp
  next
    case False
    then have "\<not> nat v < 10" using Suc.prems by auto
    moreover have "rev (dec_digits (Suc room) (v div 10)) = dec_text (nat (v div 10))"
      using Suc.prems by (intro Suc.IH) (auto simp: pos_imp_zdiv_nonneg_iff)
    moreover have "nat (v div 10) = nat v div 10" using Suc.prems by (simp add: nat_div_distrib)
    ultimately have "rev (dec_digits (Suc (Suc room)) v) = dec_text (nat v div 10) @ [48 + of_nat (nat v mod 10)]"
      using False by (simp only: dec_digits.simps m) simp
    also have "\<dots> = dec_text (nat v)"
      using \<open>\<not> nat v < 10\<close> by (subst (2) dec_text.simps) simp
    finally show ?thesis .
  qed
qed

lemma u32_div_16: "unat (v div 16 :: u32) = unat v div 16"
  by (simp add: unat_div)

lemma u32_mod_16: "(of_nat (unat v mod 16) :: u32) = v mod 16"
proof -
  have "unat (v mod 16) = unat v mod 16" by (simp add: unat_mod)
  then show ?thesis by (metis unat_of_nat_u32 unat_eqD unat_u32_lt)
qed

lemma u32_div_16_zero: "(v :: u32) div 16 = 0 \<longleftrightarrow> unat v < 16"
proof -
  have "v div 16 = 0 \<longleftrightarrow> unat (v div 16) = 0" using unat_eqD [of "v div 16" 0] by auto
  then show ?thesis by (simp add: u32_div_16 div_eq_0_iff)
qed

lemma hex_digits_text:
  "unat v < 16 ^ Suc room \<Longrightarrow> rev (hex_digits_of (Suc room) up v) = hex_text up (unat v)"
proof (induction room arbitrary: v)
  case 0
    then show ?case using u32_div_16_zero [of v] u32_mod_16 [of v] by (subst hex_text.simps) simp
  next
    case (Suc room)
    show ?case
    proof (cases "v div 16 = 0")
      case True
      then show ?thesis using u32_div_16_zero [of v] u32_mod_16 [of v] by (subst hex_text.simps) simp
    next
      case False
      moreover have "rev (hex_digits_of (Suc room) up (v div 16)) = hex_text up (unat (v div 16))"
        using Suc.prems by (intro Suc.IH) (simp only: u32_div_16, auto)
      ultimately show ?thesis using u32_div_16_zero [of v] u32_mod_16 [of v] u32_div_16 [of v]
        by (subst hex_text.simps) simp
    qed
qed

lemma dec_text_length: "length (dec_text n) > 0"
  by (subst dec_text.simps) simp

lemma parse_width_dec: "n < 2147483648 \<Longrightarrow> parse_width (dec_text n @ ds) 0 = parse_width ds (int n)"
proof (induction n arbitrary: ds rule: dec_text.induct)
  case (1 n)
  obtain d where d: "d = n mod 10" "d < 10" by simp
  have u: "unat (48 + of_nat d :: u8) = 48 + d"
    using d(2) by (simp add: unat_word_ariths unsigned_of_nat take_bit_nat_def)
  have g: "48 \<le> (48 + of_nat d :: u8)" "(48 + of_nat d :: u8) \<le> 57"
    using d(2) u by (simp_all add: word_le_nat_alt)
  show ?case
  proof (cases "n < 10")
    case True
    then show ?thesis using u g d by (subst dec_text.simps) simp
  next
    case False
    have n: "int (n div 10) * 10 + int d = int n" using d(1) by presburger
    have "parse_width (dec_text (n div 10) @ (48 + of_nat d) # ds) 0 =
        parse_width ((48 + of_nat d) # ds) (int (n div 10))"
      using "1.prems" False by (intro "1.IH") auto
    moreover have "\<dots> = parse_width ds (int n)"
      using g u n "1.prems" by (simp add: c_int_def)
    ultimately show ?thesis using False d(1) by (subst dec_text.simps) simp
  qed
qed

lemma parse_width_text:
  assumes "w < 2147483648" and "k < 48 \<or> 57 < k" and "d = width_text pad w @ k # rest"
  shows "rd d 0 = Some (hd d)" and "(hd d = 48) = pad"
    and "parse_width (if pad then tl d else d) 0 = Some (int w, k # rest)"
proof -
  have k: "parse_width (k # rest) v = Some (v, k # rest)" for v using assms(2) by auto
  have dt: "w \<noteq> 0 \<Longrightarrow> \<exists>x xs. dec_text w = x # xs \<and> x \<noteq> 48"
  proof (induction w rule: dec_text.induct)
    case (1 n)
    show ?case
    proof (cases "n < 10")
      case True
      have "unat (of_nat n :: u8) = n" using True by (simp add: unsigned_of_nat take_bit_nat_def)
      then have "(of_nat n :: u8) \<noteq> 0" using "1.prems" by (metis unsigned_0)
      then show ?thesis using True by (subst dec_text.simps) simp
    next
      case False
      then have "n div 10 \<noteq> 0" by simp
      from "1.IH" [OF False this] show ?thesis using False by (subst dec_text.simps) auto
    qed
  qed
  have p: "parse_width (dec_text w @ k # rest) 0 = Some (int w, k # rest)"
    using parse_width_dec [OF assms(1)] k by simp
  have "d \<noteq> []" using assms(3) by simp
  then show "rd d 0 = Some (hd d)" by (cases d) simp_all
  show "(hd d = 48) = pad" using dt assms(2,3) by (cases "w = 0") (auto simp: width_text_def)
  show "parse_width (if pad then tl d else d) 0 = Some (int w, k # rest)"
    using p k assms(3) by (auto simp: width_text_def)
qed

lemma emit_padding:
  assumes "holds out st"
  shows "\<exists>st'. (if pad \<and> int n > int l then emit 256 (replicate (nat (int n - int l)) 48) st else Some st) = Some st' \<and>
    holds (out @ (if pad then replicate (n - l) 48 else [])) st'"
proof (cases "pad \<and> int n > int l")
  case True
  then have "nat (int n - int l) = n - l" by simp
  with True show ?thesis using emit_holds [OF assms] by simp
next
  case False
  then have "(if pad then replicate (n - l) 48 else []) = ([] :: u8 list)" by auto
  then show ?thesis using assms unfolding if_not_P [OF False] by (intro exI [of _ st]) simp
qed

lemma print_decimal_holds:
  fixes w :: u32
  assumes "w \<noteq> 0x80000000" and "holds out st"
  shows "\<exists>st'. print_decimal (sint w) 256 (int n) pad st = Some st' \<and>
    holds (out @ (if sint w < 0 then 45 # dec_text (nat (- sint w)) else padding pad n (dec_text (nat (sint w))))) st'"
proof -
  have r: "- 2147483648 \<le> sint w" "sint w < 2147483648"
    using sint_greater_eq [of w] sint_less [of w] by simp_all
  have "sint w \<noteq> - 2147483648"
  proof
    assume "sint w = - 2147483648"
    then have "sint w = sint (0x80000000 :: u32)" by simp
    then have "w = 0x80000000" by (rule signed_word_eqI)
    with assms(1) show False ..
  qed
  with r have m: "- 2147483648 < sint w" by linarith
  have e: "holds out st \<Longrightarrow> \<exists>st'. emit 256 cs st = Some st' \<and> holds (out @ cs) st'" for cs out st
    by (rule emit_holds)
  show ?thesis
  proof (cases "sint w < 0")
    case True
    have d: "rev (dec_digits 16 (- sint w)) = dec_text (nat (- sint w))"
      using dec_digits_text [of "- sint w" 15] True m by simp
    have c: "c_int (- sint w) = Some (- sint w)" using True m by simp
    obtain st1 where s1: "emit 256 [45] st = Some st1" "holds (out @ [45]) st1" using e [OF assms(2)] by blast
    obtain st2 where s2: "emit 256 (dec_text (nat (- sint w))) st1 = Some st2"
        "holds ((out @ [45]) @ dec_text (nat (- sint w))) st2" using e [OF s1(2)] by blast
    show ?thesis unfolding print_decimal_def Let_def using True c d s1(1) s2 by simp
  next
    case False
    have d: "rev (dec_digits 16 (sint w)) = dec_text (nat (sint w))"
      using dec_digits_text [of "sint w" 15] False r by simp
    then have l: "length (dec_digits 16 (sint w)) = length (dec_text (nat (sint w)))" by (metis length_rev)
    let ?p = "if pad then replicate (n - length (dec_text (nat (sint w)))) 48 else []"
    obtain st1 where s1: "(if pad \<and> int n > int (length (dec_text (nat (sint w)))) then
        emit 256 (replicate (nat (int n - int (length (dec_text (nat (sint w)))))) 48) st else Some st) = Some st1"
        "holds (out @ ?p) st1" using emit_padding [OF assms(2)] by blast
    obtain st2 where s2: "emit 256 (dec_text (nat (sint w))) st1 = Some st2"
        "holds ((out @ ?p) @ dec_text (nat (sint w))) st2" using e [OF s1(2)] by blast
    have pz: "(pad \<and> int n > int (length (dec_text (nat (sint w)))) \<and> \<not> False) =
        (pad \<and> int n > int (length (dec_text (nat (sint w)))))" by simp
    have neg: "(sint w < 0) = False" using False by simp
    show ?thesis unfolding print_decimal_def Let_def neg d l if_False bind.bind_lunit pz s1(1)
      using s2 by (simp add: padding_def)
  qed
qed

lemma print_hex_holds:
  assumes "holds out st"
  shows "\<exists>st'. print_hex w 256 (int n) pad up st = Some st' \<and>
    holds (out @ padding pad n (hex_text up (unat w))) st'"
proof -
  let ?t = "hex_text up (unat w)"
  have d: "rev (hex_digits_of 16 up w) = ?t"
    using hex_digits_text [of w 15 up] unat_u32_lt [of w] by simp
  then have l: "length (hex_digits_of 16 up w) = length ?t" by (metis length_rev)
  let ?p = "if pad then replicate (n - length ?t) 48 else []"
  obtain st1 where s1: "(if pad \<and> int n > int (length ?t) then
      emit 256 (replicate (nat (int n - int (length ?t))) 48) st else Some st) = Some st1"
      "holds (out @ ?p) st1" using emit_padding [OF assms] by blast
  obtain st2 where s2: "emit 256 ?t st1 = Some st2" "holds ((out @ ?p) @ ?t) st2" using emit_holds [OF s1(2)] by blast
  show ?thesis unfolding print_hex_def Let_def d l s1(1) using s2 by (simp add: padding_def)
qed

lemma conversion_holds:
  assumes "list_all printable (d # ds)" and "list_all arg_ok args" and "rendered (d # ds) args = Some otx"
    and "\<nexists>c. d = Lit c" and "holds out (b, i)" and "i < 255"
  shows "\<exists>k pad w args' st' t otx'. directive_text d = 37 # width_text pad w @ [k] \<and> w < 2147483648 \<and>
    (k < 48 \<or> 57 < k) \<and> conversion k (int w) pad args (b, i) = Some (args', st') \<and> holds (out @ t) st' \<and>
    list_all arg_ok args' \<and> rendered ds args' = Some otx' \<and> otx = t @ otx'"
proof (cases d)
  case (Lit c)
  then show ?thesis using assms(4) by simp
next
  case Str
  then obtain s as where a: "args = Arg_Str s # as" using assms(3)
    by (cases "(d # ds, args)" rule: rendered.cases) auto
  obtain otx' where t: "rendered ds as = Some otx'" using assms(3) Str a by auto
  obtain cs where cs: "cs = (case s of None \<Rightarrow> [] | Some s \<Rightarrow> c_str s)" by simp
  have "\<exists>st'. conversion 115 0 False args (b, i) = Some (as, st') \<and> holds (out @ cs) st'"
  proof (cases s)
    case None
    then show ?thesis using assms(5) a cs by (simp add: conversion_def)
  next
    case (Some x)
    then have "terminated x" using assms(2) a by (simp add: arg_ok_def)
    from emit_str_holds [OF this assms(5)] show ?thesis using Some a cs
      by (auto simp: conversion_def simp del: emit_str.simps)
  qed
  then show ?thesis using assms(2,3) Str a t cs
    by (intro exI [of _ 115] exI [of _ False] exI [of _ 0] exI [of _ as]) (auto simp: width_text_def)
next
  case Chr
  then obtain w as where a: "args = Arg_Int w # as" using assms(3)
    by (cases "(d # ds, args)" rule: rendered.cases) auto
  obtain otx' where t: "rendered ds as = Some otx'" using assms(3) Chr a by auto
  have "conversion 99 0 False args (b, i) = Some (as, (b[i := ucast w], Suc i))"
    using holds_put(1) [OF assms(5,6)] a by (simp add: conversion_def)
  with holds_put(2) [OF assms(5,6)] show ?thesis using assms(2,3) Chr a t
    by (intro exI [of _ 99] exI [of _ False] exI [of _ 0] exI [of _ as]) (auto simp: width_text_def)
next
  case (Dec pad n)
  then obtain w as where a: "args = Arg_Int w # as" using assms(3)
    by (cases "(d # ds, args)" rule: rendered.cases) auto
  obtain otx' where t: "rendered ds as = Some otx'" using assms(3) Dec a by auto
  have "w \<noteq> 0x80000000" using assms(2) a by (simp add: arg_ok_def)
  from print_decimal_holds [OF this assms(5), of n pad] obtain st' where
    s: "print_decimal (sint w) 256 (int n) pad (b, i) = Some st'"
      "holds (out @ (if sint w < 0 then 45 # dec_text (nat (- sint w)) else padding pad n (dec_text (nat (sint w))))) st'"
    by blast
  have "conversion 100 (int n) pad args (b, i) = Some (as, st')" using s(1) a by (simp add: conversion_def)
  then show ?thesis using assms(1,2,3) Dec a t s(2)
    by (intro exI [of _ 100] exI [of _ pad] exI [of _ n] exI [of _ as] exI [of _ st']) (auto simp: printable_def)
next
  case (Hex up pad n)
  then obtain w as where a: "args = Arg_Int w # as" using assms(3)
    by (cases "(d # ds, args)" rule: rendered.cases) auto
  obtain otx' where t: "rendered ds as = Some otx'" using assms(3) Hex a by auto
  from print_hex_holds [OF assms(5), of w n pad up] obtain st' where
    s: "print_hex w 256 (int n) pad up (b, i) = Some st'"
      "holds (out @ padding pad n (hex_text up (unat w))) st'" by blast
  have "conversion (if up then 88 else 120) (int n) pad args (b, i) = Some (as, st')"
    using s(1) a by (cases up) (simp_all add: conversion_def)
  then show ?thesis using assms(1,2,3) Hex a t s(2)
    by (intro exI [of _ "if up then 88 else 120"] exI [of _ pad] exI [of _ n] exI [of _ as] exI [of _ st'])
      (auto simp: printable_def)
qed

lemma printf_loop_holds:
  assumes "list_all printable ds" and "list_all arg_ok args" and "rendered ds args = Some otx" and "holds out st"
  shows "\<exists>st'. printf_loop (concat (map directive_text ds) @ 0 # rest) args st = Some st' \<and> holds (out @ otx) st'"
  using assms
proof (induction ds arbitrary: args otx out st)
  case Nil
  then show ?case by (subst printf_loop.simps) simp
next
  case (Cons d ds)
  obtain b i where st: "st = (b, i)" by (cases st) auto
  let ?rest = "concat (map directive_text ds) @ 0 # rest"
  show ?case
  proof (cases "i < 255")
    case False
    obtain x xs where "concat (map directive_text (d # ds)) @ 0 # rest = x # xs" by (cases d) auto
    then show ?thesis using False st holds_full [of out b i otx] Cons.prems(4)
      by (subst printf_loop.simps) (simp del: list.map concat.simps)
  next
    case True
    have h: "holds out (b, i)" using Cons.prems st by simp
    show ?thesis
    proof (cases "\<exists>c. d = Lit c")
      case True
      then obtain c where c: "d = Lit c" by blast
      then have c0: "c \<noteq> 0" "c \<noteq> 37" using Cons.prems(1) by (auto simp: printable_def)
      obtain otx' where t: "rendered ds args = Some otx'" "otx = c # otx'" using Cons.prems(3) c by auto
      from Cons.IH [OF _ Cons.prems(2) t(1) holds_put(2) [OF h \<open>i < 255\<close>]] Cons.prems(1)
      show ?thesis using c c0 t(2) st holds_put(1) [OF h \<open>i < 255\<close>] \<open>i < 255\<close>
        by (subst printf_loop.simps) simp
    next
      case False
      from conversion_holds [OF Cons.prems(1-3) False h \<open>i < 255\<close>]
      obtain k pad w args' st' t otx' where c: "directive_text d = 37 # width_text pad w @ [k]" "w < 2147483648"
        "k < 48 \<or> 57 < k" "conversion k (int w) pad args (b, i) = Some (args', st')" "holds (out @ t) st'"
        "list_all arg_ok args'" "rendered ds args' = Some otx'" "otx = t @ otx'" by blast
      note p = parse_width_text [OF c(2,3) refl, of pad "?rest"]
      from Cons.IH [OF _ c(6,7,5)] Cons.prems(1) obtain st2 where
        s: "printf_loop ?rest args' st' = Some st2" "holds ((out @ t) @ otx') st2" by auto
      have "printf_loop (concat (map directive_text (d # ds)) @ 0 # rest) args st = printf_loop ?rest args' st'"
        using c(1,4) p st \<open>i < 255\<close> by (subst printf_loop.simps) (simp add: Let_def)
      then show ?thesis using s c(8) by simp
    qed
  qed
qed

lemma takeWhile_take: "takeWhile P (take n xs) = take n (takeWhile P xs)"
  by (induction xs arbitrary: n) (auto simp: take_Cons split: nat.splits)

lemma c_str_stop: "c_str (xs @ 0 # ys) = c_str xs"
  by (induction xs) auto

lemma printf_buffer_ex:
  assumes "list_all printable ds" and "list_all arg_ok args" and "rendered ds args = Some out" and "length buffer = 256"
  shows "\<exists>b. printf_buffer (concat (map directive_text ds) @ 0 # rest) args buffer = Some b \<and>
    length b = 256 \<and> terminated b \<and> c_str b = take 255 (c_str out)"
proof -
  have "holds [] (buffer, 0)" using assms(4) by (simp add: holds_def)
  from printf_loop_holds [OF assms(1-3) this, of rest] obtain b i where
    l: "printf_loop (concat (map directive_text ds) @ 0 # rest) args (buffer, 0) = Some (b, i)" "holds out (b, i)"
    by auto
  have i: "i < length b" "length b = 256" "take i b = take 255 out" using l(2) by (auto simp: holds_def)
  have "b[i := 0] = take 255 out @ 0 # drop (Suc i) b" using i by (simp add: upd_conv_take_nth_drop)
  then have "c_str (b[i := 0]) = take 255 (c_str out)" by (simp add: c_str_stop takeWhile_take)
  moreover have "terminated (b[i := 0])" using i(1) by (simp add: terminated_def set_update_memI)
  ultimately show ?thesis using l(1) i by (simp add: printf_buffer_def wr_in)
qed

text \<open>Claim C27. For a format of plain characters, \<^verbatim>\<open>%s\<close>, \<^verbatim>\<open>%c\<close>, \<^verbatim>\<open>%d\<close>, \<^verbatim>\<open>%x\<close> and \<^verbatim>\<open>%X\<close> with widths, \<^verbatim>\<open>kernel_printf\<close> produces
  exactly the text asked for, cut to 255 characters, inside its buffer and terminated.\<close>

theorem printf_renders:
  assumes "list_all printable ds" and "list_all arg_ok args" and "rendered ds args = Some out" and "length buffer = 256"
  shows "\<exists>b. printf_buffer (concat (map directive_text ds) @ 0 # rest) args buffer = Some b \<and>
    length b = 256 \<and> terminated b \<and> c_str b = take 255 (c_str out)"
  by (rule printf_buffer_ex [OF assms])

lemma rendered_sample:
  "rendered [Lit 0x3D, Dec True 5, Lit 0x20, Hex False True 4, Str] [Arg_Int 42, Arg_Int 255, Arg_Str (Some [0x21, 0])] =
    Some [0x3D, 0x30, 0x30, 0x30, 0x34, 0x32, 0x20, 0x30, 0x30, 0x66, 0x66, 0x21]"
proof -
  have r: "replicate 3 (48 :: u8) = [48, 48, 48]" "replicate 2 (48 :: u8) = [48, 48]"
    by (simp_all add: numeral_3_eq_3 numeral_2_eq_2)
  have d: "dec_text 42 = [52, 50]"
    by (simp add: dec_text.simps [of 42] dec_text.simps [of 4])
  have h: "hex_text False 255 = [102, 102]"
    by (simp add: hex_text.simps [of _ 255] hex_text.simps [of _ 15] hex_char_def)
  show ?thesis by (simp add: padding_def r d h)
qed

theorem printf_renders_witness:
  "\<exists>b. printf_buffer (concat (map directive_text [Lit 0x3D, Dec True 5, Lit 0x20, Hex False True 4, Str]) @ 0 # [])
      [Arg_Int 42, Arg_Int 255, Arg_Str (Some [0x21, 0])] (replicate 256 1) = Some b \<and>
    c_str b = take 255 (c_str [0x3D, 0x30, 0x30, 0x30, 0x34, 0x32, 0x20, 0x30, 0x30, 0x66, 0x66, 0x21])"
  using printf_renders [OF _ _ rendered_sample, of "replicate 256 1" "[]"]
  by (auto simp: printable_def arg_ok_def terminated_def simp del: concat.simps list.map directive_text.simps)

text \<open>A format that ends in \<^verbatim>\<open>%\<close> makes the loop step over its terminator and read on behind it.\<close>

theorem printf_trailing_percent_overruns:
  assumes "list_all (\<lambda>c. c \<noteq> 0 \<and> c \<noteq> 37) cs" and "length cs < 254" and "length buffer = 256"
  shows "printf_buffer (cs @ [37, 0]) args buffer = None"
proof -
  have "printf_loop (cs @ [37, 0]) args (b, i) = None"
    if "length b = 256" and "i + length cs < 254" for b i
    using assms(1) that
  proof (induction cs arbitrary: b i)
    case Nil
    then show ?case
      by (subst printf_loop.simps) (simp add: conversion_def wr_in, subst printf_loop.simps, simp)
  next
    case (Cons c cs)
    then have "printf_loop (cs @ [37, 0]) args (b[i := c], Suc i) = None" by (intro Cons.IH) auto
    then show ?case using Cons.prems by (subst printf_loop.simps) (simp add: wr_in)
  qed
  from this [of buffer 0] assms(2,3) show ?thesis by (simp add: printf_buffer_def)
qed

theorem printf_trailing_percent_overruns_witness:
  "printf_buffer ([0x31, 0x30, 0x30] @ [37, 0]) [] (replicate 256 0) = None"
  by (rule printf_trailing_percent_overruns) simp_all

end
