(* ===== verification/Kernel_Stdio.thy ===== *)
theory Kernel_Stdio
  imports Terminal Format
begin

section \<open>The console (kernel\_stdio.c)\<close>

text \<open>
  The two terminals of the kernel and the machine they draw on. The buffers that the code leaves uninitialised are
  arguments; the time stamp of \<^verbatim>\<open>LOG\<close> is the low word of the processor's counter.
\<close>

record console =
  shell_terminal :: terminal_contex
  log_terminal :: terminal_contex
  con_machine :: machine

definition klog_header :: "u8 list" where
  "klog_header = map_of_char ''--------------------------------/ KERNEL LOG /---------------------------------'' @ [0]"

definition kernel_stdio_init :: "console \<Rightarrow> console option" where
  "kernel_stdio_init c = do {
     m \<leftarrow> print_string_to_VGA_display_buffer (19 * 80) klog_header (length klog_header - 1) (con_machine c);
     (s, m) \<leftarrow> terminal_init (shell_terminal c) 0 17 True m;
     (l, m) \<leftarrow> terminal_init (log_terminal c) 20 5 False m;
     Some \<lparr>shell_terminal = s, log_terminal = l, con_machine = m\<rparr>
   }"

text \<open>The rest of the 80 characters behind \<^verbatim>\<open>"AbcdAbcd: "\<close> is 0. The eight digits are written over its start.\<close>

definition LOG_line :: "u8 list option \<Rightarrow> u32 \<Rightarrow> u8 list option" where
  "LOG_line message timestamp = do {
     let str_with_timestamp = map_of_char ''AbcdAbcd: '' @ replicate 70 0;
     s \<leftarrow> long_to_hex (sint timestamp) (Some str_with_timestamp) 8 16;
     message_size \<leftarrow> strlen_unsafe_logless message;
     s \<leftarrow> append_string s 80 message (message_size + 1);
     s
   }"

definition LOG :: "u8 list option \<Rightarrow> u32 \<Rightarrow> console \<Rightarrow> console option" where
  "LOG message timestamp c = do {
     s \<leftarrow> LOG_line message timestamp;
     (l, m) \<leftarrow> terminal_printline s (log_terminal c, con_machine c);
     Some (c\<lparr>log_terminal := l, con_machine := m\<rparr>)
   }"

fun tty_string :: "u8 list \<Rightarrow> machine \<Rightarrow> machine option" where
  "tty_string [] m = None"
| "tty_string (c # message) m = (if c = 0 then Some m else tty_string message (tty_write c m))"

definition kernel_print :: "u8 list \<Rightarrow> console \<Rightarrow> console option" where
  "kernel_print message c = do {
     (s, m) \<leftarrow> terminal_print message (shell_terminal c, con_machine c);
     m \<leftarrow> tty_string message m;
     Some (c\<lparr>shell_terminal := s, con_machine := m\<rparr>)
   }"

definition kernel_println :: "u8 list \<Rightarrow> console \<Rightarrow> console option" where
  "kernel_println message c = do { c \<leftarrow> kernel_print message c; kernel_print [10, 0] c }"

definition kernel_printf :: "u8 list \<Rightarrow> printf_arg list \<Rightarrow> u8 list \<Rightarrow> console \<Rightarrow> console option" where
  "kernel_printf format args buffer c = do {
     b \<leftarrow> printf_buffer format args buffer;
     kernel_print b c
   }"

definition kernel_putchar :: "u8 \<Rightarrow> console \<Rightarrow> console option" where
  "kernel_putchar new_char c = do {
     (s, m) \<leftarrow> terminal_putchar new_char (shell_terminal c, con_machine c);
     m \<leftarrow> terminal_render_to_VGA s m;
     let m = (if new_char = 8 \<or> new_char = 0x7f
       then tty_write 8 (tty_write 32 (tty_write 8 m)) else tty_write new_char m);
     Some (c\<lparr>shell_terminal := s, con_machine := m\<rparr>)
   }"

subsection \<open>The layout of the screen\<close>

text \<open>The shell has rows 0 to 17, its input line included, the log rows 20 to 24; row 19 is the header.\<close>

definition console_ok :: "console \<Rightarrow> bool" where
  "console_ok c \<longleftrightarrow> terminal_ok (shell_terminal c) \<and> terminal_ok (log_terminal c) \<and>
     tc_window_position_y (shell_terminal c) = 0 \<and> tc_window_size_y (shell_terminal c) = 17 \<and> tc_is_input_enabled (shell_terminal c) \<and>
     tc_window_position_y (log_terminal c) = 20 \<and> tc_window_size_y (log_terminal c) = 5 \<and> \<not> tc_is_input_enabled (log_terminal c)"

definition header_shown :: "machine \<Rightarrow> bool" where
  "header_shown m \<longleftrightarrow> list_all (\<lambda>x. shown m x 19 = klog_header ! x) [0..<79]"

lemma console_okD:
  assumes "console_ok c"
  shows "terminal_ok (shell_terminal c)" and "terminal_ok (log_terminal c)"
    and "window_ok (shell_terminal c)" and "window_ok (log_terminal c)"
    and "window_rows (shell_terminal c) = {0..<18}" and "window_rows (log_terminal c) = {20..<25}"
    and "window_size (shell_terminal c) = 17" and "window_size (log_terminal c) = 5"
  using assms by (simp_all add: console_ok_def window_ok_def window_rows_def window_size_def)

lemma console_ok_shell:
  "console_ok c \<Longrightarrow> terminal_ok t \<Longrightarrow> same_window (shell_terminal c) t \<Longrightarrow> console_ok (c\<lparr>shell_terminal := t, con_machine := m\<rparr>)"
  by (simp add: console_ok_def same_window_def)

lemma console_ok_log:
  "console_ok c \<Longrightarrow> terminal_ok t \<Longrightarrow> same_window (log_terminal c) t \<Longrightarrow> console_ok (c\<lparr>log_terminal := t, con_machine := m\<rparr>)"
  by (simp add: console_ok_def same_window_def)

text \<open>What a terminal shows: its lines from the top of its window on.\<close>

definition shows_lines :: "machine \<Rightarrow> terminal_contex \<Rightarrow> bool" where
  "shows_lines m t \<longleftrightarrow> list_all (\<lambda>k. list_all (\<lambda>x. shown m x (nat (tc_window_position_y t) + k) = terminal_lines t ! k ! x) [0..<80])
     [0..<length (terminal_lines t)]"

lemma draws_shows_lines:
  assumes "terminal_ok t" and "window_ok t" and "draws (terminal_picture t) m m'"
  shows "shows_lines m' t"
proof -
  note ok = terminal_okD [OF assms(1)]
  let ?y = "nat (tc_window_position_y t)"
  have len: "length (terminal_lines t) = line_count t" by (simp add: terminal_lines_ring)
  have "shown m' x (?y + k) = terminal_lines t ! k ! x" if "k < line_count t" "x < 80" for k x
  proof -
    have "?y + k < 25" using that ok(6,8) assms(2) by (auto simp: window_ok_def split: if_splits)
    moreover have "terminal_picture t (x, ?y + k) = Some (terminal_lines t ! k ! x)"
      using that len by (auto simp: terminal_picture_def lines_picture_def row_picture_def map_add_def Let_def)
    ultimately show ?thesis using draws_shown [OF assms(3) that(2)] by simp
  qed
  then show ?thesis unfolding shows_lines_def list_all_iff set_upt using len by simp
qed

lemma only_rows_shows_lines:
  assumes "only_rows R m m'" and "shows_lines m t" and "terminal_ok t" and "window_ok t" and "R \<inter> window_rows t = {}"
  shows "shows_lines m' t"
proof -
  note ok = terminal_okD [OF assms(3)]
  let ?y = "nat (tc_window_position_y t)"
  have len: "length (terminal_lines t) = line_count t" by (simp add: terminal_lines_ring)
  have "shown m' x (?y + k) = shown m x (?y + k)" if "k < line_count t" "x < 80" for k x
  proof -
    have "?y + k < 25" using that ok(6,8) assms(4) by (auto simp: window_ok_def split: if_splits)
    moreover have "?y + k \<notin> R" using that ok(6) assms(5) by (auto simp: window_rows_def)
    ultimately show ?thesis using assms(1) that(2) by (simp add: only_rows_def)
  qed
  then show ?thesis using assms(2) unfolding shows_lines_def list_all_iff set_upt by (simp add: len)
qed

text \<open>The serial line gets every character, and a line feed behind each carriage return.\<close>

definition tty_text :: "u8 list \<Rightarrow> u8 list" where
  "tty_text cs = concat (map (\<lambda>c. if c = 13 then [13, 10] else [c]) cs)"

lemma serial_tty_write: "serial (tty_write c m) = serial m @ tty_text [c]"
  by (simp add: serial_def tty_write_def COM_port_TX_def write_byte_to_IO_port_def tty_text_def Let_def)

lemma tty_string_ok:
  "terminated s \<Longrightarrow> \<exists>m'. tty_string s m = Some m' \<and> vga_ram m' = vga_ram m \<and> serial m' = serial m @ tty_text (c_str s)"
proof (induction s arbitrary: m)
  case (Cons c s)
  show ?case
  proof (cases "c = 0")
    case True
    then show ?thesis by (simp add: tty_text_def)
  next
    case False
    then have "terminated s" using Cons.prems by (auto simp: terminated_def)
    from Cons.IH [OF this, of "tty_write c m"] False show ?thesis
      by (auto simp: serial_tty_write) (simp add: tty_text_def)
  qed
qed (simp add: terminated_def)

text \<open>The rest of the screen is not touched.\<close>

definition same_rows :: "nat set \<Rightarrow> machine \<Rightarrow> machine \<Rightarrow> bool" where
  "same_rows R m m' \<longleftrightarrow> (\<forall>x < 80. \<forall>y < 25. y \<in> R \<longrightarrow> shown m' x y = shown m x y) \<and> (\<forall>a \<ge> 4000. vga_ram m' a = vga_ram m a)"

lemma only_rows_same: "only_rows R m m' \<Longrightarrow> R \<inter> S = {} \<Longrightarrow> same_rows S m m'"
  by (auto simp: only_rows_def same_rows_def)

lemma same_rows_vga: "same_rows R m m' \<Longrightarrow> vga_ram m'' = vga_ram m' \<Longrightarrow> same_rows R m m''"
  by (simp add: same_rows_def shown_def)

lemma shows_lines_vga: "shows_lines m t \<Longrightarrow> vga_ram m' = vga_ram m \<Longrightarrow> shows_lines m' t"
  by (simp add: shows_lines_def shown_def)

lemma kernel_print_ok:
  assumes "console_ok c" and "terminated message"
  shows "\<exists>c'. kernel_print message c = Some c' \<and> console_ok c' \<and> log_terminal c' = log_terminal c \<and>
    (terminal_lines (shell_terminal c'), tc_current_end_x (shell_terminal c')) =
      screen_text 17 (c_str message) (terminal_lines (shell_terminal c), tc_current_end_x (shell_terminal c)) \<and>
    shows_lines (con_machine c') (shell_terminal c') \<and> same_rows {18..<25} (con_machine c) (con_machine c') \<and>
    serial (con_machine c') = serial (con_machine c) @ tty_text (c_str message)"
proof -
  note ok = console_okD [OF assms(1)]
  let ?t = "shell_terminal c" and ?m = "con_machine c"
  obtain t m0 m1 where 1: "terminal_print message (?t, ?m) = Some (t, m1)" "terminal_ok t" "same_window ?t t"
      "(terminal_lines t, tc_current_end_x t) = screen_text 17 (c_str message) (terminal_lines ?t, tc_current_end_x ?t)"
      "draws (terminal_picture t) m0 m1" "only_rows {0..<18} ?m m1"
    using terminal_print_ok [OF assms(2) ok(1,3), of ?m] unfolding ok(5,7) by blast
  obtain m2 where 2: "tty_string message m1 = Some m2" "vga_ram m2 = vga_ram m1" "serial m2 = serial m1 @ tty_text (c_str message)"
    using tty_string_ok [OF assms(2)] by blast
  have w: "window_ok t" using same_windowD [OF 1(3)] ok(3) by simp
  let ?c = "c\<lparr>shell_terminal := t, con_machine := m2\<rparr>"
  have "kernel_print message c = Some ?c" using 1(1) 2(1) by (simp add: kernel_print_def)
  moreover have "console_ok ?c" by (rule console_ok_shell [OF assms(1) 1(2,3)])
  moreover have "shows_lines m2 t" by (rule shows_lines_vga [OF draws_shows_lines [OF 1(2) w 1(5)] 2(2)])
  moreover have "same_rows {18..<25} ?m m2" by (rule same_rows_vga [OF only_rows_same [OF 1(6)] 2(2)]) auto
  moreover have "serial m2 = serial ?m @ tty_text (c_str message)" using 1(6) 2(3) by (simp add: only_rows_def)
  ultimately show ?thesis using 1(4) by (intro exI [of _ ?c]) simp
qed

lemma LOG_line_ok:
  assumes "terminated message" and "length (c_str message) \<le> 100" and "0 \<le> sint timestamp"
  shows "\<exists>s. LOG_line (Some message) timestamp = Some s \<and> terminated s \<and>
    c_str s = take 79 (hex_digits 8 (sint timestamp) @ [58, 32] @ c_str message)"
proof -
  let ?h = "hex_digits 8 (sint timestamp)"
  have m: "map_of_char ''AbcdAbcd: '' = [65, 98, 99, 100, 65, 98, 99, 100, 58, 32]" by (simp add: map_of_char_def)
  have l: "long_to_hex (sint timestamp) (Some (map_of_char ''AbcdAbcd: '' @ replicate 70 0)) 8 16 =
      Some (Some (?h @ [58, 32] @ replicate 70 0))"
    using long_to_hex_loop_eq [OF assms(3), of 8 "map_of_char ''AbcdAbcd: '' @ replicate 70 0"]
    by (simp add: long_to_hex_def m)
  let ?d = "?h @ [58, 32] @ replicate 70 0"
  have nz: "0 \<notin> set (?h @ [58, 32])" using hex_digits_nonzero by simp
  have "?d = (?h @ [58, 32]) @ 0 # replicate 69 0" by (simp add: replicate_Suc [symmetric] del: replicate_Suc)
  then have cd: "c_str ?d = ?h @ [58, 32]" using c_str_append_null [OF nz] by metis
  have td: "terminated ?d" by (simp add: terminated_def)
  have sl: "strlen_unsafe_logless (Some message) = Some (of_nat (length (c_str message)))"
    using assms(1,2) by (simp add: strlen_unsafe_logless_def strlen_scan_eq)
  obtain s where s: "append_string (Some ?d) 80 (Some message) (of_nat (length (c_str message) + 1)) = Some (Some s)"
      "terminated s" "c_str s = take 79 ((?h @ [58, 32]) @ c_str message)"
    using append_string_ex [OF td, of 80 message] assms cd by auto
  then show ?thesis using l sl by (simp add: LOG_line_def add.commute)
qed

lemma LOG_ok:
  assumes "console_ok c" and "terminated message" and "length (c_str message) \<le> 100" and "0 \<le> sint timestamp"
  shows "\<exists>c'. LOG (Some message) timestamp c = Some c' \<and> console_ok c' \<and> shell_terminal c' = shell_terminal c \<and>
    (terminal_lines (log_terminal c'), tc_current_end_x (log_terminal c')) =
      screen_text 5 (take 79 (hex_digits 8 (sint timestamp) @ [58, 32] @ c_str message) @ [10])
        (terminal_lines (log_terminal c), tc_current_end_x (log_terminal c)) \<and>
    shows_lines (con_machine c') (log_terminal c') \<and> same_rows {0..<20} (con_machine c) (con_machine c') \<and>
    serial (con_machine c') = serial (con_machine c)"
proof -
  note ok = console_okD [OF assms(1)]
  let ?t = "log_terminal c" and ?m = "con_machine c"
  obtain s where s: "LOG_line (Some message) timestamp = Some s" "terminated s"
      "c_str s = take 79 (hex_digits 8 (sint timestamp) @ [58, 32] @ c_str message)"
    using LOG_line_ok [OF assms(2-4)] by blast
  obtain t m0 m1 where 1: "terminal_printline s (?t, ?m) = Some (t, m1)" "terminal_ok t" "same_window ?t t"
      "(terminal_lines t, tc_current_end_x t) = screen_text 5 (c_str s @ [10]) (terminal_lines ?t, tc_current_end_x ?t)"
      "draws (terminal_picture t) m0 m1" "only_rows {20..<25} ?m m1"
    using terminal_printline_ok [OF s(2) ok(2,4), of ?m] unfolding ok(6,8) by blast
  have w: "window_ok t" using same_windowD [OF 1(3)] ok(4) by simp
  let ?c = "c\<lparr>log_terminal := t, con_machine := m1\<rparr>"
  have "LOG (Some message) timestamp c = Some ?c" using s(1) 1(1) by (simp add: LOG_def)
  moreover have "console_ok ?c" by (rule console_ok_log [OF assms(1) 1(2,3)])
  moreover have "shows_lines m1 t" by (rule draws_shows_lines [OF 1(2) w 1(5)])
  moreover have "same_rows {0..<20} ?m m1" by (rule only_rows_same [OF 1(6)]) auto
  moreover have "serial m1 = serial ?m" using 1(6) by (simp add: only_rows_def)
  ultimately show ?thesis using 1(4) s(3) by (intro exI [of _ ?c]) simp
qed

subsection \<open>Start-up\<close>

definition zeroed_terminal :: terminal_contex where
  "zeroed_terminal = \<lparr>tc_buffer = replicate 25 (replicate 80 0), tc_input_line = replicate 78 0, tc_window_position_y = 0,
     tc_window_size_y = 0, tc_current_first_line = 0, tc_current_end_line = 0, tc_current_end_x = 0, tc_is_input_enabled = False\<rparr>"

lemma klog_header_length: "length klog_header = 80"
  by (simp add: klog_header_def map_of_char_def)

lemma print_string_row:
  assumes "n \<le> 80" and "n \<le> length s" and "y < 25"
  shows "\<exists>m'. print_string_to_VGA_display_buffer (of_nat (80 * y)) s n m = Some m' \<and> draws (row_picture s n y) m m'"
  unfolding print_string_to_VGA_display_buffer_def
proof (rule for_loop_rule [where I = "\<lambda>k m'. draws (row_picture s k y) m m'"])
  have "row_picture s 0 y = Map.empty" by (auto simp: row_picture_def)
  then show "draws (row_picture s 0 y) m m" by (simp add: draws_refl)
  fix x m1 assume m1: "draws (row_picture s x y) m m1" and x: "x < n"
  have "x < 80" using x assms(1) by simp
  have "row_picture s x y ++ [(x, y) \<mapsto> s ! x] = row_picture s (Suc x) y"
    by (auto simp: row_picture_def map_add_def fun_eq_iff)
  moreover have "print_char_to_VGA_display_buffer (of_nat (80 * y) + of_nat x) c bg fg m1 =
      print_char_to_VGA_display (of_nat x) (of_nat y) c bg fg m1" for c bg fg
    unfolding print_char_to_VGA_display_def print_char_to_VGA_display_buffer_def Let_def
      print_char_position [OF \<open>x < 80\<close> assms(3)] by (simp add: cell_at_def algebra_simps)
  ultimately show "\<exists>m'. (do { c \<leftarrow> rd s x; Some (print_char_to_VGA_display_buffer (of_nat (80 * y) + of_nat x) c
      DEFAULT_BACKGROUND_COLOR DEFAULT_FOREGROUND_COLOR m1) }) = Some m' \<and> draws (row_picture s (Suc x) y) m m'"
    using draws_trans [OF m1 draws_char [OF \<open>x < 80\<close> assms(3), of "s ! x" m1 DEFAULT_BACKGROUND_COLOR DEFAULT_FOREGROUND_COLOR False]]
      x assms(2) by (simp add: rd_in)
qed simp

lemma kernel_stdio_init_ok:
  "\<exists>c. kernel_stdio_init \<lparr>shell_terminal = zeroed_terminal, log_terminal = zeroed_terminal, con_machine = m\<rparr> = Some c \<and>
     console_ok c \<and> header_shown (con_machine c) \<and> terminal_lines (shell_terminal c) = [] \<and>
     terminal_lines (log_terminal c) = [] \<and> tc_current_end_x (shell_terminal c) = 0 \<and> tc_current_end_x (log_terminal c) = 0"
proof -
  have z: "length (tc_buffer zeroed_terminal) = 25" "\<forall>row \<in> set (tc_buffer zeroed_terminal). length row = 80"
      "length (tc_input_line zeroed_terminal) = 78" "tc_current_end_x zeroed_terminal = 0"
    by (simp_all add: zeroed_terminal_def)
  obtain m1 where 1: "print_string_to_VGA_display_buffer (19 * 80) klog_header 79 m = Some m1"
      "draws (row_picture klog_header 79 19) m m1"
    using print_string_row [of 79 klog_header 19 m] klog_header_length by auto
  obtain t2 m2 where 2: "terminal_init zeroed_terminal 0 17 True m1 = Some (t2, m2)" "terminal_ok t2"
      "terminal_lines t2 = []" "tc_current_end_x t2 = 0" "tc_window_position_y t2 = 0" "tc_window_size_y t2 = 17"
      "tc_is_input_enabled t2" "only_rows (window_rows t2) m1 m2"
    using terminal_init_ok [OF z(1-3), of 0 17 True m1] z(4) by auto
  obtain t3 m3 where 3: "terminal_init zeroed_terminal 20 5 False m2 = Some (t3, m3)" "terminal_ok t3"
      "terminal_lines t3 = []" "tc_current_end_x t3 = 0" "tc_window_position_y t3 = 20" "tc_window_size_y t3 = 5"
      "\<not> tc_is_input_enabled t3" "only_rows (window_rows t3) m2 m3"
    using terminal_init_ok [OF z(1-3), of 20 5 False m2] z(4) by auto
  have r: "window_rows t2 = {0..<18}" "window_rows t3 = {20..<25}"
    using 2(5-7) 3(5-7) by (simp_all add: window_rows_def window_size_def)
  have "shown m3 x 19 = klog_header ! x" if x: "x < 79" for x
  proof -
    have "shown m3 x 19 = shown m1 x 19" using 2(8) 3(8) x unfolding r by (simp add: only_rows_def)
    also have "\<dots> = klog_header ! x" using draws_shown [OF 1(2), of x 19] x by (simp add: row_picture_def)
    finally show ?thesis .
  qed
  then have "header_shown m3" unfolding header_shown_def list_all_iff set_upt by simp
  moreover have "kernel_stdio_init \<lparr>shell_terminal = zeroed_terminal, log_terminal = zeroed_terminal, con_machine = m\<rparr> =
      Some \<lparr>shell_terminal = t2, log_terminal = t3, con_machine = m3\<rparr>"
    using 1(1) 2(1) 3(1) klog_header_length by (simp add: kernel_stdio_init_def)
  ultimately show ?thesis using 2 3 by (auto simp: console_ok_def)
qed

subsection \<open>Properties\<close>

text \<open>Claim C10. \<^verbatim>\<open>kernel_printf\<close> puts the text its format asks for, cut to 255 characters, behind what the shell window shows,
  scrolling it as a window of 17 lines; the screen then shows those lines, the header and the log window are not
  touched, and the serial line gets the same text.\<close>

theorem kernel_printf_shows:
  assumes "console_ok c" and "list_all printable ds" and "list_all arg_ok args" and "rendered ds args = Some out"
    and "length buffer = 256"
  shows "\<exists>c'. kernel_printf (concat (map directive_text ds) @ 0 # rest) args buffer c = Some c' \<and> console_ok c' \<and>
    (terminal_lines (shell_terminal c'), tc_current_end_x (shell_terminal c')) =
      screen_text 17 (take 255 (c_str out)) (terminal_lines (shell_terminal c), tc_current_end_x (shell_terminal c)) \<and>
    shows_lines (con_machine c') (shell_terminal c') \<and> same_rows {18..<25} (con_machine c) (con_machine c') \<and>
    serial (con_machine c') = serial (con_machine c) @ tty_text (take 255 (c_str out))"
proof -
  obtain b where "printf_buffer (concat (map directive_text ds) @ 0 # rest) args buffer = Some b" "terminated b"
      "c_str b = take 255 (c_str out)"
    using printf_buffer_ex [OF assms(2-5)] by blast
  with kernel_print_ok [OF assms(1), of b] show ?thesis by (auto simp: kernel_printf_def)
qed

theorem kernel_printf_shows_witness:
  "\<exists>c c'. kernel_stdio_init \<lparr>shell_terminal = zeroed_terminal, log_terminal = zeroed_terminal,
       con_machine = \<lparr>vga_ram = \<lambda>_. 0, port_writes = []\<rparr>\<rparr> = Some c \<and>
     kernel_printf (concat (map directive_text [Lit 10, Str]) @ 0 # []) [Arg_Str (Some [0x6F, 0x6B, 0])] (replicate 256 1) c = Some c' \<and>
     terminal_lines (shell_terminal c') = [[0x6F, 0x6B] @ replicate 78 0]"
proof -
  obtain c where c: "kernel_stdio_init \<lparr>shell_terminal = zeroed_terminal, log_terminal = zeroed_terminal,
       con_machine = \<lparr>vga_ram = \<lambda>_. 0, port_writes = []\<rparr>\<rparr> = Some c" "console_ok c" "terminal_lines (shell_terminal c) = []"
      "tc_current_end_x (shell_terminal c) = 0"
    using kernel_stdio_init_ok by blast
  have r: "rendered [Lit 10, Str] [Arg_Str (Some [0x6F, 0x6B, 0])] = Some [10, 0x6F, 0x6B]" by simp
  obtain z where z: "z = replicate 78 (0 :: u8)" by simp
  have l: "replicate 80 (0 :: u8) = 0 # 0 # z"
    using replicate_add [of 2 78 "0 :: u8"] z by (simp add: numeral_2_eq_2)
  have "screen_text 17 (take 255 (c_str [10, 0x6F, 0x6B])) ([], 0) = ([[0x6F, 0x6B] @ z], 2)"
    by (simp add: screen_text_def screen_put_def scroll_def write_last_def l)
  with kernel_printf_shows [OF c(2) _ _ r, of "replicate 256 1" "[]"] c z
  show ?thesis by (auto simp: printable_def arg_ok_def terminated_def simp del: concat.simps list.map directive_text.simps)
qed

text \<open>From zeroed memory the start-up lays the screen out: two empty terminals, whose windows do not overlap, with the
  header between them.\<close>

theorem kernel_stdio_init_layout:
  "\<exists>c. kernel_stdio_init \<lparr>shell_terminal = zeroed_terminal, log_terminal = zeroed_terminal, con_machine = m\<rparr> = Some c \<and>
     console_ok c \<and> header_shown (con_machine c) \<and> window_rows (shell_terminal c) \<inter> window_rows (log_terminal c) = {} \<and>
     19 \<notin> window_rows (shell_terminal c) \<union> window_rows (log_terminal c) \<and>
     terminal_lines (shell_terminal c) = [] \<and> terminal_lines (log_terminal c) = []"
  using kernel_stdio_init_ok [of m] console_okD(5,6) by auto



lemma hex_digits_zero: "hex_digits k 0 = replicate k 48"
  by (induction k) (simp_all add: byte_to_hexchar_def replicate_append_same)

text \<open>With a negative time stamp the digits hold terminators (the remainder is negative and has no digit): here the
  time stamp loses its last digit and its colon.\<close>

theorem LOG_negative_timestamp:
  assumes "terminated message" and "length (c_str message) \<le> 100"
  shows "\<exists>s. LOG_line (Some message) 0xFFFFFFFF = Some s \<and> c_str s = take 79 (replicate 7 48 @ c_str message)"
proof -
  have m: "map_of_char ''AbcdAbcd: '' = [65, 98, 99, 100, 65, 98, 99, 100, 58, 32]" by (simp add: map_of_char_def)
  have si: "sint (0xFFFFFFFF :: u32) = -1" by simp
  obtain z where z: "z = replicate 70 (0 :: u8)" by simp
  have l: "long_to_hex (-1) (Some (map_of_char ''AbcdAbcd: '' @ z)) 8 16 = Some (Some (replicate 7 48 @ 0 # [58, 32] @ z))"
  proof -
    let ?b = "map_of_char ''AbcdAbcd: '' @ z"
    have d: "(-1 :: int) smod 16 = -1" "(-1 :: int) sdiv 16 = 0" by (simp_all add: signed_divide_int_def signed_modulo_int_def)
    have l7: "7 < length ?b" by (simp add: m)
    have "long_to_hex_loop (Suc 7) (-1) ?b 16 = long_to_hex_loop 7 0 (?b[7 := 0]) 16"
      using l7 unfolding long_to_hex_loop.simps Let_def d by (simp add: wr_in byte_to_hexchar_def)
    also have "\<dots> = Some (hex_digits 7 0 @ drop 7 (?b[7 := 0]))"
      using l7 by (intro long_to_hex_loop_eq) simp_all
    also have "hex_digits 7 0 = replicate 7 48" by (rule hex_digits_zero)
    also have "drop 7 (?b[7 := 0]) = 0 # [58, 32] @ z" by (simp add: m eval_nat_numeral)
    finally have "long_to_hex_loop 8 (-1) ?b 16 = Some (replicate 7 48 @ 0 # [58, 32] @ z)" by (simp del: long_to_hex_loop.simps)
    then show ?thesis by (simp add: long_to_hex_def del: long_to_hex_loop.simps)
  qed
  let ?d = "replicate 7 48 @ 0 # [58, 32] @ z"
  have cd: "c_str ?d = replicate 7 48" by (rule c_str_append_null) simp
  have sl: "strlen_unsafe_logless (Some message) = Some (of_nat (length (c_str message)))"
    using assms by (simp add: strlen_unsafe_logless_def strlen_scan_eq)
  have td: "terminated ?d" by (simp add: terminated_def)
  obtain s where "append_string (Some ?d) 80 (Some message) (of_nat (length (c_str message) + 1)) = Some (Some s)"
      "c_str s = take 79 (replicate 7 48 @ c_str message)"
    using append_string_ex [OF td, of 80 message] assms cd z by auto
  then show ?thesis using l sl by (simp add: LOG_line_def si z add.commute)
qed

theorem LOG_negative_timestamp_witness:
  "\<exists>s. LOG_line (Some [0x68, 0x69, 0]) 0xFFFFFFFF = Some s \<and> c_str s = replicate 7 48 @ [0x68, 0x69]"
  using LOG_negative_timestamp [of "[0x68, 0x69, 0]"] by (simp add: terminated_def)

text \<open>A terminal whose window has 24 lines or more loses all its lines when the ring of 25 is full, because a full ring
  looks like an empty one.\<close>

theorem terminal_full_ring_vanishes:
  assumes "length (tc_buffer t) = 25" and "\<forall>row \<in> set (tc_buffer t). length row = 80" and "tc_current_first_line t < 25"
    and "tc_current_end_line t = (tc_current_first_line t + 24) mod 25" and "24 \<le> tc_window_size_y t"
  shows "length (terminal_lines t) = 24 \<and>
    (\<exists>r t'. terminal_get_next_free_line_buffer t = Some (r, t') \<and> terminal_lines t' = [])"
proof -
  let ?e = "tc_current_end_line t"
  have e: "?e < 25" unfolding assms(4) by simp
  have len: "length (tc_buffer t ! ?e) = 80" using assms(1,2) e by simp
  have c: "line_count t = 24" by (rule line_count_ring(2) [OF assms(3,4)]) simp
  let ?t1 = "t\<lparr>tc_current_end_line := (?e + 1) mod 25\<rparr>"
  have "(?e + 1) mod 25 = (tc_current_first_line ?t1 + 0) mod 25" unfolding assms(4) using assms(3) by (simp add: mod_simps)
  then have c1: "terminal_get_current_line_count ?t1 = 0"
    using line_count_ring(1) [of ?t1 0] assms(3) by simp
  let ?t' = "?t1\<lparr>tc_buffer := (tc_buffer t)[?e := replicate 80 0]\<rparr>"
  have "terminal_get_next_free_line_buffer t = Some (Some ?e, ?t')"
    using e c1 assms(1,5) clear_row [OF len, of 0]
    by (simp add: terminal_get_next_free_line_buffer_def Let_def next_line_mod rd_in wr_in terminal_consts)
  moreover have "terminal_lines ?t' = []"
    using c1 by (simp add: terminal_lines_def terminal_get_current_line_count_def Let_def)
  ultimately show ?thesis using c by (simp add: terminal_lines_ring)
qed

theorem terminal_full_ring_vanishes_witness:
  "\<exists>r t'. terminal_get_next_free_line_buffer (zeroed_terminal\<lparr>tc_window_size_y := 24, tc_current_end_line := 24\<rparr>) = Some (r, t') \<and>
    terminal_lines t' = []"
  using terminal_full_ring_vanishes [of "zeroed_terminal\<lparr>tc_window_size_y := 24, tc_current_end_line := 24\<rparr>"]
  by (auto simp: zeroed_terminal_def)

end
