(* ===== verification/Tinyfs_Clusters.thy ===== *)
theory Tinyfs_Clusters
  imports Prelude
begin

section \<open>TinyFS: clusters and the FAT (fs/tinyfs/code/cluster\_operations.c, FAT\_cluster.c)\<close>

text \<open>
  The state is the file-scope variables of the TinyFS files. The disk pointers of
  \<^verbatim>\<open>disk_image.c\<close> and \<^verbatim>\<open>cluster_operations.c\<close> designate one block of memory, whose bytes are
  \<open>image\<close> (\<open>None\<close> once it has been freed); \<open>cl_ptr\<close> and \<open>di_ptr\<close> say which of the two
  pointers is not \<open>NULL\<close>.

  The read path \<^verbatim>\<open>cluster_read_8bit\<close> / \<^verbatim>\<open>get_cluster_at_offset\<close> / \<^verbatim>\<open>FAT_get_linked_cluster\<close>
  and the write path \<^verbatim>\<open>cluster_write_8bit\<close> / \<^verbatim>\<open>allocate_clusters_upto_offset\<close> /
  \<^verbatim>\<open>FAT_allocate_cluster\<close> are mutually recursive in the code (its comments speak of a circular
  dependency), and on a corrupt FAT the recursion need not end. Each path is one
  \<^theory_text>\<open>partial_function\<close> over a type of calls, with one branch for each C function or loop; the
  result \<open>None\<close> is an access outside the image or an unbounded recursion. The C functions
  themselves are the definitions below, each a call of its path.
\<close>

record tinyfs =
  image :: "u8 list option"
  cl_ptr :: bool
  cl_size :: u32
  cl_count :: u32
  fat_count :: u32
  fat_size :: u32
  root_size :: u32
  di_ptr :: bool
  di_image_size :: u32
  di_count :: u8
  di_size :: u16

definition CLUSTER_FAT_TABLE :: u32 where "CLUSTER_FAT_TABLE = 1"
definition CLUSTER_ROOTDIR_TABLE :: u32 where "CLUSTER_ROOTDIR_TABLE = 2"
definition FS_INTERNAL_ERROR :: int where "FS_INTERNAL_ERROR = 1"
definition FS_NO_MEMORY :: int where "FS_NO_MEMORY = 2"
definition FS_NO_IMAGE_FILE :: int where "FS_NO_IMAGE_FILE = 3"
definition FS_DISK_FULL :: int where "FS_DISK_FULL = 4"

lemmas fs_consts = CLUSTER_FAT_TABLE_def CLUSTER_ROOTDIR_TABLE_def FS_INTERNAL_ERROR_def
  FS_NO_MEMORY_def FS_NO_IMAGE_FILE_def FS_DISK_FULL_def

subsection \<open>Access to the image\<close>

definition calculate_image_offset :: "tinyfs \<Rightarrow> u32 \<Rightarrow> u32" where
  "calculate_image_offset s cluster_idx = cluster_idx * cl_size s"

text \<open>\<^verbatim>\<open>s_disk_image_ptr[offset]\<close>, read and written.\<close>

definition disk_rd :: "tinyfs \<Rightarrow> u32 \<Rightarrow> u8 option" where
  "disk_rd s off = do { m \<leftarrow> (if cl_ptr s then image s else None); rd m (unat off) }"

definition disk_wr :: "tinyfs \<Rightarrow> u32 \<Rightarrow> u8 \<Rightarrow> tinyfs option" where
  "disk_wr s off v = do {
     m \<leftarrow> (if cl_ptr s then image s else None);
     m' \<leftarrow> wr m (unat off) v;
     Some (s\<lparr>image := Some m'\<rparr>)
   }"

text \<open>\<^verbatim>\<open>int traverse_count = offset / s_cluster_size\<close>: the unsigned quotient as a signed int, and
  the number of rounds of \<^verbatim>\<open>for (int i = 0; i < traverse_count; i++)\<close>.\<close>

definition traverse_count :: "tinyfs \<Rightarrow> u32 \<Rightarrow> nat" where
  "traverse_count s offset = nat (sint (offset div cl_size s))"

subsection \<open>The read path\<close>

datatype read_call =
    Read8 u32 u32          \<comment> \<open>\<^verbatim>\<open>cluster_read_8bit(head, offset, value)\<close>\<close>
  | At_Offset u32 u32      \<comment> \<open>\<^verbatim>\<open>get_cluster_at_offset(head, offset, target)\<close>\<close>
  | Traverse nat u32       \<comment> \<open>the loop of the latter: rounds left, current cluster\<close>
  | Linked u32             \<comment> \<open>\<^verbatim>\<open>FAT_get_linked_cluster(cluster)\<close>\<close>

text \<open>The result is the return code and what the call stores through its result pointer, if it
  does (for \<open>Traverse\<close> and \<open>Linked\<close>: the cluster).\<close>

partial_function (option) fat_read :: "tinyfs \<Rightarrow> read_call \<Rightarrow> (int \<times> u32 option) option" where
  "fat_read s c = (case c of
     Read8 head offset \<Rightarrow>
       if \<not> cl_ptr s then Some (-1, None)
       else if offset \<ge> cl_size s then
         (if cl_size s = 0 then Some (- FS_INTERNAL_ERROR, None)
          else do {
            (ret, target) \<leftarrow> fat_read s (At_Offset head offset);
            if ret \<noteq> 0 then Some (ret, None)
            else do {
              t \<leftarrow> target;
              b \<leftarrow> disk_rd s (calculate_image_offset s t + offset mod cl_size s);
              Some (0, Some (ucast b))
            }
          })
       else do {
         b \<leftarrow> disk_rd s (calculate_image_offset s head + offset);
         Some (0, Some (ucast b))
       }
   | At_Offset head offset \<Rightarrow>
       if cl_size s = 0 then Some (- FS_INTERNAL_ERROR, None)
       else do {
         (_, current) \<leftarrow> fat_read s (Traverse (traverse_count s offset) head);
         t \<leftarrow> current;
         if t \<noteq> 0xFF then Some (0, Some t) else Some (-1, None)
       }
   | Traverse k current \<Rightarrow>
       (case k of
          0 \<Rightarrow> Some (0, Some current)
        | Suc k' \<Rightarrow> do {
            (_, linked) \<leftarrow> fat_read s (Linked current);
            n \<leftarrow> linked;
            fat_read s (Traverse k' n)
          })
   | Linked cluster_head \<Rightarrow>
       if cluster_head = 0 \<or> cluster_head = 0xFF then Some (0, Some 0xFF)
       else do {
         (_, v) \<leftarrow> fat_read s (Read8 CLUSTER_FAT_TABLE cluster_head);
         Some (0, Some (case v of None \<Rightarrow> 0xFF | Some next_cluster_value \<Rightarrow> next_cluster_value))
       })"

definition cluster_read_8bit :: "tinyfs \<Rightarrow> u32 \<Rightarrow> u32 \<Rightarrow> (int \<times> u8 option) option" where
  "cluster_read_8bit s head offset =
     do { (ret, v) \<leftarrow> fat_read s (Read8 head offset); Some (ret, map_option ucast v) }"

definition get_cluster_at_offset :: "tinyfs \<Rightarrow> u32 \<Rightarrow> u32 \<Rightarrow> (int \<times> u32 option) option" where
  "get_cluster_at_offset s head offset = fat_read s (At_Offset head offset)"

definition FAT_get_linked_cluster :: "tinyfs \<Rightarrow> u32 \<Rightarrow> u32 option" where
  "FAT_get_linked_cluster s cluster_head = do { (_, v) \<leftarrow> fat_read s (Linked cluster_head); v }"

text \<open>The variables \<^verbatim>\<open>high_val\<close> and \<^verbatim>\<open>low_val\<close> are only written by a successful read; using
  one that was not written is undefined.\<close>

definition cluster_read_16bit :: "tinyfs \<Rightarrow> u32 \<Rightarrow> u32 \<Rightarrow> (int \<times> u16) option" where
  "cluster_read_16bit s head offset = do {
     (r0, h) \<leftarrow> cluster_read_8bit s head (offset + 0);
     (r1, l) \<leftarrow> cluster_read_8bit s head (offset + 1);
     high_val \<leftarrow> h;
     low_val \<leftarrow> l;
     Some (r0 OR r1, push_bit 8 (ucast high_val) + ucast low_val)
   }"

text \<open>\<^verbatim>\<open>cluster_read_data\<close> over the bytes already in the buffer (those a failed read leaves).\<close>

definition cluster_read_data :: "tinyfs \<Rightarrow> u32 \<Rightarrow> u32 \<Rightarrow> u8 list \<Rightarrow> u32 \<Rightarrow> (int \<times> u8 list) option" where
  "cluster_read_data s head offset buffer buffer_len =
     for_loop 0 (unat buffer_len)
       (\<lambda>i (ret, buf). do {
          (r, v) \<leftarrow> cluster_read_8bit s head (offset + of_nat i);
          buf' \<leftarrow> (case v of None \<Rightarrow> Some buf | Some b \<Rightarrow> wr buf i b);
          Some (ret OR r, buf')
        }) (0, buffer)"

subsection \<open>The write path\<close>

datatype write_call =
    Write8 u32 u32 u8      \<comment> \<open>\<^verbatim>\<open>cluster_write_8bit(head, offset, value)\<close>\<close>
  | Upto_Offset u32 u32    \<comment> \<open>\<^verbatim>\<open>allocate_clusters_upto_offset(head, offset, target)\<close>\<close>
  | Extend nat u32         \<comment> \<open>the loop of the latter: rounds left, current cluster\<close>
  | Alloc_From u32         \<comment> \<open>the loop of \<^verbatim>\<open>FAT_allocate_cluster()\<close> from this index\<close>

partial_function (option) fat_write :: "tinyfs \<Rightarrow> write_call \<Rightarrow> (int \<times> u32 option \<times> tinyfs) option" where
  "fat_write s c = (case c of
     Write8 head offset value \<Rightarrow>
       if offset \<ge> cl_size s then
         (if cl_size s = 0 then Some (- FS_INTERNAL_ERROR, None, s)
          else do {
            (ret, target) \<leftarrow> fat_read s (At_Offset head offset);
            (ret', target', s') \<leftarrow>
              (if ret \<noteq> 0 then fat_write s (Upto_Offset head offset) else Some (ret, target, s));
            if ret' = 0 then do {
              t \<leftarrow> target';
              s'' \<leftarrow> disk_wr s' (calculate_image_offset s' t + offset mod cl_size s) value;
              Some (0, None, s'')
            }
            else Some (ret', None, s')
          })
       else do {
         s' \<leftarrow> disk_wr s (calculate_image_offset s head + offset) value;
         Some (0, None, s')
       }
   | Upto_Offset head offset \<Rightarrow>
       if cl_size s = 0 then Some (- FS_INTERNAL_ERROR, None, s)
       else fat_write s (Extend (traverse_count s offset) head)
   | Extend k current \<Rightarrow>
       (case k of
          0 \<Rightarrow> Some (0, Some current, s)
        | Suc k' \<Rightarrow> do {
            (_, linked) \<leftarrow> fat_read s (Linked current);
            next_cluster \<leftarrow> linked;
            if next_cluster = 0xFF then do {
              (_, new, s1) \<leftarrow> fat_write s (Alloc_From 3);
              new_cluster \<leftarrow> new;
              if new_cluster = 0xFF then Some (- FS_DISK_FULL, None, s1)
              else do {
                (_, _, s2) \<leftarrow> fat_write s1 (Write8 CLUSTER_FAT_TABLE current (ucast new_cluster));
                fat_write s2 (Extend k' new_cluster)
              }
            }
            else fat_write s (Extend k' next_cluster)
          })
   | Alloc_From index \<Rightarrow>
       if index < fat_count s then do {
         (_, linked) \<leftarrow> fat_read s (Linked index);
         next_cluster_value \<leftarrow> linked;
         if next_cluster_value = 0 then do {
           (_, _, s') \<leftarrow> fat_write s (Write8 CLUSTER_FAT_TABLE index 0xFF);
           Some (0, Some index, s')
         }
         else fat_write s (Alloc_From (index + 1))
       }
       else Some (0, Some 0xFF, s))"

definition cluster_write_8bit :: "tinyfs \<Rightarrow> u32 \<Rightarrow> u32 \<Rightarrow> u8 \<Rightarrow> (int \<times> tinyfs) option" where
  "cluster_write_8bit s head offset value =
     do { (ret, _, s') \<leftarrow> fat_write s (Write8 head offset value); Some (ret, s') }"

definition allocate_clusters_upto_offset :: "tinyfs \<Rightarrow> u32 \<Rightarrow> u32 \<Rightarrow> (int \<times> u32 option \<times> tinyfs) option" where
  "allocate_clusters_upto_offset s head offset = fat_write s (Upto_Offset head offset)"

definition FAT_allocate_cluster :: "tinyfs \<Rightarrow> (u32 \<times> tinyfs) option" where
  "FAT_allocate_cluster s =
     do { (_, idx, s') \<leftarrow> fat_write s (Alloc_From 3); i \<leftarrow> idx; Some (i, s') }"

definition FAT_set_linked_cluster :: "tinyfs \<Rightarrow> u32 \<Rightarrow> u32 \<Rightarrow> tinyfs option" where
  "FAT_set_linked_cluster s cluster_head next_cluster =
     do { (_, s') \<leftarrow> cluster_write_8bit s CLUSTER_FAT_TABLE cluster_head (ucast next_cluster); Some s' }"

definition FAT_mark_cluster_as_used :: "tinyfs \<Rightarrow> u32 \<Rightarrow> (int \<times> tinyfs) option" where
  "FAT_mark_cluster_as_used s cluster_index = cluster_write_8bit s CLUSTER_FAT_TABLE cluster_index 0xFF"

definition FAT_mark_cluster_as_free :: "tinyfs \<Rightarrow> u32 \<Rightarrow> (int \<times> tinyfs) option" where
  "FAT_mark_cluster_as_free s cluster_index = cluster_write_8bit s CLUSTER_FAT_TABLE cluster_index 0x00"

definition cluster_write_16bit :: "tinyfs \<Rightarrow> u32 \<Rightarrow> u32 \<Rightarrow> u16 \<Rightarrow> (int \<times> tinyfs) option" where
  "cluster_write_16bit s head offset value = do {
     let high_val = (ucast (drop_bit 8 value) :: u8);
     let low_val = (ucast (value AND 0xFF) :: u8);
     (r0, s1) \<leftarrow> cluster_write_8bit s head (offset + 0) high_val;
     (r1, s2) \<leftarrow> cluster_write_8bit s1 head (offset + 1) low_val;
     Some (r0 OR r1, s2)
   }"

definition cluster_write_data :: "tinyfs \<Rightarrow> u32 \<Rightarrow> u32 \<Rightarrow> u8 list \<Rightarrow> u32 \<Rightarrow> (int \<times> tinyfs) option" where
  "cluster_write_data s head offset buffer buffer_len =
     for_loop 0 (unat buffer_len)
       (\<lambda>i (ret, t). do {
          b \<leftarrow> rd buffer i;
          (r, t') \<leftarrow> cluster_write_8bit t head (offset + of_nat i) b;
          Some (ret OR r, t')
        }) (0, s)"

subsection \<open>Initialisation and whole chains\<close>

definition FAT_init :: "tinyfs \<Rightarrow> u32 \<Rightarrow> u32 \<Rightarrow> (int \<times> tinyfs) option" where
  "FAT_init s cluster_count cluster_size = do {
     let s0 = s\<lparr>fat_size := cluster_size, fat_count := cluster_count\<rparr>;
     (_, s1) \<leftarrow> FAT_mark_cluster_as_used s0 0;
     (_, s2) \<leftarrow> FAT_mark_cluster_as_used s1 CLUSTER_FAT_TABLE;
     root_cluster_val \<leftarrow> FAT_get_linked_cluster s2 CLUSTER_ROOTDIR_TABLE;
     if root_cluster_val = 0
     then do { (_, s3) \<leftarrow> FAT_mark_cluster_as_used s2 CLUSTER_ROOTDIR_TABLE; Some (0, s3) }
     else Some (0, s2)
   }"

text \<open>\<^verbatim>\<open>cluster_init\<close> is given the memory its pointer argument designates, \<open>None\<close> for \<open>NULL\<close>.\<close>

definition cluster_init :: "tinyfs \<Rightarrow> u8 list option \<Rightarrow> u32 \<Rightarrow> u32 \<Rightarrow> (int \<times> tinyfs) option" where
  "cluster_init s disk_image_ptr cluster_count cluster_size =
     FAT_init (s\<lparr>image := disk_image_ptr, cl_ptr := (disk_image_ptr \<noteq> None),
                 cl_size := cluster_size, cl_count := cluster_count\<rparr>) cluster_count cluster_size"

partial_function (option) free_clusters :: "tinyfs \<Rightarrow> u32 \<Rightarrow> (int \<times> tinyfs) option" where
  "free_clusters s head_cluster =
     (if head_cluster = 0 \<or> head_cluster = 0xFF then Some (-1, s)
      else do {
        next_cluster \<leftarrow> FAT_get_linked_cluster s head_cluster;
        (_, s') \<leftarrow> FAT_mark_cluster_as_free s head_cluster;
        if next_cluster = 0xFF then Some (0, s')
        else free_clusters s' next_cluster
      })"

text \<open>The \<^verbatim>\<open>do ... while\<close> loop that counts, from a cluster and the count so far.\<close>

partial_function (option) count_links :: "tinyfs \<Rightarrow> u32 \<Rightarrow> int \<Rightarrow> int option" where
  "count_links s head_cluster count = do {
     next_cluster \<leftarrow> FAT_get_linked_cluster s head_cluster;
     if next_cluster \<noteq> 0xFF then count_links s next_cluster (count + 1) else Some (count + 1)
   }"

definition get_cluster_chain_size :: "tinyfs \<Rightarrow> u32 \<Rightarrow> int option" where
  "get_cluster_chain_size s head_cluster =
     (if head_cluster = 0 \<or> head_cluster = 0xFF then Some (-1) else count_links s head_cluster 0)"

end
