(* ===== verification/Tinyfs_Chains.thy ===== *)
theory Tinyfs_Chains
  imports Tinyfs_Clusters Interfaces
begin

section \<open>TinyFS: chains of clusters\<close>

text \<open>
  What the FAT and cluster routines of \<^verbatim>\<open>Tinyfs_Clusters\<close> do on an image that is not corrupt.
  \<open>fs_wf\<close> is the shape of a mounted image (the FAT lies inside it and one cluster holds it),
  \<open>fat s c\<close> the FAT cell of cluster \<open>c\<close>, \<open>chain s cs\<close> says that \<open>cs\<close> are the clusters of one
  file in order, \<open>view s h\<close> is the content of the chain that starts at \<open>h\<close>, as one list of bytes.
  The read and write paths are resolved to these notions once; everything above the cluster
  layer only uses \<open>view\<close>.
\<close>

subsection \<open>Mounted images and the bytes of a cluster\<close>

abbreviation csize :: "tinyfs \<Rightarrow> nat" where "csize s \<equiv> unat (cl_size s)"
abbreviation ccount :: "tinyfs \<Rightarrow> nat" where "ccount s \<equiv> unat (cl_count s)"

definition fs_wf :: "tinyfs \<Rightarrow> bool" where
  "fs_wf s = (cl_ptr s \<and> fat_count s = cl_count s \<and> 3 \<le> ccount s \<and> ccount s \<le> csize s \<and>
     ccount s \<le> 255 \<and> csize s < 65536 \<and>
     (case image s of None \<Rightarrow> False | Some m \<Rightarrow> 2 * csize s \<le> length m))"

text \<open>The image holds every cluster the FAT may hand out.\<close>

definition fs_full_size :: "tinyfs \<Rightarrow> bool" where
  "fs_full_size s = (ccount s * csize s \<le> length (the (image s)))"

definition byte_at :: "tinyfs \<Rightarrow> u32 \<Rightarrow> nat \<Rightarrow> u8" where
  "byte_at s c k = the (image s) ! (unat c * csize s + k)"

definition fat :: "tinyfs \<Rightarrow> u32 \<Rightarrow> u32" where
  "fat s c = ucast (byte_at s 1 (unat c))"

text \<open>A data cluster: not the volume header or the FAT, below the cluster count, in the image.\<close>

definition data_cluster :: "tinyfs \<Rightarrow> u32 \<Rightarrow> bool" where
  "data_cluster s c = (2 \<le> unat c \<and> unat c < ccount s \<and>
     (unat c + 1) * csize s \<le> length (the (image s)))"

text \<open>The state after byte \<open>k\<close> of cluster \<open>c\<close> has been written.\<close>

definition put :: "tinyfs \<Rightarrow> u32 \<Rightarrow> nat \<Rightarrow> u8 \<Rightarrow> tinyfs" where
  "put s c k v = s\<lparr>image := Some ((the (image s))[unat c * csize s + k := v])\<rparr>"

lemma fs_wfD:
  assumes "fs_wf s"
  shows "cl_ptr s" and "fat_count s = cl_count s" and "3 \<le> ccount s" and "ccount s \<le> csize s"
    and "ccount s \<le> 255" and "csize s < 65536" and "2 * csize s \<le> length (the (image s))"
  using assms by (auto simp: fs_wf_def split: option.splits)

lemma fs_wfE: "fs_wf s \<Longrightarrow> \<exists>m. image s = Some m"
  by (auto simp: fs_wf_def split: option.splits)

lemma put_sel [simp]:
  "cl_ptr (put s c k v) = cl_ptr s" "cl_size (put s c k v) = cl_size s"
  "cl_count (put s c k v) = cl_count s" "fat_count (put s c k v) = fat_count s"
  "fat_size (put s c k v) = fat_size s" "root_size (put s c k v) = root_size s"
  "di_ptr (put s c k v) = di_ptr s" "di_image_size (put s c k v) = di_image_size s"
  "di_count (put s c k v) = di_count s" "di_size (put s c k v) = di_size s"
  "length (the (image (put s c k v))) = length (the (image s))"
  by (simp_all add: put_def)

lemma put_wf [simp]: "fs_wf s \<Longrightarrow> fs_wf (put s c k v)"
  by (auto simp: fs_wf_def put_def split: option.splits)

lemma put_full [simp]: "fs_full_size (put s c k v) = fs_full_size s"
  by (simp add: fs_full_size_def)

lemma put_data_cluster [simp]: "data_cluster (put s c k v) d = data_cluster s d"
  by (simp add: data_cluster_def)

lemma cell_unique:
  fixes c c' k k' z :: nat
  assumes "k < z" and "k' < z" and "c * z + k = c' * z + k'"
  shows "c = c' \<and> k = k'"
proof -
  have "c = (c * z + k) div z" "k = (c * z + k) mod z" using assms(1) by auto
  moreover have "c' = (c' * z + k') div z" "k' = (c' * z + k') mod z" using assms(2) by auto
  ultimately show ?thesis using assms(3) by simp
qed

lemma byte_at_put:
  assumes "(unat c + 1) * csize s \<le> length (the (image s))" and "k < csize s" and "k' < csize s"
  shows "byte_at (put s c k v) c' k' = (if c = c' \<and> k = k' then v else byte_at s c' k')"
proof -
  have "unat c * csize s + k < length (the (image s))" using assms by simp
  moreover have "unat c * csize s + k = unat c' * csize s + k' \<longleftrightarrow> c = c' \<and> k = k'"
    by (auto dest: cell_unique [OF assms(2,3)] unat_eqD)
  ultimately show ?thesis
    by (auto simp: byte_at_def put_def nth_list_update)
qed

lemma fat_put_data: "c \<noteq> 1 \<Longrightarrow> (unat c + 1) * csize s \<le> length (the (image s)) \<Longrightarrow> k < csize s \<Longrightarrow>
    unat d < csize s \<Longrightarrow> fat (put s c k v) d = fat s d"
  by (simp add: fat_def byte_at_put)

lemma fat_put_fat:
  assumes "fs_wf s" and "unat c < csize s" and "unat d < csize s"
  shows "fat (put s 1 (unat c) v) d = (if c = d then ucast v else fat s d)"
proof -
  have "(unat (1::u32) + 1) * csize s \<le> length (the (image s))"
    using fs_wfD(7) [OF assms(1)] by simp
  then show ?thesis
    using assms(2,3) by (auto simp: fat_def byte_at_put dest: unat_eqD)
qed

lemma data_cluster_lt:
  assumes "fs_wf s" and "data_cluster s c"
  shows "unat c < csize s" and "c \<noteq> 0" and "c \<noteq> 0xFF" and "c \<noteq> 1" and "unat c < 255"
proof -
  show "unat c < csize s" "unat c < 255"
    using fs_wfD(4,5) [OF assms(1)] assms(2) by (auto simp: data_cluster_def)
  then show "c \<noteq> 0" "c \<noteq> 0xFF" "c \<noteq> 1"
    using assms(2) by (auto simp: data_cluster_def)
qed

subsection \<open>One access\<close>

lemma image_offset:
  assumes "fs_wf s" and "unat c \<le> 255" and "unat off < csize s"
  shows "unat (calculate_image_offset s c + off) = unat c * csize s + unat off"
proof -
  have "unat c * csize s \<le> 255 * 65535"
    using assms(2) fs_wfD(6) [OF assms(1)] by (intro mult_le_mono) auto
  then have a: "unat c * csize s + unat off < 2 ^ LENGTH(32)"
    using assms(3) fs_wfD(6) [OF assms(1)] by simp
  then have m: "unat (c * cl_size s) = unat c * csize s"
    by (intro unat_mult_lt) simp
  show ?thesis
    unfolding calculate_image_offset_def
    using a by (subst unat_add_lt) (simp_all add: m)
qed

lemma read8_first_cluster:
  assumes "fs_wf s" and "unat c \<le> 255" and "(unat c + 1) * csize s \<le> length (the (image s))"
    and "unat off < csize s"
  shows "fat_read s (Read8 c off) = Some (0, Some (ucast (byte_at s c (unat off))))"
proof -
  have "unat c * csize s + unat off < length (the (image s))" using assms(3,4) by simp
  then have "disk_rd s (calculate_image_offset s c + off) = Some (byte_at s c (unat off))"
    using fs_wfD(1) [OF assms(1)] fs_wfE [OF assms(1)]
    by (auto simp: disk_rd_def byte_at_def image_offset [OF assms(1,2,4)] mem_access)
  moreover have "\<not> cl_size s \<le> off" using assms(4) by (simp add: word_le_nat_alt)
  ultimately show ?thesis
    using fs_wfD(1) [OF assms(1)] by (subst fat_read.simps) simp
qed

lemma read_linked:
  assumes "fs_wf s" and "unat c < csize s" and "c \<noteq> 0" and "c \<noteq> 0xFF"
  shows "fat_read s (Linked c) = Some (0, Some (fat s c))"
proof -
  have "fat_read s (Read8 CLUSTER_FAT_TABLE c) = Some (0, Some (fat s c))"
    unfolding CLUSTER_FAT_TABLE_def fat_def
    using fs_wfD(7) [OF assms(1)] assms(1,2) by (intro read8_first_cluster) simp_all
  then show ?thesis
    using assms(3,4) by (subst fat_read.simps) simp
qed

lemma read_linked_end: "fat_read s (Linked 0xFF) = Some (0, Some 0xFF)"
  by (subst fat_read.simps) simp

lemma write8_first_cluster:
  assumes "fs_wf s" and "unat c \<le> 255" and "(unat c + 1) * csize s \<le> length (the (image s))"
    and "unat off < csize s"
  shows "fat_write s (Write8 c off v) = Some (0, None, put s c (unat off) v)"
proof -
  have "unat c * csize s + unat off < length (the (image s))" using assms(3,4) by simp
  then have "disk_wr s (calculate_image_offset s c + off) v = Some (put s c (unat off) v)"
    using fs_wfD(1) [OF assms(1)] fs_wfE [OF assms(1)]
    by (auto simp: disk_wr_def put_def image_offset [OF assms(1,2,4)] mem_access)
  moreover have "\<not> cl_size s \<le> off" using assms(4) by (simp add: word_le_nat_alt)
  ultimately show ?thesis
    by (subst fat_write.simps) simp
qed

lemma write_fat_cell:
  assumes "fs_wf s" and "unat c < csize s"
  shows "fat_write s (Write8 CLUSTER_FAT_TABLE c v) = Some (0, None, put s 1 (unat c) v)"
  unfolding CLUSTER_FAT_TABLE_def
  using fs_wfD(7) [OF assms(1)] assms by (intro write8_first_cluster) simp_all

lemma get_linked_eq:
  assumes "fs_wf s" and "data_cluster s c"
  shows "FAT_get_linked_cluster s c = Some (fat s c)"
  using data_cluster_lt [OF assms] by (simp add: FAT_get_linked_cluster_def read_linked assms(1))

subsection \<open>Chains\<close>

text \<open>\<open>chain s cs\<close>: each cluster of \<open>cs\<close> is linked to the next one, the last one to the end
  marker.\<close>

fun chain :: "tinyfs \<Rightarrow> u32 list \<Rightarrow> bool" where
  "chain s [] = False"
| "chain s [c] = (data_cluster s c \<and> fat s c = 0xFF)"
| "chain s (c # d # cs) = (data_cluster s c \<and> fat s c = d \<and> chain s (d # cs))"

text \<open>The chain that starts at a cluster; a chain has fewer clusters than the FAT, which bounds
  the search.\<close>

fun chain_from :: "nat \<Rightarrow> tinyfs \<Rightarrow> u32 \<Rightarrow> u32 list option" where
  "chain_from 0 s c = None"
| "chain_from (Suc n) s c =
     (if \<not> data_cluster s c then None
      else if fat s c = 0xFF then Some [c]
      else map_option (Cons c) (chain_from n s (fat s c)))"

definition chain_of :: "tinyfs \<Rightarrow> u32 \<Rightarrow> u32 list option" where
  "chain_of s h = chain_from (ccount s) s h"

lemma chain_not_Nil: "chain s cs \<Longrightarrow> cs \<noteq> []"
  by auto

lemma chain_data: "chain s cs \<Longrightarrow> c \<in> set cs \<Longrightarrow> data_cluster s c"
  by (induction s cs rule: chain.induct) auto

lemma chain_last: "chain s cs \<Longrightarrow> fat s (last cs) = 0xFF"
  by (induction s cs rule: chain.induct) auto

lemma chain_tl: "chain s (c # cs) \<Longrightarrow> cs \<noteq> [] \<Longrightarrow> chain s cs"
  by (cases cs) auto

lemma chain_fat_nonzero:
  assumes "chain s cs" and "c \<in> set cs"
  shows "fat s c \<noteq> 0"
  using assms
proof (induction s cs rule: chain.induct)
  case (3 s c' d cs)
  then have "data_cluster s d" by (auto intro: chain_data)
  with 3 show ?case by (auto simp: data_cluster_def)
qed auto

lemma chain_suffix: "chain s (xs @ ys) \<Longrightarrow> ys \<noteq> [] \<Longrightarrow> chain s ys"
  by (induction xs) (auto dest: chain_tl)

lemma chain_from_iff:
  assumes "fs_wf s"
  shows "chain_from n s c = Some cs \<longleftrightarrow> chain s cs \<and> hd cs = c \<and> length cs \<le> n"
proof (induction n arbitrary: c cs)
  case 0
  show ?case by auto
next
  case (Suc n)
  have no: "\<not> data_cluster s 0xFF"
    using data_cluster_lt(3) [OF assms] by blast
  show ?case
  proof (cases cs)
    case Nil
    then show ?thesis by auto
  next
    case (Cons d ds)
    show ?thesis
    proof (cases ds)
      case Nil
      with Cons show ?thesis by (auto simp: Suc.IH)
    next
      case [simp]: (Cons e es)
      have "\<not> chain s (0xFF # es)" using no by (cases es) auto
      with \<open>cs = d # ds\<close> show ?thesis by (auto simp: Suc.IH)
    qed
  qed
qed

lemma chain_unique:
  assumes "fs_wf s" and "chain s cs" and "chain s ds" and "hd cs = hd ds"
  shows "cs = ds"
proof -
  let ?n = "max (length cs) (length ds)"
  have "chain_from ?n s (hd cs) = Some cs" "chain_from ?n s (hd cs) = Some ds"
    using assms by (simp_all add: chain_from_iff)
  then show ?thesis by simp
qed

lemma chain_distinct:
  assumes "fs_wf s" and "chain s cs"
  shows "distinct cs"
  using assms(2)
proof (induction cs)
  case (Cons c cs)
  have "c \<notin> set cs"
  proof
    assume "c \<in> set cs"
    then obtain xs ys where cs: "cs = xs @ c # ys" by (auto simp: in_set_conv_decomp)
    then have "chain s (c # ys)" using Cons.prems chain_suffix [of s "c # xs" "c # ys"] by simp
    then have "c # ys = c # cs" using Cons.prems assms(1) by (intro chain_unique) auto
    with cs have "length ys = length cs" by simp
    with cs show False by simp
  qed
  with Cons show ?case by (cases "cs = []") (auto dest: chain_tl)
qed simp

lemma chain_length:
  assumes "fs_wf s" and "chain s cs"
  shows "length cs < ccount s"
proof -
  have "unat ` set cs \<subseteq> {2..<ccount s}"
    using chain_data [OF assms(2)] by (auto simp: data_cluster_def)
  then have "card (unat ` set cs) \<le> card {2..<ccount s}"
    by (intro card_mono) auto
  moreover have "card (unat ` set cs) = length cs"
    using chain_distinct [OF assms] by (simp add: card_image distinct_card)
  ultimately show ?thesis using fs_wfD(3) [OF assms(1)] by simp
qed

lemma chain_of_iff:
  assumes "fs_wf s"
  shows "chain_of s h = Some cs \<longleftrightarrow> chain s cs \<and> hd cs = h"
  using chain_length [OF assms] by (auto simp: chain_of_def chain_from_iff [OF assms] intro: less_imp_le)

subsection \<open>Reading through a chain\<close>

lemma csize_pos:
  assumes "fs_wf s"
  shows "0 < csize s" and "cl_size s \<noteq> 0"
  using fs_wfD(3,4) [OF assms] by auto

lemma traverse_count_eq:
  assumes "fs_wf s"
  shows "traverse_count s offset = unat offset div csize s"
proof -
  have "unat offset div csize s \<le> unat offset div 3"
    using fs_wfD(3,4) [OF assms] by (intro div_le_mono2) auto
  then have "unat (offset div cl_size s) < 2147483648"
    using unat_u32_lt [of offset] by (simp add: unat_div)
  then show ?thesis by (simp add: traverse_count_def nat_sint_u32 unat_div)
qed

lemma traverse_0: "fat_read s (Traverse 0 c) = Some (0, Some c)"
  by (subst fat_read.simps) simp

lemma traverse_step:
  "fat_read s (Linked c) = Some (0, Some d) \<Longrightarrow>
     fat_read s (Traverse (Suc k) c) = fat_read s (Traverse k d)"
  by (subst fat_read.simps) simp

lemma traverse_end: "fat_read s (Traverse k 0xFF) = Some (0, Some 0xFF)"
  by (induction k) (simp_all add: traverse_0 traverse_step [OF read_linked_end])

lemma read_linked_data:
  "fs_wf s \<Longrightarrow> data_cluster s c \<Longrightarrow> fat_read s (Linked c) = Some (0, Some (fat s c))"
  by (rule read_linked) (auto dest: data_cluster_lt)

lemma traverse_chain:
  assumes "fs_wf s" and "chain s cs"
  shows "fat_read s (Traverse k (hd cs)) = Some (0, Some (if k < length cs then cs ! k else 0xFF))"
  using assms(2)
proof (induction cs arbitrary: k)
  case (Cons c cs)
  have c: "fat_read s (Linked c) = Some (0, Some (fat s c))"
    using Cons.prems by (intro read_linked_data assms(1)) (auto intro: chain_data)
  have f: "fat s c = (if cs = [] then 0xFF else hd cs)"
    using Cons.prems by (cases cs) auto
  show ?case
  proof (cases k)
    case 0
    then show ?thesis by (simp add: traverse_0)
  next
    case (Suc j)
    then show ?thesis
      using Cons c f by (cases "cs = []") (auto simp: traverse_step traverse_end dest: chain_tl)
  qed
qed simp

lemma at_offset_chain:
  assumes "fs_wf s" and "chain s cs"
  shows "fat_read s (At_Offset (hd cs) offset) =
    (if unat offset div csize s < length cs then Some (0, Some (cs ! (unat offset div csize s)))
     else Some (-1, None))"
proof -
  have "c \<in> set cs \<Longrightarrow> c \<noteq> 0xFF" for c
    using chain_data [OF assms(2)] data_cluster_lt(3) [OF assms(1)] by blast
  then show ?thesis
    using csize_pos(2) [OF assms(1)]
    by (subst fat_read.simps) (simp add: traverse_chain assms traverse_count_eq)
qed

lemma read8_chain:
  assumes wf: "fs_wf s" and ch: "chain s cs"
  shows "fat_read s (Read8 (hd cs) offset) =
    (if unat offset div csize s < length cs
     then Some (0, Some (ucast (byte_at s (cs ! (unat offset div csize s)) (unat offset mod csize s))))
     else Some (-1, None))"
proof (cases "cl_size s \<le> offset")
  case False
  then have lt: "unat offset < csize s" by (simp add: word_le_nat_alt)
  moreover have "hd cs = cs ! 0" "0 < length cs" using ch by (cases cs; simp)+
  moreover have "data_cluster s (hd cs)" using ch chain_data by (cases cs) auto
  then have "unat (hd cs) \<le> 255" "(unat (hd cs) + 1) * csize s \<le> length (the (image s))"
    using data_cluster_lt [OF wf] by (auto simp: data_cluster_def intro: less_imp_le)
  ultimately show ?thesis
    using wf by (simp add: read8_first_cluster)
next
  case True
  let ?q = "unat offset div csize s"
  show ?thesis
  proof (cases "?q < length cs")
    case in_chain: True
    then have "data_cluster s (cs ! ?q)" using chain_data [OF ch] by simp
    then have "unat (cs ! ?q) \<le> 255" "(unat (cs ! ?q) + 1) * csize s \<le> length (the (image s))"
      using data_cluster_lt [OF wf] by (auto simp: data_cluster_def intro: less_imp_le)
    moreover have "unat (offset mod cl_size s) < csize s"
      using csize_pos [OF wf] by (simp add: unat_mod)
    ultimately have "disk_rd s (calculate_image_offset s (cs ! ?q) + offset mod cl_size s) =
        Some (byte_at s (cs ! ?q) (unat offset mod csize s))"
      using fs_wfD(1) [OF wf] fs_wfE [OF wf]
      by (auto simp: disk_rd_def byte_at_def image_offset [OF wf] mem_access unat_mod)
    then show ?thesis
      using True in_chain csize_pos [OF wf] fs_wfD(1) [OF wf]
      by (subst fat_read.simps) (simp add: at_offset_chain [OF wf ch])
  next
    case False
    then show ?thesis
      using True csize_pos [OF wf] fs_wfD(1) [OF wf]
      by (subst fat_read.simps) (simp add: at_offset_chain [OF wf ch])
  qed
qed

subsection \<open>Allocation\<close>

definition free_list :: "tinyfs \<Rightarrow> u32 list" where
  "free_list s = filter (\<lambda>c. fat s c = 0) (map of_nat [3..<ccount s])"

definition set_fat :: "tinyfs \<Rightarrow> u32 \<Rightarrow> u8 \<Rightarrow> tinyfs" where
  "set_fat s c v = put s 1 (unat c) v"

lemma set_fat_sel [simp]:
  "cl_ptr (set_fat s c v) = cl_ptr s" "cl_size (set_fat s c v) = cl_size s"
  "cl_count (set_fat s c v) = cl_count s" "fat_count (set_fat s c v) = fat_count s"
  "fat_size (set_fat s c v) = fat_size s" "root_size (set_fat s c v) = root_size s"
  "di_ptr (set_fat s c v) = di_ptr s" "di_image_size (set_fat s c v) = di_image_size s"
  "di_count (set_fat s c v) = di_count s" "di_size (set_fat s c v) = di_size s"
  "length (the (image (set_fat s c v))) = length (the (image s))"
  "fs_full_size (set_fat s c v) = fs_full_size s"
  "data_cluster (set_fat s c v) d = data_cluster s d"
  by (simp_all add: set_fat_def)

lemma set_fat_wf [simp]: "fs_wf s \<Longrightarrow> fs_wf (set_fat s c v)"
  by (simp add: set_fat_def)

lemma fat_set_fat:
  "fs_wf s \<Longrightarrow> unat c < csize s \<Longrightarrow> unat d < csize s \<Longrightarrow>
     fat (set_fat s c v) d = (if c = d then ucast v else fat s d)"
  by (simp add: set_fat_def fat_put_fat)

lemma byte_at_set_fat:
  "fs_wf s \<Longrightarrow> unat c < csize s \<Longrightarrow> k < csize s \<Longrightarrow> d \<noteq> 1 \<Longrightarrow>
     byte_at (set_fat s c v) d k = byte_at s d k"
  using fs_wfD(7) [of s] by (auto simp: set_fat_def byte_at_put)

lemma write_set_fat:
  assumes "fs_wf s" and "unat c < csize s"
  shows "fat_write s (Write8 CLUSTER_FAT_TABLE c v) = Some (0, None, set_fat s c v)"
  by (simp add: write_fat_cell assms set_fat_def)

lemma alloc_from:
  assumes "fs_wf s" and "3 \<le> n" and "n \<le> ccount s"
  shows "fat_write s (Alloc_From (of_nat n)) =
    (case filter (\<lambda>c. fat s c = 0) (map of_nat [n..<ccount s]) of
       [] \<Rightarrow> Some (0, Some 0xFF, s)
     | c # _ \<Rightarrow> Some (0, Some c, set_fat s c 0xFF))"
  using assms(2,3)
proof (induction "ccount s - n" arbitrary: n)
  case 0
  then have n: "n = ccount s" by simp
  have "\<not> (of_nat n :: u32) < fat_count s"
    unfolding n using fs_wfD(2) [OF assms(1)] by simp
  with 0 show ?case by (subst fat_write.simps) simp
next
  case (Suc d)
  note wf = fs_wfD [OF assms(1)]
  have lt: "n < ccount s" using Suc by simp
  have un: "unat (of_nat n :: u32) = n"
    using lt wf(5) by (simp add: unat_of_nat_u32)
  then have c: "(of_nat n :: u32) \<noteq> 0" "(of_nat n :: u32) \<noteq> 0xFF" "unat (of_nat n :: u32) < csize s"
    using lt wf(4,5) Suc.prems by (auto simp: word_eq_iff_unsigned [of _ "0 :: u32", where ?'a = nat])
  have i: "(of_nat n :: u32) < fat_count s"
    using lt un wf(2) by (simp add: word_less_nat_alt)
  have nx: "(of_nat n :: u32) + 1 = of_nat (Suc n)" by simp
  have l: "[n..<ccount s] = n # [Suc n..<ccount s]" using lt by (rule upt_conv_Cons)
  show ?case
  proof (cases "fat s (of_nat n) = 0")
    case True
    then show ?thesis
      by (subst fat_write.simps)
        (simp add: i l read_linked assms(1) c write_set_fat)
  next
    case False
    then have "fat_write s (Alloc_From (of_nat n)) = fat_write s (Alloc_From (of_nat (Suc n)))"
      by (subst fat_write.simps) (simp add: i read_linked assms(1) c nx)
    also have "\<dots> = (case filter (\<lambda>c. fat s c = 0) (map of_nat [Suc n..<ccount s]) of
       [] \<Rightarrow> Some (0, Some 0xFF, s)
     | c # _ \<Rightarrow> Some (0, Some c, set_fat s c 0xFF))"
      using Suc lt by (intro Suc.hyps) auto
    finally show ?thesis using False by (simp add: l)
  qed
qed

lemma alloc_eq:
  assumes "fs_wf s"
  shows "fat_write s (Alloc_From 3) = (case free_list s of
       [] \<Rightarrow> Some (0, Some 0xFF, s)
     | c # _ \<Rightarrow> Some (0, Some c, set_fat s c 0xFF))"
  using alloc_from [OF assms, of 3] fs_wfD(3) [OF assms] by (simp add: free_list_def)

lemma free_list_iff:
  assumes "fs_wf s"
  shows "c \<in> set (free_list s) \<longleftrightarrow> 3 \<le> unat c \<and> unat c < ccount s \<and> fat s c = 0"
proof -
  have "unat (of_nat n :: u32) = n" if "n < ccount s" for n
    using that fs_wfD(5) [OF assms] by (simp add: unat_of_nat_u32)
  then show ?thesis
    by (auto simp: free_list_def intro!: image_eqI [of _ _ "unat c"])
qed

lemma free_list_lt:
  assumes "fs_wf s" and "c \<in> set (free_list s)"
  shows "unat c < csize s" and "c \<noteq> 0" and "c \<noteq> 0xFF" and "c \<noteq> 1" and "c \<noteq> 2"
proof -
  show "unat c < csize s" using assms fs_wfD(4) by (fastforce simp: free_list_iff)
  show "c \<noteq> 0" "c \<noteq> 0xFF" "c \<noteq> 1" "c \<noteq> 2"
    using assms fs_wfD(5) [OF assms(1)] by (auto simp: free_list_iff)
qed

lemma free_list_data:
  assumes "fs_wf s" and "fs_full_size s" and "c \<in> set (free_list s)"
  shows "data_cluster s c"
proof -
  have "(unat c + 1) * csize s \<le> ccount s * csize s"
    using assms by (intro mult_le_mono1) (simp add: free_list_iff)
  then show ?thesis
    using assms by (simp add: data_cluster_def free_list_iff fs_full_size_def)
qed

lemma filter_map_of_nat_cong:
  fixes P Q :: "u32 \<Rightarrow> bool"
  assumes "fs_wf s" and "\<And>c. unat c < ccount s \<Longrightarrow> P c = Q c"
  shows "filter P (map of_nat [3..<ccount s]) = filter Q (map of_nat [3..<ccount s])"
proof (rule filter_cong [OF refl])
  fix x :: u32 assume "x \<in> set (map of_nat [3..<ccount s])"
  then obtain n where "x = of_nat n" "n < ccount s" by auto
  then have "unat x < ccount s"
    using fs_wfD(5) [OF assms(1)] by (simp add: unat_of_nat_u32)
  then show "P x = Q x" by (rule assms(2))
qed

lemma distinct_free_list:
  assumes "fs_wf s"
  shows "distinct (free_list s)"
proof -
  have "inj_on (of_nat :: nat \<Rightarrow> u32) {3..<ccount s}"
    using fs_wfD(5) [OF assms]
    by (intro inj_on_of_nat_u32) auto
  then show ?thesis
    by (simp add: free_list_def distinct_map)
qed

text \<open>Setting a FAT cell to a mark that is not zero takes the cluster off the free list.\<close>

lemma free_list_set_fat:
  assumes "fs_wf s" and "unat c < csize s" and "(ucast v :: u32) \<noteq> 0"
  shows "free_list (set_fat s c v) = filter (\<lambda>d. d \<noteq> c) (free_list s)"
proof -
  have "fat (set_fat s c v) d = 0 \<longleftrightarrow> d \<noteq> c \<and> fat s d = 0" if "unat d < ccount s" for d
    using that fs_wfD(4) [OF assms(1)] assms by (simp add: fat_set_fat)
  then have "filter (\<lambda>d. fat (set_fat s c v) d = 0) (map of_nat [3..<ccount s])
      = filter (\<lambda>d. d \<noteq> c \<and> fat s d = 0) (map of_nat [3..<ccount s])"
    by (intro filter_map_of_nat_cong assms(1)) simp
  then show ?thesis
    by (simp add: free_list_def conj_commute)
qed

subsection \<open>Growing a chain\<close>

text \<open>\<open>link s l f\<close>: the free cluster \<open>f\<close> becomes the last one, behind \<open>l\<close>. \<open>grow s l fs\<close>
  appends the clusters \<open>fs\<close> behind \<open>l\<close> one after the other.\<close>

definition link :: "tinyfs \<Rightarrow> u32 \<Rightarrow> u32 \<Rightarrow> tinyfs" where
  "link s l f = set_fat (set_fat s f 0xFF) l (ucast f)"

fun grow :: "tinyfs \<Rightarrow> u32 \<Rightarrow> u32 list \<Rightarrow> tinyfs" where
  "grow s l [] = s"
| "grow s l (f # fs) = grow (link s l f) f fs"

definition is_end :: "tinyfs \<Rightarrow> u32 \<Rightarrow> bool" where
  "is_end s l = (unat l < csize s \<and> l \<noteq> 0 \<and> l \<noteq> 0xFF \<and> fat s l = 0xFF)"

lemma chain_is_end:
  assumes "fs_wf s" and "chain s cs"
  shows "is_end s (last cs)"
  using data_cluster_lt [OF assms(1) chain_data [OF assms(2)]] chain_last [OF assms(2)]
    chain_not_Nil [OF assms(2)]
  by (simp add: is_end_def)

lemma link_sel [simp]:
  "cl_ptr (link s l f) = cl_ptr s" "cl_size (link s l f) = cl_size s"
  "cl_count (link s l f) = cl_count s" "fat_count (link s l f) = fat_count s"
  "fat_size (link s l f) = fat_size s" "root_size (link s l f) = root_size s"
  "di_ptr (link s l f) = di_ptr s" "di_image_size (link s l f) = di_image_size s"
  "di_count (link s l f) = di_count s" "di_size (link s l f) = di_size s"
  "length (the (image (link s l f))) = length (the (image s))"
  "fs_full_size (link s l f) = fs_full_size s"
  "data_cluster (link s l f) d = data_cluster s d"
  by (simp_all add: link_def)

lemma link_wf [simp]: "fs_wf s \<Longrightarrow> fs_wf (link s l f)"
  by (simp add: link_def)

lemma ucast_u8_back:
  assumes "unat (c :: u32) \<le> 255"
  shows "(ucast (ucast c :: u8) :: u32) = c"
proof -
  have "unat (ucast (ucast c :: u8) :: u32) = unat (ucast c :: u8)" by simp
  also have "\<dots> = unat c"
    using assms by (simp add: unsigned_ucast_eq take_bit_nat_def)
  finally show ?thesis by (rule unat_eqD)
qed

lemma free_lt_u8: "fs_wf s \<Longrightarrow> f \<in> set (free_list s) \<Longrightarrow> unat f \<le> 255"
  using fs_wfD(5) [of s] by (simp add: free_list_iff)

lemma fat_link:
  assumes "fs_wf s" and "is_end s l" and "f \<in> set (free_list s)" and "unat d < csize s"
  shows "fat (link s l f) d = (if d = l then f else if d = f then 0xFF else fat s d)"
  using assms free_list_lt(1) [OF assms(1,3)]
  by (auto simp: link_def is_end_def fat_set_fat ucast_u8_back free_lt_u8)

lemma link_end:
  assumes "fs_wf s" and "is_end s l" and "f \<in> set (free_list s)"
  shows "is_end (link s l f) f"
  using assms free_list_lt [OF assms(1,3)]
  by (auto simp: is_end_def fat_link free_list_iff)

lemma free_list_link:
  assumes "fs_wf s" and "is_end s l" and "free_list s = f # fs"
  shows "free_list (link s l f) = fs"
proof -
  have f: "f \<in> set (free_list s)" using assms(3) by simp
  have l: "l \<notin> set (free_list s)"
    using assms(1,2) by (simp add: free_list_iff is_end_def)
  have "free_list (set_fat s f 0xFF) = filter (\<lambda>d. d \<noteq> f) (free_list s)"
    by (rule free_list_set_fat [OF assms(1) free_list_lt(1) [OF assms(1) f]]) simp
  also have "\<dots> = fs"
    using distinct_free_list [OF assms(1)] assms(3) by (auto simp: filter_id_conv)
  finally have a: "free_list (set_fat s f 0xFF) = fs" .
  have "(ucast (ucast f :: u8) :: u32) \<noteq> 0"
    using free_list_lt(2) [OF assms(1) f] free_lt_u8 [OF assms(1) f] by (simp only: ucast_u8_back) simp
  then have "free_list (link s l f) = filter (\<lambda>d. d \<noteq> l) (free_list (set_fat s f 0xFF))"
    unfolding link_def using assms(1,2) by (intro free_list_set_fat) (simp_all add: is_end_def)
  then show ?thesis
    using l assms(3) by (auto simp: a filter_id_conv)
qed

lemma extend_eq:
  assumes "fs_wf s" and "is_end s l"
  shows "fat_write s (Extend n l) =
    (if n \<le> length (free_list s)
     then Some (0, Some (last (l # take n (free_list s))), grow s l (take n (free_list s)))
     else Some (- FS_DISK_FULL, None, grow s l (free_list s)))"
  using assms
proof (induction n arbitrary: s l)
  case 0
  then show ?case by (subst fat_write.simps) simp
next
  case (Suc n)
  have lk: "fat_read s (Linked l) = Some (0, Some 0xFF)"
    using Suc.prems by (simp add: is_end_def read_linked)
  show ?case
  proof (cases "free_list s")
    case Nil
    with lk Suc.prems(1) show ?thesis
      by (subst fat_write.simps) (simp add: alloc_eq)
  next
    case (Cons f fs)
    then have f: "f \<in> set (free_list s)" by simp
    note fl = free_list_lt [OF Suc.prems(1) f]
    have w: "fat_write (set_fat s f 0xFF) (Write8 CLUSTER_FAT_TABLE l (ucast f)) =
        Some (0, None, link s l f)"
      using Suc.prems by (simp add: write_set_fat link_def is_end_def)
    have "fat_write s (Extend (Suc n) l) = fat_write (link s l f) (Extend n f)"
      using fl lk Suc.prems(1) w by (subst fat_write.simps) (simp add: alloc_eq Cons)
    moreover have "free_list (link s l f) = fs"
      using Suc.prems Cons by (simp add: free_list_link)
    moreover have "is_end (link s l f) f" using Suc.prems f by (rule link_end)
    ultimately show ?thesis
      using Suc.IH [of "link s l f" f] Suc.prems(1) Cons by simp
  qed
qed

lemma grow_sel [simp]:
  "cl_ptr (grow s l fs) = cl_ptr s" "cl_size (grow s l fs) = cl_size s"
  "cl_count (grow s l fs) = cl_count s" "fat_count (grow s l fs) = fat_count s"
  "fat_size (grow s l fs) = fat_size s" "root_size (grow s l fs) = root_size s"
  "di_ptr (grow s l fs) = di_ptr s" "di_image_size (grow s l fs) = di_image_size s"
  "di_count (grow s l fs) = di_count s" "di_size (grow s l fs) = di_size s"
  "length (the (image (grow s l fs))) = length (the (image s))"
  "fs_full_size (grow s l fs) = fs_full_size s"
  "data_cluster (grow s l fs) d = data_cluster s d"
  by (induction s l fs rule: grow.induct) simp_all

lemma grow_wf [simp]: "fs_wf s \<Longrightarrow> fs_wf (grow s l fs)"
  by (induction s l fs rule: grow.induct) simp_all

lemma free_list_grow:
  "fs_wf s \<Longrightarrow> is_end s l \<Longrightarrow> free_list s = fs @ rest \<Longrightarrow> free_list (grow s l fs) = rest"
  by (induction fs arbitrary: s l) (simp_all add: free_list_link link_end)

lemma fat_grow_other:
  "fs_wf s \<Longrightarrow> is_end s l \<Longrightarrow> free_list s = fs @ rest \<Longrightarrow> unat d < csize s \<Longrightarrow>
     d \<noteq> l \<Longrightarrow> d \<notin> set fs \<Longrightarrow> fat (grow s l fs) d = fat s d"
proof (induction fs arbitrary: s l)
  case (Cons f fs)
  then have "fat (grow (link s l f) f fs) d = fat (link s l f) d"
    by (intro Cons.IH) (auto simp: free_list_link link_end)
  with Cons.prems show ?case by (simp add: fat_link)
qed simp

lemma byte_at_grow:
  "fs_wf s \<Longrightarrow> is_end s l \<Longrightarrow> free_list s = fs @ rest \<Longrightarrow> k < csize s \<Longrightarrow>
     d \<noteq> 1 \<Longrightarrow> byte_at (grow s l fs) d k = byte_at s d k"
proof (induction fs arbitrary: s l)
  case (Cons f fs)
  then have f: "f \<in> set (free_list s)" by simp
  have "byte_at (grow (link s l f) f fs) d k = byte_at (link s l f) d k"
    using Cons.prems by (intro Cons.IH) (auto simp: free_list_link link_end)
  also have "\<dots> = byte_at s d k"
    using Cons.prems free_list_lt(1) [OF Cons.prems(1) f]
    by (simp add: link_def byte_at_set_fat is_end_def)
  finally show ?case by simp
qed simp

text \<open>A chain is decided by the FAT cells of its clusters alone.\<close>

lemma chain_cong:
  assumes "chain s cs" and "\<And>c. c \<in> set cs \<Longrightarrow> fat s' c = fat s c"
    and "\<And>c. data_cluster s' c = data_cluster s c"
  shows "chain s' cs"
  using assms by (induction s cs rule: chain.induct) auto

lemma chain_link:
  assumes wf: "fs_wf s" and ch: "chain s cs" and f: "f \<in> set (free_list s)" "data_cluster s f"
  shows "chain (link s (last cs) f) (cs @ [f])"
proof -
  note e = chain_is_end [OF wf ch] and n = chain_not_Nil [OF ch]
  have lt: "c \<in> set cs \<Longrightarrow> unat c < csize s" for c
    using chain_data [OF ch] data_cluster_lt(1) [OF wf] by blast
  have nf: "f \<notin> set cs" using chain_fat_nonzero [OF ch] f wf by (auto simp: free_list_iff)
  have d: "distinct cs" using wf ch by (rule chain_distinct)
  have link: "fat (link s (last cs) f) c = (if c = last cs then f else fat s c)" if "c \<in> set cs" for c
    using that lt nf by (auto simp: fat_link [OF wf e f(1)])
  have last: "chain (link s (last cs) f) [f]"
    using f free_list_lt(1) [OF wf f(1)] nf n by (auto simp: fat_link [OF wf e f(1)])
  have "chain s (xs @ ys) \<Longrightarrow> ys \<noteq> [] \<Longrightarrow> xs @ ys = cs \<Longrightarrow> chain (link s (last cs) f) (ys @ [f])" for xs ys
  proof (induction ys arbitrary: xs)
    case (Cons c ys)
    have c: "data_cluster s c" "c \<in> set cs" using Cons.prems chain_data by auto
    show ?case
    proof (cases ys)
      case Nil
      with Cons.prems c last show ?thesis by (auto simp: link)
    next
      case [simp]: (Cons y ys')
      have "chain (link s (last cs) f) (ys @ [f])"
        using Cons.prems Cons.IH [of "xs @ [c]"] by simp
      moreover have "chain s (c # y # ys')" using Cons.prems chain_suffix [of s xs "c # y # ys'"] by simp
      moreover have "last cs \<in> set (y # ys')"
        unfolding Cons.prems(3) [symmetric] by simp
      then have "c \<noteq> last cs" using d Cons.prems(3) by auto
      ultimately show ?thesis using c by (simp add: link)
    qed
  qed simp
  from this [of "[]" cs] ch n show ?thesis by simp
qed

lemma chain_grow:
  assumes "fs_wf s" and "fs_full_size s" and "chain s cs" and "free_list s = fs @ rest"
  shows "chain (grow s (last cs) fs) (cs @ fs)"
  using assms
proof (induction fs arbitrary: s cs)
  case (Cons f fs)
  then have f: "f \<in> set (free_list s)" by simp
  have c: "chain (link s (last cs) f) (cs @ [f])"
    using Cons.prems f by (intro chain_link) (auto intro: free_list_data)
  have "free_list (link s (last cs) f) = fs @ rest"
    using Cons.prems chain_is_end by (intro free_list_link) auto
  then show ?case
    using Cons.IH [OF _ _ c] Cons.prems(1,2) by simp
qed simp

lemma chain_grow_other:
  assumes "fs_wf s" and "is_end s l" and "free_list s = fs @ rest" and "chain s ds" and "l \<notin> set ds"
  shows "chain (grow s l fs) ds"
proof (rule chain_cong [OF assms(4)])
  fix c assume c: "c \<in> set ds"
  then have "unat c < csize s" using chain_data [OF assms(4)] data_cluster_lt(1) [OF assms(1)] by blast
  moreover have "c \<notin> set fs"
  proof
    assume "c \<in> set fs"
    then have "fat s c = 0" using free_list_iff [OF assms(1), of c] assms(3) by simp
    with chain_fat_nonzero [OF assms(4) c] show False by simp
  qed
  ultimately show "fat (grow s l fs) c = fat s c"
    using assms c by (intro fat_grow_other) auto
qed simp

subsection \<open>Writing through a chain\<close>

lemma extend_chain:
  assumes wf: "fs_wf s" and ch: "chain s cs"
  shows "fat_write s (Extend n (hd cs)) =
    (if n < length cs then Some (0, Some (cs ! n), s)
     else fat_write s (Extend (Suc n - length cs) (last cs)))"
  using ch
proof (induction cs arbitrary: n)
  case (Cons c cs)
  have c: "fat_read s (Linked c) = Some (0, Some (fat s c))"
    using Cons.prems by (intro read_linked_data assms(1)) (auto intro: chain_data)
  show ?case
  proof (cases n)
    case 0
    then show ?thesis by (subst fat_write.simps) simp
  next
    case [simp]: (Suc k)
    show ?thesis
    proof (cases cs)
      case Nil
      then show ?thesis by simp
    next
      case [simp]: (Cons d ds)
      have "fat s c = d" and d: "chain s cs" using Cons.prems by auto
      moreover have "d \<noteq> 0xFF"
        using data_cluster_lt(3) [OF wf chain_data [OF d]] by simp
      ultimately have "fat_write s (Extend n c) = fat_write s (Extend k (hd cs))"
        using c by (subst fat_write.simps) simp
      then show ?thesis
        using Cons.IH [OF d, of k] by (simp add: Suc_diff_le)
    qed
  qed
qed simp

lemma disk_wr_cluster:
  assumes "fs_wf s" and "data_cluster s c"
  shows "disk_wr s (calculate_image_offset s c + offset mod cl_size s) v =
    Some (put s c (unat offset mod csize s) v)"
proof -
  have "unat (offset mod cl_size s) < csize s"
    using csize_pos [OF assms(1)] by (simp add: unat_mod)
  moreover from this have "unat c * csize s + unat offset mod csize s < length (the (image s))"
    using assms(2) by (simp add: data_cluster_def unat_mod)
  moreover have "unat c \<le> 255" using data_cluster_lt(5) [OF assms] by simp
  ultimately show ?thesis
    using fs_wfD(1) [OF assms(1)] fs_wfE [OF assms(1)]
    by (auto simp: disk_wr_def put_def image_offset [OF assms(1)] mem_access unat_mod)
qed

lemma write8_in_chain:
  assumes wf: "fs_wf s" and ch: "chain s cs" and q: "unat offset div csize s < length cs"
  shows "fat_write s (Write8 (hd cs) offset v) =
    Some (0, None, put s (cs ! (unat offset div csize s)) (unat offset mod csize s) v)"
proof (cases "cl_size s \<le> offset")
  case False
  then have lt: "unat offset < csize s" by (simp add: word_le_nat_alt)
  have d: "data_cluster s (hd cs)" using ch chain_data by (cases cs) auto
  then have "unat (hd cs) \<le> 255" "(unat (hd cs) + 1) * csize s \<le> length (the (image s))"
    using data_cluster_lt [OF wf d] by (auto simp: data_cluster_def intro: less_imp_le)
  moreover have "hd cs = cs ! 0" using ch by (cases cs; simp)
  ultimately show ?thesis
    using wf lt by (simp add: write8_first_cluster)
next
  case True
  have "data_cluster s (cs ! (unat offset div csize s))" using chain_data [OF ch] q by simp
  then show ?thesis
    using True q csize_pos [OF wf]
    by (subst fat_write.simps) (simp add: at_offset_chain [OF wf ch] disk_wr_cluster [OF wf])
qed

lemma write8_beyond:
  fixes n :: nat
  assumes wf: "fs_wf s" and ch: "chain s cs" and q: "length cs \<le> unat offset div csize s"
  defines "n \<equiv> Suc (unat offset div csize s) - length cs"
  shows "n \<le> length (free_list s) \<Longrightarrow> fs_full_size s \<Longrightarrow>
      fat_write s (Write8 (hd cs) offset v) =
        Some (0, None, put (grow s (last cs) (take n (free_list s)))
          (last (take n (free_list s))) (unat offset mod csize s) v)"
    and "length (free_list s) < n \<Longrightarrow> fat_write s (Write8 (hd cs) offset v) =
        Some (- FS_DISK_FULL, None, grow s (last cs) (free_list s))"
proof -
  have "0 < length cs" using chain_not_Nil [OF ch] by simp
  then have "0 < unat offset div csize s" using q by linarith
  then have le: "cl_size s \<le> offset"
    by (cases "unat offset < csize s") (simp_all add: word_le_nat_alt)
  have n: "n = Suc (n - 1)" "n \<noteq> 0" using q by (auto simp: n_def)
  have step: "fat_write s (Upto_Offset (hd cs) offset) = fat_write s (Extend n (last cs))"
    using csize_pos [OF wf] q
    by (subst fat_write.simps) (simp add: traverse_count_eq [OF wf] extend_chain [OF wf ch] n_def)
  note ext = extend_eq [OF wf chain_is_end [OF wf ch]]
  show "fat_write s (Write8 (hd cs) offset v) =
      Some (- FS_DISK_FULL, None, grow s (last cs) (free_list s))" if "length (free_list s) < n"
    using that le q csize_pos [OF wf]
    by (subst fat_write.simps)
      (simp add: at_offset_chain [OF wf ch] step ext FS_DISK_FULL_def)
  assume en: "n \<le> length (free_list s)" and full: "fs_full_size s"
  let ?fs = "take n (free_list s)"
  have ne: "?fs \<noteq> []" using en n by auto
  then have "last ?fs \<in> set (free_list s)" by (meson in_set_takeD last_in_set)
  then have "data_cluster (grow s (last cs) ?fs) (last ?fs)"
    using free_list_data [OF wf full] by simp
  from disk_wr_cluster [OF grow_wf [OF wf] this, of offset v]
  show "fat_write s (Write8 (hd cs) offset v) =
        Some (0, None, put (grow s (last cs) ?fs) (last ?fs) (unat offset mod csize s) v)"
    using en le q csize_pos [OF wf] ne
    by (subst fat_write.simps)
      (simp add: at_offset_chain [OF wf ch] step ext)
qed

subsection \<open>The content of a chain\<close>

definition cluster_bytes :: "tinyfs \<Rightarrow> u32 \<Rightarrow> u8 list" where
  "cluster_bytes s c = take (csize s) (drop (unat c * csize s) (the (image s)))"

definition chain_bytes :: "tinyfs \<Rightarrow> u32 list \<Rightarrow> u8 list" where
  "chain_bytes s cs = concat (map (cluster_bytes s) cs)"

definition view :: "tinyfs \<Rightarrow> u32 \<Rightarrow> u8 list option" where
  "view s h = (if fs_wf s then map_option (chain_bytes s) (chain_of s h) else None)"

text \<open>How long the content may become: the clusters of the chain and the free ones.\<close>

definition room :: "tinyfs \<Rightarrow> u32 \<Rightarrow> nat" where
  "room s h = (case chain_of s h of None \<Rightarrow> 0
     | Some cs \<Rightarrow> (length cs + (if fs_full_size s then length (free_list s) else 0)) * csize s)"

definition apart :: "tinyfs \<Rightarrow> u32 \<Rightarrow> u32 \<Rightarrow> bool" where
  "apart s h h' = (case (chain_of s h, chain_of s h') of
     (Some cs, Some ds) \<Rightarrow> set cs \<inter> set ds = {} | _ \<Rightarrow> False)"

lemma length_cluster_bytes: "data_cluster s c \<Longrightarrow> length (cluster_bytes s c) = csize s"
  by (auto simp: cluster_bytes_def data_cluster_def)

lemma nth_cluster_bytes:
  "data_cluster s c \<Longrightarrow> k < csize s \<Longrightarrow> cluster_bytes s c ! k = byte_at s c k"
  by (auto simp: cluster_bytes_def data_cluster_def byte_at_def)

lemma chain_bytes_simps [simp]:
  "chain_bytes s [] = []" "chain_bytes s (c # cs) = cluster_bytes s c @ chain_bytes s cs"
  "chain_bytes s (cs @ ds) = chain_bytes s cs @ chain_bytes s ds"
  by (simp_all add: chain_bytes_def)

lemma length_chain_bytes:
  "(\<And>c. c \<in> set cs \<Longrightarrow> data_cluster s c) \<Longrightarrow> length (chain_bytes s cs) = length cs * csize s"
  by (induction cs) (simp_all add: length_cluster_bytes)

lemma nth_chain_bytes:
  "(\<And>c. c \<in> set cs \<Longrightarrow> data_cluster s c) \<Longrightarrow> k < length cs * csize s \<Longrightarrow>
     chain_bytes s cs ! k = byte_at s (cs ! (k div csize s)) (k mod csize s)"
proof (induction cs arbitrary: k)
  case (Cons c cs)
  have l: "length (cluster_bytes s c) = csize s" using Cons.prems by (intro length_cluster_bytes) simp
  show ?case
  proof (cases "k < csize s")
    case True
    then show ?thesis
      using Cons.prems l by (simp add: nth_append nth_cluster_bytes)
  next
    case False
    then have "chain_bytes s cs ! (k - csize s) =
        byte_at s (cs ! ((k - csize s) div csize s)) ((k - csize s) mod csize s)"
      using Cons.prems by (intro Cons.IH) auto
    moreover have "k div csize s = Suc ((k - csize s) div csize s)"
      using False Cons.prems(2) by (cases "csize s = 0") (auto simp: le_div_geq)
    ultimately show ?thesis
      using False l by (simp add: nth_append le_mod_geq)
  qed
qed simp

lemma view_Some:
  "view s h = Some bs \<longleftrightarrow> fs_wf s \<and> (\<exists>cs. chain s cs \<and> hd cs = h \<and> bs = chain_bytes s cs)"
  by (auto simp: view_def chain_of_iff)

lemma chain_of_Some: "fs_wf s \<Longrightarrow> chain s cs \<Longrightarrow> chain_of s (hd cs) = Some cs"
  by (simp add: chain_of_iff)

lemma view_chain: "fs_wf s \<Longrightarrow> chain s cs \<Longrightarrow> view s (hd cs) = Some (chain_bytes s cs)"
  by (simp add: view_def chain_of_Some)

lemma cluster_bytes_cong:
  assumes "data_cluster s c" and "data_cluster s' c" and "cl_size s' = cl_size s"
    and "\<And>k. k < csize s \<Longrightarrow> byte_at s' c k = byte_at s c k"
  shows "cluster_bytes s' c = cluster_bytes s c"
  using assms by (intro nth_equalityI) (simp_all add: length_cluster_bytes nth_cluster_bytes)

lemma chain_bytes_cong:
  assumes "\<And>c. c \<in> set cs \<Longrightarrow> data_cluster s c \<and> data_cluster s' c" and "cl_size s' = cl_size s"
    and "\<And>c k. c \<in> set cs \<Longrightarrow> k < csize s \<Longrightarrow> byte_at s' c k = byte_at s c k"
  shows "chain_bytes s' cs = chain_bytes s cs"
  unfolding chain_bytes_def
  using assms by (intro arg_cong [where f = concat] map_cong cluster_bytes_cong) auto

text \<open>Everything of the state but the bytes of the image.\<close>

definition geometry :: "tinyfs \<Rightarrow> tinyfs \<times> nat option" where
  "geometry s = (s\<lparr>image := None\<rparr>, map_option length (image s))"

lemma geometry_put: "fs_wf s \<Longrightarrow> geometry (put s c k v) = geometry s"
  by (auto dest: fs_wfE simp: geometry_def put_def)

lemma geometry_set_fat: "fs_wf s \<Longrightarrow> geometry (set_fat s c v) = geometry s"
  by (simp add: set_fat_def geometry_put)

lemma geometry_grow: "fs_wf s \<Longrightarrow> geometry (grow s l fs) = geometry s"
  by (induction s l fs rule: grow.induct) (simp_all add: link_def geometry_set_fat)

text \<open>\<open>only_touches s C s'\<close>: the step from \<open>s\<close> to \<open>s'\<close> leaves every chain alone that has no
  cluster in \<open>C\<close>.\<close>

definition only_touches :: "tinyfs \<Rightarrow> u32 set \<Rightarrow> tinyfs \<Rightarrow> bool" where
  "only_touches s C s' \<longleftrightarrow> fs_wf s' \<and> geometry s' = geometry s \<and>
     (\<forall>ds. chain s ds \<longrightarrow> set ds \<inter> C = {} \<longrightarrow> chain s' ds \<and> chain_bytes s' ds = chain_bytes s ds)"

lemma only_touches_trans:
  "only_touches s C s1 \<Longrightarrow> only_touches s1 D s2 \<Longrightarrow>
     (\<And>ds. chain s ds \<Longrightarrow> set ds \<inter> C = {} \<Longrightarrow> set ds \<inter> D = {}) \<Longrightarrow> only_touches s C s2"
  by (simp add: only_touches_def)

lemma fat_put_data_cluster:
  "fs_wf s \<Longrightarrow> data_cluster s c \<Longrightarrow> k < csize s \<Longrightarrow> unat d < csize s \<Longrightarrow>
     fat (put s c k v) d = fat s d"
  by (rule fat_put_data) (auto dest: data_cluster_lt(4) simp: data_cluster_def)

lemma put_touches:
  assumes wf: "fs_wf s" and c: "data_cluster s c" "c \<in> C" and k: "k < csize s"
  shows "only_touches s C (put s c k v)"
proof -
  have c1: "c \<noteq> 1" "(unat c + 1) * csize s \<le> length (the (image s))"
    using data_cluster_lt(4) [OF wf c(1)] c(1) by (auto simp: data_cluster_def)
  have "chain (put s c k v) ds \<and> chain_bytes (put s c k v) ds = chain_bytes s ds"
    if d: "chain s ds" and disj: "set ds \<inter> C = {}" for ds
  proof
    have lt: "x \<in> set ds \<Longrightarrow> unat x < csize s" for x
      using chain_data [OF d] data_cluster_lt(1) [OF wf] by blast
    show "chain (put s c k v) ds"
      using lt by (intro chain_cong [OF d]) (simp_all add: fat_put_data_cluster wf c k)
    show "chain_bytes (put s c k v) ds = chain_bytes s ds"
    proof (rule chain_bytes_cong)
      fix x j assume x: "x \<in> set ds" and j: "j < csize s"
      then have "x \<noteq> c" using disj c(2) by auto
      then show "byte_at (put s c k v) x j = byte_at s x j"
        using byte_at_put [OF c1(2) k j] by simp
    qed (use chain_data [OF d] in auto)
  qed
  then show ?thesis using wf by (simp add: only_touches_def geometry_put)
qed

lemma grow_touches:
  assumes "fs_wf s" and "is_end s l" and "free_list s = fs @ rest" and "l \<in> C"
  shows "only_touches s C (grow s l fs)"
proof -
  have "chain (grow s l fs) ds \<and> chain_bytes (grow s l fs) ds = chain_bytes s ds"
    if d: "chain s ds" and "set ds \<inter> C = {}" for ds
  proof
    show "chain (grow s l fs) ds"
      using that assms by (intro chain_grow_other) auto
    have "data_cluster s c" "c \<noteq> 1" if "c \<in> set ds" for c
      using chain_data [OF d that] data_cluster_lt(4) [OF assms(1)] by auto
    then show "chain_bytes (grow s l fs) ds = chain_bytes s ds"
      using byte_at_grow [OF assms(1-3)] by (intro chain_bytes_cong) auto
  qed
  then show ?thesis using assms(1) by (simp add: only_touches_def geometry_grow)
qed

lemma free_list_put:
  assumes "fs_wf s" and "data_cluster s c" and "k < csize s"
  shows "free_list (put s c k v) = free_list s"
  unfolding free_list_def put_sel
  using fs_wfD(4) [OF assms(1)]
  by (intro filter_map_of_nat_cong assms(1)) (simp add: fat_put_data_cluster assms)

text \<open>A write inside a chain updates its content at one place.\<close>

lemma put_in_chain:
  assumes wf: "fs_wf s" and ch: "chain s cs" and k: "k < length cs * csize s"
  shows "chain (put s (cs ! (k div csize s)) (k mod csize s) v) cs"
    and "chain_bytes (put s (cs ! (k div csize s)) (k mod csize s) v) cs = (chain_bytes s cs)[k := v]"
proof -
  let ?c = "cs ! (k div csize s)" and ?r = "k mod csize s"
  let ?s = "put s ?c ?r v"
  have q: "k div csize s < length cs" using k by (simp add: div_less_iff_less_mult csize_pos [OF wf])
  have r: "?r < csize s" using csize_pos(1) [OF wf] by simp
  have c: "data_cluster s ?c" using chain_data [OF ch] q by simp
  then have c1: "?c \<noteq> 1" "(unat ?c + 1) * csize s \<le> length (the (image s))"
    using data_cluster_lt(4) [OF wf] by (auto simp: data_cluster_def)
  have lt: "x \<in> set cs \<Longrightarrow> unat x < csize s" for x
    using chain_data [OF ch] data_cluster_lt(1) [OF wf] by blast
  show ch': "chain ?s cs"
    using lt by (intro chain_cong [OF ch]) (simp_all add: fat_put_data_cluster wf c r)
  have len: "length (chain_bytes s cs) = length cs * csize s" "length (chain_bytes ?s cs) = length cs * csize s"
    using chain_data [OF ch] chain_data [OF ch'] by (simp_all add: length_chain_bytes)
  show "chain_bytes ?s cs = (chain_bytes s cs)[k := v]"
  proof (rule nth_equalityI)
    fix j assume "j < length (chain_bytes ?s cs)"
    then have j: "j < length cs * csize s" by (simp only: len)
    then have jq: "j div csize s < length cs" by (simp add: div_less_iff_less_mult csize_pos [OF wf])
    have jr: "j mod csize s < csize s" using csize_pos(1) [OF wf] by simp
    have eq: "?c = cs ! (j div csize s) \<and> ?r = j mod csize s \<longleftrightarrow> k = j"
      using nth_eq_iff_index_eq [OF chain_distinct [OF wf ch] q jq]
      by (metis div_mult_mod_eq)
    have "chain_bytes ?s cs ! j = byte_at ?s (cs ! (j div csize s)) (j mod csize s)"
      using nth_chain_bytes [of cs ?s j] chain_data [OF ch'] j by simp
    also have "\<dots> = (if k = j then v else byte_at s (cs ! (j div csize s)) (j mod csize s))"
      using byte_at_put [OF c1(2) r jr] eq by simp
    also have "\<dots> = (chain_bytes s cs)[k := v] ! j"
      using nth_chain_bytes [of cs s j] chain_data [OF ch] j len by (simp add: nth_list_update)
    finally show "chain_bytes ?s cs ! j = (chain_bytes s cs)[k := v] ! j" .
  qed (simp add: len)
qed

subsection \<open>The cluster layer is a store of growing files\<close>

lemma chain_not_free:
  assumes "fs_wf s" and "chain s ds"
  shows "set ds \<inter> set (free_list s) = {}"
  using chain_fat_nonzero [OF assms(2)] by (auto simp: free_list_iff [OF assms(1)])

lemma touches_frame:
  assumes wf: "fs_wf s" and ch: "chain s cs" and ch': "chain s' cs'" and hd: "hd cs' = hd cs"
    and sub: "set cs' \<subseteq> set cs \<union> set (free_list s)" and t: "only_touches s (set cs) s'"
  shows "store_frame view apart geometry s (hd cs) s'"
proof -
  have wf': "fs_wf s'" and g: "geometry s' = geometry s" using t by (auto simp: only_touches_def)
  have h: "chain_of s (hd cs) = Some cs" "chain_of s' (hd cs) = Some cs'"
    using wf wf' ch ch' hd by (simp_all add: chain_of_iff)
  have a: "\<exists>ds. chain_of s a = Some ds \<and> chain_of s' a = Some ds \<and> chain_bytes s' ds = chain_bytes s ds \<and>
      set ds \<inter> set cs = {} \<and> set ds \<inter> set cs' = {}" if ap: "apart s (hd cs) a" for a
  proof -
    obtain ds where ds: "chain_of s a = Some ds" "set cs \<inter> set ds = {}"
      using ap h(1) by (auto simp: apart_def split: option.splits)
    then have "chain s ds" "hd ds = a" using wf by (simp_all add: chain_of_iff)
    moreover from this ds have "chain s' ds \<and> chain_bytes s' ds = chain_bytes s ds"
      using t by (auto simp: only_touches_def)
    moreover have "set ds \<inter> set cs' = {}"
      using chain_not_free [OF wf \<open>chain s ds\<close>] sub ds(2) by auto
    ultimately show ?thesis using ds wf' by (auto simp: chain_of_iff)
  qed
  show ?thesis
    unfolding store_frame_def
  proof (intro conjI allI impI)
    fix a assume "apart s (hd cs) a"
    from a [OF this] show "view s' a = view s a" "apart s' (hd cs) a"
      using h wf wf' by (auto simp: view_def apart_def)
  next
    fix a b assume "apart s (hd cs) a" and "apart s (hd cs) b"
    from a [OF this(1)] a [OF this(2)] show "apart s' a b = apart s a b"
      by (auto simp: apart_def)
  qed (rule g)
qed

lemma room_eq: "fs_wf s \<Longrightarrow> chain s cs \<Longrightarrow>
    room s (hd cs) = (length cs + (if fs_full_size s then length (free_list s) else 0)) * csize s"
  by (simp add: room_def chain_of_Some)

text \<open>A write inside the chain, and one behind it, which grows the chain first.\<close>

lemma write_view_inside:
  assumes wf: "fs_wf s" and ch: "chain s cs" and h: "h = hd cs" and bs: "bs = chain_bytes s cs"
    and True: "unat k div csize s < length cs"
  shows "\<exists>s' ext. cluster_write_8bit s h k v = Some (0, s') \<and> view s' h = Some ((bs @ ext)[unat k := v]) \<and>
    unat k < length (bs @ ext) \<and> (unat k < length bs \<longrightarrow> ext = []) \<and> room s' h = room s h \<and>
    store_frame view apart geometry s h s'"
proof -
  let ?q = "unat k div csize s" and ?r = "unat k mod csize s"
  have len: "length bs = length cs * csize s"
    using chain_data [OF ch] by (simp add: bs length_chain_bytes)
  have r: "?r < csize s" using csize_pos(1) [OF wf] by simp
  have kl: "unat k < length cs * csize s" using True by (simp add: div_less_iff_less_mult csize_pos [OF wf])
  let ?s = "put s (cs ! ?q) ?r v"
  have c: "data_cluster s (cs ! ?q)" using chain_data [OF ch] True by simp
  have "cluster_write_8bit s h k v = Some (0, ?s)"
    using write8_in_chain [OF wf ch True] by (simp add: cluster_write_8bit_def h)
  moreover have "view ?s h = Some ((bs @ [])[unat k := v])"
    using put_in_chain [OF wf ch kl, of v] wf by (simp add: h bs view_chain [OF put_wf])
  moreover have "room ?s h = room s h"
    using put_in_chain(1) [OF wf ch kl, of v] wf free_list_put [OF wf c r]
    by (simp add: h room_eq [OF put_wf] room_eq [OF wf ch])
  moreover have "store_frame view apart geometry s h ?s"
    unfolding h using True
    by (intro touches_frame [OF wf ch put_in_chain(1) [OF wf ch kl]] put_touches [OF wf c _ r]) auto
  ultimately show ?thesis using kl len by (intro exI [of _ ?s] exI [of _ "[]"]) simp
qed

lemma write_view_beyond:
  assumes wf: "fs_wf s" and ch: "chain s cs" and h: "h = hd cs" and bs: "bs = chain_bytes s cs"
    and k: "unat k < room s h" and False: "\<not> unat k div csize s < length cs"
  shows "\<exists>s' ext. cluster_write_8bit s h k v = Some (0, s') \<and> view s' h = Some ((bs @ ext)[unat k := v]) \<and>
    unat k < length (bs @ ext) \<and> (unat k < length bs \<longrightarrow> ext = []) \<and> room s' h = room s h \<and>
    store_frame view apart geometry s h s'"
proof -
  let ?q = "unat k div csize s" and ?r = "unat k mod csize s"
  have len: "length bs = length cs * csize s"
    using chain_data [OF ch] by (simp add: bs length_chain_bytes)
  have r: "?r < csize s" using csize_pos(1) [OF wf] by simp
  have "unat k < (length cs + (if fs_full_size s then length (free_list s) else 0)) * csize s"
    using k by (simp add: h room_eq [OF wf ch])
  then have q: "?q < length cs + (if fs_full_size s then length (free_list s) else 0)"
    by (simp add: div_less_iff_less_mult csize_pos [OF wf])
  then have full: "fs_full_size s" using False by (auto split: if_splits)
  let ?n = "Suc ?q - length cs"
  let ?fs = "take ?n (free_list s)" and ?rest = "drop ?n (free_list s)"
  let ?s1 = "grow s (last cs) ?fs" and ?cs = "cs @ ?fs"
  have n: "?n \<le> length (free_list s)" using q full by simp
  have fl: "free_list s = ?fs @ ?rest" by simp
  have e: "is_end s (last cs)" using wf ch by (rule chain_is_end)
  have ch1: "chain ?s1 ?cs" using wf full ch fl by (rule chain_grow)
  have lcs: "length ?cs = Suc ?q" using n False by simp
  have "?fs \<noteq> []" using n False by auto
  then have lst: "last ?fs = ?cs ! ?q"
    using last_conv_nth [of ?cs] lcs by simp
  have kl: "unat k < length ?cs * csize ?s1"
    unfolding lcs using div_less_iff_less_mult [of "csize s" "unat k" "Suc ?q"] csize_pos [OF wf] by simp
  let ?s2 = "put ?s1 (?cs ! ?q) ?r v"
  have wf1: "fs_wf ?s1" using wf by simp
  have cin: "?cs ! ?q \<in> set ?cs" using lcs by (intro nth_mem) simp
  then have c: "data_cluster ?s1 (?cs ! ?q)" by (rule chain_data [OF ch1])
  have ch2: "chain ?s2 ?cs" and by2: "chain_bytes ?s2 ?cs = (chain_bytes ?s1 ?cs)[unat k := v]"
    using put_in_chain [OF wf1 ch1 kl, of v] by simp_all
  have hd: "hd ?cs = hd cs" using chain_not_Nil [OF ch] by simp
  have "cluster_write_8bit s h k v = Some (0, ?s2)"
    using write8_beyond(1) [OF wf ch _ n full, of v] False lst by (simp add: cluster_write_8bit_def h)
  moreover
  have old: "chain_bytes ?s1 cs = bs"
    unfolding bs using byte_at_grow [OF wf e fl] chain_data [OF ch] data_cluster_lt(4) [OF wf]
    by (intro chain_bytes_cong) auto
  have "view ?s2 h = Some ((bs @ chain_bytes ?s1 ?fs)[unat k := v])"
    using view_chain [OF put_wf [OF wf1] ch2] by2 hd by (simp add: h old)
  moreover have "unat k < length (bs @ chain_bytes ?s1 ?fs)"
    using kl length_chain_bytes [of ?cs ?s1] chain_data [OF ch1] by (simp add: old)
  moreover have "room ?s2 h = room s h"
    using room_eq [OF put_wf [OF wf1] ch2] room_eq [OF wf ch] n hd full
    by (simp add: h free_list_put [OF wf1 c] r free_list_grow [OF wf e fl])
  moreover have "only_touches s (set cs) ?s2"
  proof (rule only_touches_trans)
    show "only_touches s (set cs) ?s1"
      using chain_not_Nil [OF ch] by (intro grow_touches [OF wf e fl]) simp
    show "only_touches ?s1 (set ?cs) ?s2"
      using r by (intro put_touches [OF wf1 c cin]) simp
    show "set ds \<inter> set ?cs = {}" if "chain s ds" "set ds \<inter> set cs = {}" for ds
      using chain_not_free [OF wf that(1)] that(2) by (auto dest: in_set_takeD)
  qed
  then have "store_frame view apart geometry s h ?s2"
    unfolding h by (intro touches_frame [OF wf ch ch2 hd]) (auto dest: in_set_takeD)
  moreover have "\<not> unat k < length bs"
    using False by (simp add: len div_less_iff_less_mult csize_pos [OF wf])
  ultimately show ?thesis by (intro exI [of _ ?s2] exI [of _ "chain_bytes ?s1 ?fs"]) simp
qed

lemma write_view:
  assumes v: "view s h = Some bs" and k: "unat k < room s h"
  shows "\<exists>s' ext. cluster_write_8bit s h k v = Some (0, s') \<and> view s' h = Some ((bs @ ext)[unat k := v]) \<and>
    unat k < length (bs @ ext) \<and> (unat k < length bs \<longrightarrow> ext = []) \<and> room s' h = room s h \<and>
    store_frame view apart geometry s h s'"
proof -
  obtain cs where "fs_wf s" "chain s cs" "h = hd cs" "bs = chain_bytes s cs"
    using v by (auto simp: view_Some)
  then show ?thesis
    using write_view_inside [of s cs h bs k v] write_view_beyond [of s cs h bs k v] k by blast
qed

lemma read_view:
  assumes "view s h = Some bs"
  shows "unat k < length bs \<Longrightarrow> cluster_read_8bit s h k = Some (0, Some (bs ! unat k))"
    and "length bs \<le> unat k \<Longrightarrow> cluster_read_8bit s h k = Some (-1, None)"
proof -
  obtain cs where wf: "fs_wf s" and ch: "chain s cs" and h: "h = hd cs" and bs: "bs = chain_bytes s cs"
    using assms by (auto simp: view_Some)
  have "length bs = length cs * csize s"
    using chain_data [OF ch] by (simp add: bs length_chain_bytes)
  then have q: "unat k < length bs \<longleftrightarrow> unat k div csize s < length cs"
    by (simp add: div_less_iff_less_mult csize_pos [OF wf])
  { assume "unat k < length bs"
    then show "cluster_read_8bit s h k = Some (0, Some (bs ! unat k))"
      using q chain_data [OF ch] nth_chain_bytes [of cs s "unat k"] \<open>length bs = _\<close>
      by (simp add: cluster_read_8bit_def h read8_chain [OF wf ch] bs) }
  { assume "length bs \<le> unat k"
    then show "cluster_read_8bit s h k = Some (-1, None)"
      using q by (simp add: cluster_read_8bit_def h read8_chain [OF wf ch]) }
qed

lemma room_lt:
  assumes "view s h = Some bs"
  shows "length bs \<le> room s h" and "room s h \<le> 255 * 65535"
proof -
  obtain cs where wf: "fs_wf s" and ch: "chain s cs" and h: "h = hd cs" and bs: "bs = chain_bytes s cs"
    using assms by (auto simp: view_Some)
  have "length bs = length cs * csize s"
    using chain_data [OF ch] by (simp add: bs length_chain_bytes)
  then show "length bs \<le> room s h" by (simp add: h room_eq [OF wf ch])
  let ?A = "set cs \<union> set (free_list s)"
  have "length cs + length (free_list s) = card ?A"
    using chain_not_free [OF wf ch] chain_distinct [OF wf ch] distinct_free_list [OF wf]
    by (simp add: card_Un_disjoint distinct_card)
  also have "\<dots> = card (unat ` ?A)" by (simp add: card_image)
  also have "\<dots> \<le> card {..<ccount s}"
    using chain_data [OF ch] by (intro card_mono) (auto simp: data_cluster_def free_list_iff [OF wf])
  finally have "length cs + length (free_list s) \<le> 255" using fs_wfD(5) [OF wf] by simp
  then show "room s h \<le> 255 * 65535"
    unfolding h room_eq [OF wf ch] using fs_wfD(6) [OF wf] by (intro mult_le_mono) auto
qed

lemma write_full_view:
  assumes "view s h = Some bs" and "fs_full_size s" and "room s h \<le> unat k"
  shows "\<exists>s' ext. cluster_write_8bit s h k v = Some (- FS_DISK_FULL, s') \<and>
    view s' h = Some (bs @ ext) \<and> length (bs @ ext) = room s h \<and> free_list s' = [] \<and>
    room s' h = room s h \<and> store_frame view apart geometry s h s'"
proof -
  obtain cs where wf: "fs_wf s" and ch: "chain s cs" and h: "h = hd cs" and bs: "bs = chain_bytes s cs"
    using assms(1) by (auto simp: view_Some)
  let ?s = "grow s (last cs) (free_list s)" and ?cs = "cs @ free_list s"
  have e: "is_end s (last cs)" using wf ch by (rule chain_is_end)
  have ch1: "chain ?s ?cs" using wf assms(2) ch by (rule chain_grow) simp
  have hd: "hd ?cs = hd cs" using chain_not_Nil [OF ch] by simp
  have "(length cs + length (free_list s)) * csize s \<le> unat k"
    using assms(2,3) by (simp add: h room_eq [OF wf ch])
  then have "length cs + length (free_list s) \<le> unat k div csize s"
    by (simp add: less_eq_div_iff_mult_less_eq csize_pos [OF wf])
  then have "cluster_write_8bit s h k v = Some (- FS_DISK_FULL, ?s)"
    using write8_beyond(2) [OF wf ch, of k v] by (simp add: h cluster_write_8bit_def)
  moreover have old: "chain_bytes ?s cs = bs"
    unfolding bs using byte_at_grow [OF wf e] chain_data [OF ch] data_cluster_lt(4) [OF wf]
    by (intro chain_bytes_cong) auto
  then have "view ?s h = Some (bs @ chain_bytes ?s (free_list s))"
    using view_chain [OF grow_wf [OF wf] ch1] hd by (simp add: h)
  moreover have "length (bs @ chain_bytes ?s (free_list s)) = room s h"
    using length_chain_bytes [of ?cs ?s] chain_data [OF ch1] assms(2)
    by (simp add: h room_eq [OF wf ch] old)
  moreover have "free_list ?s = []" using free_list_grow [OF wf e, of "free_list s" "[]"] by simp
  moreover have "room ?s h = room s h"
    using room_eq [OF grow_wf [OF wf] ch1] room_eq [OF wf ch] hd assms(2) \<open>free_list ?s = []\<close>
    by (simp add: h)
  moreover have "only_touches s (set cs) ?s"
    using chain_not_Nil [OF ch] by (intro grow_touches [OF wf e, of _ "[]"]) simp_all
  then have "store_frame view apart geometry s h ?s"
    unfolding h by (intro touches_frame [OF wf ch ch1 hd]) auto
  ultimately show ?thesis by blast
qed

interpretation tinyfs_store: chain_store cluster_read_8bit cluster_write_8bit view room apart geometry
  fs_full_size "- FS_DISK_FULL"
proof
  show "room s h < 4294967296" if "view s h = Some bs" for s h bs
    using room_lt(2) [OF that] by simp
  show "\<exists>s' ext. cluster_write_8bit s h k v = Some (- FS_DISK_FULL, s') \<and> view s' h = Some (bs @ ext) \<and>
      room s' h = room s h \<and> store_frame view apart geometry s h s'"
    if "view s h = Some bs" "fs_full_size s" "room s h \<le> unat k" for s h bs k v
    using write_full_view [OF that] by blast
  show "fs_full_size s' = fs_full_size s" if "geometry s' = geometry s" for s s'
  proof -
    have "cl_size s' = cl_size s" "cl_count s' = cl_count s"
      using arg_cong [OF that, of "cl_size \<circ> fst"] arg_cong [OF that, of "cl_count \<circ> fst"]
      by (simp_all add: geometry_def)
    moreover have "length (the (image s')) = length (the (image s))"
      using that by (cases "image s"; cases "image s'") (auto simp: geometry_def)
    ultimately show ?thesis by (simp add: fs_full_size_def)
  qed
  show "- FS_DISK_FULL \<noteq> 0" by (simp add: FS_DISK_FULL_def)
qed (use read_view write_view room_lt(1) in auto)

subsection \<open>Freeing and counting\<close>

fun release :: "tinyfs \<Rightarrow> u32 list \<Rightarrow> tinyfs" where
  "release s [] = s"
| "release s (c # cs) = release (set_fat s c 0) cs"

lemma release_wf [simp]: "fs_wf s \<Longrightarrow> fs_wf (release s cs)"
  by (induction s cs rule: release.induct) simp_all

lemma release_sel [simp]:
  "cl_size (release s cs) = cl_size s" "cl_count (release s cs) = cl_count s"
  "root_size (release s cs) = root_size s"
  "fs_full_size (release s cs) = fs_full_size s"
  "data_cluster (release s cs) d = data_cluster s d"
  by (induction s cs rule: release.induct) simp_all

lemma geometry_release: "fs_wf s \<Longrightarrow> geometry (release s cs) = geometry s"
  by (induction s cs rule: release.induct) (simp_all add: geometry_set_fat)

lemma fat_release:
  "fs_wf s \<Longrightarrow> (\<And>c. c \<in> set cs \<Longrightarrow> unat c < csize s) \<Longrightarrow> unat d < csize s \<Longrightarrow>
     fat (release s cs) d = (if d \<in> set cs then 0 else fat s d)"
  by (induction s cs rule: release.induct) (auto simp: fat_set_fat)

lemma byte_at_release:
  "fs_wf s \<Longrightarrow> (\<And>c. c \<in> set cs \<Longrightarrow> unat c < csize s) \<Longrightarrow> k < csize s \<Longrightarrow> d \<noteq> 1 \<Longrightarrow>
     byte_at (release s cs) d k = byte_at s d k"
  by (induction s cs rule: release.induct) (auto simp: byte_at_set_fat)

lemma release_touches:
  assumes "fs_wf s" and "\<And>c. c \<in> set cs \<Longrightarrow> unat c < csize s"
  shows "only_touches s (set cs) (release s cs)"
proof -
  have "chain (release s cs) ds \<and> chain_bytes (release s cs) ds = chain_bytes s ds"
    if d: "chain s ds" and "set ds \<inter> set cs = {}" for ds
  proof
    have lt: "unat x < csize s" "x \<noteq> 1" if "x \<in> set ds" for x
      using data_cluster_lt [OF assms(1) chain_data [OF d that]] by simp_all
    show "chain (release s cs) ds"
      using that lt by (intro chain_cong [OF d]) (auto simp: fat_release assms)
    show "chain_bytes (release s cs) ds = chain_bytes s ds"
      using that lt chain_data [OF d] by (intro chain_bytes_cong) (auto simp: byte_at_release assms)
  qed
  then show ?thesis by (simp add: only_touches_def assms(1) geometry_release)
qed

lemma free_list_release:
  assumes "fs_wf s" and "\<And>c. c \<in> set cs \<Longrightarrow> data_cluster s c"
  shows "c \<in> set (free_list (release s cs)) \<longleftrightarrow> c \<in> set (free_list s) \<or> (c \<in> set cs \<and> c \<noteq> 2)"
proof -
  have lt: "x \<in> set cs \<Longrightarrow> unat x < csize s" for x using data_cluster_lt(1) assms by blast
  have ge: "3 \<le> unat x \<longleftrightarrow> x \<noteq> 2" if "x \<in> set cs" for x
    using assms(2) [OF that] unat_eqD [of x 2]
    by (cases "unat x = 2") (auto simp: data_cluster_def)
  have "unat c < ccount s" if "c \<in> set cs" using assms(2) [OF that] by (simp add: data_cluster_def)
  then show ?thesis
    using fs_wfD(4) [OF assms(1)] lt ge
    by (auto simp: free_list_iff assms(1) fat_release)
qed

lemma free_clusters_chain:
  assumes "fs_wf s" and "chain s cs"
  shows "free_clusters s (hd cs) = Some (0, release s cs)"
  using assms
proof (induction cs arbitrary: s)
  case (Cons c cs)
  have c: "data_cluster s c" using Cons.prems by (auto intro: chain_data)
  note lt = data_cluster_lt [OF Cons.prems(1) c]
  have g: "FAT_get_linked_cluster s c = Some (fat s c)"
    using Cons.prems(1) c by (rule get_linked_eq)
  have m: "FAT_mark_cluster_as_free s c = Some (0, set_fat s c 0)"
    using lt by (simp add: FAT_mark_cluster_as_free_def cluster_write_8bit_def write_set_fat Cons.prems(1))
  show ?case
  proof (cases cs)
    case Nil
    then show ?thesis
      using Cons.prems lt g m by (subst free_clusters.simps) simp
  next
    case [simp]: (Cons d ds)
    have ch: "chain s cs" and d: "fat s c = d" using Cons.prems by auto
    have "d \<noteq> 0xFF" using data_cluster_lt(3) [OF Cons.prems(1) chain_data [OF ch]] by simp
    then have "free_clusters s c = free_clusters (set_fat s c 0) (hd cs)"
      using lt g m d by (subst free_clusters.simps) simp
    also have "c \<notin> set cs" using chain_distinct [OF Cons.prems] by simp
    then have "chain (set_fat s c 0) cs"
      using chain_data [OF ch] data_cluster_lt(1) [OF Cons.prems(1)] lt
      by (intro chain_cong [OF ch]) (auto simp: fat_set_fat Cons.prems(1))
    then have "free_clusters (set_fat s c 0) (hd cs) = Some (0, release (set_fat s c 0) cs)"
      using Cons.prems by (intro Cons.IH) simp_all
    finally show ?thesis by simp
  qed
qed simp

lemma count_links_chain:
  assumes "fs_wf s" and "chain s cs"
  shows "count_links s (hd cs) n = Some (n + int (length cs))"
  using assms(2)
proof (induction cs arbitrary: n)
  case (Cons c cs)
  have g: "FAT_get_linked_cluster s c = Some (fat s c)"
    using assms(1) chain_data [OF Cons.prems] by (intro get_linked_eq) auto
  show ?case
  proof (cases cs)
    case Nil
    then show ?thesis using Cons.prems g by (subst count_links.simps) simp
  next
    case [simp]: (Cons d ds)
    have ch: "chain s cs" and d: "fat s c = d" using Cons.prems by auto
    have "d \<noteq> 0xFF" using data_cluster_lt(3) [OF assms(1) chain_data [OF ch]] by simp
    then show ?thesis
      using g d Cons.IH [OF ch] by (subst count_links.simps) simp
  qed
qed simp

text \<open>A set of clusters that the FAT does not lead out of: counting never ends.\<close>

lemma count_links_cycle:
  assumes "fs_wf s" and "\<And>c. c \<in> C \<Longrightarrow> data_cluster s c \<and> fat s c \<in> C"
  shows "h \<in> C \<Longrightarrow> count_links s h n = None"
proof (rule ccontr)
  assume h: "h \<in> C" and "count_links s h n \<noteq> None"
  then obtain r where r: "count_links s h n = Some r" by auto
  have "s = t \<longrightarrow> h \<notin> C" if "count_links t h n = Some r" for t h n r
    using that
  proof (rule count_links.raw_induct [rotated])
    fix f t c m y
    assume IH: "\<And>t c m y. f t c m = Some y \<Longrightarrow> s = t \<longrightarrow> c \<notin> C"
      and b: "FAT_get_linked_cluster t c \<bind>
        (\<lambda>next_cluster. if next_cluster \<noteq> 255 then f t next_cluster (m + 1) else Some (m + 1)) = Some y"
    show "s = t \<longrightarrow> c \<notin> C"
    proof (intro impI notI)
      assume t: "s = t" and c: "c \<in> C"
      then have "fat s c \<in> C" "data_cluster s c" "data_cluster s (fat s c)" using assms(2) by auto
      moreover from this have "fat s c \<noteq> 255" using data_cluster_lt(3) [OF assms(1)] by simp
      moreover have "FAT_get_linked_cluster t c = Some (fat s c)"
        using \<open>data_cluster s c\<close> t get_linked_eq [OF assms(1)] by simp
      ultimately have "f t (fat s c) (m + 1) = Some y" using b by simp
      from IH [OF this] t \<open>fat s c \<in> C\<close> show False by simp
    qed
  qed
  from this [OF r] h show False by simp
qed

subsection \<open>Mounting\<close>

lemma mark_used_eq:
  "fs_wf s \<Longrightarrow> unat c < csize s \<Longrightarrow> FAT_mark_cluster_as_used s c = Some (0, set_fat s c 0xFF)"
  by (simp add: FAT_mark_cluster_as_used_def cluster_write_8bit_def write_set_fat)

text \<open>Mounting: the reserved cells are marked and nothing else changes.\<close>

definition mounted :: "tinyfs \<Rightarrow> u8 list \<Rightarrow> u32 \<Rightarrow> u32 \<Rightarrow> tinyfs" where
  "mounted s m count sz = s\<lparr>image := Some m, cl_ptr := True, cl_size := sz, cl_count := count,
     fat_size := sz, fat_count := count\<rparr>"

definition geometry_ok :: "u8 list \<Rightarrow> u32 \<Rightarrow> u32 \<Rightarrow> bool" where
  "geometry_ok m count sz = (3 \<le> unat count \<and> unat count \<le> unat sz \<and> unat count \<le> 255 \<and>
     unat sz < 65536 \<and> 2 * unat sz \<le> length m)"

lemma mounted_wf: "geometry_ok m count sz \<Longrightarrow> fs_wf (mounted s m count sz)"
  by (simp add: fs_wf_def mounted_def geometry_ok_def)

lemma cluster_init_eq:
  assumes "geometry_ok m count sz"
  shows "cluster_init s (Some m) count sz =
    (let t = set_fat (set_fat (mounted s m count sz) 0 0xFF) 1 0xFF in
     Some (0, if fat t 2 = 0 then set_fat t 2 0xFF else t))"
proof -
  let ?t = "mounted s m count sz"
  have wf: "fs_wf ?t" using assms by (rule mounted_wf)
  have cs: "csize ?t = unat sz" by (simp add: mounted_def)
  have lt: "unat (2 :: u32) < csize ?t" "unat (1 :: u32) < csize ?t" "unat (0 :: u32) < csize ?t"
    using assms by (auto simp: cs geometry_ok_def)
  have "FAT_get_linked_cluster t 2 = Some (fat t 2)" if "fs_wf t" "unat (2 :: u32) < csize t" for t
    using that by (simp add: FAT_get_linked_cluster_def read_linked)
  then show ?thesis
    using wf lt
    by (simp add: cluster_init_def FAT_init_def mark_used_eq CLUSTER_FAT_TABLE_def
        CLUSTER_ROOTDIR_TABLE_def Let_def mounted_def [symmetric])
qed

text \<open>A volume for the examples: six clusters of 16 bytes; the root directory holds one file
  \<open>a\<close> of 3 bytes, whose chain is 3, 4; cluster 5 is free.\<close>

definition sample_fs :: tinyfs where
  "sample_fs = \<lparr>image = Some (
      replicate 16 0 @
      [0xFF, 0xFF, 0xFF, 4, 0xFF, 0] @ replicate 10 0 @
      [0x61, 0, 0, 0, 0, 0, 0, 0, 0, 0, 0, 0, 0, 0, 3, 3] @
      [0x78, 0x79, 0x7A] @ replicate 13 0 @
      replicate 32 0),
    cl_ptr = True, cl_size = 16, cl_count = 6, fat_count = 6, fat_size = 16, root_size = 16,
    di_ptr = True, di_image_size = 96, di_count = 6, di_size = 16\<rparr>"

lemma sample_wf: "fs_wf sample_fs"
  by (simp add: fs_wf_def sample_fs_def)

lemma sample_full: "fs_full_size sample_fs"
  by (simp add: fs_full_size_def sample_fs_def)

lemma sample_fat: "fat sample_fs 2 = 0xFF" "fat sample_fs 3 = 4" "fat sample_fs 4 = 0xFF" "fat sample_fs 5 = 0"
  by (simp_all add: fat_def byte_at_def sample_fs_def nth_append)

lemma sample_geo: "csize sample_fs = 16" "ccount sample_fs = 6" "root_size sample_fs = 16"
  by (simp_all add: sample_fs_def)

lemma sample_data: "data_cluster sample_fs c = (2 \<le> unat c \<and> unat c < 6)"
  by (auto simp: data_cluster_def sample_fs_def)

lemma sample_chains: "chain sample_fs [2]" "chain sample_fs [3, 4]"
  by (simp_all add: sample_data sample_fat)

lemma sample_free: "free_list sample_fs = [5]"
proof -
  have "[3..<ccount sample_fs] = [3, 4, 5]" by (simp add: sample_fs_def upt_rec)
  then show ?thesis by (simp add: free_list_def sample_fat)
qed

lemma sample_view: "view sample_fs 3 = Some ([0x78, 0x79, 0x7A] @ replicate 13 0 @ replicate 16 0)"
   "view sample_fs 2 = Some [0x61, 0, 0, 0, 0, 0, 0, 0, 0, 0, 0, 0, 0, 0, 3, 3]"
  using view_chain [OF sample_wf sample_chains(1)] view_chain [OF sample_wf sample_chains(2)]
  by (simp_all add: cluster_bytes_def sample_fs_def)

lemma sample_room: "room sample_fs 3 = 48" "room sample_fs 2 = 32"
  using room_eq [OF sample_wf sample_chains(1)] room_eq [OF sample_wf sample_chains(2)]
  by (simp_all add: sample_full sample_free sample_geo)
subsection \<open>Properties\<close>

lemma cluster_read_data_eq:
  assumes "view s h = Some bs" and "unat k + unat n \<le> length bs" and "unat n \<le> length buf"
  shows "cluster_read_data s h k buf n = Some (0, take (unat n) (drop (unat k) bs) @ drop (unat n) buf)"
  unfolding cluster_read_data_def by (rule tinyfs_store.read_run [OF assms])

lemma cluster_write_data_ex:
  assumes "view s h = Some bs" and "unat k \<le> length bs" and "unat k + unat n \<le> room s h"
    and "unat n \<le> length buf"
  shows "\<exists>s' ext. cluster_write_data s h k buf n = Some (0, s') \<and>
    view s' h = Some (take (unat k) bs @ take (unat n) buf @ drop (unat k + unat n) bs @ ext) \<and>
    (unat k + unat n \<le> length bs \<longrightarrow> ext = []) \<and> room s' h = room s h \<and>
    store_frame view apart geometry s h s'"
  unfolding cluster_write_data_def by (rule tinyfs_store.write_run [OF assms])

lemma view_wf: "view s h = Some bs \<Longrightarrow> fs_wf s"
  by (simp add: view_Some)

lemma view_nonempty: "view s h = Some bs \<Longrightarrow> csize s \<le> length bs"
proof -
  assume "view s h = Some bs"
  then obtain cs where wf: "fs_wf s" and ch: "chain s cs" and bs: "bs = chain_bytes s cs"
    by (auto simp: view_Some)
  have "1 \<le> length cs" using chain_not_Nil [OF ch] by (cases cs) auto
  then have "1 * csize s \<le> length cs * csize s" by (rule mult_le_mono1)
  then show ?thesis using chain_data [OF ch] by (simp add: bs length_chain_bytes)
qed

lemma cluster_write_16bit_ex:
  assumes v: "view s h = Some bs" and k: "unat k \<le> length bs" and r: "unat k + 1 < room s h"
  shows "\<exists>s' ext. cluster_write_16bit s h k v = Some (0, s') \<and>
    view s' h = Some (take (unat k) bs @ [ucast (drop_bit 8 v), ucast (v AND 0xFF)] @
      drop (unat k + 2) bs @ ext) \<and>
    (unat k + 2 \<le> length bs \<longrightarrow> ext = []) \<and> room s' h = room s h \<and>
    store_frame view apart geometry s h s'"
proof -
  let ?b = "[ucast (drop_bit 8 v), ucast (v AND 0xFF)] :: u8 list"
  have "cluster_write_16bit s h k v = cluster_write_data s h k ?b 2"
    by (cases "cluster_write_8bit s h k (ucast (drop_bit 8 v))")
      (auto simp: cluster_write_16bit_def cluster_write_data_def for_loop_step Let_def split_def
        rd_in option_bind_tail option.map_comp o_def for_loop_done_fun)
  moreover have "\<exists>s' ext. cluster_write_data s h k ?b 2 = Some (0, s') \<and>
    view s' h = Some (take (unat k) bs @ take (unat (2 :: u32)) ?b @ drop (unat k + unat (2 :: u32)) bs @ ext) \<and>
    (unat k + unat (2 :: u32) \<le> length bs \<longrightarrow> ext = []) \<and> room s' h = room s h \<and>
    store_frame view apart geometry s h s'"
    using r by (intro cluster_write_data_ex [OF v k]) simp_all
  ultimately show ?thesis by simp
qed

lemma cluster_read_16bit_eq:
  assumes "view s h = Some bs" and "unat k + 1 < length bs"
  shows "cluster_read_16bit s h k =
    Some (0, push_bit 8 (ucast (bs ! unat k)) + ucast (bs ! (unat k + 1)))"
proof -
  have "unat (k + 1) = unat k + 1"
    using tinyfs_store.offset_plus [of k 1] assms(2) tinyfs_store.view_bound [OF assms(1)] by simp
  then show ?thesis
    using assms(2) by (simp add: cluster_read_16bit_def read_view(1) [OF assms(1)])
qed

text \<open>Reading a byte of a file (a well-formed chain of clusters) returns the byte of its content
  at that offset, across cluster borders, and -1 without a result behind the last cluster.\<close>

theorem cluster_read_8bit_refines:
  assumes "view s h = Some bs"
  shows "cluster_read_8bit s h k = Some (if unat k < length bs then (0, Some (bs ! unat k)) else (-1, None))"
  using read_view [OF assms, of k] by simp

theorem cluster_read_8bit_refines_witness:
  "cluster_read_8bit sample_fs 3 2 = Some (0, Some 0x7A) \<and> cluster_read_8bit sample_fs 3 40 = Some (-1, None)"
  using cluster_read_8bit_refines [OF sample_view(1), of 2] cluster_read_8bit_refines [OF sample_view(1), of 40]
  by simp

text \<open>Reading a range of a file that lies inside its content fills the buffer with exactly that slice
  and leaves the rest of the buffer as it was.\<close>

theorem cluster_read_data_slice:
  assumes "view s h = Some bs" and "unat k + unat n \<le> length bs" and "unat n \<le> length buf"
  shows "cluster_read_data s h k buf n = Some (0, take (unat n) (drop (unat k) bs) @ drop (unat n) buf)"
  by (rule cluster_read_data_eq [OF assms])

theorem cluster_read_data_slice_witness:
  "cluster_read_data sample_fs 3 1 [9, 9, 9] 2 = Some (0, [0x79, 0x7A, 9])"
  using cluster_read_data_slice [OF sample_view(1), of 1 2 "[9, 9, 9]"] by simp

text \<open>Claim C2. Writing a buffer into a file at an offset up to its end succeeds while free clusters last, splices
  exactly these bytes into the content (what follows them is kept; a file that had to grow ends in
  the rest of its last cluster), and leaves every other file and the shape of the disk alone.\<close>

theorem cluster_write_data_splices:
  assumes "view s h = Some bs" and "unat k \<le> length bs" and "unat k + unat n \<le> room s h"
    and "unat n \<le> length buf"
  shows "\<exists>s' ext. cluster_write_data s h k buf n = Some (0, s') \<and>
    view s' h = Some (take (unat k) bs @ take (unat n) buf @ drop (unat k + unat n) bs @ ext) \<and>
    (unat k + unat n \<le> length bs \<longrightarrow> ext = []) \<and> room s' h = room s h \<and> geometry s' = geometry s \<and>
    (\<forall>a. apart s h a \<longrightarrow> view s' a = view s a \<and> apart s' h a)"
  using cluster_write_data_ex [OF assms] by (simp add: store_frame_def) blast

theorem cluster_write_data_splices_witness:
  "\<exists>s'. cluster_write_data sample_fs 3 32 [1, 2] 2 = Some (0, s') \<and> view s' 2 = view sample_fs 2"
proof -
  have "apart sample_fs 3 2"
    using chain_of_Some [OF sample_wf sample_chains(1)] chain_of_Some [OF sample_wf sample_chains(2)]
    by (simp add: apart_def)
  then show ?thesis
    using cluster_write_data_splices [OF sample_view(1), of 32 2 "[1, 2]"] by (auto simp: sample_room)
qed

text \<open>A 16-bit value written at any place of a file is the one read back.\<close>

theorem cluster_write_16bit_roundtrip:
  assumes "view s h = Some bs" and "unat k \<le> length bs" and "unat k + 1 < room s h"
  shows "\<exists>s'. cluster_write_16bit s h k v = Some (0, s') \<and> cluster_read_16bit s' h k = Some (0, v)"
proof -
  obtain s' ext where s': "cluster_write_16bit s h k v = Some (0, s')"
    and v: "view s' h = Some (take (unat k) bs @ [ucast (drop_bit 8 v), ucast (v AND 0xFF)] @
      drop (unat k + 2) bs @ ext)"
    using cluster_write_16bit_ex [OF assms, of v] by blast
  have "cluster_read_16bit s' h k = Some (0, v)"
    using assms(2) by (subst cluster_read_16bit_eq [OF v]) (simp_all add: nth_append u16_halves)
  with s' show ?thesis by blast
qed

theorem cluster_write_16bit_roundtrip_witness:
  "\<exists>s'. cluster_write_16bit sample_fs 3 31 0xBEEF = Some (0, s') \<and> cluster_read_16bit s' 3 31 = Some (0, 0xBEEF)"
  using cluster_write_16bit_roundtrip [OF sample_view(1), of 31 "0xBEEF"] by (simp add: sample_room)

text \<open>Claim C37. A write behind the room that is left returns \<^verbatim>\<open>-FS_DISK_FULL\<close>, but only after the
  file has been given every free cluster of the disk: its old content is still its beginning, no
  other file is touched, and nothing is left to allocate.\<close>

theorem cluster_write_disk_full:
  assumes "view s h = Some bs" and "fs_full_size s" and "room s h \<le> unat k"
  shows "\<exists>s' ext. cluster_write_8bit s h k v = Some (- FS_DISK_FULL, s') \<and>
    view s' h = Some (bs @ ext) \<and> length (bs @ ext) = room s h \<and> free_list s' = [] \<and>
    (\<forall>a. apart s h a \<longrightarrow> view s' a = view s a \<and> apart s' h a)"
  using write_full_view [OF assms] by (simp add: store_frame_def) blast

theorem cluster_write_disk_full_witness:
  "\<exists>s'. cluster_write_8bit sample_fs 3 48 1 = Some (- FS_DISK_FULL, s') \<and> free_list s' = []"
  using cluster_write_disk_full [OF sample_view(1) sample_full, of 48 1] by (auto simp: sample_room)

text \<open>Claim C6. Freeing a file returns exactly its clusters to the free list (the root directory's
  first cluster, which is never handed out, apart), and every file apart from it keeps its content.\<close>

theorem free_clusters_frees_chain:
  assumes "fs_wf s" and "chain_of s h = Some cs"
  shows "\<exists>s'. free_clusters s h = Some (0, s') \<and>
    set (free_list s') = set (free_list s) \<union> (set cs - {2}) \<and> geometry s' = geometry s \<and>
    (\<forall>a. apart s h a \<longrightarrow> view s' a = view s a)"
proof -
  have ch: "chain s cs" and h: "h = hd cs" using assms by (simp_all add: chain_of_iff)
  note lt = data_cluster_lt(1) [OF assms(1) chain_data [OF ch]]
  have t: "only_touches s (set cs) (release s cs)"
    using lt by (intro release_touches assms(1))
  have "set (free_list (release s cs)) = set (free_list s) \<union> (set cs - {2})"
    using free_list_release [OF assms(1) chain_data [OF ch]] by auto
  moreover have "view (release s cs) a = view s a" if ap: "apart s h a" for a
  proof -
    obtain ds where ds: "chain_of s a = Some ds" "set ds \<inter> set cs = {}"
      using ap assms(2) by (auto simp: apart_def split: option.splits)
    then have "chain s ds" "hd ds = a" using assms(1) by (simp_all add: chain_of_iff)
    moreover from this ds t have "chain (release s cs) ds" "chain_bytes (release s cs) ds = chain_bytes s ds"
      by (auto simp: only_touches_def)
    ultimately show ?thesis
      using view_chain [OF assms(1)] view_chain [OF release_wf [OF assms(1)]] by metis
  qed
  moreover have "free_clusters s h = Some (0, release s cs)"
    unfolding h using assms(1) ch by (rule free_clusters_chain)
  ultimately show ?thesis using geometry_release [OF assms(1)] by blast
qed

theorem free_clusters_frees_chain_witness:
  "\<exists>s'. free_clusters sample_fs 3 = Some (0, s') \<and> set (free_list s') = {3, 4, 5}"
  using free_clusters_frees_chain [OF sample_wf chain_of_Some [OF sample_wf sample_chains(2)]]
  by (auto simp: sample_free)

text \<open>The size of a chain is the number of its clusters.\<close>

theorem get_cluster_chain_size_counts:
  assumes "view s h = Some bs"
  shows "get_cluster_chain_size s h = Some (int (length bs div csize s))"
proof -
  obtain cs where wf: "fs_wf s" and ch: "chain s cs" and h: "h = hd cs" and bs: "bs = chain_bytes s cs"
    using assms by (auto simp: view_Some)
  have "length bs div csize s = length cs"
    using chain_data [OF ch] csize_pos [OF wf] by (simp add: bs length_chain_bytes)
  moreover have "h \<noteq> 0" "h \<noteq> 0xFF"
    using data_cluster_lt [OF wf chain_data [OF ch hd_in_set [OF chain_not_Nil [OF ch]]]] h by auto
  ultimately show ?thesis
    using count_links_chain [OF wf ch, of 0] by (simp add: get_cluster_chain_size_def h)
qed

theorem get_cluster_chain_size_counts_witness: "get_cluster_chain_size sample_fs 3 = Some 2"
  using get_cluster_chain_size_counts [OF sample_view(1)] by (simp add: sample_geo)

text \<open>On a FAT whose links run in a circle the size of a chain is never computed: the loop
  has no other exit than the end mark.\<close>

theorem get_cluster_chain_size_cycle:
  assumes "fs_wf s" and "h \<in> set cyc" and "list_all (\<lambda>c. data_cluster s c \<and> fat s c \<in> set cyc) cyc"
  shows "get_cluster_chain_size s h = None"
proof -
  have c: "\<And>c. c \<in> set cyc \<Longrightarrow> data_cluster s c \<and> fat s c \<in> set cyc"
    using assms(3) by (simp add: list_all_iff)
  have "h \<noteq> 0" "h \<noteq> 0xFF" using data_cluster_lt [OF assms(1)] c [OF assms(2)] by auto
  then show ?thesis
    using count_links_cycle [OF assms(1) c assms(2), of 0] by (simp add: get_cluster_chain_size_def)
qed

theorem get_cluster_chain_size_cycle_witness: "get_cluster_chain_size (set_fat sample_fs 4 3) 3 = None"
proof (rule get_cluster_chain_size_cycle [where cyc = "[3, 4]"])
  show "list_all (\<lambda>c. data_cluster (set_fat sample_fs 4 3) c \<and> fat (set_fat sample_fs 4 3) c \<in> set [3, 4]) [3, 4]"
    using sample_wf by (simp add: sample_data fat_set_fat sample_geo sample_fat)
qed (simp_all add: sample_wf)
text \<open>Claim C32. On clusters whose links stay among data clusters or end, computing the size of a chain returns exactly when the
  links reach the end mark, and then with the number of clusters on the way; on a FAT whose links run in a circle the loop
  never ends.\<close>

theorem get_cluster_chain_size_returns:
  assumes "fs_wf s" and "h \<in> C" and "\<And>c. c \<in> C \<Longrightarrow> data_cluster s c \<and> (fat s c = 0xFF \<or> fat s c \<in> C)"
  shows "get_cluster_chain_size s h = map_option (\<lambda>cs. int (length cs)) (chain_of s h)"
proof -
  have h: "h \<noteq> 0" "h \<noteq> 0xFF" using data_cluster_lt [OF assms(1)] assms(3) [OF assms(2)] by auto
  show ?thesis
  proof (cases "chain_of s h")
    case None
    let ?D = "{c \<in> C. \<forall>cs. chain s cs \<longrightarrow> hd cs \<noteq> c}"
    have "h \<in> ?D" using assms(2) None chain_of_Some [OF assms(1)] by fastforce
    moreover have "data_cluster s c \<and> fat s c \<in> ?D" if c: "c \<in> ?D" for c
    proof -
      have d: "data_cluster s c" "fat s c = 0xFF \<or> fat s c \<in> C" using assms(3) c by auto
      have "chain s [c]" if "fat s c = 0xFF" using d that by simp
      then have e: "fat s c \<noteq> 0xFF" using c by fastforce
      have "hd cs \<noteq> fat s c" if ch: "chain s cs" for cs
      proof
        assume "hd cs = fat s c"
        then have "chain s (c # cs)" using ch d(1) by (cases cs) auto
        then show False using c by fastforce
      qed
      then show ?thesis using d e by auto
    qed
    ultimately have "count_links s h 0 = None" using count_links_cycle [OF assms(1), of ?D] by blast
    then show ?thesis using h None by (simp add: get_cluster_chain_size_def)
  next
    case (Some cs)
    then show ?thesis
      using h count_links_chain [OF assms(1), of cs 0] chain_of_iff [OF assms(1), of h cs] by (auto simp: get_cluster_chain_size_def)
  qed
qed

theorem get_cluster_chain_size_returns_witness:
  "get_cluster_chain_size sample_fs 3 = Some 2 \<and> get_cluster_chain_size (set_fat sample_fs 4 3) 3 = None"
proof
  have "c \<in> {3, 4} \<Longrightarrow> data_cluster sample_fs c \<and> (fat sample_fs c = 0xFF \<or> fat sample_fs c \<in> {3, 4})" for c :: u32
    by (auto simp: sample_data sample_fat)
  from get_cluster_chain_size_returns [OF sample_wf _ this, of 3] chain_of_Some [OF sample_wf sample_chains(2)]
  show "get_cluster_chain_size sample_fs 3 = Some 2" by simp
  let ?s = "set_fat sample_fs 4 3"
  have wf: "fs_wf ?s" by (simp add: sample_wf)
  have "c \<in> {3, 4} \<Longrightarrow> data_cluster ?s c \<and> (fat ?s c = 0xFF \<or> fat ?s c \<in> {3, 4})" for c :: u32
    using sample_wf by (auto simp: sample_data fat_set_fat sample_geo sample_fat)
  moreover have "chain_from n ?s 3 = None \<and> chain_from n ?s 4 = None" for n
    using sample_wf by (induction n) (simp_all add: sample_geo fat_set_fat sample_fat sample_data)
  then have "chain_of ?s 3 = None" by (simp add: chain_of_def)
  ultimately show "get_cluster_chain_size ?s 3 = None"
    using get_cluster_chain_size_returns [OF wf, of 3 "{3, 4}"] by simp
qed

end
