(* ===== verification/Rootdir.thy ===== *)
theory Rootdir
  imports Tinyfs_Chains C_String
begin

section \<open>TinyFS: the root directory (fs/tinyfs/code/rootdir\_cluster.c)\<close>

text \<open>
  The table of file entries, 16 bytes each, in the chain of cluster 2, and the
  lemmas that read the table as a list of entries. A file name argument is a C string or \<open>None\<close> for \<open>NULL\<close>. A local
  \<^verbatim>\<open>struct file_entry\<close> starts uninitialised; it is returned only by the path that has written every
  field of it, and a caller that used it otherwise would be undefined (\<open>None\<close>).
\<close>

definition ENTRY_IS_USED_OFFSET :: u32 where "ENTRY_IS_USED_OFFSET = 0"
definition FILE_NAME_OFFSET :: u32 where "FILE_NAME_OFFSET = 0"
definition FILE_SIZE_OFFSET :: u32 where "FILE_SIZE_OFFSET = 13"
definition CLUSTER_NUM_OFFSET :: u32 where "CLUSTER_NUM_OFFSET = 15"
definition MAX_FILENAME_SIZE :: nat where "MAX_FILENAME_SIZE = 13"
definition SIZE_OF_FILE_ENTRY :: u32 where "SIZE_OF_FILE_ENTRY = 16"

lemmas entry_consts = ENTRY_IS_USED_OFFSET_def FILE_NAME_OFFSET_def FILE_SIZE_OFFSET_def
  CLUSTER_NUM_OFFSET_def MAX_FILENAME_SIZE_def SIZE_OF_FILE_ENTRY_def CLUSTER_ROOTDIR_TABLE_def

record file_entry =
  fe_name :: "u8 list"
  fe_data_cluster :: u8
  fe_file_size :: u16

subsection \<open>The table\<close>

definition rootdir_init :: "tinyfs \<Rightarrow> u32 \<Rightarrow> int \<times> tinyfs" where
  "rootdir_init s cluster_size =
     (if cluster_size = 0 then (-1, s) else (0, s\<lparr>root_size := cluster_size\<rparr>))"

definition rootdir_get_table_size :: "tinyfs \<Rightarrow> int option" where
  "rootdir_get_table_size s = do {
     num_of_rootdir_clusters \<leftarrow> get_cluster_chain_size s CLUSTER_ROOTDIR_TABLE;
     Some (if num_of_rootdir_clusters > 0
       then sint ((of_int num_of_rootdir_clusters * root_size s) div SIZE_OF_FILE_ENTRY)
       else 0)
   }"

definition calculate_file_entry_offset :: "u32 \<Rightarrow> u32" where
  "calculate_file_entry_offset index = index * SIZE_OF_FILE_ENTRY"

definition rootdir_set_file_entry :: "tinyfs \<Rightarrow> u32 \<Rightarrow> u8 list option \<Rightarrow> u16 \<Rightarrow> u8 \<Rightarrow> (int \<times> tinyfs) option" where
  "rootdir_set_file_entry s index filename sz cluster = (case filename of
     None \<Rightarrow> Some (-1, s)
   | Some name \<Rightarrow>
       if cluster = 0 \<or> cluster = 0xFF then Some (-1, s)
       else do {
         let entry_offset = calculate_file_entry_offset index;
         len \<leftarrow> strlen name;
         let filename_len = (if len + 1 > MAX_FILENAME_SIZE then MAX_FILENAME_SIZE else len + 1);
         (r1, s1) \<leftarrow> cluster_write_data s CLUSTER_ROOTDIR_TABLE (entry_offset + FILE_NAME_OFFSET)
           name (of_nat filename_len);
         (r2, s2) \<leftarrow> cluster_write_8bit s1 CLUSTER_ROOTDIR_TABLE
           (entry_offset + FILE_NAME_OFFSET + of_nat MAX_FILENAME_SIZE - 1) 0;
         (r3, s3) \<leftarrow> cluster_write_16bit s2 CLUSTER_ROOTDIR_TABLE (entry_offset + FILE_SIZE_OFFSET) sz;
         (r4, s4) \<leftarrow> cluster_write_8bit s3 CLUSTER_ROOTDIR_TABLE (entry_offset + CLUSTER_NUM_OFFSET) cluster;
         Some (((r1 OR r2) OR r3) OR r4, s4)
       })"

definition rootdir_set_file_size :: "tinyfs \<Rightarrow> u32 \<Rightarrow> u16 \<Rightarrow> (int \<times> tinyfs) option" where
  "rootdir_set_file_size s index sz =
     cluster_write_16bit s CLUSTER_ROOTDIR_TABLE (calculate_file_entry_offset index + FILE_SIZE_OFFSET) sz"

text \<open>The 13 bytes handed to \<^verbatim>\<open>cluster_read_data\<close> are overwritten when every read succeeds, so what
  they held before is not part of the result.\<close>

definition rootdir_get_file_entry :: "tinyfs \<Rightarrow> u32 \<Rightarrow> (int \<times> file_entry option) option" where
  "rootdir_get_file_entry s index = do {
     let entry_offset = index * SIZE_OF_FILE_ENTRY;
     (r0, used) \<leftarrow> cluster_read_8bit s CLUSTER_ROOTDIR_TABLE (entry_offset + ENTRY_IS_USED_OFFSET);
     entry_is_used \<leftarrow> used;
     if entry_is_used = 0 then Some (-1, None)
     else do {
       (r1, name) \<leftarrow> cluster_read_data s CLUSTER_ROOTDIR_TABLE (entry_offset + FILE_NAME_OFFSET)
         (replicate MAX_FILENAME_SIZE 0) (of_nat MAX_FILENAME_SIZE);
       (r2, sz) \<leftarrow> cluster_read_16bit s CLUSTER_ROOTDIR_TABLE (entry_offset + FILE_SIZE_OFFSET);
       (r3, cluster) \<leftarrow> cluster_read_8bit s CLUSTER_ROOTDIR_TABLE (entry_offset + CLUSTER_NUM_OFFSET);
       let ret = ((r0 OR r1) OR r2) OR r3;
       Some (ret, case cluster of
           None \<Rightarrow> None
         | Some c \<Rightarrow> if ret = 0 then Some \<lparr>fe_name = name, fe_data_cluster = c, fe_file_size = sz\<rparr> else None)
     }
   }"

text \<open>The search loop from index \<open>i\<close>, with the number of rounds left.\<close>

fun find_from :: "tinyfs \<Rightarrow> u8 list \<Rightarrow> nat \<Rightarrow> nat \<Rightarrow> int option" where
  "find_from s filename i 0 = Some (-1)"
| "find_from s filename i (Suc n) = do {
     (ret, entry) \<leftarrow> rootdir_get_file_entry s (of_nat i);
     if ret = 0 then do {
       e \<leftarrow> entry;
       d \<leftarrow> strncmp filename (fe_name e) 13;
       if d = 0 then Some (int i) else find_from s filename (Suc i) n
     }
     else find_from s filename (Suc i) n
   }"

definition rootdir_find_file :: "tinyfs \<Rightarrow> u8 list option \<Rightarrow> int option" where
  "rootdir_find_file s filename = (case filename of
     None \<Rightarrow> Some (-1)
   | Some name \<Rightarrow> do { count \<leftarrow> rootdir_get_table_size s; find_from s name 0 (nat count) })"

definition rootdir_mark_file_deleted :: "tinyfs \<Rightarrow> u32 \<Rightarrow> (int \<times> tinyfs) option" where
  "rootdir_mark_file_deleted s index =
     cluster_write_8bit s CLUSTER_ROOTDIR_TABLE (index * SIZE_OF_FILE_ENTRY + ENTRY_IS_USED_OFFSET) 0"

definition rootdir_delete_file :: "tinyfs \<Rightarrow> u32 \<Rightarrow> (int \<times> tinyfs) option" where
  "rootdir_delete_file s index = do {
     (ret, entry) \<leftarrow> rootdir_get_file_entry s index;
     if ret \<noteq> 0 then Some (-1, s)
     else do {
       (r, s1) \<leftarrow> rootdir_mark_file_deleted s index;
       if r = 0 then do { e \<leftarrow> entry; free_clusters s1 (ucast (fe_data_cluster e)) }
       else Some (-1, s1)
     }
   }"

text \<open>\<^verbatim>\<open>entry_is_used\<close> keeps its value when a read fails; \<open>None\<close> is the value before the first read.\<close>

fun free_index_from :: "tinyfs \<Rightarrow> u8 option \<Rightarrow> nat \<Rightarrow> nat \<Rightarrow> int option" where
  "free_index_from s used i 0 = Some (-1)"
| "free_index_from s used i (Suc n) = do {
     (_, v) \<leftarrow> cluster_read_8bit s CLUSTER_ROOTDIR_TABLE (of_nat i * SIZE_OF_FILE_ENTRY + ENTRY_IS_USED_OFFSET);
     let used' = (case v of None \<Rightarrow> used | Some b \<Rightarrow> Some b);
     entry_is_used \<leftarrow> used';
     if entry_is_used = 0 then Some (int i) else free_index_from s used' (Suc i) n
   }"

definition rootdir_find_free_index :: "tinyfs \<Rightarrow> int option" where
  "rootdir_find_free_index s = do {
     count \<leftarrow> rootdir_get_table_size s;
     ret_val \<leftarrow> free_index_from s None 0 (nat count);
     Some (if ret_val < 0 then count else ret_val)
   }"

definition rootdir_create_file :: "tinyfs \<Rightarrow> u8 list option \<Rightarrow> (int \<times> tinyfs) option" where
  "rootdir_create_file s filename =
     (if filename = None then Some (-1, s)
      else do {
        file_index \<leftarrow> rootdir_find_free_index s;
        if file_index < 0 then Some (file_index, s)
        else do {
          (cluster_index, s1) \<leftarrow> FAT_allocate_cluster s;
          if cluster_index = 0xFF then Some (- FS_DISK_FULL, s1)
          else do {
            (ret, s2) \<leftarrow> rootdir_set_file_entry s1 (of_int file_index) filename 0 (ucast cluster_index);
            if ret = 0 then Some (file_index, s2)
            else do { (_, s3) \<leftarrow> free_clusters s2 cluster_index; Some (ret, s3) }
          }
        }
      })"

subsection \<open>Entries as blocks of the table\<close>

definition block :: "u8 list \<Rightarrow> nat \<Rightarrow> u8 list" where
  "block bs i = take 16 (drop (16 * i) bs)"

definition put_block :: "u8 list \<Rightarrow> nat \<Rightarrow> u8 list \<Rightarrow> u8 list" where
  "put_block bs i E = take (16 * i) bs @ E @ drop (16 * i + 16) bs"

definition entry_of :: "u8 list \<Rightarrow> file_entry option" where
  "entry_of b = (if b ! 0 = 0 then None
     else Some \<lparr>fe_name = take 13 b, fe_data_cluster = b ! 15,
       fe_file_size = push_bit 8 (ucast (b ! 13)) + ucast (b ! 14)\<rparr>)"

definition entries :: "u8 list \<Rightarrow> file_entry option list" where
  "entries bs = map (\<lambda>i. entry_of (block bs i)) [0..<length bs div 16]"

lemma length_entries [simp]: "length (entries bs) = length bs div 16"
  by (simp add: entries_def)

lemma in_table: "i < length bs div 16 \<longleftrightarrow> 16 * i + 16 \<le> length bs"
  by (auto simp: less_eq_div_iff_mult_less_eq [symmetric] Suc_le_eq [symmetric])

lemma length_block: "16 * i + 16 \<le> length bs \<Longrightarrow> length (block bs i) = 16"
  by (simp add: block_def)

lemma nth_block: "16 * i + 16 \<le> length bs \<Longrightarrow> j < 16 \<Longrightarrow> block bs i ! j = bs ! (16 * i + j)"
  by (simp add: block_def)

lemma length_put_block [simp]:
  "16 * i + 16 \<le> length bs \<Longrightarrow> length E = 16 \<Longrightarrow> length (put_block bs i E) = length bs"
  by (simp add: put_block_def)

lemma put_block_splice:
  assumes "16 * i + 16 \<le> length bs" and "j + length v \<le> 16"
  shows "take (16 * i + j) bs @ v @ drop (16 * i + j + length v) bs =
    put_block bs i (take j (block bs i) @ v @ drop (j + length v) (block bs i))"
proof -
  have "bs = take (16 * i) bs @ block bs i @ drop (16 * i + 16) bs"
    using append_take_drop_id [of 16 "drop (16 * i) bs"] by (simp add: block_def add.commute)
  moreover obtain P B Q where "P = take (16 * i) bs" "B = block bs i" "Q = drop (16 * i + 16) bs" by simp
  ultimately have bs: "bs = P @ B @ Q" "length P = 16 * i" "length B = 16"
    using assms(1) by (simp_all add: length_block)
  then have "take (16 * i) bs = P" "block bs i = B" "drop (16 * i + 16) bs = Q"
    by (simp_all add: block_def)
  then show ?thesis using bs assms(2) by (simp add: put_block_def)
qed

lemma block_put_block:
  assumes "16 * i + 16 \<le> length bs" and "length E = 16"
  shows "block (put_block bs i E) j = (if j = i then E else block bs j)"
proof -
  consider "j < i" | "j = i" | "i < j" by linarith
  then show ?thesis
  proof cases
    case 1
    then have "16 \<le> 16 * i - 16 * j" by linarith
    then show ?thesis
      using 1 assms by (simp add: block_def put_block_def min_def drop_take)
  next
    case 2
    then show ?thesis using assms by (simp add: block_def put_block_def)
  next
    case 3
    then obtain d where "16 * j = 16 * i + 16 + d" by (metis add_mult_distrib2 less_iff_Suc_add mult_Suc_right add.assoc add.commute)
    then show ?thesis
      using 3 assms by (simp add: block_def put_block_def add.commute)
  qed
qed

lemma entries_put_block:
  assumes "16 * i + 16 \<le> length bs" and "length E = 16"
  shows "entries (put_block bs i E) = (entries bs)[i := entry_of E]"
  using assms by (intro nth_equalityI) (auto simp: entries_def block_put_block nth_list_update)

lemma put_block_twice:
  assumes "16 * i + 16 \<le> length bs" and "length E = 16"
  shows "put_block (put_block bs i E) i F = put_block bs i F"
  using assms by (simp add: put_block_def)

subsection \<open>Reading the table\<close>

abbreviation rootdir :: "tinyfs \<Rightarrow> u8 list option" where "rootdir s \<equiv> view s 2"

lemma entry_offset:
  assumes "rootdir s = Some bs" and "16 * i + 16 \<le> length bs" and "j < 16"
  shows "unat (of_nat i * 16 + of_nat j :: u32) = 16 * i + j"
proof -
  have "of_nat i * 16 + of_nat j = (of_nat (16 * i + j) :: u32)" by simp
  moreover have "16 * i + j < 4294967296"
    using assms(2,3) tinyfs_store.view_bound [OF assms(1)] by simp
  ultimately show ?thesis by (simp only: unat_of_nat_u32)
qed

lemma get_entry_eq:
  assumes "rootdir s = Some bs" and "16 * i + 16 \<le> length bs"
  shows "rootdir_get_file_entry s (of_nat i) =
    Some (case entry_of (block bs i) of None \<Rightarrow> (-1, None) | Some e \<Rightarrow> (0, Some e))"
proof -
  note off = entry_offset [OF assms]
  have o0: "unat (of_nat i * 16 :: u32) = 16 * i" using off [of 0] by simp
  have o13: "unat (of_nat i * 16 + 13 :: u32) = 16 * i + 13" using off [of 13] by simp
  have o15: "unat (of_nat i * 16 + 15 :: u32) = 16 * i + 15" using off [of 15] by simp
  have r0: "cluster_read_8bit s 2 (of_nat i * 16) = Some (0, Some (block bs i ! 0))"
    using read_view(1) [OF assms(1), of "of_nat i * 16"] assms(2) by (simp only: o0 nth_block) simp
  have r15: "cluster_read_8bit s 2 (of_nat i * 16 + 15) = Some (0, Some (block bs i ! 15))"
    using read_view(1) [OF assms(1), of "of_nat i * 16 + 15"] assms(2) by (simp add: o15 nth_block)
  have r13: "cluster_read_16bit s 2 (of_nat i * 16 + 13) =
      Some (0, push_bit 8 (ucast (block bs i ! 13)) + ucast (block bs i ! 14))"
    using cluster_read_16bit_eq [OF assms(1), of "of_nat i * 16 + 13"] assms(2)
    by (simp add: o13 nth_block add.commute [of 14])
  have d: "cluster_read_data s 2 (of_nat i * 16) (replicate 13 0) 13 = Some (0, take 13 (block bs i))"
    using cluster_read_data_eq [OF assms(1), of "of_nat i * 16" 13 "replicate 13 0"] assms(2)
    by (simp add: o0 block_def)
  show ?thesis
    by (simp add: rootdir_get_file_entry_def entry_consts Let_def r0 r13 r15 d entry_of_def)
qed

definition dir_ok :: "tinyfs \<Rightarrow> u8 list \<Rightarrow> bool" where
  "dir_ok s bs = (rootdir s = Some bs \<and> root_size s = cl_size s)"

lemma table_size_eq:
  assumes "dir_ok s bs"
  shows "rootdir_get_table_size s = Some (int (length bs div 16))"
proof -
  have v: "rootdir s = Some bs" and r: "root_size s = cl_size s" using assms by (auto simp: dir_ok_def)
  obtain cs where wf: "fs_wf s" and ch: "chain s cs" and h: "hd cs = 2" and bs: "bs = chain_bytes s cs"
    using v by (auto simp: view_Some)
  have len: "length bs = length cs * csize s"
    using chain_data [OF ch] by (simp add: bs length_chain_bytes)
  have "get_cluster_chain_size s 2 = Some (int (length cs))"
    using count_links_chain [OF wf ch, of 0] by (simp add: get_cluster_chain_size_def h)
  moreover have "0 < length cs" using chain_not_Nil [OF ch] by simp
  moreover have "unat (of_nat (length cs) * cl_size s :: u32) = length bs"
  proof -
    have "length cs < 256" using chain_length [OF wf ch] fs_wfD(5) [OF wf] by simp
    then have u: "unat (of_nat (length cs) :: u32) = length cs" by (intro unat_of_nat_u32) simp
    show ?thesis
      using tinyfs_store.view_bound [OF v] by (subst unat_mult_lt) (simp_all add: u len)
  qed
  then have "unat ((of_nat (length cs) * cl_size s) div 16 :: u32) = length bs div 16"
    by (simp add: unat_div)
  moreover from this have "sint ((of_nat (length cs) * cl_size s) div 16 :: u32) = int (length bs div 16)"
    using tinyfs_store.view_bound [OF v] by (subst sint_u32_small) simp_all
  ultimately show ?thesis
    by (simp add: rootdir_get_table_size_def entry_consts r)
qed

text \<open>What a name matches: its first 13 characters are the stored name.\<close>

definition entry_named :: "u8 list \<Rightarrow> file_entry option \<Rightarrow> bool" where
  "entry_named f e = (case e of None \<Rightarrow> False | Some e \<Rightarrow> take 13 (c_str f) = c_str (fe_name e))"

lemma get_entry_entries:
  assumes "rootdir s = Some bs" and "i < length (entries bs)"
  shows "rootdir_get_file_entry s (of_nat i) =
    Some (case entries bs ! i of None \<Rightarrow> (-1, None) | Some e \<Rightarrow> (0, Some e))"
  using get_entry_eq [OF assms(1), of i] assms(2) by (simp add: in_table entries_def)

lemma find_from_eq:
  assumes "rootdir s = Some bs" and "terminated f" and "i + n \<le> length (entries bs)"
  shows "find_from s f i n = Some (first_from (\<lambda>j. entry_named f (entries bs ! j)) i n)"
  using assms(3)
proof (induction n arbitrary: i)
  case (Suc n)
  have IH: "find_from s f (Suc i) n = Some (first_from (\<lambda>j. entry_named f (entries bs ! j)) (Suc i) n)"
    using Suc by simp
  have i: "i < length (entries bs)" using Suc.prems by simp
  show ?case
  proof (cases "entries bs ! i")
    case None
    then show ?thesis by (simp add: get_entry_entries [OF assms(1) i] IH entry_named_def)
  next
    case (Some e)
    have "length (fe_name e) = 13"
      using Some i by (auto simp: entries_def entry_of_def in_table length_block split: if_splits)
    moreover from this have "take 13 (c_str (fe_name e)) = c_str (fe_name e)"
      by (intro take_all) (metis length_takeWhile_le)
    ultimately have "\<exists>r. strncmp f (fe_name e) 13 = Some r \<and> (r = 0 \<longleftrightarrow> take 13 (c_str f) = c_str (fe_name e))"
      using strncmp_total [OF assms(2), of "fe_name e" 13] by simp
    then show ?thesis
      using Some by (auto simp: get_entry_entries [OF assms(1) i] IH entry_named_def)
  qed
qed simp

lemma find_file_eq:
  assumes "dir_ok s bs" and "terminated f"
  shows "rootdir_find_file s (Some f) = Some (first_index (entry_named f) (entries bs))"
  using find_from_eq [of s bs f 0 "length bs div 16"] assms
  by (simp add: rootdir_find_file_def table_size_eq dir_ok_def first_index_def)

lemma free_index_from_eq:
  assumes "rootdir s = Some bs" and "i + n \<le> length (entries bs)"
  shows "free_index_from s u i n = Some (first_from (\<lambda>j. entries bs ! j = None) i n)"
  using assms(2)
proof (induction n arbitrary: i u)
  case (Suc n)
  have i: "16 * i + 16 \<le> length bs" using Suc.prems by (simp add: in_table [symmetric])
  have o: "unat (of_nat i * 16 :: u32) = 16 * i"
    using entry_offset [OF assms(1) i, of 0] by simp
  have "cluster_read_8bit s 2 (of_nat i * 16) = Some (0, Some (block bs i ! 0))"
    using read_view(1) [OF assms(1), of "of_nat i * 16"] i by (simp only: o nth_block) simp
  moreover have "entries bs ! i = None \<longleftrightarrow> block bs i ! 0 = 0"
    using i by (simp add: entries_def entry_of_def in_table)
  ultimately show ?case
    using Suc by (simp add: entry_consts Let_def)
qed simp

lemma find_free_eq:
  assumes "dir_ok s bs" and "None \<in> set (entries bs)"
  shows "rootdir_find_free_index s = Some (first_index (\<lambda>e. e = None) (entries bs))"
proof -
  have "first_index (\<lambda>e. e = None) (entries bs) \<noteq> -1"
    using assms(2) by (simp add: first_index_None)
  then have "0 \<le> first_index (\<lambda>e. e = None) (entries bs)"
    by (cases rule: first_index_cases [of "\<lambda>e. e = None" "entries bs"]) auto
  then show ?thesis
    using free_index_from_eq [of s bs 0 "length bs div 16" None] assms(1)
    by (simp add: rootdir_find_free_index_def table_size_eq dir_ok_def first_index_def)
qed

subsection \<open>Writing the table\<close>

abbreviation tfs_frame :: "tinyfs \<Rightarrow> u32 \<Rightarrow> tinyfs \<Rightarrow> bool" where
  "tfs_frame \<equiv> store_frame view apart geometry"

lemma table_write_data:
  assumes v: "rootdir s = Some bs" and i: "16 * i + 16 \<le> length bs" and j: "j < 16" "j + n \<le> 16"
    and n: "n \<le> length buf"
  shows "\<exists>s'. cluster_write_data s 2 (of_nat i * 16 + of_nat j) buf (of_nat n) = Some (0, s') \<and>
    rootdir s' = Some (put_block bs i (take j (block bs i) @ take n buf @ drop (j + n) (block bs i))) \<and>
    tfs_frame s 2 s'"
proof -
  let ?k = "of_nat i * 16 + of_nat j :: u32"
  have k: "unat ?k = 16 * i + j" using entry_offset [OF v i j(1)] .
  have u: "unat (of_nat n :: u32) = n" using j(2) by (intro unat_of_nat_u32) simp
  have "unat ?k \<le> length bs" "unat ?k + unat (of_nat n :: u32) \<le> room s 2" "unat (of_nat n :: u32) \<le> length buf"
    using i j n room_lt(1) [OF v] by (simp_all add: k u)
  from cluster_write_data_ex [OF v this] obtain s' where
    w: "cluster_write_data s 2 ?k buf (of_nat n) = Some (0, s')"
    and v': "rootdir s' = Some (take (16 * i + j) bs @ take n buf @ drop (16 * i + j + n) bs)"
    and f: "tfs_frame s 2 s'"
    using i j by (auto simp: k u)
  have "take (16 * i + j) bs @ take n buf @ drop (16 * i + j + n) bs =
      put_block bs i (take j (block bs i) @ take n buf @ drop (j + n) (block bs i))"
    using put_block_splice [OF i, of j "take n buf"] j n by simp
  with w v' f show ?thesis by auto
qed

lemma table_write_byte:
  assumes v: "rootdir s = Some bs" and i: "16 * i + 16 \<le> length bs" and j: "j < 16"
  shows "\<exists>s'. cluster_write_8bit s 2 (of_nat i * 16 + of_nat j) b = Some (0, s') \<and>
    rootdir s' = Some (put_block bs i ((block bs i)[j := b])) \<and> tfs_frame s 2 s'"
proof -
  let ?k = "of_nat i * 16 + of_nat j :: u32"
  have k: "unat ?k = 16 * i + j" using entry_offset [OF v i j] .
  have "unat ?k \<le> length bs" "unat ?k < room s 2"
    using i j room_lt(1) [OF v] by (simp_all add: k)
  from tinyfs_store.write_splice [OF v this, of b] obtain s' where
    w: "cluster_write_8bit s 2 ?k b = Some (0, s')"
    and v': "rootdir s' = Some (take (16 * i + j) bs @ [b] @ drop (16 * i + j + length [b]) bs)"
    and f: "tfs_frame s 2 s'"
    using i j by (auto simp: k)
  have "take (16 * i + j) bs @ [b] @ drop (16 * i + j + length [b]) bs =
      put_block bs i (take j (block bs i) @ [b] @ drop (j + length [b]) (block bs i))"
    using i j by (intro put_block_splice) simp_all
  also have "take j (block bs i) @ [b] @ drop (j + length [b]) (block bs i) = (block bs i)[j := b]"
    using j length_block [OF i] by (simp add: upd_conv_take_nth_drop)
  finally show ?thesis using w v' f by auto
qed

lemma table_write_16bit:
  assumes v: "rootdir s = Some bs" and i: "16 * i + 16 \<le> length bs" and j: "j + 2 \<le> 16"
  shows "\<exists>s'. cluster_write_16bit s 2 (of_nat i * 16 + of_nat j) x = Some (0, s') \<and>
    rootdir s' = Some (put_block bs i
      (take j (block bs i) @ [ucast (drop_bit 8 x), ucast (x AND 0xFF)] @ drop (j + 2) (block bs i))) \<and>
    tfs_frame s 2 s'"
proof -
  let ?k = "of_nat i * 16 + of_nat j :: u32"
  have k: "unat ?k = 16 * i + j" using entry_offset [OF v i] j by simp
  have "unat ?k \<le> length bs" "unat ?k + 1 < room s 2"
    using i j room_lt(1) [OF v] by (simp_all add: k)
  from cluster_write_16bit_ex [OF v this, of x] obtain s' where
    w: "cluster_write_16bit s 2 ?k x = Some (0, s')"
    and v': "rootdir s' = Some (take (16 * i + j) bs @ [ucast (drop_bit 8 x), ucast (x AND 0xFF)] @
      drop (16 * i + j + 2) bs)"
    and f: "tfs_frame s 2 s'"
    using i j by (auto simp: k)
  have "take (16 * i + j) bs @ [ucast (drop_bit 8 x), ucast (x AND 0xFF)] @ drop (16 * i + j + 2) bs =
      put_block bs i (take j (block bs i) @ [ucast (drop_bit 8 x), ucast (x AND 0xFF)] @ drop (j + 2) (block bs i))"
    using put_block_splice [OF i, of j "[ucast (drop_bit 8 x), ucast (x AND 0xFF)]"] j
    by (simp add: numeral_2_eq_2)
  with w v' f show ?thesis by auto
qed

text \<open>The block that \<^verbatim>\<open>rootdir_set_file_entry\<close> leaves over an old block: what follows the terminator
  of a short name is not cleared.\<close>

definition entry_block :: "u8 list \<Rightarrow> u8 list \<Rightarrow> u16 \<Rightarrow> u8 \<Rightarrow> u8 list" where
  "entry_block B name sz c =
     (let len = min 13 (length (c_str name) + 1) in
      take 12 (take len name @ drop len B) @ [0, ucast (drop_bit 8 sz), ucast (sz AND 0xFF), c])"

lemma block_steps:
  "length D = 16 \<Longrightarrow> (take 13 (D[12 := 0]) @ [h, l] @ drop 15 (D[12 := 0]))[15 := c] = take 12 D @ [0, h, l, c]"
  by (auto simp: length_Suc_conv numeral_eq_Suc)

lemma length_entry_block: "length B = 16 \<Longrightarrow> terminated name \<Longrightarrow> length (entry_block B name sz c) = 16"
  using terminated_length [of name] by (auto simp: entry_block_def Let_def min_def)

lemma entry_of_block:
  assumes B: "length B = 16" and t: "terminated name" and ne: "c_str name \<noteq> []"
  shows "\<exists>n. entry_of (entry_block B name sz c) =
      Some \<lparr>fe_name = n, fe_data_cluster = c, fe_file_size = sz\<rparr> \<and>
    c_str n = take 12 (c_str name) \<and> length n = 13"
proof -
  obtain len where len: "len = min 13 (length (c_str name) + 1)" by simp
  obtain D where D: "D = take len name @ drop len B" by simp
  have l: "len \<le> length name" using terminated_length [OF t] by (simp add: len)
  then have lD: "length D = 16" using B by (simp add: D len)
  have E: "entry_block B name sz c = take 12 D @ [0, ucast (drop_bit 8 sz), ucast (sz AND 0xFF), c]"
    by (simp add: entry_block_def Let_def D len)
  have c12: "c_str (take 12 D @ [0]) = take 12 (c_str name)"
  proof (cases "length (c_str name) < 12")
    case True
    then have "take len name = c_str name @ [0]"
      using terminated_nth [OF t] terminated_length [OF t] c_str_prefix [of name]
      by (simp add: len take_Suc_conv_app_nth)
    then have "take 12 D @ [0] = c_str name @ 0 # take (12 - Suc (length (c_str name))) (drop len B) @ [0]"
      using True by (simp add: D take_Cons')
    then show ?thesis using c_str_append_null [OF c_str_no_null] True by simp
  next
    case False
    then have "take 12 D = take 12 name" using l by (auto simp: D len min_def)
    also have "take 12 name = take 12 (take (length (c_str name)) name)"
      using False by (simp add: min_def)
    also have "\<dots> = take 12 (c_str name)" by (simp only: c_str_prefix)
    finally have d: "take 12 D = take 12 (c_str name)" .
    have "0 \<notin> set (take 12 (c_str name))" using c_str_no_null [of name] in_set_takeD by metis
    then show ?thesis unfolding d by (rule c_str_append_null)
  qed
  have "(take 12 D @ [0]) ! 0 \<noteq> 0"
  proof
    assume "(take 12 D @ [0]) ! 0 = 0"
    then have "c_str (take 12 D @ [0]) = []" by (cases "take 12 D") auto
    then show False using c12 ne by simp
  qed
  then have "D ! 0 \<noteq> 0" using lD by (simp add: nth_append)
  moreover have "length (take 12 D) = 12" using lD by simp
  ultimately have "entry_of (entry_block B name sz c) =
      Some \<lparr>fe_name = take 12 D @ [0], fe_data_cluster = c, fe_file_size = sz\<rparr>"
    unfolding E entry_of_def by (simp add: nth_append u16_halves)
  with c12 lD show ?thesis by auto
qed

lemma set_file_entry_ex:
  assumes v: "rootdir s = Some bs" and i: "16 * i + 16 \<le> length bs" and t: "terminated name"
    and c: "c \<noteq> 0" "c \<noteq> 0xFF"
  shows "\<exists>s'. rootdir_set_file_entry s (of_nat i) (Some name) sz c = Some (0, s') \<and>
    rootdir s' = Some (put_block bs i (entry_block (block bs i) name sz c)) \<and> tfs_frame s 2 s'"
proof -
  obtain len where len_def: "len = min 13 (length (c_str name) + 1)" by simp
  have l: "len \<le> 13" "len \<le> length name" using terminated_length [OF t] by (simp_all add: len_def)
  have len: "(if MAX_FILENAME_SIZE < length (c_str name) + 1 then MAX_FILENAME_SIZE else length (c_str name) + 1) = len"
    by (simp add: len_def MAX_FILENAME_SIZE_def)
  let ?B = "block bs i"
  obtain D where D: "D = take len name @ drop len ?B" by simp
  have lD: "length D = 16" using length_block [OF i] l by (simp add: D)
  obtain s1 where s1: "cluster_write_data s 2 (of_nat i * 16) name (of_nat len) = Some (0, s1)"
    "rootdir s1 = Some (put_block bs i D)" "tfs_frame s 2 s1"
    using table_write_data [OF v i, of 0 len name] l by (auto simp: D)
  let ?bs1 = "put_block bs i D"
  have i1: "16 * i + 16 \<le> length ?bs1" using i lD by simp
  have b1: "block ?bs1 i = D" using i lD by (simp add: block_put_block)
  obtain s2 where s2: "cluster_write_8bit s1 2 (of_nat i * 16 + of_nat 12) 0 = Some (0, s2)"
    "rootdir s2 = Some (put_block ?bs1 i (D[12 := 0]))" "tfs_frame s1 2 s2"
    using table_write_byte [OF s1(2) i1, of 12 0] b1 by auto
  let ?bs2 = "put_block ?bs1 i (D[12 := 0])"
  have i2: "16 * i + 16 \<le> length ?bs2" using i1 lD by simp
  have b2: "block ?bs2 i = D[12 := 0]" using i1 lD by (simp add: block_put_block)
  obtain F where F: "F = take 13 (D[12 := 0]) @ [ucast (drop_bit 8 sz), ucast (sz AND 0xFF)] @ drop 15 (D[12 := 0])"
    by simp
  have lF: "length F = 16" using lD by (simp add: F)
  obtain s3 where s3: "cluster_write_16bit s2 2 (of_nat i * 16 + of_nat 13) sz = Some (0, s3)"
    "rootdir s3 = Some (put_block ?bs2 i F)" "tfs_frame s2 2 s3"
    using table_write_16bit [OF s2(2) i2, of 13 sz] b2 by (auto simp: F)
  let ?bs3 = "put_block ?bs2 i F"
  have i3: "16 * i + 16 \<le> length ?bs3" using i2 lF by simp
  have b3: "block ?bs3 i = F" using i2 lF by (simp add: block_put_block)
  obtain s4 where s4: "cluster_write_8bit s3 2 (of_nat i * 16 + of_nat 15) c = Some (0, s4)"
    "rootdir s4 = Some (put_block ?bs3 i (F[15 := c]))" "tfs_frame s3 2 s4"
    using table_write_byte [OF s3(2) i3, of 15 c] b3 by auto
  have Fe: "entry_block ?B name sz c = F[15 := c]"
    unfolding F block_steps [OF lD] by (simp add: D entry_block_def Let_def len_def)
  have "put_block ?bs3 i (F[15 := c]) = put_block bs i (F[15 := c])"
    using i i1 i2 lD lF by (simp only: put_block_twice length_list_update length_put_block)
  then have "rootdir s4 = Some (put_block bs i (entry_block ?B name sz c))" by (simp only: Fe s4(2))
  moreover have "tfs_frame s 2 s4"
    using s1(3) s2(3) s3(3) s4(3) tinyfs_store.frame_trans by blast
  moreover have "rootdir_set_file_entry s (of_nat i) (Some name) sz c = Some (0, s4)"
  proof -
    have w2: "cluster_write_8bit s1 2 (12 + of_nat i * 16) 0 = Some (0, s2)"
      using s2(1) by (simp add: add.commute)
    show ?thesis
      unfolding rootdir_set_file_entry_def option.case strlen_terminated [OF t] bind.bind_lunit Let_def len
      using s1(1) w2 s3(1) s4(1) c
      by (simp add: entry_consts calculate_file_entry_offset_def)
  qed
  ultimately show ?thesis by blast
qed

end
