(* ===== verification/Fs_Operations.thy ===== *)
theory Fs_Operations
  imports Rootdir
begin

section \<open>TinyFS: files (fs/tinyfs/code/fs\_operations.c)\<close>

text \<open>
  The operations the rest of the kernel calls, and what they mean: \<open>files s\<close> is the directory as a list
  of slots, each free or a name with a content, and every operation is one change of that list.
\<close>

subsection \<open>The operations\<close>

definition fs_create_file :: "tinyfs \<Rightarrow> u8 list option \<Rightarrow> (int \<times> tinyfs) option" where
  "fs_create_file s filename = rootdir_create_file s filename"

definition fs_delete :: "tinyfs \<Rightarrow> u8 list option \<Rightarrow> (int \<times> tinyfs) option" where
  "fs_delete s filename = do {
     index \<leftarrow> rootdir_find_file s filename;
     if index \<ge> 0 then rootdir_delete_file s (of_int index) else Some (index, s)
   }"

definition fs_open :: "tinyfs \<Rightarrow> u8 list option \<Rightarrow> int option" where
  "fs_open s filename = rootdir_find_file s filename"

definition fs_write :: "tinyfs \<Rightarrow> int \<Rightarrow> u8 list \<Rightarrow> u32 \<Rightarrow> (int \<times> tinyfs) option" where
  "fs_write s handler buffer buffer_len =
     (if handler < 0 then Some (handler, s)
      else do {
        (r, entry) \<leftarrow> rootdir_get_file_entry s (of_int handler);
        if r \<noteq> 0 then Some (-1, s)
        else do {
          file \<leftarrow> entry;
          (ret, s1) \<leftarrow> cluster_write_data s (ucast (fe_data_cluster file)) (ucast (fe_file_size file))
            buffer buffer_len;
          if ret = 0
          then rootdir_set_file_size s1 (of_int handler) (ucast (ucast (fe_file_size file) + buffer_len))
          else Some (ret, s1)
        }
      })"

definition fs_close :: "tinyfs \<Rightarrow> int \<Rightarrow> int" where
  "fs_close s handler = 0"

subsection \<open>The directory as a list of named contents\<close>

definition dir_of :: "tinyfs \<Rightarrow> file_entry option list" where
  "dir_of s = (case rootdir s of None \<Rightarrow> [] | Some bs \<Rightarrow> entries bs)"

definition fe_head :: "file_entry \<Rightarrow> u32" where
  "fe_head e = ucast (fe_data_cluster e)"

definition content :: "tinyfs \<Rightarrow> file_entry \<Rightarrow> u8 list" where
  "content s e = take (unat (fe_file_size e)) (the (view s (fe_head e)))"

definition files :: "tinyfs \<Rightarrow> (u8 list \<times> u8 list) option list" where
  "files s = map (map_option (\<lambda>e. (c_str (fe_name e), content s e))) (dir_of s)"

definition entry_sound :: "tinyfs \<Rightarrow> file_entry option \<Rightarrow> bool" where
  "entry_sound s a = (case a of None \<Rightarrow> True
     | Some e \<Rightarrow> apart s 2 (fe_head e) \<and> unat (fe_file_size e) \<le> length (the (view s (fe_head e))))"

definition entries_apart :: "tinyfs \<Rightarrow> file_entry option \<Rightarrow> file_entry option \<Rightarrow> bool" where
  "entries_apart s a b = (case (a, b) of
     (Some e, Some e') \<Rightarrow> apart s (fe_head e) (fe_head e') | _ \<Rightarrow> True)"

text \<open>The invariant of a volume: the disk holds every cluster of its FAT, and the clusters of the
  root directory and of all files are disjoint.\<close>

definition fs_inv :: "tinyfs \<Rightarrow> bool" where
  "fs_inv s = (fs_full_size s \<and> root_size s = cl_size s \<and> rootdir s \<noteq> None \<and>
     (\<forall>i < length (dir_of s). entry_sound s (dir_of s ! i) \<and>
        (\<forall>j < length (dir_of s). j \<noteq> i \<longrightarrow> entries_apart s (dir_of s ! i) (dir_of s ! j))))"

text \<open>What reading needs: the same without the first, because the image that is linked into the kernel is shorter than its FAT.\<close>

definition fs_sound :: "tinyfs \<Rightarrow> bool" where
  "fs_sound s = (root_size s = cl_size s \<and> rootdir s \<noteq> None \<and>
     (\<forall>i < length (dir_of s). entry_sound s (dir_of s ! i) \<and>
        (\<forall>j < length (dir_of s). j \<noteq> i \<longrightarrow> entries_apart s (dir_of s ! i) (dir_of s ! j))))"

lemma fs_inv_sound: "fs_inv s \<longleftrightarrow> fs_full_size s \<and> fs_sound s"
  by (simp add: fs_inv_def fs_sound_def)

lemma apart_sym: "apart s a b = apart s b a"
  by (auto simp: apart_def split: option.splits)

lemma entries_apart_sym: "entries_apart s a b = entries_apart s b a"
  by (auto simp: entries_apart_def apart_sym split: option.splits)

lemma length_files [simp]: "length (files s) = length (dir_of s)"
  by (simp add: files_def)

lemma fs_sound_root:
  assumes "fs_sound s"
  obtains bs where "dir_ok s bs" "rootdir s = Some bs" "dir_of s = entries bs" "fs_wf s"
    "length (dir_of s) = length bs div 16"
proof -
  obtain bs where "rootdir s = Some bs" using assms by (auto simp: fs_sound_def)
  with assms that show ?thesis
    by (auto simp: fs_sound_def dir_ok_def dir_of_def view_wf)
qed

lemma fs_sound_entry:
  assumes "fs_sound s" and "i < length (dir_of s)" and "dir_of s ! i = Some e"
  shows "apart s 2 (fe_head e)" and "unat (fe_file_size e) \<le> length (the (view s (fe_head e)))"
  using assms by (auto simp: fs_sound_def entry_sound_def)

lemma fs_inv_root:
  assumes "fs_inv s"
  obtains bs where "dir_ok s bs" "rootdir s = Some bs" "dir_of s = entries bs" "fs_wf s"
    "length (dir_of s) = length bs div 16"
  using fs_sound_root assms unfolding fs_inv_sound by blast

lemma fs_inv_entry:
  assumes "fs_inv s" and "i < length (dir_of s)" and "dir_of s ! i = Some e"
  shows "apart s 2 (fe_head e)" and "unat (fe_file_size e) \<le> length (the (view s (fe_head e)))"
  using fs_sound_entry assms unfolding fs_inv_sound by blast+

lemma apart_view: "fs_wf s \<Longrightarrow> apart s h a \<Longrightarrow> \<exists>bs. view s a = Some bs"
  by (auto simp: apart_def view_def split: option.splits)

lemma geometry_fields:
  assumes "geometry s' = geometry s"
  shows "root_size s' = root_size s" and "cl_size s' = cl_size s" and "fs_full_size s' = fs_full_size s"
  using arg_cong [OF assms, of "cl_size \<circ> fst"] arg_cong [OF assms, of "root_size \<circ> fst"]
    tinyfs_store.full_frame [OF assms]
  by (simp_all add: geometry_def)

lemma frameD:
  assumes "tfs_frame s h s'"
  shows "geometry s' = geometry s" and "apart s h a \<Longrightarrow> view s' a = view s a"
    and "apart s h a \<Longrightarrow> apart s' h a" and "apart s h a \<Longrightarrow> apart s h b \<Longrightarrow> apart s' a b = apart s a b"
  using assms by (simp_all add: store_frame_def)

text \<open>A step that changes one slot of the table and at most that slot's file keeps the invariant and
  changes one slot of the directory.\<close>

lemma one_slot_step:
  assumes inv: "fs_inv s" and i: "i < length (dir_of s)"
    and g: "geometry s' = geometry s" and root: "rootdir s' \<noteq> None"
    and dir: "dir_of s' = (dir_of s)[i := x]" and snd: "entry_sound s' x"
    and other: "\<And>j e. j < length (dir_of s) \<Longrightarrow> j \<noteq> i \<Longrightarrow> dir_of s ! j = Some e \<Longrightarrow>
      view s' (fe_head e) = view s (fe_head e) \<and> apart s' 2 (fe_head e) \<and> entries_apart s' x (Some e)"
    and pair: "\<And>j k e e'. j < length (dir_of s) \<Longrightarrow> k < length (dir_of s) \<Longrightarrow> j \<noteq> i \<Longrightarrow> k \<noteq> i \<Longrightarrow>
      dir_of s ! j = Some e \<Longrightarrow> dir_of s ! k = Some e' \<Longrightarrow>
      apart s (fe_head e) (fe_head e') \<Longrightarrow> apart s' (fe_head e) (fe_head e')"
  shows "fs_inv s'" and "files s' = (files s)[i := map_option (\<lambda>e. (c_str (fe_name e), content s' e)) x]"
proof -
  have len: "length (dir_of s') = length (dir_of s)" using dir by simp
  have sound: "entry_sound s' (dir_of s' ! j)" if "j < length (dir_of s)" for j
  proof (cases "j = i")
    case False
    then show ?thesis
      using other [OF that False] fs_inv_entry [OF inv that] dir that
      by (cases "dir_of s ! j") (auto simp: entry_sound_def)
  qed (use snd dir that in simp)
  have ap: "entries_apart s' (dir_of s' ! j) (dir_of s' ! k)"
    if j: "j < length (dir_of s)" and k: "k < length (dir_of s)" and jk: "k \<noteq> j" for j k
  proof -
    consider "j = i" | "k = i" "j \<noteq> i" | "j \<noteq> i" "k \<noteq> i" by blast
    then show ?thesis
    proof cases
      case 1
      then show ?thesis
        using other [of k] dir j k jk by (cases "dir_of s ! k") (auto simp: entries_apart_def split: option.splits)
    next
      case 2
      then show ?thesis
        using other [of j] dir j k jk
        by (subst entries_apart_sym) (cases "dir_of s ! j"; auto simp: entries_apart_def split: option.splits)
    next
      case 3
      have "entries_apart s (dir_of s ! j) (dir_of s ! k)"
        using inv j k jk by (simp add: fs_inv_def)
      then show ?thesis
        using pair [OF j k 3] 3 dir j k by (auto simp: entries_apart_def split: option.splits)
    qed
  qed
  show "fs_inv s'"
    using inv geometry_fields [OF g] root sound ap by (simp add: fs_inv_def len)
  show "files s' = (files s)[i := map_option (\<lambda>e. (c_str (fe_name e), content s' e)) x]"
  proof (rule nth_equalityI)
    fix j assume "j < length (files s')"
    then have j: "j < length (dir_of s)" by (simp add: len)
    show "files s' ! j = (files s)[i := map_option (\<lambda>e. (c_str (fe_name e), content s' e)) x] ! j"
    proof (cases "j = i")
      case True
      then show ?thesis using i dir by (simp add: files_def)
    next
      case False
      have a: "files t ! j = map_option (\<lambda>e. (c_str (fe_name e), content t e)) (dir_of t ! j)"
        if "j < length (dir_of t)" for t
        using that by (simp add: files_def)
      show ?thesis
        using False other [OF j False] j a [of s'] a [of s] dir
        by (cases "dir_of s ! j") (auto simp: len content_def)
    qed
  qed (simp add: len)
qed

lemma files_nth:
  assumes "i < length (dir_of s)"
  shows "files s ! i = map_option (\<lambda>e. (c_str (fe_name e), content s e)) (dir_of s ! i)"
  using assms by (simp add: files_def)

subsection \<open>What each operation does to the directory\<close>

lemma fs_open_sound:
  assumes "fs_sound s" and "terminated f"
  shows "fs_open s (Some f) = Some (slot_of (c_str f) (files s))"
proof -
  obtain bs where bs: "dir_ok s bs" "dir_of s = entries bs" using fs_sound_root [OF assms(1)] by metis
  have "entry_named f = (\<lambda>x. named (c_str f) (map_option (\<lambda>e. (c_str (fe_name e), content s e)) x))"
    by (rule ext) (simp add: entry_named_def named_def split: option.split)
  then show ?thesis
    using find_file_eq [OF bs(1) assms(2)] bs(2)
    by (simp add: fs_open_def slot_of_def files_def first_index_map)
qed

lemma fs_open_eq: "fs_inv s \<Longrightarrow> terminated f \<Longrightarrow> fs_open s (Some f) = Some (slot_of (c_str f) (files s))"
  by (simp add: fs_open_sound fs_inv_sound)

text \<open>The entry behind a slot that a name leads to.\<close>

lemma found_file:
  assumes "fs_sound s" and "slot_of n (files s) = int i"
  obtains e vs where "i < length (dir_of s)" and "dir_of s ! i = Some e" and "files s ! i = Some (c_str (fe_name e), content s e)"
    and "view s (fe_head e) = Some vs" and "unat (fe_file_size e) \<le> length vs" and "content s e = take (unat (fe_file_size e)) vs"
    and "rootdir_get_file_entry s (of_nat i) = Some (0, Some e)"
proof -
  obtain bs where rb: "rootdir s = Some bs" and db: "dir_of s = entries bs" and wf: "fs_wf s"
    using fs_sound_root [OF assms(1)] by metis
  have i: "i < length (dir_of s)" and nm: "named n (files s ! i)"
    using first_index_Some [OF assms(2) [unfolded slot_of_def]] by simp_all
  then obtain e where e: "dir_of s ! i = Some e" by (cases "dir_of s ! i") (auto simp: files_def named_def)
  obtain vs where vs: "view s (fe_head e) = Some vs" using apart_view [OF wf fs_sound_entry(1) [OF assms(1) i e]] by blast
  have "rootdir_get_file_entry s (of_nat i) = Some (0, Some e)"
    using get_entry_entries [OF rb, of i] i e by (simp add: db)
  with that [OF i e] vs fs_sound_entry(2) [OF assms(1) i e] files_nth [OF i] e show thesis by (simp add: content_def)
qed

lemma file_byte:
  assumes "view s (fe_head e) = Some vs" and "unat (fe_file_size e) \<le> length vs" and "j < unat (fe_file_size e)"
  shows "cluster_read_8bit s (ucast (fe_data_cluster e)) (of_nat j) = Some (0, Some (vs ! j))"
proof -
  have "unat (fe_file_size e) < 65536" using unsigned_less [of "fe_file_size e", where ?'a = nat] by simp
  then show ?thesis
    using read_view(1) [OF assms(1), of "of_nat j"] assms(2,3) by (simp add: fe_head_def unat_of_nat_u32)
qed

text \<open>Appending. The file grows by the whole buffer, or the disk is full and no file changes.\<close>

lemma entry_set_size:
  assumes "length B = 16"
  shows "entry_of (take 13 B @ [ucast (drop_bit 8 x), ucast (x AND 0xFF)] @ drop 15 B) =
    map_option (\<lambda>e. e\<lparr>fe_file_size := x\<rparr>) (entry_of B)"
  using assms by (auto simp: entry_of_def nth_append u16_halves)

lemma unat_size_plus:
  assumes "unat (z :: u16) + unat (n :: u32) < 65536"
  shows "unat (ucast (ucast z + n :: u32) :: u16) = unat z + unat n"
proof -
  have z: "unat (ucast z :: u32) = unat z"
    by (simp add: unsigned_ucast_eq take_bit_nat_eq_self_iff order.strict_trans [OF unsigned_less])
  have "unat (ucast z + n :: u32) = unat z + unat n"
    using assms by (subst unat_add_lt) (simp_all add: z)
  then show ?thesis
    using assms by (simp add: unsigned_ucast_eq take_bit_nat_eq_self)
qed

lemma entries_apart_frame:
  "apart s h (fe_head e) \<Longrightarrow> apart s h (fe_head e') \<Longrightarrow> tfs_frame s h s' \<Longrightarrow>
     entries_apart s' (Some e) (Some e') = entries_apart s (Some e) (Some e')"
  by (simp add: entries_apart_def frameD(4))

text \<open>A step that writes the table only.\<close>

lemma root_step:
  assumes inv: "fs_inv s" and i: "i < length (dir_of s)" and f: "tfs_frame s 2 s'"
    and root: "rootdir s' \<noteq> None" and dir: "dir_of s' = (dir_of s)[i := x]"
    and snd: "entry_sound s x"
    and other: "\<And>j. j < length (dir_of s) \<Longrightarrow> j \<noteq> i \<Longrightarrow> entries_apart s x (dir_of s ! j)"
  shows "fs_inv s'" and "files s' = (files s)[i := map_option (\<lambda>e. (c_str (fe_name e), content s e)) x]"
proof -
  have x2: "apart s 2 (fe_head e)" if "x = Some e" for e
    using snd that by (simp add: entry_sound_def)
  have snd': "entry_sound s' x"
    using snd frameD [OF f] by (auto simp: entry_sound_def split: option.splits)
  have other': "view s' (fe_head e) = view s (fe_head e) \<and> apart s' 2 (fe_head e) \<and> entries_apart s' x (Some e)"
    if j: "j < length (dir_of s)" "j \<noteq> i" "dir_of s ! j = Some e" for j e
  proof -
    have a: "apart s 2 (fe_head e)" using fs_inv_entry(1) [OF inv j(1,3)] .
    have "entries_apart s' x (Some e)"
      using other [OF j(1,2)] entries_apart_frame [OF x2 a f] j(3)
      by (cases x) (auto simp: entries_apart_def)
    then show ?thesis using frameD [OF f] a by simp
  qed
  have pair: "apart s' (fe_head e) (fe_head e')"
    if "j < length (dir_of s)" "k < length (dir_of s)" "dir_of s ! j = Some e" "dir_of s ! k = Some e'"
      "apart s (fe_head e) (fe_head e')" for j k e e'
    using that frameD(4) [OF f] fs_inv_entry(1) [OF inv] by blast
  show "fs_inv s'"
    by (rule one_slot_step(1) [OF inv i frameD(1) [OF f] root dir snd' other' pair])
  have "content s' e = content s e" if "x = Some e" for e
    using frameD(2) [OF f x2 [OF that]] by (simp add: content_def)
  then show "files s' = (files s)[i := map_option (\<lambda>e. (c_str (fe_name e), content s e)) x]"
    using one_slot_step(2) [OF inv i frameD(1) [OF f] root dir snd' other' pair]
    by (cases x) auto
qed

text \<open>A step that leaves the table and the files of all its entries alone.\<close>

lemma same_step:
  assumes inv: "fs_inv s" and g: "geometry s' = geometry s" and root: "rootdir s' = rootdir s"
    and ent: "\<And>j e. j < length (dir_of s) \<Longrightarrow> dir_of s ! j = Some e \<Longrightarrow>
      apart s' 2 (fe_head e) \<and> unat (fe_file_size e) \<le> length (the (view s' (fe_head e))) \<and>
      content s' e = content s e"
    and pair: "\<And>j k e e'. j < length (dir_of s) \<Longrightarrow> k < length (dir_of s) \<Longrightarrow> j \<noteq> k \<Longrightarrow>
      dir_of s ! j = Some e \<Longrightarrow> dir_of s ! k = Some e' \<Longrightarrow> apart s' (fe_head e) (fe_head e')"
  shows "fs_inv s'" and "files s' = files s" and "dir_of s' = dir_of s"
proof -
  show d: "dir_of s' = dir_of s" using root by (simp add: dir_of_def)
  have "entry_sound s' (dir_of s ! j)" if "j < length (dir_of s)" for j
    using ent [OF that] by (cases "dir_of s ! j") (auto simp: entry_sound_def)
  moreover have "entries_apart s' (dir_of s ! j) (dir_of s ! k)"
    if "j < length (dir_of s)" "k < length (dir_of s)" "k \<noteq> j" for j k
    using pair [OF that(1,2)] that(3)
    by (cases "dir_of s ! j"; cases "dir_of s ! k") (auto simp: entries_apart_def)
  ultimately show "fs_inv s'"
    using inv geometry_fields [OF g] root by (simp add: fs_inv_def d)
  have "map_option (\<lambda>e. (c_str (fe_name e), content s' e)) (dir_of s ! j) =
      map_option (\<lambda>e. (c_str (fe_name e), content s e)) (dir_of s ! j)" if "j < length (dir_of s)" for j
    using ent [OF that] by (cases "dir_of s ! j") auto
  then show "files s' = files s" by (intro nth_equalityI) (simp_all add: files_def d)
qed

lemma fs_inv_pair:
  assumes "fs_inv s" and "j < length (dir_of s)" and "k < length (dir_of s)" and "j \<noteq> k"
    and "dir_of s ! j = Some e" and "dir_of s ! k = Some e'"
  shows "apart s (fe_head e) (fe_head e')"
proof -
  have "entries_apart s (dir_of s ! j) (dir_of s ! k)" using assms(1-4) by (simp add: fs_inv_def)
  then show ?thesis using assms(5,6) by (simp add: entries_apart_def)
qed

lemma write_data_any:
  assumes "view s h = Some bs" and "unat k \<le> length bs" and "unat n \<le> length buf"
    and "unat k + unat n < 4294967296" and "fs_full_size s"
  shows "\<exists>s' bs'. cluster_write_data s h k buf n =
      Some (if unat k + unat n \<le> room s h then 0 else - FS_DISK_FULL, s') \<and>
     view s' h = Some bs' \<and> take (unat k) bs' = take (unat k) bs \<and> length bs \<le> length bs' \<and>
     (unat k + unat n \<le> room s h \<longrightarrow> take (unat k + unat n) bs' = take (unat k) bs @ take (unat n) buf) \<and>
     room s' h = room s h \<and> tfs_frame s h s'"
  unfolding cluster_write_data_def by (rule tinyfs_store.write_any [OF assms])

lemma dir_of_put:
  assumes "rootdir s = Some bs" and "16 * i + 16 \<le> length bs" and "length E = 16"
    and "rootdir s' = Some (put_block bs i E)"
  shows "dir_of s' = (dir_of s)[i := entry_of E]"
  using assms by (simp add: dir_of_def entries_put_block)

text \<open>The two halves of a write: the bytes go into the chain of the file, which keeps every entry and its content, and then the
  new size goes into the entry.\<close>

lemma data_written:
  assumes inv: "fs_inv s" and i: "i < length (dir_of s)" and e: "dir_of s ! i = Some e"
    and f: "tfs_frame s (fe_head e) s1" and vs: "view s (fe_head e) = Some vs" and vs': "view s1 (fe_head e) = Some vs'"
    and pre: "take (unat (fe_file_size e)) vs' = take (unat (fe_file_size e)) vs" and len: "length vs \<le> length vs'"
  shows "fs_inv s1" and "files s1 = files s" and "dir_of s1 = dir_of s" and "rootdir s1 = rootdir s"
proof -
  obtain bs where rb: "rootdir s = Some bs" using fs_inv_root [OF inv] by metis
  let ?h = "fe_head e"
  have a2: "apart s ?h 2" using fs_inv_entry(1) [OF inv i e] by (simp add: apart_sym)
  have sz: "unat (fe_file_size e) \<le> length vs" using fs_inv_entry(2) [OF inv i e] vs by simp
  show rb1: "rootdir s1 = rootdir s" using frameD(2) [OF f a2] .
  have ent: "apart s1 2 (fe_head e') \<and> unat (fe_file_size e') \<le> length (the (view s1 (fe_head e'))) \<and>
      content s1 e' = content s e'" if j: "j < length (dir_of s)" "dir_of s ! j = Some e'" for j e'
  proof (cases "j = i")
    case True
    then have "e' = e" using j e by simp
    then show ?thesis
      using frameD(3) [OF f a2] vs vs' pre len sz by (simp add: apart_sym content_def)
  next
    case False
    have a: "apart s ?h (fe_head e')" using fs_inv_pair [OF inv i j(1) _ e j(2)] False by simp
    have "apart s1 2 (fe_head e')"
      using frameD(4) [OF f a2 a] fs_inv_entry(1) [OF inv j] by simp
    then show ?thesis
      using frameD(2) [OF f a] fs_inv_entry(2) [OF inv j] by (simp add: content_def)
  qed
  have pair: "apart s1 (fe_head e1) (fe_head e2)"
    if jk: "j < length (dir_of s)" "m < length (dir_of s)" "j \<noteq> m" "dir_of s ! j = Some e1" "dir_of s ! m = Some e2"
    for j m e1 e2
  proof -
    have p: "apart s (fe_head e1) (fe_head e2)" using fs_inv_pair [OF inv jk] .
    have h: "l \<noteq> i \<Longrightarrow> l < length (dir_of s) \<Longrightarrow> dir_of s ! l = Some e' \<Longrightarrow> apart s ?h (fe_head e')" for l e'
      using fs_inv_pair [OF inv i _ _ e] by blast
    consider "j = i" | "m = i" | "j \<noteq> i" "m \<noteq> i" by blast
    then show ?thesis
    proof cases
      case 1
      then show ?thesis using frameD(3) [OF f, of "fe_head e2"] p jk e by simp
    next
      case 2
      then show ?thesis using frameD(3) [OF f, of "fe_head e1"] p jk e by (simp add: apart_sym)
    next
      case 3
      then show ?thesis using frameD(4) [OF f h h] jk p by blast
    qed
  qed
  note s1 = same_step [OF inv frameD(1) [OF f] _ ent pair]
  show "fs_inv s1" "files s1 = files s" "dir_of s1 = dir_of s" using s1 rb rb1 by simp_all
qed

lemma size_entry:
  assumes rb: "rootdir s = Some bs" and i: "i < length (dir_of s)" and e: "dir_of s ! i = Some e"
  shows "\<exists>s'. cluster_write_16bit s 2 (of_nat i * 16 + of_nat 13) x = Some (0, s') \<and> tfs_frame s 2 s' \<and> rootdir s' \<noteq> None \<and>
    dir_of s' = (dir_of s)[i := Some (e\<lparr>fe_file_size := x\<rparr>)]"
proof -
  have db: "dir_of s = entries bs" using rb by (simp add: dir_of_def)
  have i16: "16 * i + 16 \<le> length bs" using i by (simp add: db in_table [symmetric])
  have eb: "entry_of (block bs i) = Some e" using e i by (simp add: db entries_def)
  obtain s2 where s2: "cluster_write_16bit s 2 (of_nat i * 16 + of_nat 13) x = Some (0, s2)"
    "rootdir s2 = Some (put_block bs i
      (take 13 (block bs i) @ [ucast (drop_bit 8 x), ucast (x AND 0xFF)] @ drop (13 + 2) (block bs i)))"
    (is "_ = Some (put_block bs i ?E)") "tfs_frame s 2 s2"
    using table_write_16bit [OF rb i16, of 13 x] by auto
  have "entry_of ?E = Some (e\<lparr>fe_file_size := x\<rparr>)"
    using entry_set_size [OF length_block [OF i16], of x] eb by simp
  then have "dir_of s2 = (dir_of s)[i := Some (e\<lparr>fe_file_size := x\<rparr>)]"
    using dir_of_put [OF rb i16 _ s2(2)] length_block [OF i16] by simp
  then show ?thesis using s2 by auto
qed

lemma size_written:
  assumes inv: "fs_inv s" and i: "i < length (dir_of s)" and e: "dir_of s ! i = Some e"
    and v: "view s (fe_head e) = Some vs" and x: "unat (x :: u16) \<le> length vs"
  shows "\<exists>s'. cluster_write_16bit s 2 (of_nat i * 16 + of_nat 13) x = Some (0, s') \<and> fs_inv s' \<and>
    files s' = (files s)[i := Some (c_str (fe_name e), take (unat x) vs)]"
proof -
  obtain bs where rb: "rootdir s = Some bs" using fs_inv_root [OF inv] by metis
  let ?e = "e\<lparr>fe_file_size := x\<rparr>"
  obtain s2 where s2: "cluster_write_16bit s 2 (of_nat i * 16 + of_nat 13) x = Some (0, s2)" "tfs_frame s 2 s2" "rootdir s2 \<noteq> None"
      "dir_of s2 = (dir_of s)[i := Some ?e]"
    using size_entry [OF rb i e] by blast
  have hd: "fe_head ?e = fe_head e" by (simp add: fe_head_def)
  have snd: "entry_sound s (Some ?e)"
    using fs_inv_entry(1) [OF inv i e] x v by (simp add: entry_sound_def hd)
  have oth: "entries_apart s (Some ?e) (dir_of s ! j)" if "j < length (dir_of s)" "j \<noteq> i" for j
    using fs_inv_pair [OF inv i _ _ e] that by (auto simp: entries_apart_def hd split: option.split)
  note r = root_step [OF inv i s2(2,3,4) snd oth]
  have "content s ?e = take (unat x) vs" using v by (simp add: content_def hd)
  then have "fs_inv s2" "files s2 = (files s)[i := Some (c_str (fe_name e), take (unat x) vs)]"
    using r by simp_all
  then show ?thesis using s2(1) by blast
qed

lemma fs_write_law:
  assumes inv: "fs_inv s" and i: "i < length (dir_of s)" and e: "dir_of s ! i = Some e"
    and size: "unat (fe_file_size e) + unat n < 65536" and n: "unat n \<le> length buf"
  shows "\<exists>r s'. fs_write s (int i) buf n = Some (r, s') \<and> fs_inv s' \<and>
    (r = 0 \<and> files s' = (files s)[i := Some (c_str (fe_name e), content s e @ take (unat n) buf)] \<or>
     r = - FS_DISK_FULL \<and> files s' = files s)"
proof -
  obtain bs where rb: "rootdir s = Some bs" and db: "dir_of s = entries bs" and wf: "fs_wf s"
    using fs_inv_root [OF inv] by metis
  let ?h = "fe_head e" and ?k = "ucast (fe_file_size e) :: u32"
  have k: "unat ?k = unat (fe_file_size e)"
    by (simp add: unsigned_ucast_eq take_bit_nat_eq_self_iff order.strict_trans [OF unsigned_less])
  have get: "rootdir_get_file_entry s (of_nat i) = Some (0, Some e)"
    using get_entry_entries [OF rb, of i] i e by (simp add: db)
  obtain vs where vs: "view s ?h = Some vs"
    using apart_view [OF wf] fs_inv_entry(1) [OF inv i e] by blast
  have sz: "unat (fe_file_size e) \<le> length vs" using fs_inv_entry(2) [OF inv i e] vs by simp
  have full: "fs_full_size s" using inv by (simp add: fs_inv_def)
  have "unat ?k \<le> length vs" "unat ?k + unat n < 4294967296" using sz size by (simp_all add: k)
  from write_data_any [OF vs this(1) n this(2) full] obtain s1 vs' where
    w: "cluster_write_data s ?h ?k buf n = Some (if unat ?k + unat n \<le> room s ?h then 0 else - FS_DISK_FULL, s1)"
    and vs': "view s1 ?h = Some vs'" "take (unat ?k) vs' = take (unat ?k) vs" "length vs \<le> length vs'"
      "unat ?k + unat n \<le> room s ?h \<longrightarrow> take (unat ?k + unat n) vs' = take (unat ?k) vs @ take (unat n) buf"
    and f: "tfs_frame s ?h s1"
    by blast
  note s1 = data_written [OF inv i e f vs vs'(1) vs'(2) [unfolded k] vs'(3)]
  show ?thesis
  proof (cases "unat ?k + unat n \<le> room s ?h")
    case False
    then have "fs_write s (int i) buf n = Some (- FS_DISK_FULL, s1)"
      using w by (simp add: fs_write_def get fe_head_def FS_DISK_FULL_def)
    then show ?thesis using s1 by blast
  next
    case True
    let ?x = "ucast (?k + n) :: u16"
    have x: "unat ?x = unat (fe_file_size e) + unat n" using size by (rule unat_size_plus)
    have tk: "take (unat ?x) vs' = content s e @ take (unat n) buf"
      using vs'(4) True vs by (simp add: x k content_def)
    have "length (take (unat ?x) vs') = unat ?x"
      unfolding tk using sz n vs by (simp add: x content_def)
    then have len: "unat ?x \<le> length vs'" by simp
    obtain s2 where s2: "cluster_write_16bit s1 2 (of_nat i * 16 + of_nat 13) ?x = Some (0, s2)" "fs_inv s2"
        "files s2 = (files s)[i := Some (c_str (fe_name e), content s e @ take (unat n) buf)]"
      using size_written [OF s1(1) _ _ vs'(1) len] i e unfolding s1(2,3) tk by blast
    have "fs_write s (int i) buf n = Some (0, s2)"
      using w True s2(1)
      by (simp add: fs_write_def get fe_head_def [symmetric] rootdir_set_file_size_def entry_consts
          calculate_file_entry_offset_def)
    then show ?thesis using s2(2,3) by blast
  qed
qed

lemma touches_view:
  assumes "fs_wf s" and "only_touches s C s'" and "chain_of s a = Some ds" and "set ds \<inter> C = {}"
  shows "chain_of s' a = Some ds" and "view s' a = view s a"
proof -
  have ch: "chain s ds" "hd ds = a" using assms(1,3) by (simp_all add: chain_of_iff)
  have wf': "fs_wf s'" and c': "chain s' ds" "chain_bytes s' ds = chain_bytes s ds"
    using assms(2,4) ch by (auto simp: only_touches_def)
  show "chain_of s' a = Some ds" using wf' c' ch by (simp add: chain_of_iff)
  then show "view s' a = view s a" using wf' assms(1,3) c' by (simp add: view_def)
qed

lemma apartD:
  assumes "apart s a b"
  obtains cs ds where "chain_of s a = Some cs" "chain_of s b = Some ds" "set cs \<inter> set ds = {}"
  using assms by (auto simp: apart_def split: option.splits)

text \<open>Creating. A free slot gets the name, cut to 12 characters, and an empty content in a cluster of its
  own; or the disk is full and nothing changes.\<close>

lemma alloc_cluster_eq:
  assumes "fs_wf s"
  shows "FAT_allocate_cluster s = Some (case free_list s of [] \<Rightarrow> (0xFF, s) | c # _ \<Rightarrow> (c, set_fat s c 0xFF))"
  using alloc_eq [OF assms] by (simp add: FAT_allocate_cluster_def split: list.split)

lemma alloc_fresh:
  assumes wf: "fs_wf s" and full: "fs_full_size s" and c: "c \<in> set (free_list s)"
  shows "chain_of (set_fat s c 0xFF) c = Some [c]"
    and "chain_of s a = Some ds \<Longrightarrow> chain_of (set_fat s c 0xFF) a = Some ds \<and>
      view (set_fat s c 0xFF) a = view s a \<and> apart (set_fat s c 0xFF) a c"
    and "apart s a b \<Longrightarrow> apart (set_fat s c 0xFF) a b"
proof -
  let ?s = "set_fat s c 0xFF"
  have dc: "data_cluster s c" by (rule free_list_data [OF wf full c])
  note lt = free_list_lt [OF wf c]
  have wf': "fs_wf ?s" using wf by simp
  have "chain ?s [c]" using dc lt(1) wf by (simp add: fat_set_fat)
  then show c1: "chain_of ?s c = Some [c]" using wf' by (simp add: chain_of_iff)
  have t: "only_touches s {c} ?s"
  proof -
    have "chain ?s ds \<and> chain_bytes ?s ds = chain_bytes s ds" if d: "chain s ds" and n: "set ds \<inter> {c} = {}" for ds
    proof
      have l: "unat x < csize s" "x \<noteq> 1" if "x \<in> set ds" for x
        using data_cluster_lt [OF wf chain_data [OF d that]] by simp_all
      show "chain ?s ds"
        using l n lt(1) by (intro chain_cong [OF d]) (auto simp: fat_set_fat wf)
      show "chain_bytes ?s ds = chain_bytes s ds"
        using l chain_data [OF d] lt(1) by (intro chain_bytes_cong) (auto simp: byte_at_set_fat wf)
    qed
    then show ?thesis by (simp add: only_touches_def wf geometry_set_fat)
  qed
  have nin: "set ds \<inter> {c} = {}" if "chain_of s a = Some ds" for a ds
    using chain_not_free [OF wf, of ds] that c wf by (auto simp: chain_of_iff)
  show *: "chain_of ?s a = Some ds \<and> view ?s a = view s a \<and> apart ?s a c" if "chain_of s a = Some ds" for a ds
    using touches_view [OF wf t that nin [OF that]] nin [OF that] c1 by (auto simp: apart_def)
  show "apart ?s a b" if ab: "apart s a b"
    by (rule apartD [OF ab]) (use * in \<open>auto simp: apart_def\<close>)
qed

text \<open>Taking a free cluster as a chain of its own changes no file; an entry for it is sound and apart from the others.\<close>

lemma claim_step:
  assumes inv: "fs_inv s" and c: "c \<in> set (free_list s)"
  shows "fs_inv (set_fat s c 0xFF)" and "files (set_fat s c 0xFF) = files s" and "dir_of (set_fat s c 0xFF) = dir_of s"
    and "rootdir (set_fat s c 0xFF) = rootdir s"
    and "fe_head e = c \<Longrightarrow> fe_file_size e = 0 \<Longrightarrow> entry_sound (set_fat s c 0xFF) (Some e)"
    and "fe_head e = c \<Longrightarrow> j < length (dir_of s) \<Longrightarrow> entries_apart (set_fat s c 0xFF) (Some e) (dir_of s ! j)"
proof -
  let ?s = "set_fat s c 0xFF"
  obtain bs where rb: "rootdir s = Some bs" and wf: "fs_wf s" using fs_inv_root [OF inv] by metis
  have full: "fs_full_size s" using inv by (simp add: fs_inv_def)
  note fresh = alloc_fresh [OF wf full c]
  obtain rcs where rcs: "chain_of s 2 = Some rcs" using rb wf by (auto simp: view_def)
  show root: "rootdir ?s = rootdir s" using fresh(2) [OF rcs] rb by simp
  have ent: "apart ?s 2 (fe_head e) \<and> unat (fe_file_size e) \<le> length (the (view ?s (fe_head e))) \<and>
      content ?s e = content s e \<and> apart ?s (fe_head e) c"
    if j: "j < length (dir_of s)" "dir_of s ! j = Some e" for j e
  proof -
    obtain ds where ds: "chain_of s (fe_head e) = Some ds"
      using fs_inv_entry(1) [OF inv j] by (rule apartD)
    show ?thesis
      using fresh(2) [OF ds] fresh(3) [OF fs_inv_entry(1) [OF inv j]] fs_inv_entry(2) [OF inv j]
      by (simp add: content_def)
  qed
  show "fs_inv ?s" "files ?s = files s" and dir: "dir_of ?s = dir_of s"
    using same_step [OF inv geometry_set_fat [OF wf]] rb root ent fresh(3) fs_inv_pair [OF inv] by simp_all
  show "entry_sound ?s (Some e)" if "fe_head e = c" "fe_file_size e = 0"
    using fresh(2) [OF rcs] that by (simp add: entry_sound_def)
  show "entries_apart ?s (Some e) (dir_of s ! j)" if "fe_head e = c" "j < length (dir_of s)"
    using ent that by (auto simp: entries_apart_def apart_sym [of _ c] split: option.split)
qed

text \<open>Giving back a chain that belongs to no file and not to the table changes no file.\<close>

lemma release_step:
  assumes inv: "fs_inv s" and cs: "chain_of s h = Some cs" and root: "apart s 2 h"
    and others: "\<And>j e. j < length (dir_of s) \<Longrightarrow> dir_of s ! j = Some e \<Longrightarrow> apart s h (fe_head e)"
  shows "fs_inv (release s cs)" and "files (release s cs) = files s"
proof -
  let ?s = "release s cs"
  have wf: "fs_wf s" using fs_inv_root [OF inv] by metis
  have ch: "chain s cs" using cs wf by (simp add: chain_of_iff)
  have tch: "only_touches s (set cs) ?s"
    using data_cluster_lt(1) [OF wf chain_data [OF ch]] by (intro release_touches wf)
  obtain rcs where rcs: "chain_of s 2 = Some rcs" "set rcs \<inter> set cs = {}" using root cs by (auto elim: apartD)
  have keep: "\<exists>ds. chain_of s (fe_head e) = Some ds \<and> chain_of ?s (fe_head e) = Some ds \<and> view ?s (fe_head e) = view s (fe_head e)"
    if j: "j < length (dir_of s)" "dir_of s ! j = Some e" for j e
  proof -
    obtain ds where "chain_of s (fe_head e) = Some ds" "set cs \<inter> set ds = {}"
      using others [OF j] cs by (auto elim: apartD)
    with touches_view [OF wf tch, of "fe_head e" ds] show ?thesis by auto
  qed
  have keep2: "chain_of ?s 2 = Some rcs" "view ?s 2 = view s 2"
    using touches_view [OF wf tch rcs] by simp_all
  have ent: "apart ?s 2 (fe_head e) \<and> unat (fe_file_size e) \<le> length (the (view ?s (fe_head e))) \<and> content ?s e = content s e"
    if j: "j < length (dir_of s)" "dir_of s ! j = Some e" for j e
    using keep [OF j] keep2 rcs(1) fs_inv_entry [OF inv j] by (auto simp: apart_def content_def)
  have pair: "apart ?s (fe_head e1) (fe_head e2)"
    if "j < length (dir_of s)" "k < length (dir_of s)" "j \<noteq> k" "dir_of s ! j = Some e1" "dir_of s ! k = Some e2" for j k e1 e2
    using fs_inv_pair [OF inv that] keep [OF that(1,4)] keep [OF that(2,5)] by (auto simp: apart_def)
  show "fs_inv ?s" "files ?s = files s"
    using same_step [OF inv geometry_release [OF wf] keep2(2) ent pair] by simp_all
qed

text \<open>Writing a new entry into a block of the table.\<close>

lemma new_entry_ex:
  assumes rb: "rootdir s = Some bs" and i16: "16 * i + 16 \<le> length bs" and t: "terminated f" and ne: "c_str f \<noteq> []"
    and c: "unat (ucast c :: u8) \<noteq> 0" "(ucast c :: u8) \<noteq> 0xFF"
  shows "\<exists>s' n. rootdir_set_file_entry s (of_nat i) (Some f) 0 (ucast c) = Some (0, s') \<and> tfs_frame s 2 s' \<and> rootdir s' \<noteq> None \<and>
    c_str n = take 12 (c_str f) \<and>
    dir_of s' = (dir_of s)[i := Some \<lparr>fe_name = n, fe_data_cluster = ucast c, fe_file_size = 0\<rparr>]"
proof -
  have c8: "(ucast c :: u8) \<noteq> 0" using c(1) by auto
  obtain s2 where s2: "rootdir_set_file_entry s (of_nat i) (Some f) 0 (ucast c) = Some (0, s2)"
      "rootdir s2 = Some (put_block bs i (entry_block (block bs i) f 0 (ucast c)))" "tfs_frame s 2 s2"
    using set_file_entry_ex [OF rb i16 t c8 c(2), of 0] by blast
  obtain n where n: "entry_of (entry_block (block bs i) f 0 (ucast c)) =
        Some \<lparr>fe_name = n, fe_data_cluster = ucast c, fe_file_size = 0\<rparr>" "c_str n = take 12 (c_str f)"
    using entry_of_block [OF length_block [OF i16] t ne] by blast
  have "dir_of s2 = (dir_of s)[i := Some \<lparr>fe_name = n, fe_data_cluster = ucast c, fe_file_size = 0\<rparr>]"
    using dir_of_put [OF rb i16 length_entry_block [OF length_block [OF i16] t] s2(2)] n(1) by simp
  then show ?thesis using s2 n(2) by auto
qed

lemma fs_create_law:
  assumes inv: "fs_inv s" and t: "terminated f" and ne: "c_str f \<noteq> []" and free: "None \<in> set (dir_of s)"
  shows "\<exists>r s'. fs_create_file s (Some f) = Some (r, s') \<and> fs_inv s' \<and>
    (free_list s \<noteq> [] \<and> r = free_slot (files s) \<and> 0 \<le> r \<and>
       files s' = (files s)[nat r := Some (take 12 (c_str f), [])] \<or>
     free_list s = [] \<and> r = - FS_DISK_FULL \<and> files s' = files s)"
proof -
  obtain bs where ok: "dir_ok s bs" and rb: "rootdir s = Some bs" and db: "dir_of s = entries bs" and wf: "fs_wf s"
    using fs_inv_root [OF inv] by metis
  have fs: "free_slot (files s) = first_index (\<lambda>e. e = None) (dir_of s)"
    by (simp add: free_slot_def files_def first_index_map)
  obtain i where i: "first_index (\<lambda>e. e = None) (dir_of s) = int i" "i < length (dir_of s)"
    by (cases rule: first_index_cases [of "\<lambda>e. e = None" "dir_of s"]) (use free in auto)
  have idx: "rootdir_find_free_index s = Some (int i)"
    using find_free_eq [OF ok] free i(1) by (simp add: db)
  show ?thesis
  proof (cases "free_list s")
    case Nil
    then have "fs_create_file s (Some f) = Some (- FS_DISK_FULL, s)"
      by (simp add: fs_create_file_def rootdir_create_file_def idx alloc_cluster_eq [OF wf])
    then show ?thesis using inv Nil by blast
  next
    case (Cons c cl)
    let ?s = "set_fat s c 0xFF"
    have c: "c \<in> set (free_list s)" using Cons by simp
    note claim = claim_step [OF inv c] and lt = free_list_lt [OF wf c]
    have i16: "16 * i + 16 \<le> length bs" using i by (simp add: db in_table [symmetric])
    have cb: "(ucast (ucast c :: u8) :: u32) = c" using free_lt_u8 [OF wf c] by (rule ucast_u8_back)
    have c8: "unat (ucast c :: u8) \<noteq> 0" "(ucast c :: u8) \<noteq> 0xFF" using cb lt(2,3) by (auto simp: unat_eq_0)
    have "rootdir ?s = Some bs" using claim(4) rb by simp
    from new_entry_ex [OF this i16 t ne c8] obtain s2 n where s2: "rootdir_set_file_entry ?s (of_nat i) (Some f) 0 (ucast c) = Some (0, s2)"
      "tfs_frame ?s 2 s2" "rootdir s2 \<noteq> None" "c_str n = take 12 (c_str f)"
      "dir_of s2 = (dir_of ?s)[i := Some \<lparr>fe_name = n, fe_data_cluster = ucast c, fe_file_size = 0\<rparr>]" (is "_ = _[i := Some ?e]")
      by blast
    have hd: "fe_head ?e = c" "fe_file_size ?e = 0" by (simp_all add: fe_head_def cb)
    have "i < length (dir_of ?s)" using i by (simp add: claim)
    note r = root_step [OF claim(1) this s2(2,3,5) claim(5) [OF hd]]
    have oth: "entries_apart ?s (Some ?e) (dir_of ?s ! j)" if "j < length (dir_of ?s)" "j \<noteq> i" for j
      using claim(6) [OF hd(1)] that by (simp add: claim(3))
    have "fs_create_file s (Some f) = Some (int i, s2)"
      using s2(1) Cons lt(3) by (simp add: fs_create_file_def rootdir_create_file_def idx alloc_cluster_eq [OF wf])
    moreover have "files s2 = (files s)[i := Some (take 12 (c_str f), [])]"
      using r(2) [OF oth] by (simp add: claim(2) s2(4) content_def)
    ultimately show ?thesis using r(1) [OF oth] i(1) Cons by (simp add: fs)
  qed
qed

text \<open>Deleting frees the slot and the clusters.\<close>

lemma entry_of_deleted: "length B = 16 \<Longrightarrow> entry_of (B[0 := 0]) = None"
  by (simp add: entry_of_def)

lemma fs_delete_law:
  assumes inv: "fs_inv s" and t: "terminated f" and sl: "slot_of (c_str f) (files s) = int i"
  shows "\<exists>s'. fs_delete s (Some f) = Some (0, s') \<and> fs_inv s' \<and> files s' = (files s)[i := None]"
proof -
  obtain bs where ok: "dir_ok s bs" and rb: "rootdir s = Some bs" and db: "dir_of s = entries bs" and wf: "fs_wf s"
    using fs_inv_root [OF inv] by metis
  have i: "i < length (dir_of s)" and nm: "named (c_str f) (files s ! i)"
    using first_index_Some [OF sl [unfolded slot_of_def]] by simp_all
  then obtain e where e: "dir_of s ! i = Some e"
    by (cases "dir_of s ! i") (auto simp: files_def named_def)
  have find: "rootdir_find_file s (Some f) = Some (int i)"
    using fs_open_eq [OF inv t] sl by (simp add: fs_open_def)
  have get: "rootdir_get_file_entry s (of_nat i) = Some (0, Some e)"
    using get_entry_entries [OF rb, of i] i e by (simp add: db)
  have i16: "16 * i + 16 \<le> length bs" using i by (simp add: db in_table [symmetric])
  obtain s1 where s1: "cluster_write_8bit s 2 (of_nat i * 16 + of_nat 0) 0 = Some (0, s1)"
    "rootdir s1 = Some (put_block bs i ((block bs i)[0 := 0]))" "tfs_frame s 2 s1"
    using table_write_byte [OF rb i16, of 0 0] by auto
  have d1: "dir_of s1 = (dir_of s)[i := None]"
    using dir_of_put [OF rb i16 _ s1(2)] length_block [OF i16] entry_of_deleted [OF length_block [OF i16]] by simp
  have "rootdir s1 \<noteq> None" "entry_sound s None" "\<And>j. entries_apart s None (dir_of s ! j)"
    using s1(2) by (simp_all add: entry_sound_def entries_apart_def)
  note r1 = root_step [OF inv i s1(3) this(1) d1 this(2,3)]
  have inv1: "fs_inv s1" and f1: "files s1 = (files s)[i := None]" using r1 by simp_all
  have wf1: "fs_wf s1" using fs_inv_root [OF inv1] by metis
  have ap: "apart s1 2 (fe_head e)" using frameD(3) [OF s1(3) fs_inv_entry(1) [OF inv i e]] .
  then obtain cs where cs: "chain_of s1 (fe_head e) = Some cs" by (rule apartD)
  have "apart s1 (fe_head e) (fe_head e')" if j: "j < length (dir_of s1)" "dir_of s1 ! j = Some e'" for j e'
  proof -
    have ji: "j \<noteq> i" "dir_of s ! j = Some e'" "j < length (dir_of s)"
      using j d1 i by (auto simp: nth_list_update split: if_splits)
    then show ?thesis
      using frameD(4) [OF s1(3) fs_inv_entry(1) [OF inv i e] fs_inv_entry(1) [OF inv ji(3,2)]]
        fs_inv_pair [OF inv i ji(3) _ e ji(2)] by simp
  qed
  note rel = release_step [OF inv1 cs ap this]
  have ch: "chain s1 cs" "hd cs = fe_head e" using cs wf1 by (simp_all add: chain_of_iff)
  have "free_clusters s1 (fe_head e) = Some (0, release s1 cs)"
    using free_clusters_chain [OF wf1 ch(1)] ch(2) by simp
  then have "fs_delete s (Some f) = Some (0, release s1 cs)"
    using s1(1) by (simp add: fs_delete_def find rootdir_delete_file_def get rootdir_mark_file_deleted_def
        entry_consts fe_head_def)
  with rel f1 show ?thesis by auto
qed

subsection \<open>The operations are a table of files\<close>

interpretation tinyfs_files: file_table fs_open fs_create_file fs_delete fs_write files fs_inv "- FS_DISK_FULL"
proof
  fix s f assume s: "fs_inv s" "terminated f"
  then show "fs_open s (Some f) = Some (slot_of (c_str f) (files s))" by (rule fs_open_eq)
  { assume ne: "c_str f \<noteq> []" and n: "None \<in> set (files s)"
    then have "None \<in> set (dir_of s)" by (auto simp: files_def)
    from fs_create_law [OF s ne this] show "\<exists>r s'. fs_create_file s (Some f) = Some (r, s') \<and> fs_inv s' \<and>
      (r = free_slot (files s) \<and> 0 \<le> r \<and> files s' = (files s)[nat r := Some (take 12 (c_str f), [])] \<or>
       r = - FS_DISK_FULL \<and> files s' = files s)" by blast }
  { assume "slot_of (c_str f) (files s) = -1"
    then have "rootdir_find_file s (Some f) = Some (-1)" using fs_open_eq [OF s] by (simp add: fs_open_def)
    then show "fs_delete s (Some f) = Some (-1, s)" by (simp add: fs_delete_def) }
  fix i assume "slot_of (c_str f) (files s) = int i"
  from fs_delete_law [OF s this]
  show "\<exists>s'. fs_delete s (Some f) = Some (0, s') \<and> fs_inv s' \<and> files s' = (files s)[i := None]" .
next
  fix s i m c and n :: u32 and b :: "u8 list"
  assume inv: "fs_inv s" and i: "i < length (files s)" and f: "files s ! i = Some (m, c)"
    and sz: "length c + unat n < 65536" and b: "unat n \<le> length b"
  then obtain e where e: "dir_of s ! i = Some e" and m: "m = c_str (fe_name e)" and c: "c = content s e"
    by (cases "dir_of s ! i") (auto simp: files_def)
  have i': "i < length (dir_of s)" using i by simp
  have "length c = unat (fe_file_size e)" using fs_inv_entry(2) [OF inv i' e] by (simp add: c content_def)
  then show "\<exists>r s'. fs_write s (int i) b n = Some (r, s') \<and> fs_inv s' \<and>
      (r = 0 \<and> files s' = (files s)[i := Some (m, c @ take (unat n) b)] \<or> r = - FS_DISK_FULL \<and> files s' = files s)"
    using fs_write_law [OF inv i' e _ b] sz by (simp add: m c)
qed

text \<open>A command of a user of the files: append is open followed by write.\<close>

fun fs_exec :: "dir_cmd \<Rightarrow> tinyfs \<Rightarrow> (int \<times> tinyfs) option" where
  "fs_exec (Create f) s = fs_create_file s (Some f)"
| "fs_exec (Append f b n) s = do { h \<leftarrow> fs_open s (Some f); if h < 0 then Some (h, s) else fs_write s h b n }"
| "fs_exec (Remove f) s = fs_delete s (Some f)"

lemma fs_exec_eq: "tinyfs_files.exec = fs_exec"
proof (intro ext)
  show "tinyfs_files.exec c s = fs_exec c s" for c s by (cases c) simp_all
qed

subsection \<open>A table that has to grow\<close>

lemma entries_append:
  assumes "16 dvd length bs"
  shows "entries (bs @ cs) = entries bs @ entries cs"
proof -
  obtain n where n: "length bs = 16 * n" using assms by (auto elim: dvdE)
  have "block (bs @ cs) i = (if i < n then block bs i else block cs (i - n))" for i
  proof (cases "i < n")
    case True
    then have "16 * i + 16 \<le> length bs" using n by simp
    then show ?thesis using True by (simp add: block_def)
  next
    case False
    then have "drop (16 * i) (bs @ cs) = drop (16 * (i - n)) cs"
      using n by (simp add: diff_mult_distrib2)
    then show ?thesis using False by (simp add: block_def)
  qed
  then show ?thesis
    using n by (intro nth_equalityI) (auto simp: entries_def nth_append)
qed

lemma first_index_none: "\<forall>x \<in> set xs. \<not> P x \<Longrightarrow> first_index P xs = -1"
  by (simp add: first_index_None)

lemma set_file_entry_grow:
  assumes wf: "fs_wf s" and full: "fs_full_size s" and ch: "chain s cs" and h: "hd cs = 2"
    and fl: "free_list s = f # fl" and k: "unat (of_nat n * 16 :: u32) = length cs * csize s"
    and t: "terminated name" and c: "c \<noteq> 0" "c \<noteq> 0xFF"
  shows "rootdir_set_file_entry s (of_nat n) (Some name) sz c =
    rootdir_set_file_entry (grow s (last cs) [f]) (of_nat n) (Some name) sz c"
proof -
  let ?g = "grow s (last cs) [f]"
  have q: "unat (of_nat n * 16 :: u32) div csize s = length cs"
    using csize_pos [OF wf] by (simp add: k)
  have b: "cluster_write_8bit s 2 (of_nat n * 16) v = cluster_write_8bit ?g 2 (of_nat n * 16) v" for v
  proof -
    have cg: "chain ?g (cs @ [f])"
      using chain_grow [OF wf full ch, of "[f]" fl] fl by simp
    have "hd (cs @ [f]) = 2" using h chain_not_Nil [OF ch] by simp
    then show ?thesis
      using write8_beyond(1) [OF wf ch, of "of_nat n * 16" v] full fl h q
        write8_in_chain [OF _ cg, of "of_nat n * 16" v] wf
      by (simp add: cluster_write_8bit_def nth_append)
  qed
  have "cluster_write_data s 2 (of_nat n * 16) name (of_nat len) =
      cluster_write_data ?g 2 (of_nat n * 16) name (of_nat len)" if "0 < len" "len \<le> 13" for len
  proof -
    have u: "unat (of_nat len :: u32) = len" using that by (intro unat_of_nat_u32) simp
    show ?thesis
      using that(1) b by (simp add: cluster_write_data_def u for_loop_step)
  qed
  then have "cluster_write_data s 2 (of_nat n * 16) name
        (of_nat (if MAX_FILENAME_SIZE < length (c_str name) + 1 then MAX_FILENAME_SIZE else length (c_str name) + 1)) =
      cluster_write_data ?g 2 (of_nat n * 16) name
        (of_nat (if MAX_FILENAME_SIZE < length (c_str name) + 1 then MAX_FILENAME_SIZE else length (c_str name) + 1))"
    by (simp add: MAX_FILENAME_SIZE_def)
  then show ?thesis
    unfolding rootdir_set_file_entry_def option.case strlen_terminated [OF t] bind.bind_lunit Let_def
    using c by (simp add: calculate_file_entry_offset_def entry_consts)
qed

lemma free_index_none:
  assumes "dir_ok s bs" and "None \<notin> set (entries bs)"
  shows "rootdir_find_free_index s = Some (int (length bs div 16))"
proof -
  have "first_index (\<lambda>e. e = None) (entries bs) = -1"
    unfolding first_index_None using assms(2) by metis
  then show ?thesis
    using free_index_from_eq [of s bs 0 "length bs div 16" None] assms(1)
    by (simp add: rootdir_find_free_index_def table_size_eq dir_ok_def first_index_def)
qed

text \<open>The table after the cluster of the file and one for the table itself have been taken.\<close>

lemma grown_table:
  assumes wf: "fs_wf s" and fsz: "fs_full_size s" and ch: "chain s cs" and h: "hd cs = 2" and rb: "rootdir s = Some bs"
    and c: "c \<in> set (free_list s)" and g: "g \<in> set (free_list s)" "g \<noteq> c" and fl1: "free_list (set_fat s c 0xFF) = g # fl"
  shows "rootdir (grow (set_fat s c 0xFF) (last cs) [g]) = Some (bs @ cluster_bytes s g)"
    and "chain (set_fat s c 0xFF) cs" and "fs_wf (set_fat s c 0xFF)"
proof -
  note lt = free_list_lt [OF wf c]
  let ?s = "set_fat s c 0xFF"
  show wf1: "fs_wf ?s" using wf by simp
  have rcs: "chain_of s 2 = Some cs" using ch h wf by (simp add: chain_of_iff)
  show ch1: "chain ?s cs" using alloc_fresh(2) [OF wf fsz c rcs] wf1 by (simp add: chain_of_iff)
  have v1: "rootdir ?s = Some bs" using alloc_fresh(2) [OF wf fsz c rcs] rb by simp
  let ?g = "grow ?s (last cs) [g]"
  have e1: "is_end ?s (last cs)" using wf1 ch1 by (rule chain_is_end)
  have wfg: "fs_wf ?g" using wf1 by (intro grow_wf)
  have fl1': "free_list ?s = [g] @ fl" using fl1 by simp
  have fsz1: "fs_full_size ?s" using fsz by simp
  have chg: "chain ?g (cs @ [g])"
    using chain_grow [OF wf1 fsz1 ch1 fl1'] .
  have cb: "chain_bytes ?g (cs @ [g]) = bs @ cluster_bytes s g"
  proof -
    have "chain_bytes ?g cs = chain_bytes ?s cs"
      using byte_at_grow [OF wf1 e1 fl1'] chain_data [OF ch1] data_cluster_lt(4) [OF wf1]
      by (intro chain_bytes_cong) auto
    moreover have "chain_bytes ?s cs = bs"
      using v1 wf1 alloc_fresh(2) [OF wf fsz c rcs] by (simp add: view_def)
    moreover have "cluster_bytes ?g g = cluster_bytes s g"
    proof (rule cluster_bytes_cong)
      have dg: "data_cluster s g" by (rule free_list_data [OF wf fsz g(1)])
      then show "data_cluster s g" "data_cluster ?g g" by simp_all
      show "byte_at ?g g j = byte_at s g j" if "j < csize s" for j
        using byte_at_grow [OF wf1 e1 fl1', of j g] that free_list_lt(4) [OF wf g(1)] lt(1)
        by (simp add: byte_at_set_fat wf)
    qed simp
    ultimately show ?thesis by simp
  qed
  show "rootdir ?g = Some (bs @ cluster_bytes s g)"
    using view_chain [OF wfg chg] cb h chain_not_Nil [OF ch] by simp
qed

lemma create_grows:
  assumes inv: "fs_inv s" and full: "None \<notin> set (dir_of s)" and sz: "16 dvd csize s"
    and fl: "free_list s = c # g # fl" and t: "terminated f" and ne: "c_str f \<noteq> []"
  shows "\<exists>s' n. fs_create_file s (Some f) = Some (int (length (dir_of s)), s') \<and>
    c_str n = take 12 (c_str f) \<and>
    dir_of s' = dir_of s @ Some \<lparr>fe_name = n, fe_data_cluster = ucast c, fe_file_size = 0\<rparr> #
      tl (entries (cluster_bytes s g))"
proof -
  obtain bs where ok: "dir_ok s bs" and rb: "rootdir s = Some bs" and db: "dir_of s = entries bs" and wf: "fs_wf s"
    using fs_inv_root [OF inv] by metis
  have fsz: "fs_full_size s" using inv by (simp add: fs_inv_def)
  obtain cs where ch: "chain s cs" and h: "hd cs = 2" and bs: "bs = chain_bytes s cs"
    using rb by (auto simp: view_Some)
  have lbs: "length bs = length cs * csize s"
    using length_chain_bytes [of cs s] chain_data [OF ch] by (simp add: bs)
  then have d16: "16 dvd length bs" using sz by simp
  let ?n = "length bs div 16"
  have n16: "16 * ?n = length bs" using d16 by simp
  have c: "c \<in> set (free_list s)" and g: "g \<in> set (free_list s)" "g \<noteq> c"
    using fl distinct_free_list [OF wf] by auto
  note lt = free_list_lt [OF wf c]
  let ?s = "set_fat s c 0xFF"
  have "free_list ?s = filter (\<lambda>d. d \<noteq> c) (free_list s)"
    by (rule free_list_set_fat [OF wf lt(1)]) simp
  then have fl1: "free_list ?s = g # fl"
    using fl distinct_free_list [OF wf] by (auto simp: filter_id_conv)
  have k: "unat (of_nat ?n * 16 :: u32) = length bs"
  proof -
    have "of_nat ?n * 16 = (of_nat (16 * ?n) :: u32)" by simp
    then show ?thesis
      using tinyfs_store.view_bound [OF rb] by (simp only: n16 unat_of_nat_u32)
  qed
  let ?g = "grow ?s (last cs) [g]"
  note gt = grown_table [OF wf fsz ch h rb c g fl1]
  note vg = gt(1) and ch1 = gt(2) and wf1 = gt(3)
  have fsz1: "fs_full_size ?s" using fsz by simp
  have lcb: "length (cluster_bytes s g) = csize s"
    by (rule length_cluster_bytes [OF free_list_data [OF wf fsz g(1)]])
  have c16: "16 \<le> csize s" using sz csize_pos [OF wf] by (auto dest: dvd_imp_le)
  have i16: "16 * ?n + 16 \<le> length (bs @ cluster_bytes s g)" using n16 c16 lcb by simp
  have ub: "(ucast (ucast c :: u8) :: u32) = c" using free_lt_u8 [OF wf c] by (rule ucast_u8_back)
  have c8: "unat (ucast c :: u8) \<noteq> 0" "(ucast c :: u8) \<noteq> 0" "(ucast c :: u8) \<noteq> 0xFF"
    using ub lt(2,3) by (auto simp: unat_eq_0)
  obtain s2 n where s2: "rootdir_set_file_entry ?g (of_nat ?n) (Some f) 0 (ucast c) = Some (0, s2)"
    and cn: "c_str n = take 12 (c_str f)"
    and d2: "dir_of s2 = (dir_of ?g)[?n := Some \<lparr>fe_name = n, fe_data_cluster = ucast c, fe_file_size = 0\<rparr>]"
    using new_entry_ex [OF vg i16 t ne c8(1,3)] by blast
  have "dir_of s2 = (entries (bs @ cluster_bytes s g))[?n := Some \<lparr>fe_name = n, fe_data_cluster = ucast c, fe_file_size = 0\<rparr>]"
    using d2 vg by (simp add: dir_of_def)
  also have "\<dots> = dir_of s @ Some \<lparr>fe_name = n, fe_data_cluster = ucast c, fe_file_size = 0\<rparr> #
      tl (entries (cluster_bytes s g))"
  proof -
    have "entries (cluster_bytes s g) \<noteq> []" using c16 lcb by (auto simp: entries_def div_eq_0_iff)
    then show ?thesis
      by (cases "entries (cluster_bytes s g)") (simp_all add: entries_append [OF d16] db list_update_append)
  qed
  finally have d: "dir_of s2 = dir_of s @ Some \<lparr>fe_name = n, fe_data_cluster = ucast c, fe_file_size = 0\<rparr> #
      tl (entries (cluster_bytes s g))" .
  have "rootdir_set_file_entry ?s (of_nat ?n) (Some f) 0 (ucast c) =
      rootdir_set_file_entry ?g (of_nat ?n) (Some f) 0 (ucast c)"
    using k lbs by (intro set_file_entry_grow [OF wf1 fsz1 ch1 h fl1 _ t c8(2,3)]) simp
  then have "fs_create_file s (Some f) = Some (int ?n, s2)"
    using s2(1) fl lt(3) free_index_none [OF ok] full
    by (simp add: fs_create_file_def rootdir_create_file_def alloc_cluster_eq [OF wf] db)
  then show ?thesis using d cn by (auto simp: db)
qed

subsection \<open>Properties\<close>

lemma sample_dir:
  "dir_of sample_fs = [Some \<lparr>fe_name = [0x61, 0, 0, 0, 0, 0, 0, 0, 0, 0, 0, 0, 0], fe_data_cluster = 3, fe_file_size = 3\<rparr>]"
proof -
  have "block [0x61, 0, 0, 0, 0, 0, 0, 0, 0, 0, 0, 0, 0, 0, 3, 3] 0 =
      [0x61, 0, 0, 0, 0, 0, 0, 0, 0, 0, 0, 0, 0, 0, 3, 3]"
    by (simp add: block_def)
  then show ?thesis
    by (simp add: dir_of_def sample_view entries_def entry_of_def)
qed

lemma sample_apart: "apart sample_fs 2 3"
  using chain_of_Some [OF sample_wf sample_chains(1)] chain_of_Some [OF sample_wf sample_chains(2)]
  by (simp add: apart_def)

lemma sample_inv: "fs_inv sample_fs"
  using sample_apart
  by (simp add: fs_inv_def sample_full sample_view sample_dir entry_sound_def fe_head_def)
    (simp add: sample_fs_def)

lemma sample_sound: "fs_sound sample_fs"
  using sample_inv unfolding fs_inv_sound by blast

lemma sample_files: "files sample_fs = [Some ([0x61], [0x78, 0x79, 0x7A])]"
  by (simp add: files_def sample_dir content_def fe_head_def sample_view)

text \<open>A second volume: seven clusters of 32 bytes. The root directory holds \<open>a\<close> in cluster 3 and, when
  \<open>b\<close> is not 0, a file of that name in cluster 4; clusters 5 and 6 are free, but in cluster 6 a block
  from an earlier use remains.\<close>

definition grow_fs :: "u8 \<Rightarrow> tinyfs" where
  "grow_fs b = \<lparr>image = Some (
      replicate 32 0 @
      [0xFF, 0xFF, 0xFF, 0xFF, 0xFF, 0, 0] @ replicate 25 0 @
      [0x61, 0, 0, 0, 0, 0, 0, 0, 0, 0, 0, 0, 0, 0, 0, 3,
       b, 0, 0, 0, 0, 0, 0, 0, 0, 0, 0, 0, 0, 0, 0, 4] @
      replicate 32 0 @ replicate 32 0 @ replicate 32 0 @ replicate 16 0 @
      [0x7A, 0, 0, 0, 0, 0, 0, 0, 0, 0, 0, 0, 0, 0, 16, 3]),
    cl_ptr = True, cl_size = 32, cl_count = 7, fat_count = 7, fat_size = 32, root_size = 32,
    di_ptr = True, di_image_size = 224, di_count = 7, di_size = 32\<rparr>"

lemma grow_geo: "csize (grow_fs b) = 32" "ccount (grow_fs b) = 7" "root_size (grow_fs b) = 32"
    "cl_size (grow_fs b) = 32"
  by (simp_all add: grow_fs_def)

lemma grow_wf_full: "fs_wf (grow_fs b)" "fs_full_size (grow_fs b)"
  by (simp_all add: fs_wf_def fs_full_size_def grow_fs_def)

lemma grow_data: "data_cluster (grow_fs b) c = (2 \<le> unat c \<and> unat c < 7)"
  by (auto simp: data_cluster_def grow_fs_def)

lemma grow_fat: "fat (grow_fs b) 2 = 0xFF" "fat (grow_fs b) 3 = 0xFF" "fat (grow_fs b) 4 = 0xFF"
    "fat (grow_fs b) 5 = 0" "fat (grow_fs b) 6 = 0"
  by (simp_all add: fat_def byte_at_def grow_fs_def nth_append)

lemma grow_chains: "chain (grow_fs b) [2]" "chain (grow_fs b) [3]" "chain (grow_fs b) [4]"
  by (simp_all add: grow_data grow_fat)

lemma grow_free: "free_list (grow_fs b) = [5, 6]"
proof -
  have "[3..<ccount (grow_fs b)] = [3, 4, 5, 6]" by (simp add: grow_geo upt_rec)
  then show ?thesis by (simp add: free_list_def grow_fat)
qed

lemma grow_bytes:
  "cluster_bytes (grow_fs b) 2 = [0x61, 0, 0, 0, 0, 0, 0, 0, 0, 0, 0, 0, 0, 0, 0, 3,
     b, 0, 0, 0, 0, 0, 0, 0, 0, 0, 0, 0, 0, 0, 0, 4]"
  "cluster_bytes (grow_fs b) 6 = replicate 16 0 @ [0x7A, 0, 0, 0, 0, 0, 0, 0, 0, 0, 0, 0, 0, 0, 16, 3]"
  by (simp_all add: cluster_bytes_def grow_fs_def)

lemma grow_views: "rootdir (grow_fs b) = Some (cluster_bytes (grow_fs b) 2)"
    "view (grow_fs b) 3 = Some (cluster_bytes (grow_fs b) 3)"
    "view (grow_fs b) 4 = Some (cluster_bytes (grow_fs b) 4)"
  using view_chain [OF grow_wf_full(1) grow_chains(1)] view_chain [OF grow_wf_full(1) grow_chains(2)]
    view_chain [OF grow_wf_full(1) grow_chains(3)]
  by simp_all

lemma grow_apart: "apart (grow_fs b) 2 3" "apart (grow_fs b) 2 4" "apart (grow_fs b) 3 4" "apart (grow_fs b) 4 3"
  using chain_of_Some [OF grow_wf_full(1) grow_chains(1)] chain_of_Some [OF grow_wf_full(1) grow_chains(2)]
    chain_of_Some [OF grow_wf_full(1) grow_chains(3)]
  by (simp_all add: apart_def)

lemma first_index_two: "first_index P [x, y] = (if P x then 0 else if P y then 1 else -1)"
  by (simp add: first_index_def)

lemma upt_2: "[0..<2] = [0, 1 :: nat]"
  by (simp add: upt_rec)

lemma grow_dir:
  "dir_of (grow_fs b) = [Some \<lparr>fe_name = [0x61, 0, 0, 0, 0, 0, 0, 0, 0, 0, 0, 0, 0], fe_data_cluster = 3, fe_file_size = 0\<rparr>,
     if b = 0 then None
     else Some \<lparr>fe_name = [b, 0, 0, 0, 0, 0, 0, 0, 0, 0, 0, 0, 0], fe_data_cluster = 4, fe_file_size = 0\<rparr>]"
  by (simp add: dir_of_def grow_views grow_bytes entries_def upt_2 block_def entry_of_def)

lemma all_less_2: "(\<forall>i < Suc (Suc 0). P i) \<longleftrightarrow> P 0 \<and> P (Suc 0)"
  by (auto simp: less_Suc_eq)

lemma grow_inv: "fs_inv (grow_fs b)"
proof -
  have l: "length (dir_of (grow_fs b)) = Suc (Suc 0)" by (simp add: grow_dir)
  have e: "fe_head e = 3" if "dir_of (grow_fs b) ! 0 = Some e" for e
    using that by (auto simp: grow_dir fe_head_def)
  have e': "fe_head e = 4" "fe_file_size e = 0" if "dir_of (grow_fs b) ! Suc 0 = Some e" for e
    using that by (auto simp: grow_dir fe_head_def split: if_splits)
  have z: "fe_file_size e = 0" if "dir_of (grow_fs b) ! 0 = Some e" for e
    using that by (auto simp: grow_dir)
  show ?thesis
    unfolding fs_inv_def l all_less_2
    using grow_wf_full grow_views grow_geo e e' z grow_apart
    by (auto simp: entry_sound_def entries_apart_def split: option.split)
qed

lemma grow_files: "files (grow_fs b) = [Some ([0x61], []), if b = 0 then None else Some ([b], [])]"
  by (simp add: files_def grow_dir content_def)

lemma grow_stale: "entries (cluster_bytes (grow_fs b) 6) =
    [None, Some \<lparr>fe_name = [0x7A, 0, 0, 0, 0, 0, 0, 0, 0, 0, 0, 0, 0], fe_data_cluster = 3, fe_file_size = 16\<rparr>]"
  by (simp add: grow_bytes entries_def upt_2 block_def entry_of_def)



text \<open>Opening a file answers the first slot whose name is the given one (its first 13 characters), or
  -1 when there is none.\<close>

theorem fs_open_first_match:
  assumes "fs_inv s" and "terminated f"
  shows "fs_open s (Some f) = Some (slot_of (c_str f) (files s))"
  by (rule fs_open_eq [OF assms])

theorem fs_open_first_match_witness:
  "fs_open (grow_fs 0x62) (Some [0x62, 0]) = Some 1 \<and> fs_open (grow_fs 0x62) (Some [0x63, 0]) = Some (-1)"
  using fs_open_first_match [OF grow_inv, of "[0x62, 0]" "0x62"] fs_open_first_match [OF grow_inv, of "[0x63, 0]" "0x62"]
  by (simp add: terminated_def grow_files slot_of_def first_index_two named_def)

text \<open>Claim C38. A file created under a name of 13 characters or more is stored under the first 12, so that
  opening it by the name it was given finds nothing (and creating it again makes a second one).\<close>

theorem fs_create_long_name_lost:
  assumes "fs_inv s" and "terminated f" and "13 \<le> length (c_str f)" and "slot_of (c_str f) (files s) = -1"
    and "None \<in> set (files s)" and "free_list s \<noteq> []"
  shows "\<exists>r s'. fs_create_file s (Some f) = Some (r, s') \<and> 0 \<le> r \<and> fs_open s' (Some f) = Some (-1)"
proof -
  have "None \<in> set (dir_of s)" using assms(5) by (auto simp: files_def)
  moreover have "c_str f \<noteq> []" using assms(3) by auto
  ultimately obtain r s' where c: "fs_create_file s (Some f) = Some (r, s')" "fs_inv s'" "0 \<le> r"
    and f: "files s' = (files s)[nat r := Some (take 12 (c_str f), [])]"
    using fs_create_law [OF assms(1,2)] assms(6) by blast
  have "take 13 (c_str f) \<noteq> take 12 (c_str f)" using assms(3) by (auto dest: arg_cong [of _ _ length])
  then have "\<forall>x \<in> set (files s'). \<not> named (c_str f) x"
    using assms(4) set_update_subset_insert [of "files s" "nat r" "Some (take 12 (c_str f), [])"]
    by (auto simp: f slot_of_def first_index_None named_def)
  then have "slot_of (c_str f) (files s') = -1" by (simp add: slot_of_def first_index_None)
  then show ?thesis using c fs_open_eq [OF c(2) assms(2)] by auto
qed

theorem fs_create_long_name_lost_witness:
  "\<exists>r s'. fs_create_file (grow_fs 0) (Some (replicate 13 0x62 @ [0])) = Some (r, s') \<and> 0 \<le> r \<and>
    fs_open s' (Some (replicate 13 0x62 @ [0])) = Some (-1)"
proof -
  have c: "c_str (replicate 13 0x62 @ [0]) = (replicate 13 0x62 :: u8 list)"
    by (intro c_str_append_null) simp
  show ?thesis
    by (rule fs_create_long_name_lost [OF grow_inv])
      (auto simp: terminated_def c grow_files grow_free slot_of_def first_index_two named_def
        dest: arg_cong [of _ _ length])
qed



text \<open>A file handle is never checked: with an index behind the table the entry's first byte is not read
  at all and the code tests an uninitialised variable.\<close>

theorem fs_write_bad_handle_undefined:
  assumes "rootdir s = Some bs" and "length bs \<le> 16 * i" and "16 * i < 4294967296"
  shows "fs_write s (int i) buf n = None"
proof -
  have "of_nat i * 16 = (of_nat (16 * i) :: u32)" by simp
  then have "unat (of_nat i * 16 :: u32) = 16 * i" using assms(3) by (simp only: unat_of_nat_u32)
  then have "cluster_read_8bit s 2 (of_nat i * 16) = Some (-1, None)"
    using read_view(2) [OF assms(1), of "of_nat i * 16"] assms(2) by simp
  then show ?thesis
    by (simp add: fs_write_def rootdir_get_file_entry_def entry_consts Let_def)
qed

theorem fs_write_bad_handle_undefined_witness: "fs_write sample_fs (int 1) [1] 1 = None"
  by (rule fs_write_bad_handle_undefined [OF sample_view(2)]) simp_all

end
