(* ===== verification/Disk_Image.thy ===== *)
theory Disk_Image
  imports Fs_Operations Heap_Allocator
begin

section \<open>TinyFS: disk images (fs/tinyfs/code/disk\_image.c, images/image\_\_cluster\_size\_100.h)\<close>

text \<open>
  How a volume is created, loaded from memory and mounted, as compiled into the kernel: without
  \<^verbatim>\<open>LOCAL_COMPILE\<close>, so that \<^verbatim>\<open>load_file_into_memory\<close> finds no file and \<^verbatim>\<open>store_disk\<close> does nothing.
  A pointer to an image is its bytes, \<open>None\<close> for \<open>NULL\<close>; what \<^verbatim>\<open>malloc\<close> answers is an argument.
\<close>

definition DEFAULT_CLUSTER_SIZE :: u16 where "DEFAULT_CLUSTER_SIZE = 100"
definition DEFAULT_CLUSTER_COUNT :: u8 where "DEFAULT_CLUSTER_COUNT = 30"

lemmas disk_consts = DEFAULT_CLUSTER_SIZE_def DEFAULT_CLUSTER_COUNT_def

text \<open>The RAM disk that is linked into the kernel: ten clusters of 100 bytes.\<close>

definition DISK_IMAGE :: "u8 list" where
  "DISK_IMAGE =
    [0x56, 0x6f, 0x6c, 0x75, 0x6d, 0x65, 0x5f, 0x30, 0x31, 0x00, 0x00, 0x00, 0x00, 0x00, 0x00, 0x00,
     0x00, 0x0a, 0x00, 0x64] @ replicate 80 0 @
    [0xff, 0xff, 0xff, 0x07, 0xff, 0xff, 0xff, 0x09, 0x00, 0xff] @ replicate 90 0 @
    [0x74, 0x65, 0x73, 0x74, 0x31, 0x30, 0x00, 0x00, 0x00, 0x00, 0x00, 0x00, 0x00, 0x00, 0x0b, 0x05,
     0x00, 0x00, 0x00, 0x00, 0x00, 0x00, 0x30, 0x00, 0x00, 0x00, 0x00, 0x00, 0x00, 0x00, 0x00, 0x05,
     0x74, 0x65, 0x73, 0x74, 0x32, 0x31, 0x30, 0x00, 0x00, 0x00, 0x00, 0x00, 0x00, 0x00, 0xd3, 0x03,
     0x74, 0x65, 0x73, 0x74, 0x33, 0x30, 0x00, 0x00, 0x00, 0x00, 0x00, 0x00, 0x00, 0x00, 0x1e, 0x06,
     0x00, 0x2e, 0x6f, 0x75, 0x74, 0x00, 0x30, 0x00, 0x00, 0x00, 0x00, 0x00, 0x00, 0x00, 0x00, 0x04,
     0x61, 0x2e, 0x6f, 0x75, 0x74, 0x00, 0x30, 0x00, 0x00, 0x00, 0x00, 0x00, 0x00, 0x00, 0x0b, 0x04,
     0x55, 0x55, 0x55, 0x00] @
    [0x43, 0x6c, 0x75, 0x73, 0x74, 0x65, 0x72, 0x20, 0x30, 0x33, 0x0a] @ replicate 89 0 @
    [0x43, 0x6c, 0x75, 0x73, 0x74, 0x65, 0x72, 0x20, 0x30, 0x34, 0x0a] @ replicate 89 0 @
    [0x43, 0x6c, 0x75, 0x73, 0x74, 0x65, 0x72, 0x20, 0x30, 0x35, 0x0a] @ replicate 89 0 @
    [0x43, 0x6c, 0x75, 0x73, 0x74, 0x65, 0x72, 0x20, 0x30, 0x36, 0x0a] @ replicate 89 0 @
    [0x43, 0x6c, 0x75, 0x73, 0x74, 0x65, 0x72, 0x20, 0x30, 0x37, 0x0a] @ replicate 89 0 @
    [0x43, 0x6c, 0x75, 0x73, 0x74, 0x65, 0x72, 0x20, 0x30, 0x38, 0x0a] @ replicate 89 0 @
    [0x43, 0x6c, 0x75, 0x73, 0x74, 0x65, 0x72, 0x20, 0x30, 0x39, 0x0a] @ replicate 89 0"

definition get_s_disk_image_ptr :: "tinyfs \<Rightarrow> u8 list option" where
  "get_s_disk_image_ptr s = (if di_ptr s then image s else None)"

definition disk_get_cluster_count :: "tinyfs \<Rightarrow> u8" where "disk_get_cluster_count s = di_count s"

definition disk_get_cluster_size :: "tinyfs \<Rightarrow> u16" where "disk_get_cluster_size s = di_size s"

text \<open>The tail that the three loaders repeat: the results of \<^verbatim>\<open>cluster_init\<close> and \<^verbatim>\<open>rootdir_init\<close> are not
  looked at.\<close>

definition mount_image :: "tinyfs \<Rightarrow> u8 list option \<Rightarrow> tinyfs option" where
  "mount_image s disk_image_ptr = do {
     (_, s1) \<leftarrow> cluster_init s disk_image_ptr (ucast (di_count s)) (ucast (di_size s));
     let (_, s2) = rootdir_init s1 (ucast (di_size s));
     Some s2
   }"

definition set_defaults :: "tinyfs \<Rightarrow> tinyfs" where
  "set_defaults s = s\<lparr>di_count := DEFAULT_CLUSTER_COUNT, di_size := DEFAULT_CLUSTER_SIZE\<rparr>"

definition create_disk :: "(u32 \<Rightarrow> u8 list option) \<Rightarrow> tinyfs \<Rightarrow> (int \<times> tinyfs) option" where
  "create_disk malloc s = do {
     let s0 = set_defaults s;
     let s1 = s0\<lparr>di_image_size := ucast (di_count s0) * ucast (di_size s0)\<rparr>;
     (case malloc (di_image_size s1) of
        None \<Rightarrow> Some (- FS_NO_MEMORY, s1\<lparr>di_ptr := False\<rparr>)
      | Some m \<Rightarrow> do { s2 \<leftarrow> mount_image (s1\<lparr>di_ptr := True\<rparr>) (Some m); Some (0, s2) })
   }"

definition load_ramdisk :: "tinyfs \<Rightarrow> u8 list option \<Rightarrow> (int \<times> tinyfs) option" where
  "load_ramdisk s ramdisk_image =
     (if ramdisk_image = None then Some (- FS_NO_MEMORY, s)
      else do {
        let s0 = set_defaults s;
        let s1 = s0\<lparr>di_image_size := ucast (di_count s0) * ucast (di_size s0), di_ptr := True\<rparr>;
        s2 \<leftarrow> mount_image s1 ramdisk_image;
        Some (0, s2)
      })"

definition load_file_into_memory :: "u8 list \<Rightarrow> u8 list option" where
  "load_file_into_memory filename = None"

definition load_disk :: "tinyfs \<Rightarrow> u8 list \<Rightarrow> (int \<times> tinyfs) option" where
  "load_disk s image_filename = do {
     let s0 = set_defaults s;
     (case load_file_into_memory image_filename of
        None \<Rightarrow> Some (- FS_NO_IMAGE_FILE, s0\<lparr>di_ptr := False\<rparr>)
      | Some m \<Rightarrow> do { s1 \<leftarrow> mount_image (s0\<lparr>di_ptr := True\<rparr>) (Some m); Some (0, s1) })
   }"

definition store_disk :: "tinyfs \<Rightarrow> u8 list \<Rightarrow> int" where
  "store_disk s image_filename = 0"

text \<open>\<^verbatim>\<open>free_disk\<close>: \<open>released\<close> says whether \<^verbatim>\<open>free\<close> gave the memory of the image to another use; the
  pointer in \<^verbatim>\<open>cluster_operations.c\<close> is not reset.\<close>

definition free_disk :: "bool \<Rightarrow> tinyfs \<Rightarrow> tinyfs" where
  "free_disk released s =
     set_defaults (s\<lparr>image := (if released \<and> di_ptr s then None else image s), di_ptr := False\<rparr>)"

subsection \<open>The calls of fs\_operations.c\<close>

definition fs_load_ramdisk :: "tinyfs \<Rightarrow> u8 list option \<Rightarrow> (int \<times> tinyfs) option" where
  "fs_load_ramdisk s ramdisk_image = load_ramdisk s ramdisk_image"

definition fs_load_disk_image :: "(u32 \<Rightarrow> u8 list option) \<Rightarrow> tinyfs \<Rightarrow> u8 list \<Rightarrow> (int \<times> tinyfs) option" where
  "fs_load_disk_image malloc s image_filename = do {
     (ret, s1) \<leftarrow> load_disk s image_filename;
     if ret \<noteq> 0 then create_disk malloc s1 else Some (ret, s1)
   }"

definition fs_store_disk_image :: "tinyfs \<Rightarrow> u8 list \<Rightarrow> int" where
  "fs_store_disk_image s image_filename = store_disk s image_filename"

subsection \<open>What is mounted\<close>

lemma defaults: "ucast DEFAULT_CLUSTER_COUNT = (30 :: u32)" "ucast DEFAULT_CLUSTER_SIZE = (100 :: u32)"
  by (simp_all add: disk_consts)

lemma geometry_ok_100: "200 \<le> length m \<Longrightarrow> geometry_ok m 30 100"
  by (simp add: geometry_ok_def)

text \<open>Mounting writes three cells of the FAT and nothing else.\<close>

definition fresh_fat :: "u8 list \<Rightarrow> u8 list" where
  "fresh_fat m = m[100 := 0xFF, 101 := 0xFF, 102 := if m ! 102 = 0 then 0xFF else m ! 102]"

lemma cluster_init_100:
  assumes "200 \<le> length m"
  shows "\<exists>t. cluster_init s (Some m) 30 100 = Some (0, t) \<and> fs_wf t \<and> image t = Some (fresh_fat m) \<and>
    cl_size t = 100 \<and> cl_count t = 30"
proof -
  let ?t = "set_fat (set_fat (mounted s m 30 100) 0 0xFF) 1 0xFF"
  have wf: "fs_wf ?t" using mounted_wf [OF geometry_ok_100 [OF assms]] by simp
  have im: "image ?t = Some (m[100 := 0xFF, 101 := 0xFF])" and g: "cl_size ?t = 100" "cl_count ?t = 30"
    by (simp_all add: set_fat_def put_def mounted_def)
  have gm: "cl_size (mounted s m 30 100) = 100" by (simp add: mounted_def)
  have f2: "fat ?t 2 = 0 \<longleftrightarrow> m ! 102 = 0"
  proof -
    have "fat ?t 2 = ucast (m ! 102)"
      using assms by (simp add: fat_def byte_at_def im g gm)
    moreover have "(ucast (m ! 102) :: u32) = 0 \<longleftrightarrow> m ! 102 = 0"
    proof
      assume "(ucast (m ! 102) :: u32) = 0"
      then have "unat (ucast (m ! 102) :: u32) = 0" by simp
      then show "m ! 102 = 0" by (simp only: unat_ucast_u8_u32 unsigned_eq_0_iff)
    qed simp
    ultimately show ?thesis by simp
  qed
  let ?u = "if fat ?t 2 = 0 then set_fat ?t 2 0xFF else ?t"
  have "image ?u = Some (fresh_fat m)"
    using im g f2 list_update_id [of "m[100 := 0xFF, 101 := 0xFF]" 102]
    by (simp add: fresh_fat_def set_fat_def put_def)
  moreover have "fs_wf ?u" "cl_size ?u = 100" "cl_count ?u = 30" using wf g by simp_all
  moreover have "cluster_init s (Some m) 30 100 = Some (0, ?u)"
    using cluster_init_eq [OF geometry_ok_100 [OF assms], of s] by (simp add: Let_def)
  ultimately show ?thesis by blast
qed

lemma load_ramdisk_ex:
  assumes "200 \<le> length m"
  shows "\<exists>t. load_ramdisk s (Some m) = Some (0, t) \<and> fs_wf t \<and> image t = Some (fresh_fat m) \<and>
    cl_size t = 100 \<and> cl_count t = 30 \<and> root_size t = cl_size t"
proof -
  let ?s = "(set_defaults s)\<lparr>di_image_size := 3000, di_ptr := True\<rparr>"
  obtain t where t: "cluster_init ?s (Some m) 30 100 = Some (0, t)" "fs_wf t" "image t = Some (fresh_fat m)"
    "cl_size t = 100" "cl_count t = 30"
    using cluster_init_100 [OF assms] by blast
  let ?u = "t\<lparr>root_size := 100\<rparr>"
  have "load_ramdisk s (Some m) = Some (0, ?u)"
    using t(1) by (simp add: load_ramdisk_def mount_image_def set_defaults_def disk_consts Let_def
        rootdir_init_def)
  moreover have "fs_wf ?u" using t(2) by (auto simp: fs_wf_def split: option.splits)
  ultimately show ?thesis using t by auto
qed

text \<open>Mounting an image of at least two clusters succeeds and gives a well-formed volume of 30 clusters
  of 100 bytes; the only bytes of the image that change are the FAT cells of the header, of the FAT
  itself, and of the root directory when it was marked free.\<close>

theorem load_ramdisk_mounts:
  assumes "200 \<le> length m"
  shows "\<exists>t. load_ramdisk s (Some m) = Some (0, t) \<and> fs_wf t \<and> image t = Some (fresh_fat m) \<and>
    cl_size t = 100 \<and> cl_count t = 30 \<and> root_size t = cl_size t"
  by (rule load_ramdisk_ex [OF assms])

theorem load_ramdisk_mounts_witness: "\<exists>t. load_ramdisk sample_fs (Some (replicate 200 0)) = Some (0, t) \<and> fs_wf t"
  using load_ramdisk_mounts [of "replicate 200 0" sample_fs] by auto

subsection \<open>The linked RAM disk\<close>

lemma length_DISK_IMAGE: "length DISK_IMAGE = 1000"
  by (simp add: DISK_IMAGE_def)

lemma fresh_DISK_IMAGE: "fresh_fat DISK_IMAGE = DISK_IMAGE"
  by (simp add: fresh_fat_def DISK_IMAGE_def nth_append list_update_append)

text \<open>The state of the kernel once \<^verbatim>\<open>fs_router_init\<close> has loaded it.\<close>

definition holds_ramdisk :: "tinyfs \<Rightarrow> bool" where
  "holds_ramdisk t = (fs_wf t \<and> image t = Some DISK_IMAGE \<and> cl_size t = 100 \<and> cl_count t = 30 \<and>
     root_size t = 100)"

lemma ramdisk_loaded: "\<exists>t. load_ramdisk s (Some DISK_IMAGE) = Some (0, t) \<and> holds_ramdisk t"
  using load_ramdisk_ex [of DISK_IMAGE s] by (auto simp: length_DISK_IMAGE fresh_DISK_IMAGE holds_ramdisk_def)

lemma ramdisk_fat:
  assumes "holds_ramdisk t"
  shows "fat t 2 = 0xFF" and "fat t 3 = 7" and "fat t 4 = 0xFF" and "fat t 5 = 0xFF" and "fat t 6 = 0xFF"
    and "fat t 7 = 9" and "fat t 9 = 0xFF" and "fat t 8 = 0"
  using assms by (simp_all add: holds_ramdisk_def fat_def byte_at_def DISK_IMAGE_def nth_append)

lemma ramdisk_geo:
  assumes "holds_ramdisk t"
  shows "csize t = 100" and "ccount t = 30" and "fs_wf t" and "root_size t = cl_size t" and "image t = Some DISK_IMAGE"
  using assms by (simp_all add: holds_ramdisk_def)

lemma ramdisk_data:
  assumes "holds_ramdisk t"
  shows "data_cluster t c = (2 \<le> unat c \<and> unat c < 10)"
  using ramdisk_geo [OF assms] by (auto simp: data_cluster_def length_DISK_IMAGE)

lemma ramdisk_chains:
  assumes "holds_ramdisk t"
  shows "chain t [2]" and "chain t [3, 7, 9]" and "chain t [4]" and "chain t [5]" and "chain t [6]"
  by (simp_all add: ramdisk_data [OF assms] ramdisk_fat [OF assms])

lemma ramdisk_root:
  assumes "holds_ramdisk t"
  shows "rootdir t = Some (cluster_bytes t 2)"
  using view_chain [OF ramdisk_geo(3) ramdisk_chains(1), OF assms assms] by simp

lemma ramdisk_root_bytes:
  assumes "holds_ramdisk t"
  shows "cluster_bytes t 2 =
    [0x74, 0x65, 0x73, 0x74, 0x31, 0x30, 0x00, 0x00, 0x00, 0x00, 0x00, 0x00, 0x00, 0x00, 0x0b, 0x05,
     0x00, 0x00, 0x00, 0x00, 0x00, 0x00, 0x30, 0x00, 0x00, 0x00, 0x00, 0x00, 0x00, 0x00, 0x00, 0x05,
     0x74, 0x65, 0x73, 0x74, 0x32, 0x31, 0x30, 0x00, 0x00, 0x00, 0x00, 0x00, 0x00, 0x00, 0xd3, 0x03,
     0x74, 0x65, 0x73, 0x74, 0x33, 0x30, 0x00, 0x00, 0x00, 0x00, 0x00, 0x00, 0x00, 0x00, 0x1e, 0x06,
     0x00, 0x2e, 0x6f, 0x75, 0x74, 0x00, 0x30, 0x00, 0x00, 0x00, 0x00, 0x00, 0x00, 0x00, 0x00, 0x04,
     0x61, 0x2e, 0x6f, 0x75, 0x74, 0x00, 0x30, 0x00, 0x00, 0x00, 0x00, 0x00, 0x00, 0x00, 0x0b, 0x04,
     0x55, 0x55, 0x55, 0x00]"
  using ramdisk_geo [OF assms] by (simp add: cluster_bytes_def DISK_IMAGE_def)

lemma upt_6: "[0..<6] = [0, 1, 2, 3, 4, 5 :: nat]"
  by (simp add: upt_rec)

lemma ramdisk_dir:
  assumes "holds_ramdisk t"
  shows "dir_of t =
    [Some \<lparr>fe_name = [0x74, 0x65, 0x73, 0x74, 0x31, 0x30, 0, 0, 0, 0, 0, 0, 0], fe_data_cluster = 5, fe_file_size = 11\<rparr>,
     None,
     Some \<lparr>fe_name = [0x74, 0x65, 0x73, 0x74, 0x32, 0x31, 0x30, 0, 0, 0, 0, 0, 0], fe_data_cluster = 3, fe_file_size = 211\<rparr>,
     Some \<lparr>fe_name = [0x74, 0x65, 0x73, 0x74, 0x33, 0x30, 0, 0, 0, 0, 0, 0, 0], fe_data_cluster = 6, fe_file_size = 30\<rparr>,
     None,
     Some \<lparr>fe_name = [0x61, 0x2e, 0x6f, 0x75, 0x74, 0, 0x30, 0, 0, 0, 0, 0, 0], fe_data_cluster = 4, fe_file_size = 11\<rparr>]"
  by (simp add: dir_of_def ramdisk_root [OF assms] ramdisk_root_bytes [OF assms] entries_def upt_6
      block_def entry_of_def)

text \<open>Its files and what they hold; the volume is sound, though shorter than its FAT.\<close>

definition test210_bytes :: "u8 list" where
  "test210_bytes = [0x43, 0x6c, 0x75, 0x73, 0x74, 0x65, 0x72, 0x20, 0x30, 0x33, 0x0a] @ replicate 89 0 @
     [0x43, 0x6c, 0x75, 0x73, 0x74, 0x65, 0x72, 0x20, 0x30, 0x37, 0x0a] @ replicate 89 0 @
     [0x43, 0x6c, 0x75, 0x73, 0x74, 0x65, 0x72, 0x20, 0x30, 0x39, 0x0a]"

definition ramdisk_files :: "(u8 list \<times> u8 list) option list" where
  "ramdisk_files =
     [Some ([0x74, 0x65, 0x73, 0x74, 0x31, 0x30], [0x43, 0x6c, 0x75, 0x73, 0x74, 0x65, 0x72, 0x20, 0x30, 0x35, 0x0a]), None,
      Some ([0x74, 0x65, 0x73, 0x74, 0x32, 0x31, 0x30], test210_bytes),
      Some ([0x74, 0x65, 0x73, 0x74, 0x33, 0x30], [0x43, 0x6c, 0x75, 0x73, 0x74, 0x65, 0x72, 0x20, 0x30, 0x36, 0x0a] @ replicate 19 0), None,
      Some ([0x61, 0x2e, 0x6f, 0x75, 0x74], [0x43, 0x6c, 0x75, 0x73, 0x74, 0x65, 0x72, 0x20, 0x30, 0x34, 0x0a])]"

lemma ramdisk_views:
  assumes t: "holds_ramdisk t"
  shows "view t 5 = Some (cluster_bytes t 5)" and "view t 3 = Some (cluster_bytes t 3 @ cluster_bytes t 7 @ cluster_bytes t 9)"
    and "view t 6 = Some (cluster_bytes t 6)" and "view t 4 = Some (cluster_bytes t 4)"
  using view_chain [OF ramdisk_geo(3) [OF t] ramdisk_chains(2) [OF t]] view_chain [OF ramdisk_geo(3) [OF t] ramdisk_chains(3) [OF t]]
    view_chain [OF ramdisk_geo(3) [OF t] ramdisk_chains(4) [OF t]] view_chain [OF ramdisk_geo(3) [OF t] ramdisk_chains(5) [OF t]]
  by (simp_all add: chain_bytes_def)

lemma ramdisk_bytes:
  assumes t: "holds_ramdisk t"
  shows "cluster_bytes t 3 = [0x43, 0x6c, 0x75, 0x73, 0x74, 0x65, 0x72, 0x20, 0x30, 0x33, 0x0a] @ replicate 89 0"
    and "cluster_bytes t 4 = [0x43, 0x6c, 0x75, 0x73, 0x74, 0x65, 0x72, 0x20, 0x30, 0x34, 0x0a] @ replicate 89 0"
    and "cluster_bytes t 5 = [0x43, 0x6c, 0x75, 0x73, 0x74, 0x65, 0x72, 0x20, 0x30, 0x35, 0x0a] @ replicate 89 0"
    and "cluster_bytes t 6 = [0x43, 0x6c, 0x75, 0x73, 0x74, 0x65, 0x72, 0x20, 0x30, 0x36, 0x0a] @ replicate 89 0"
    and "cluster_bytes t 7 = [0x43, 0x6c, 0x75, 0x73, 0x74, 0x65, 0x72, 0x20, 0x30, 0x37, 0x0a] @ replicate 89 0"
    and "cluster_bytes t 9 = [0x43, 0x6c, 0x75, 0x73, 0x74, 0x65, 0x72, 0x20, 0x30, 0x39, 0x0a] @ replicate 89 0"
  using ramdisk_geo [OF t] by (simp_all add: cluster_bytes_def DISK_IMAGE_def)

lemma ramdisk_files_ok:
  assumes t: "holds_ramdisk t"
  shows "files t = ramdisk_files"
  by (simp add: files_def ramdisk_dir [OF t] ramdisk_files_def test210_bytes_def content_def fe_head_def ramdisk_views [OF t] ramdisk_bytes [OF t])

lemma ramdisk_sound:
  assumes t: "holds_ramdisk t"
  shows "fs_sound t"
proof -
  note ch = ramdisk_chains [OF t] and wf = ramdisk_geo(3) [OF t]
  have c: "chain_of t 2 = Some [2]" "chain_of t 3 = Some [3, 7, 9]" "chain_of t 4 = Some [4]" "chain_of t 5 = Some [5]" "chain_of t 6 = Some [6]"
    using chain_of_Some [OF wf ch(1)] chain_of_Some [OF wf ch(2)] chain_of_Some [OF wf ch(3)] chain_of_Some [OF wf ch(4)] chain_of_Some [OF wf ch(5)]
    by simp_all
  let ?d = "dir_of t"
  have e: "entry_sound t x" if "x \<in> set ?d" for x
    using that unfolding ramdisk_dir [OF t]
    by (auto simp: entry_sound_def fe_head_def apart_def c ramdisk_views [OF t] ramdisk_bytes [OF t])
  have a: "entries_apart t (?d ! i) (?d ! j)" if "i < 6" "j < 6" "j \<noteq> i" for i j
  proof -
    have i6: "i = 0 \<or> i = 1 \<or> i = 2 \<or> i = 3 \<or> i = 4 \<or> i = 5" "j = 0 \<or> j = 1 \<or> j = 2 \<or> j = 3 \<or> j = 4 \<or> j = 5"
      using that by arith+
    show ?thesis using i6 that(3) unfolding ramdisk_dir [OF t]
      by (elim disjE) (simp_all add: entries_apart_def fe_head_def apart_def c)
  qed
  have "length ?d = 6" by (simp add: ramdisk_dir [OF t])
  then show ?thesis using e a ramdisk_geo(4) [OF t] ramdisk_root [OF t] by (simp add: fs_sound_def)
qed

text \<open>The free clusters of the linked volume: 8, and the twenty behind the end of the image.\<close>

lemma upt_30: "[3..<30] = [3, 4, 5, 6, 7, 8, 9] @ [10..<30::nat]"
  by (simp add: upt_rec)

lemma ramdisk_fat_behind:
  assumes t: "holds_ramdisk t" and "10 \<le> n" and "n < 30"
  shows "fat t (of_nat n) = 0"
proof -
  have u: "unat (of_nat n :: u32) = n" using assms(3) by (intro unat_of_nat_u32) simp
  have "DISK_IMAGE ! (100 + n) = 0"
    using assms(2,3) by (simp add: DISK_IMAGE_def nth_append nth_Cons')
  then show ?thesis using ramdisk_geo [OF t] by (simp add: fat_def byte_at_def u)
qed

lemma ramdisk_free:
  assumes t: "holds_ramdisk t"
  shows "free_list t = 8 # map of_nat [10..<30]"
proof -
  have "\<forall>c \<in> set (map of_nat [10..<30]). fat t c = 0"
    unfolding set_map set_upt using ramdisk_fat_behind [OF t] by auto
  then have "filter (\<lambda>c. fat t c = 0) (map of_nat [10..<30]) = map of_nat [10..<30]"
    by (simp only: filter_id_conv)
  then show ?thesis
    unfolding free_list_def ramdisk_geo(2) [OF t] upt_30
    by (simp add: ramdisk_fat [OF t])
qed

lemma write_outside:
  assumes wf: "fs_wf t" and c: "unat c \<le> 255" and out: "length (the (image t)) \<le> unat c * csize t"
  shows "cluster_write_8bit t c 0 v = None"
proof -
  have "\<not> cl_size t \<le> 0" using csize_pos [OF wf] by (simp add: word_le_nat_alt)
  moreover have "disk_wr t (calculate_image_offset t c + 0) v = None"
    using image_offset [OF wf c, of 0] csize_pos [OF wf] fs_wfE [OF wf] out
    by (auto simp: disk_wr_def mem_access)
  ultimately show ?thesis
    by (simp add: cluster_write_8bit_def fat_write.simps [of t "Write8 c 0 v"])
qed

text \<open>The volume linked into the kernel, once loaded, is well-formed and holds exactly the files
  \<^verbatim>\<open>test10\<close>, \<^verbatim>\<open>test210\<close>, \<^verbatim>\<open>test30\<close> and \<^verbatim>\<open>a.out\<close> in its six slots, and every one of them is found by its name.\<close>

theorem ramdisk_contents:
  "\<exists>t. fs_load_ramdisk s (Some DISK_IMAGE) = Some (0, t) \<and> fs_wf t \<and>
    map (map_option (\<lambda>e. (c_str (fe_name e), fe_data_cluster e, fe_file_size e))) (dir_of t) =
      [Some ([0x74, 0x65, 0x73, 0x74, 0x31, 0x30], 5, 11), None,
       Some ([0x74, 0x65, 0x73, 0x74, 0x32, 0x31, 0x30], 3, 211),
       Some ([0x74, 0x65, 0x73, 0x74, 0x33, 0x30], 6, 30), None,
       Some ([0x61, 0x2e, 0x6f, 0x75, 0x74], 4, 11)] \<and>
    fs_open t (Some [0x74, 0x65, 0x73, 0x74, 0x32, 0x31, 0x30, 0]) = Some 2 \<and>
    get_cluster_chain_size t 3 = Some 3"
proof -
  obtain t where load: "load_ramdisk s (Some DISK_IMAGE) = Some (0, t)" and t: "holds_ramdisk t"
    using ramdisk_loaded by blast
  note geo = ramdisk_geo [OF t]
  have ok: "dir_ok t (cluster_bytes t 2)" using ramdisk_root [OF t] geo by (simp add: dir_ok_def)
  have ent: "entries (cluster_bytes t 2) = dir_of t" using ramdisk_root [OF t] by (simp add: dir_of_def)
  have "rootdir_find_file t (Some [0x74, 0x65, 0x73, 0x74, 0x32, 0x31, 0x30, 0]) = Some 2"
    using find_file_eq [OF ok, of "[0x74, 0x65, 0x73, 0x74, 0x32, 0x31, 0x30, 0]"]
    by (simp add: ent ramdisk_dir [OF t] terminated_def first_index_def entry_named_def)
  moreover have "get_cluster_chain_size t 3 = Some 3"
    using count_links_chain [OF geo(3) ramdisk_chains(2) [OF t], of 0]
    by (simp add: get_cluster_chain_size_def)
  ultimately show ?thesis
    using load geo(3) by (intro exI [of _ t]) (simp add: fs_load_ramdisk_def fs_open_def ramdisk_dir [OF t])
qed


text \<open>In the kernel a disk image can be neither loaded nor created: there are no files to load, and
  creating one asks the kernel's \<^verbatim>\<open>malloc\<close>, whose blocks have 128 bytes, for 3000 bytes.\<close>

theorem fs_load_disk_image_no_memory:
  assumes "heap_ok hb"
  shows "\<exists>t. fs_load_disk_image
      (\<lambda>n. case heap_malloc n hb of Some (p, _) \<Rightarrow> if p = 0 then None else Some (mem p n) | None \<Rightarrow> None)
      s image_filename = Some (- FS_NO_MEMORY, t) \<and> get_s_disk_image_ptr t = None"
proof -
  have "heap_malloc 3000 hb = Some (0, hb)"
    using assms by (simp add: heap_malloc_def heap_ok_def bin_consts)
  then show ?thesis
    by (simp add: fs_load_disk_image_def load_disk_def load_file_into_memory_def create_disk_def
        set_defaults_def disk_consts Let_def get_s_disk_image_ptr_def FS_NO_IMAGE_FILE_def)
qed

theorem fs_load_disk_image_no_memory_witness:
  "\<exists>t. fs_load_disk_image
      (\<lambda>n. case heap_malloc n sample_heap of Some (p, _) \<Rightarrow> if p = 0 then None else Some [] | None \<Rightarrow> None)
      sample_fs [0x78, 0] = Some (- FS_NO_MEMORY, t)"
  using fs_load_disk_image_no_memory [OF sample_heap_ok(1), of "\<lambda>_ _. []" sample_fs "[0x78, 0]"] by blast

end
