(* ===== verification/Filesystem_Router.thy ===== *)
theory Filesystem_Router
  imports Disk_Image Util_String
begin

section \<open>The file system router (fs/filesystem\_router.c, fs/virtual\_fs.c)\<close>

text \<open>
  The mount table and the TinyFS volume it routes to. Buffers are lists that the functions return changed; a position
  in one is an \<^verbatim>\<open>int\<close>, because the code moves its pointer by what \<^verbatim>\<open>mem_copy\<close> answers. The program
  \<^verbatim>\<open>linux_x86_userspace_test_bin\<close>, which the build generates, is a parameter. Falling off the end of a function whose
  result is used is undefined. Console output is left out.
\<close>

record mount_table_entry =
  mt_fs_type :: int
  mt_directory_path :: "u8 list"

record router =
  mount_table :: "mount_table_entry list"
  router_volume :: tinyfs

definition FS_TYPE__NONE :: int where "FS_TYPE__NONE = 0"
definition FS_TYPE__TINY_FS :: int where "FS_TYPE__TINY_FS = 1"
definition FS_TYPE__VIRTUAL_FS :: int where "FS_TYPE__VIRTUAL_FS = 2"
definition FS_TYPE__TEST_FS :: int where "FS_TYPE__TEST_FS = 3"

lemmas fs_types = FS_TYPE__NONE_def FS_TYPE__TINY_FS_def FS_TYPE__VIRTUAL_FS_def FS_TYPE__TEST_FS_def

text \<open>A string literal with its terminator.\<close>

definition c_lit :: "char list \<Rightarrow> u8 list" where "c_lit s = map_of_char s @ [0]"

text \<open>A pointer moved forward inside its object, or just behind it.\<close>

definition advance :: "nat \<Rightarrow> u8 list \<Rightarrow> u8 list option" where
  "advance k p = (if k \<le> length p then Some (drop k p) else None)"

subsection \<open>The virtual file system\<close>

definition vfs_get_list_of_files :: "u8 list \<Rightarrow> u8 list \<Rightarrow> int \<Rightarrow> (int \<times> u8 list) option" where
  "vfs_get_list_of_files directory_path buffer buffer_len = do {
     let test_ret = c_lit ''file1'' @ c_lit ''file2'' @ c_lit ''file3'' @ [0];
     (r, b) \<leftarrow> mem_copy (Some buffer) buffer_len (Some test_ret) (int (length test_ret));
     b' \<leftarrow> b;
     Some (r, b')
   }"

text \<open>The file names and their contents: the first name that matches gives the file.\<close>

fun static_file :: "(u8 list \<times> u8 list) list \<Rightarrow> u8 list \<Rightarrow> u8 list \<Rightarrow> int \<Rightarrow> (int \<times> u8 list) option" where
  "static_file [] file_path buffer buffer_len = Some (-1, buffer)"
| "static_file ((name, test_ret) # fs) file_path buffer buffer_len = do {
     d \<leftarrow> strncmp file_path name 30;
     if d = 0 then do {
       (r, b) \<leftarrow> mem_copy (Some buffer) buffer_len (Some test_ret) (int (length test_ret));
       b' \<leftarrow> b;
       Some (r, b')
     }
     else static_file fs file_path buffer buffer_len
   }"

definition vfs_read_file :: "u8 list \<Rightarrow> u8 list \<Rightarrow> int \<Rightarrow> (int \<times> u8 list) option" where
  "vfs_read_file = static_file [(c_lit ''file1'', c_lit ''VFS Hardcoded file1''), (c_lit ''file2'', c_lit ''VFS Hardcoded file2''),
     (c_lit ''file3'', c_lit ''VFS Hardcoded file3'')]"

subsection \<open>Mounts\<close>

definition fs_router_init :: "router \<Rightarrow> router option" where
  "fs_router_init rt = do {
     (r, s) \<leftarrow> fs_load_ramdisk (router_volume rt) (Some DISK_IMAGE);
     Some (rt\<lparr>router_volume := s\<rparr>)
   }"

text \<open>The search for a free slot from index \<open>i\<close>.\<close>

fun mount_at :: "mount_table_entry list \<Rightarrow> nat \<Rightarrow> nat \<Rightarrow> int \<Rightarrow> u8 list \<Rightarrow> (int \<times> mount_table_entry list) option" where
  "mount_at tbl i 0 fs_type directory_path = Some (-1, tbl)"
| "mount_at tbl i (Suc n) fs_type directory_path = do {
     e \<leftarrow> rd tbl i;
     if mt_fs_type e = FS_TYPE__NONE
     then do {
       len \<leftarrow> strlen_unsafe (Some directory_path);
       (_, p) \<leftarrow> mem_copy (Some (mt_directory_path e)) 64 (Some directory_path) (int len);
       p' \<leftarrow> p;
       p'' \<leftarrow> wr p' 63 0;
       tbl' \<leftarrow> wr tbl i (e\<lparr>mt_fs_type := fs_type, mt_directory_path := p''\<rparr>);
       Some (int i, tbl')
     }
     else mount_at tbl (Suc i) n fs_type directory_path
   }"

definition mount_fs :: "int \<Rightarrow> u8 list option \<Rightarrow> router \<Rightarrow> (int \<times> router) option" where
  "mount_fs fs_type directory_path rt = (case directory_path of
     None \<Rightarrow> Some (-1, rt)
   | Some p \<Rightarrow>
       if fs_type = FS_TYPE__NONE then Some (-1, rt)
       else do {
         (r, tbl) \<leftarrow> mount_at (mount_table rt) 0 8 fs_type p;
         Some (r, rt\<lparr>mount_table := tbl\<rparr>)
       })"

text \<open>The copy loop: index \<open>i\<close> of the path, position \<open>pos\<close> and the space left of the output.\<close>

function first_dir_loop :: "u8 list \<Rightarrow> nat \<Rightarrow> nat \<Rightarrow> u8 list \<Rightarrow> nat \<Rightarrow> nat \<Rightarrow> (int \<times> u8 list) option" where
  "first_dir_loop dir_path path_len i output_buf pos space = do {
     c \<leftarrow> rd dir_path i;
     if c \<noteq> 47 \<and> i < path_len
     then do {
       ob \<leftarrow> wr output_buf pos c;
       if space - 1 = 0 then Some (-1, ob) else first_dir_loop dir_path path_len (i + 1) ob (pos + 1) (space - 1)
     }
     else do { ob \<leftarrow> wr output_buf pos 0; Some (0, ob) }
   }"
  by pat_completeness auto
termination
  by (relation "measure (\<lambda>(_, path_len, i, _). path_len - i)") auto

declare first_dir_loop.simps [simp del]

definition get_first_dir_in_path :: "u8 list option \<Rightarrow> u8 list \<Rightarrow> (int \<times> u8 list) option" where
  "get_first_dir_in_path dir_path output_buf = do {
     path_len \<leftarrow> strlen_unsafe dir_path;
     if path_len < 2 then Some (-1, output_buf)
     else (case dir_path of
         None \<Rightarrow> Some (-1, output_buf)
       | Some p \<Rightarrow>
           if output_buf = [] then Some (-1, output_buf)
           else do {
             c \<leftarrow> rd p 0;
             if c = 47 then first_dir_loop (tl p) (path_len - 1) 0 output_buf 0 (length output_buf)
             else first_dir_loop p path_len 0 output_buf 0 (length output_buf)
           })
   }"

text \<open>The results of \<^verbatim>\<open>get_first_dir_in_path\<close> are compared with \<^verbatim>\<open>< -1\<close>, which none is.\<close>

fun find_mount_from :: "mount_table_entry list \<Rightarrow> u8 list \<Rightarrow> nat \<Rightarrow> nat \<Rightarrow> u8 list \<Rightarrow> int \<Rightarrow> (int \<times> u8 list \<times> int) option" where
  "find_mount_from tbl dir_path i 0 mount_path fs_type = Some (-1, mount_path, fs_type)"
| "find_mount_from tbl dir_path i (Suc n) mount_path fs_type = do {
     e \<leftarrow> rd tbl i;
     if mt_fs_type e \<noteq> FS_TYPE__NONE
     then do {
       (r1, input_dir_name) \<leftarrow> get_first_dir_in_path (Some dir_path) (replicate 32 0);
       if r1 < -1 then Some (-1, mount_path, fs_type)
       else do {
         (r2, mount_dir_name) \<leftarrow> get_first_dir_in_path (Some (mt_directory_path e)) (replicate 32 0);
         if r2 < -1 then Some (-1, mount_path, fs_type)
         else do {
           d \<leftarrow> strncmp input_dir_name mount_dir_name 32;
           if d = 0
           then do {
             (_, mp) \<leftarrow> mem_copy (Some mount_path) (int (length mount_path)) (Some (mt_directory_path e)) 64;
             mp' \<leftarrow> mp;
             Some (int i, mp', mt_fs_type e)
           }
           else find_mount_from tbl dir_path (Suc i) n mount_path fs_type
         }
       }
     }
     else find_mount_from tbl dir_path (Suc i) n mount_path fs_type
   }"

definition find_mount :: "router \<Rightarrow> u8 list option \<Rightarrow> u8 list \<Rightarrow> int \<Rightarrow> (int \<times> u8 list \<times> int) option" where
  "find_mount rt dir_path mount_path fs_type = (case dir_path of
     None \<Rightarrow> Some (-1, mount_path, fs_type)
   | Some p \<Rightarrow> find_mount_from (mount_table rt) p 0 8 mount_path fs_type)"

subsection \<open>Listing\<close>

text \<open>One name copied to the buffer and terminated: buffer, position, room left and length of the output so far.\<close>

type_synonym listing = "u8 list \<times> int \<times> int \<times> int"

definition list_name :: "u8 list \<Rightarrow> listing \<Rightarrow> listing option" where
  "list_name name st = (case st of (buffer, pos, buffer_len, output_len) \<Rightarrow>
     if pos < 0 then None
     else do {
       n \<leftarrow> strlen_unsafe (Some name);
       (len, b) \<leftarrow> mem_copy (Some (drop (nat pos) buffer)) (buffer_len - 1) (Some name) (int n);
       b' \<leftarrow> b;
       let buffer = take (nat pos) buffer @ b';
       let pos = pos + len;
       if pos < 0 then None
       else do {
         buffer \<leftarrow> wr buffer (nat pos) 0;
         Some (buffer, pos + 1, buffer_len - (len + 1), output_len + (len + 1))
       }
     })"

definition list_mounts :: "router \<Rightarrow> u8 list \<Rightarrow> int \<Rightarrow> (int \<times> u8 list) option" where
  "list_mounts rt buffer buffer_len = do {
     (b, _, _, output_len) \<leftarrow> for_loop 0 8
       (\<lambda>i st. do {
          e \<leftarrow> rd (mount_table rt) i;
          if mt_fs_type e \<noteq> FS_TYPE__NONE then list_name (mt_directory_path e) st else Some st
        }) (buffer, 0, buffer_len, 0);
     Some (output_len, b)
   }"

definition list_tinyfs :: "tinyfs \<Rightarrow> u8 list \<Rightarrow> int \<Rightarrow> (int \<times> u8 list) option" where
  "list_tinyfs s buffer buffer_len = do {
     count \<leftarrow> rootdir_get_table_size s;
     (b, _, _, output_len) \<leftarrow> for_loop 0 (nat count)
       (\<lambda>i st. do {
          (r, entry) \<leftarrow> rootdir_get_file_entry s (of_nat i);
          if r = 0 then do { e \<leftarrow> entry; list_name (fe_name e) st } else Some st
        }) (buffer, 0, buffer_len, 0);
     Some (output_len, b)
   }"

definition get_list_of_files :: "router \<Rightarrow> u8 list \<Rightarrow> u8 list \<Rightarrow> int \<Rightarrow> (int \<times> u8 list) option" where
  "get_list_of_files rt directory_path buffer buffer_len = do {
     c0 \<leftarrow> rd directory_path 0;
     root \<leftarrow> (if c0 = 47 then do { c1 \<leftarrow> rd directory_path 1; Some (c1 = 0) } else Some False);
     if root then list_mounts rt buffer buffer_len
     else do {
       (i, mount_path, fs_type) \<leftarrow> find_mount rt (Some directory_path) (replicate 64 0) FS_TYPE__NONE;
       if i < 0 then Some (-1, buffer)
       else do {
         n \<leftarrow> strlen_unsafe (Some mount_path);
         directory_path \<leftarrow> advance (n + 1) directory_path;
         if fs_type = FS_TYPE__TINY_FS then list_tinyfs (router_volume rt) buffer buffer_len
         else if fs_type = FS_TYPE__VIRTUAL_FS then vfs_get_list_of_files directory_path buffer buffer_len
         else if fs_type = FS_TYPE__TEST_FS then do {
           let test_ret = c_lit ''file1'' @ c_lit ''file2'' @ c_lit ''file3'' @ c_lit ''hello.bin'' @ [0];
           (r, b) \<leftarrow> mem_copy (Some buffer) buffer_len (Some test_ret) (int (length test_ret));
           b' \<leftarrow> b;
           Some (r, b')
         }
         else None
       }
     }
   }"

subsection \<open>Reading\<close>

definition read_tinyfs :: "tinyfs \<Rightarrow> u8 list \<Rightarrow> u8 list \<Rightarrow> (int \<times> u8 list) option" where
  "read_tinyfs s file_path buffer = do {
     index \<leftarrow> rootdir_find_file s (Some file_path);
     if index < 0 then Some (-1, buffer)
     else do {
       (r, entry) \<leftarrow> rootdir_get_file_entry s (of_int index);
       if r \<noteq> 0 then Some (-1, buffer)
       else do {
         e \<leftarrow> entry;
         b \<leftarrow> for_loop 0 (unat (fe_file_size e))
           (\<lambda>i b. do {
              (_, v) \<leftarrow> cluster_read_8bit s (ucast (fe_data_cluster e)) (of_nat i);
              byte \<leftarrow> v;
              wr b i byte
            }) buffer;
         Some (int (unat (fe_file_size e)), b)
       }
     }
   }"

definition test_files :: "u8 list \<Rightarrow> (u8 list \<times> u8 list) list" where
  "test_files hello_bin = [(c_lit ''file1'', c_lit ''Hardcoded file1''), (c_lit ''file2'', c_lit ''Hardcoded file2''),
     (c_lit ''file3'', c_lit ''Hardcoded file3''), (c_lit ''hello.bin'', hello_bin)]"

definition read_file :: "u8 list \<Rightarrow> router \<Rightarrow> u8 list option \<Rightarrow> u8 list \<Rightarrow> int \<Rightarrow> (int \<times> u8 list) option" where
  "read_file hello_bin rt file_path buffer buffer_len = do {
     (i, mount_path, fs_type) \<leftarrow> find_mount rt file_path (replicate 64 0) FS_TYPE__NONE;
     if i < 0 then Some (-1, buffer)
     else do {
       p \<leftarrow> file_path;
       n \<leftarrow> strlen_unsafe (Some mount_path);
       file_path \<leftarrow> advance (n + 1) p;
       if fs_type = FS_TYPE__TINY_FS then read_tinyfs (router_volume rt) file_path buffer
       else if fs_type = FS_TYPE__VIRTUAL_FS then vfs_read_file file_path buffer buffer_len
       else if fs_type = FS_TYPE__TEST_FS then static_file (test_files hello_bin) file_path buffer buffer_len
       else None
     }
   }"

text \<open>A stub of the code: it marks everything as a directory and falls off its end.\<close>

definition get_file_info :: "u8 list option \<Rightarrow> u8 option \<Rightarrow> int option \<times> u8 option" where
  "get_file_info file_path is_directory =
     (if file_path = None \<or> is_directory = None then (Some (-1), is_directory) else (None, Some 1))"

subsection \<open>The first directory of a path\<close>

definition first_dir :: "u8 list \<Rightarrow> u8 list" where
  "first_dir p = takeWhile (\<lambda>c. c \<noteq> 47) (if p \<noteq> [] \<and> hd p = 47 then tl p else p)"

text \<open>A path the router handles: not too short, not too long, with a first directory that fits its buffer.\<close>

definition path_ok :: "u8 list \<Rightarrow> bool" where
  "path_ok p \<longleftrightarrow> terminated p \<and> 2 \<le> length (c_str p) \<and> length (c_str p) \<le> 100 \<and> length (first_dir (c_str p)) < 32"

lemma first_dir_loop_eq:
  assumes "terminated s" and "i \<le> length (c_str s)" and "length ob = pos + space"
    and "length (takeWhile (\<lambda>c. c \<noteq> 47) (drop i (c_str s))) < space"
  shows "first_dir_loop s (length (c_str s)) i ob pos space =
    Some (0, take pos ob @ takeWhile (\<lambda>c. c \<noteq> 47) (drop i (c_str s)) @
      0 # drop (Suc (pos + length (takeWhile (\<lambda>c. c \<noteq> 47) (drop i (c_str s))))) ob)"
  using assms(2-4)
proof (induction "length (c_str s) - i" arbitrary: i ob pos space)
  case 0
  then have i: "i = length (c_str s)" by simp
  then have "rd s i = Some 0" using terminated_length [OF assms(1)] terminated_nth [OF assms(1)] by (simp add: rd_in)
  then show ?case using 0 i by (subst first_dir_loop.simps) (simp add: wr_in upd_conv_take_nth_drop)
next
  case (Suc d)
  let ?n = "length (c_str s)"
  have i: "i < ?n" using Suc.hyps(2) by simp
  then have si: "s ! i = c_str s ! i" using c_str_prefix [of s] by (metis nth_take)
  then have r: "rd s i = Some (c_str s ! i)" using i terminated_length [OF assms(1)] by (simp add: rd_in)
  have d: "drop i (c_str s) = c_str s ! i # drop (Suc i) (c_str s)" using i by (simp add: Cons_nth_drop_Suc)
  have pos: "pos < length ob" using Suc.prems by simp
  show ?case
  proof (cases "c_str s ! i = 47")
    case True
    then show ?thesis using r d pos
      by (subst first_dir_loop.simps) (simp add: wr_in upd_conv_take_nth_drop)
  next
    case False
    let ?ob = "ob[pos := c_str s ! i]" and ?rest = "takeWhile (\<lambda>c. c \<noteq> 47) (drop (Suc i) (c_str s))"
    have sp: "length ?rest < space - 1" using Suc.prems(3) d False by simp
    have "first_dir_loop s ?n (Suc i) ?ob (Suc pos) (space - 1) = Some (0, take (Suc pos) ?ob @ ?rest @ 0 # drop (Suc (Suc pos + length ?rest)) ?ob)"
      using Suc.hyps(2) Suc.prems i sp by (intro Suc.hyps(1)) auto
    moreover have "take (Suc pos) ?ob = take pos ob @ [c_str s ! i]" using pos by (simp add: take_Suc_conv_app_nth)
    ultimately show ?thesis using r d False i pos sp
      by (subst first_dir_loop.simps) (simp add: wr_in)
  qed
qed

lemma get_first_dir_ok:
  assumes "path_ok p"
  shows "get_first_dir_in_path (Some p) (replicate 32 0) =
    Some (0, first_dir (c_str p) @ replicate (32 - length (first_dir (c_str p))) 0)"
proof -
  have t: "terminated p" and l: "2 \<le> length (c_str p)" "length (c_str p) \<le> 100" and f: "length (first_dir (c_str p)) < 32"
    using assms by (auto simp: path_ok_def)
  obtain c q where p: "p = c # q" using t by (cases p) (auto simp: terminated_def)
  have c0: "c \<noteq> 0" using l(1) p by (cases "c = 0") auto
  have len: "strlen_unsafe (Some p) = Some (length (c_str p))" using l(2) by (simp add: strlen_unsafe_eq [OF t])
  have rep: "0 # drop (Suc n) (replicate 32 (0 :: u8)) = replicate (32 - n) 0" if "n < 32" for n
  proof -
    have "32 - n = Suc (31 - n)" using that by simp
    then show ?thesis by (simp only: drop_replicate replicate_Suc) simp
  qed
  show ?thesis
  proof (cases "c = 47")
    case True
    have tq: "terminated q" using t p c0 by (auto simp: terminated_def)
    have fd: "first_dir (c_str p) = takeWhile (\<lambda>c. c \<noteq> 47) (c_str q)" using p c0 True by (simp add: first_dir_def)
    have "length (c_str p) - 1 = length (c_str q)" using p c0 by simp
    moreover have "c_str q \<noteq> []" using l(1) p c0 by auto
    ultimately show ?thesis using first_dir_loop_eq [OF tq, of 0 "replicate 32 0" 0 32] f fd rep [of "length (first_dir (c_str p))"] l len p True
    by (simp add: get_first_dir_in_path_def)
  next
    case False
    have fd: "first_dir (c_str p) = takeWhile (\<lambda>c. c \<noteq> 47) (c_str p)" using p c0 False by (simp add: first_dir_def)
    with first_dir_loop_eq [OF t, of 0 "replicate 32 0" 0 32] f rep [of "length (first_dir (c_str p))"] l len p False
    show ?thesis by (simp add: get_first_dir_in_path_def)
  qed
qed

subsection \<open>The mount table\<close>

definition free_entry :: mount_table_entry where
  "free_entry = \<lparr>mt_fs_type = FS_TYPE__NONE, mt_directory_path = replicate 64 0\<rparr>"

definition stored_path :: "u8 list \<Rightarrow> u8 list" where
  "stored_path p = take 63 (c_str p) @ replicate (64 - length (take 63 (c_str p))) 0"

text \<open>The table after the mounts \<open>ms\<close>, pairs of a type and a path.\<close>

definition table_of :: "(int \<times> u8 list) list \<Rightarrow> mount_table_entry list" where
  "table_of ms = map (\<lambda>(ty, p). \<lparr>mt_fs_type = ty, mt_directory_path = stored_path p\<rparr>) ms @ replicate (8 - length ms) free_entry"

definition mount_ok :: "int \<times> u8 list \<Rightarrow> bool" where
  "mount_ok m \<longleftrightarrow> fst m \<noteq> FS_TYPE__NONE \<and> path_ok (snd m)"

fun mount_all :: "(int \<times> u8 list) list \<Rightarrow> router \<Rightarrow> router option" where
  "mount_all [] rt = Some rt"
| "mount_all ((ty, p) # ms) rt = do { (_, rt) \<leftarrow> mount_fs ty (Some p) rt; mount_all ms rt }"

lemma length_stored_path [simp]: "length (stored_path p) = 64"
  by (simp add: stored_path_def)

lemma c_str_stored [simp]: "c_str (stored_path p) = take 63 (c_str p)"
proof -
  let ?xs = "take 63 (c_str p)"
  obtain k where "64 - length ?xs = Suc k" by (cases "64 - length ?xs") auto
  moreover have "0 \<notin> set ?xs" using c_str_no_null [of p] by (auto dest: in_set_takeD)
  ultimately show ?thesis by (simp add: stored_path_def c_str_append_null)
qed

lemma takeWhile_take_short: "length (takeWhile P xs) < n \<Longrightarrow> takeWhile P (take n xs) = takeWhile P xs"
proof (induction xs arbitrary: n)
  case (Cons x xs)
  then show ?case by (cases n) auto
qed simp

lemma first_dir_take: "length (first_dir xs) < 32 \<Longrightarrow> first_dir (take 63 xs) = first_dir xs"
  using takeWhile_take_short [of "\<lambda>c. c \<noteq> 47" xs 63] takeWhile_take_short [of "\<lambda>c. c \<noteq> 47" "tl xs" 62]
  by (cases xs) (auto simp: first_dir_def split: if_splits)

lemma terminated_stored: "terminated (stored_path p)"
proof -
  have "0 < 64 - length (take 63 (c_str p))" by simp
  then show ?thesis by (simp add: terminated_def stored_path_def)
qed

lemma path_ok_stored: "path_ok p \<Longrightarrow> path_ok (stored_path p)"
  using terminated_stored [of p] by (simp add: path_ok_def first_dir_take min_def)

lemma mount_at_eq:
  assumes "mount_ok (ty, p)" and "i + n = 8" and "i \<le> length ms" and "length ms \<le> 8"
    and "\<forall>m \<in> set ms. mount_ok m"
  shows "mount_at (table_of ms) i n ty p =
    Some (if length ms < 8 then (int (length ms), table_of (ms @ [(ty, p)])) else (-1, table_of ms))"
  using assms(2,3)
proof (induction n arbitrary: i)
  case 0
  then show ?case using assms(4) by simp
next
  case (Suc n)
  have len: "length (table_of ms) = 8" using assms(4) by (simp add: table_of_def)
  show ?case
  proof (cases "i < length ms")
    case True
    then have "mt_fs_type (table_of ms ! i) \<noteq> FS_TYPE__NONE"
      using assms(5) nth_mem [of i ms] by (cases "ms ! i") (force simp: table_of_def nth_append mount_ok_def)
    with True Suc len show ?thesis by (simp add: rd_in)
  next
    case False
    then have i: "i = length ms" "length ms < 8" using Suc by simp_all
    let ?n = "length (c_str p)"
    have p: "terminated p" "?n \<le> 100" using assms(1) by (simp_all add: mount_ok_def path_ok_def)
    have nth: "table_of ms ! i = free_entry" using i by (simp add: table_of_def nth_append)
    have "length (c_str p) < length p" by (rule terminated_length [OF p(1)])
    moreover have "take (min ?n 64) p = take (min ?n 64) (c_str p)"
    proof -
      have "take (min ?n 64) (take ?n p) = take (min ?n 64) p" by (simp add: min_def)
      then show ?thesis unfolding c_str_prefix by (rule sym)
    qed
    moreover have "nat (min (int ?n) 64) = min ?n 64" by linarith
    ultimately have "mem_copy (Some (replicate 64 0)) 64 (Some p) (int ?n) =
        Some (min (int ?n) 64, Some (take (min ?n 64) (c_str p) @ replicate (64 - min ?n 64) 0))"
      using mem_copy_min [of 64 "int ?n" p "replicate 64 0"] by simp
    moreover have "(take (min ?n 64) (c_str p) @ replicate (64 - min ?n 64) 0)[63 := 0] = stored_path p"
      by (rule nth_equalityI) (auto simp: stored_path_def nth_list_update nth_append min_def)
    moreover have "(table_of ms)[i := \<lparr>mt_fs_type = ty, mt_directory_path = stored_path p\<rparr>] = table_of (ms @ [(ty, p)])"
    proof -
      have "8 - length ms = Suc (8 - Suc (length ms))" using i by simp
      then show ?thesis using i by (simp add: table_of_def list_update_append)
    qed
    ultimately show ?thesis using i p len nth
      by (simp add: rd_in wr_in strlen_unsafe_eq free_entry_def)
  qed
qed

lemma mount_fs_ok:
  assumes "mount_ok (ty, p)" and "mount_table rt = table_of ms" and "length ms \<le> 8" and "\<forall>m \<in> set ms. mount_ok m"
  shows "mount_fs ty (Some p) rt = Some (if length ms < 8
    then (int (length ms), rt\<lparr>mount_table := table_of (ms @ [(ty, p)])\<rparr>) else (-1, rt))"
  using mount_at_eq [OF assms(1), of 0 8 ms] assms by (simp add: mount_fs_def mount_ok_def)

lemma mount_all_ok:
  assumes "\<forall>m \<in> set ms. mount_ok m" and "mount_table rt = table_of os" and "length os \<le> 8" and "\<forall>m \<in> set os. mount_ok m"
  shows "mount_all ms rt = Some (rt\<lparr>mount_table := table_of (take 8 (os @ ms))\<rparr>)"
  using assms
proof (induction ms arbitrary: rt os)
  case (Cons m ms)
  obtain ty p where m: "m = (ty, p)" by (cases m)
  show ?case
  proof (cases "length os < 8")
    case True
    then show ?thesis using Cons.prems Cons.IH [of "rt\<lparr>mount_table := table_of (os @ [m])\<rparr>" "os @ [m]"]
      mount_fs_ok [of ty p rt os] by (simp add: m)
  next
    case False
    then show ?thesis using Cons.prems Cons.IH [of rt os] mount_fs_ok [of ty p rt os] by (simp add: m)
  qed
qed simp

subsection \<open>Routing a path to its mount\<close>

definition mounted_at :: "u8 list \<Rightarrow> mount_table_entry \<Rightarrow> bool" where
  "mounted_at p e \<longleftrightarrow> mt_fs_type e \<noteq> FS_TYPE__NONE \<and> first_dir (c_str (mt_directory_path e)) = first_dir (c_str p)"

definition table_ok :: "mount_table_entry list \<Rightarrow> bool" where
  "table_ok tbl \<longleftrightarrow> length tbl = 8 \<and>
     (\<forall>e \<in> set tbl. length (mt_directory_path e) = 64 \<and> (mt_fs_type e \<noteq> FS_TYPE__NONE \<longrightarrow> path_ok (mt_directory_path e)))"

lemma first_dir_nonzero: "0 \<notin> set (first_dir (c_str p))"
proof
  assume "0 \<in> set (first_dir (c_str p))"
  then have "0 \<in> set (c_str p)"
    by (auto simp: first_dir_def dest: set_takeWhileD list.set_sel(2) split: if_splits)
  then show False using c_str_no_null by blast
qed

lemma strncmp_padded:
  assumes "0 \<notin> set a" and "0 \<notin> set b" and "length a < 32" and "length b < 32"
  shows "\<exists>d. strncmp (a @ replicate (32 - length a) 0) (b @ replicate (32 - length b) 0) 32 = Some d \<and> (d = 0 \<longleftrightarrow> a = b)"
proof -
  have pad: "terminated (x @ replicate (32 - length x) 0)" "c_str (x @ replicate (32 - length x) 0) = x" "take 32 x = x"
    if "0 \<notin> set x" "length x < 32" for x :: "u8 list"
  proof -
    from that(2) have "0 < 32 - length x" by simp
    then obtain k where "32 - length x = Suc k" using gr0_implies_Suc by blast
    then show "terminated (x @ replicate (32 - length x) 0)" "c_str (x @ replicate (32 - length x) 0) = x" "take 32 x = x"
      using that by (simp_all add: terminated_def c_str_append_null)
  qed
  have ca: "take 32 (c_str (a @ replicate (32 - length a) 0)) = a"
    unfolding pad(2) [OF assms(1,3)] by (rule pad(3) [OF assms(1,3)])
  have cb: "take 32 (c_str (b @ replicate (32 - length b) 0)) = b"
    unfolding pad(2) [OF assms(2,4)] by (rule pad(3) [OF assms(2,4)])
  show ?thesis
    using strncmp_total [OF pad(1) [OF assms(1,3)] disjI1 [OF pad(1) [OF assms(2,4)]], where n = 32]
    unfolding ca cb .
qed

lemma find_mount_from_eq:
  assumes "table_ok tbl" and "path_ok p" and "length mp = 64" and "i + n = 8"
  shows "find_mount_from tbl p i n mp ft = Some (case first_from (\<lambda>j. mounted_at p (tbl ! j)) i n of r \<Rightarrow>
    if r < 0 then (-1, mp, ft) else (r, mt_directory_path (tbl ! nat r), mt_fs_type (tbl ! nat r)))"
  using assms(4)
proof (induction n arbitrary: i)
  case (Suc n)
  have i: "i < length tbl" using Suc.prems assms(1) by (simp add: table_ok_def)
  obtain e where e: "e = tbl ! i" by simp
  have in_set: "e \<in> set tbl" using i e by simp
  have len: "length (mt_directory_path e) = 64" using in_set assms(1) by (simp add: table_ok_def)
  have r: "rd tbl i = Some e" using i e by (simp add: rd_in)
  have IH: "find_mount_from tbl p (Suc i) n mp ft = Some (case first_from (\<lambda>j. mounted_at p (tbl ! j)) (Suc i) n of r \<Rightarrow>
      if r < 0 then (-1, mp, ft) else (r, mt_directory_path (tbl ! nat r), mt_fs_type (tbl ! nat r)))"
    using Suc by simp
  show ?case
  proof (cases "mt_fs_type e = FS_TYPE__NONE")
    case True
    then show ?thesis using r e IH by (simp add: mounted_at_def)
  next
    case False
    then have ok: "path_ok (mt_directory_path e)" using in_set assms(1) by (simp add: table_ok_def)
    obtain d where d: "strncmp (first_dir (c_str p) @ replicate (32 - length (first_dir (c_str p))) 0)
        (first_dir (c_str (mt_directory_path e)) @ replicate (32 - length (first_dir (c_str (mt_directory_path e)))) 0) 32 = Some d"
      "d = 0 \<longleftrightarrow> first_dir (c_str p) = first_dir (c_str (mt_directory_path e))"
      using strncmp_padded [OF first_dir_nonzero first_dir_nonzero] assms(2) ok by (auto simp: path_ok_def)
    have c: "mem_copy (Some mp) 64 (Some (mt_directory_path e)) 64 = Some (64, Some (mt_directory_path e))"
      using mem_copy_eq [of 64 "mt_directory_path e" mp 64] len assms(3) by simp
    show ?thesis
    proof (cases "d = 0")
      case True
      then have "mounted_at p (tbl ! i)" using d(2) False e by (simp add: mounted_at_def)
      then show ?thesis
        using True False r d(1) c e len assms(3) get_first_dir_ok [OF assms(2)] get_first_dir_ok [OF ok] by simp
    next
      case ne: False
      then have "\<not> mounted_at p (tbl ! i)" using d(2) e by (auto simp: mounted_at_def)
      then show ?thesis
        using ne False r d(1) IH get_first_dir_ok [OF assms(2)] get_first_dir_ok [OF ok] by simp
    qed
  qed
qed simp

lemma find_mount_ok:
  assumes "table_ok (mount_table rt)" and "path_ok p" and "length mp = 64"
  shows "find_mount rt (Some p) mp ft = Some (case first_index (mounted_at p) (mount_table rt) of r \<Rightarrow>
    if r < 0 then (-1, mp, ft) else (r, mt_directory_path (mount_table rt ! nat r), mt_fs_type (mount_table rt ! nat r)))"
  using find_mount_from_eq [OF assms, of 0 8 ft] assms(1) by (simp add: find_mount_def first_index_def table_ok_def)

lemma table_ok_of:
  assumes "length ms \<le> 8" and "\<forall>m \<in> set ms. mount_ok m"
  shows "table_ok (table_of ms)"
  using assms path_ok_stored by (fastforce simp: table_ok_def table_of_def mount_ok_def free_entry_def)

text \<open>The first of the mounts under the directory of the path.\<close>

definition route :: "(int \<times> u8 list) list \<Rightarrow> u8 list \<Rightarrow> (int \<times> u8 list) option" where
  "route ms p = List.find (\<lambda>m. first_dir (c_str (snd m)) = first_dir (c_str p)) (take 8 ms)"

lemma first_from_cong: "(\<And>j. i \<le> j \<Longrightarrow> j < i + n \<Longrightarrow> P j = Q j) \<Longrightarrow> first_from P i n = first_from Q i n"
  by (induction n arbitrary: i) auto

lemma find_first_index:
  "List.find P xs = (case first_index P xs of r \<Rightarrow> if r < 0 then None else Some (xs ! nat r))"
proof (cases rule: first_index_cases [of P xs])
  case 1
  then show ?thesis by (auto simp: find_None_iff)
next
  case (2 i)
  then have "List.find P xs = Some (xs ! i)" by (auto simp: find_Some_iff)
  then show ?thesis using 2(1) by simp
qed

lemma find_mount_route:
  assumes "mount_table rt = table_of ms" and "length ms \<le> 8" and "\<forall>m \<in> set ms. mount_ok m" and "path_ok p" and "length mp = 64"
  shows "(case route ms p of
     None \<Rightarrow> find_mount rt (Some p) mp ft = Some (-1, mp, ft)
   | Some (ty, d) \<Rightarrow> \<exists>i. find_mount rt (Some p) mp ft = Some (int i, stored_path d, ty) \<and> i < length ms \<and> ms ! i = (ty, d))"
proof -
  let ?Q = "\<lambda>m. first_dir (c_str (snd m)) = first_dir (c_str p)"
  have len: "length (table_of ms) = 8" using assms(2) by (simp add: table_of_def)
  have in_ms: "mounted_at p (table_of ms ! j) \<longleftrightarrow> ?Q (ms ! j)" if "j < length ms" for j
    using that assms(3) nth_mem [OF that]
    by (cases "ms ! j") (force simp: mounted_at_def table_of_def nth_append mount_ok_def path_ok_def first_dir_take)
  have not_free: "j < length ms" if "mounted_at p (table_of ms ! j)" "j < 8" for j
    using that by (auto simp: table_of_def nth_append mounted_at_def free_entry_def split: if_splits)
  have eq: "find_mount rt (Some p) mp ft = Some (case first_index (mounted_at p) (table_of ms) of r \<Rightarrow>
    if r < 0 then (-1, mp, ft) else (r, mt_directory_path (table_of ms ! nat r), mt_fs_type (table_of ms ! nat r)))"
    using find_mount_ok [of rt p mp ft] assms table_ok_of by simp
  show ?thesis
  proof (cases rule: first_index_cases [of "mounted_at p" "table_of ms"])
    case 1
    then have "\<forall>j < length ms. \<not> ?Q (ms ! j)" using in_ms len assms(2) nth_mem [of _ "table_of ms"] by fastforce
    then have "route ms p = None" using assms(2) by (auto simp: route_def find_None_iff in_set_conv_nth)
    then show ?thesis using eq 1(1) by simp
  next
    case (2 i)
    have i: "i < length ms" using not_free [OF 2(3)] 2(2) len by simp
    have "route ms p = Some (ms ! i)"
      using 2 i in_ms assms(2) by (auto simp: route_def find_Some_iff intro!: exI [of _ i])
    then show ?thesis using eq 2(1) i by (cases "ms ! i") (auto simp: table_of_def nth_append)
  qed
qed


text \<open>The mounts of the kernel.\<close>

abbreviation kernel_mounts :: "(int \<times> u8 list) list" where
  "kernel_mounts \<equiv> [(FS_TYPE__TINY_FS, c_lit ''/mnt''), (FS_TYPE__VIRTUAL_FS, c_lit ''/vfs''), (FS_TYPE__TEST_FS, c_lit ''/test'')]"

abbreviation empty_router :: "tinyfs \<Rightarrow> router" where
  "empty_router s \<equiv> \<lparr>mount_table = replicate 8 free_entry, router_volume = s\<rparr>"

lemma kernel_mounts_ok: "\<forall>m \<in> set kernel_mounts. mount_ok m"
  by (simp add: mount_ok_def fs_types c_lit_def map_of_char_def path_ok_def terminated_def first_dir_def)


subsection \<open>Reading a file through its mount\<close>

lemma for_loop_cong:
  "(\<And>j t. i \<le> j \<Longrightarrow> j < n \<Longrightarrow> body j t = body' j t) \<Longrightarrow> for_loop i n body s = for_loop i n body' s"
proof (induction i n body s rule: for_loop.induct)
  case (1 i n body s)
  show ?case
  proof (cases "i < n")
    case True
    have eq: "body i s = body' i s" using "1.prems" [of i s] True by simp
    show ?thesis
    proof (cases "body i s")
      case None
      then show ?thesis using True eq by (simp add: for_loop_step)
    next
      case (Some t)
      have "for_loop (Suc i) n body t = for_loop (Suc i) n body' t"
        using True Some "1.prems" by (intro "1.IH") auto
      then show ?thesis using True eq [symmetric] Some by (simp add: for_loop_step)
    qed
  qed simp
qed

lemma for_loop_overrun:
  "i \<le> length d \<Longrightarrow> length d < n \<Longrightarrow> for_loop i n (\<lambda>j m. wr m j (f j)) d = None"
proof (induction "length d - i" arbitrary: i d)
  case 0
  then show ?case by (simp add: for_loop_step wr_out)
next
  case (Suc k)
  then have "for_loop (Suc i) n (\<lambda>j m. wr m j (f j)) (d[i := f i]) = None" by simp
  then show ?case using Suc.hyps(2) Suc.prems by (simp add: for_loop_step wr_in)
qed

lemma read_tinyfs_ok:
  assumes inv: "fs_sound s" and f: "terminated name"
  shows "slot_of (c_str name) (files s) = -1 \<Longrightarrow> read_tinyfs s name buf = Some (-1, buf)"
    and "slot_of (c_str name) (files s) = int i \<Longrightarrow> files s ! i = Some (m, c) \<Longrightarrow> length c \<le> length buf \<Longrightarrow>
      read_tinyfs s name buf = Some (int (length c), c @ drop (length c) buf)"
    and "slot_of (c_str name) (files s) = int i \<Longrightarrow> files s ! i = Some (m, c) \<Longrightarrow> length buf < length c \<Longrightarrow>
      read_tinyfs s name buf = None"
proof -
  obtain bs where rb: "rootdir s = Some bs" and db: "dir_of s = entries bs" and wf: "fs_wf s"
    using fs_sound_root [OF inv] by metis
  have find: "rootdir_find_file s (Some name) = Some (slot_of (c_str name) (files s))"
    using fs_open_sound [OF inv f] by (simp add: fs_open_def)
  { assume "slot_of (c_str name) (files s) = -1"
    then show "read_tinyfs s name buf = Some (-1, buf)" using find by (simp add: read_tinyfs_def) }
  have found: "read_tinyfs s name buf = (if length c \<le> length buf then Some (int (length c), c @ drop (length c) buf) else None)"
    if sl: "slot_of (c_str name) (files s) = int i" and fi: "files s ! i = Some (m, c)"
  proof -
    obtain e vs where e: "files s ! i = Some (c_str (fe_name e), content s e)" "view s (fe_head e) = Some vs"
        "unat (fe_file_size e) \<le> length vs" "content s e = take (unat (fe_file_size e)) vs"
        "rootdir_get_file_entry s (of_nat i) = Some (0, Some e)"
      by (rule found_file [OF inv sl])
    let ?n = "unat (fe_file_size e)"
    have c: "c = take ?n vs" using e(1,4) fi by simp
    note vs = e(2) and n = e(3) and get = e(5)
    have "for_loop 0 ?n (\<lambda>i b. do { (_, v) \<leftarrow> cluster_read_8bit s (ucast (fe_data_cluster e)) (of_nat i); byte \<leftarrow> v; wr b i byte }) buf
      = for_loop 0 ?n (\<lambda>i b. wr b i (vs ! i)) buf"
      by (rule for_loop_cong) (simp add: file_byte [OF vs n])
    moreover have "map (\<lambda>i. vs ! i) [0..<?n] = take ?n vs" using n by (intro nth_equalityI) simp_all
    ultimately show ?thesis
      using for_loop_fill [of 0 ?n buf "\<lambda>i. vs ! i"] for_loop_overrun [of 0 buf ?n "\<lambda>i. vs ! i"] n c find sl get
      by (simp add: read_tinyfs_def)
  qed
  { assume "slot_of (c_str name) (files s) = int i" "files s ! i = Some (m, c)" "length c \<le> length buf"
    then show "read_tinyfs s name buf = Some (int (length c), c @ drop (length c) buf)" using found by simp }
  { assume "slot_of (c_str name) (files s) = int i" "files s ! i = Some (m, c)" "length buf < length c"
    then show "read_tinyfs s name buf = None" using found by simp }
qed

text \<open>A path under the directory \<open>d\<close>.\<close>

definition under :: "u8 list \<Rightarrow> u8 list \<Rightarrow> u8 list" where
  "under d name = 47 # d @ 47 # name"

definition dir_name_ok :: "u8 list \<Rightarrow> bool" where
  "dir_name_ok d \<longleftrightarrow> d \<noteq> [] \<and> 0 \<notin> set d \<and> 47 \<notin> set d \<and> length d < 32"

lemma c_str_under: "0 \<notin> set d \<Longrightarrow> c_str (under d name) = 47 # d @ 47 # c_str name"
  by (induction d) (auto simp: under_def)

lemma first_dir_under: "dir_name_ok d \<Longrightarrow> first_dir (c_str (under d name)) = d"
proof -
  have "47 \<notin> set d \<Longrightarrow> takeWhile (\<lambda>c. c \<noteq> 47) (d @ 47 # xs) = d" for xs :: "u8 list" by (induction d) auto
  then show "dir_name_ok d \<Longrightarrow> first_dir (c_str (under d name)) = d"
    by (simp add: c_str_under dir_name_ok_def first_dir_def)
qed

lemma path_ok_under:
  assumes "dir_name_ok d" and "terminated name" and "length d + length (c_str name) \<le> 98"
  shows "path_ok (under d name)"
proof -
  have "terminated (under d name)" using assms(2) by (simp add: terminated_def under_def)
  then show ?thesis
    using assms first_dir_under [OF assms(1)] by (auto simp: path_ok_def c_str_under dir_name_ok_def)
qed

lemma routed:
  assumes "mount_table rt = table_of ms" and "length ms \<le> 8" and "\<forall>m \<in> set ms. mount_ok m"
    and "dir_name_ok d" and "terminated name" and "length d + length (c_str name) \<le> 98"
    and "route ms (under d name) = Some (ty, p)" and "c_str p = 47 # d"
  shows "\<exists>i. find_mount rt (Some (under d name)) (replicate 64 0) FS_TYPE__NONE = Some (int i, stored_path p, ty)"
    and "strlen_unsafe (Some (stored_path p)) = Some (Suc (length d))"
    and "advance (Suc (length d) + 1) (under d name) = Some name"
proof -
  show "\<exists>i. find_mount rt (Some (under d name)) (replicate 64 0) FS_TYPE__NONE = Some (int i, stored_path p, ty)"
    using find_mount_route [OF assms(1-3) path_ok_under [OF assms(4-6)], of "replicate 64 0" FS_TYPE__NONE] assms(7) by auto
  have "take 63 (c_str p) = 47 # d" using assms(4,8) by (simp add: dir_name_ok_def)
  then show "strlen_unsafe (Some (stored_path p)) = Some (Suc (length d))"
    using strlen_unsafe_eq [OF terminated_stored [of p]] assms(4) by (simp add: dir_name_ok_def)
  show "advance (Suc (length d) + 1) (under d name) = Some name" by (simp add: advance_def under_def)
qed

text \<open>Claim C13. A path under a TinyFS mount reads the file of that name on the volume: the whole content when the
  buffer holds it; a name that is not in the directory gives -1; a file longer than the buffer is written behind it,
  because the code counts \<^verbatim>\<open>buffer_len\<close> down but never tests it.\<close>

theorem read_file_reads_volume:
  assumes "mount_table rt = table_of ms" and "length ms \<le> 8" and "\<forall>m \<in> set ms. mount_ok m"
    and "dir_name_ok d" and "terminated name" and "length d + length (c_str name) \<le> 98"
    and "route ms (under d name) = Some (FS_TYPE__TINY_FS, p)" and "c_str p = 47 # d" and "fs_sound (router_volume rt)"
  shows "read_file hello_bin rt (Some (under d name)) buffer buffer_len =
    (let i = slot_of (c_str name) (files (router_volume rt)) in
     if i < 0 then Some (-1, buffer)
     else case files (router_volume rt) ! nat i of None \<Rightarrow> None
       | Some (_, c) \<Rightarrow> if length c \<le> length buffer then Some (int (length c), c @ drop (length c) buffer) else None)"
proof -
  let ?s = "router_volume rt"
  note rr = routed [OF assms(1-8)]
  have "read_file hello_bin rt (Some (under d name)) buffer buffer_len = read_tinyfs ?s name buffer"
    using rr by (auto simp: read_file_def fs_types)
  also note ok = read_tinyfs_ok [OF assms(9,5)]
  have "read_tinyfs ?s name buffer = (let i = slot_of (c_str name) (files ?s) in
     if i < 0 then Some (-1, buffer)
     else case files ?s ! nat i of None \<Rightarrow> None
       | Some (_, c) \<Rightarrow> if length c \<le> length buffer then Some (int (length c), c @ drop (length c) buffer) else None)"
  proof (cases rule: slot_cases [of "c_str name" "files ?s"])
    case 1
    then show ?thesis using ok(1) by simp
  next
    case (2 i m c)
    then show ?thesis using ok(2) [OF 2(1,3)] ok(3) [OF 2(1,3)] by (simp add: not_le)
  qed
  finally show ?thesis .
qed

theorem read_file_reads_volume_witness:
  "read_file [] \<lparr>mount_table = table_of kernel_mounts, router_volume = sample_fs\<rparr> (Some (under (map_of_char ''mnt'') (c_lit ''a'')))
     [1, 2, 3, 4] 4 = Some (3, [0x78, 0x79, 0x7A, 4])"
proof -
  have n: "dir_name_ok (map_of_char ''mnt'')" "terminated (c_lit ''a'')" "length (map_of_char ''mnt'') + length (c_str (c_lit ''a'')) \<le> 98"
    "c_str (c_lit ''/mnt'') = 47 # map_of_char ''mnt''"
    by (simp_all add: dir_name_ok_def c_lit_def map_of_char_def terminated_def)
  have r: "route kernel_mounts (under (map_of_char ''mnt'') (c_lit ''a'')) = Some (FS_TYPE__TINY_FS, c_lit ''/mnt'')"
    by (simp add: route_def c_lit_def map_of_char_def first_dir_def under_def)
  have s: "slot_of (c_str (c_lit ''a'')) [Some ([0x61], [0x78, 0x79, 0x7A])] = 0"
    by (simp add: slot_of_def first_index_def named_def c_lit_def map_of_char_def)
  show ?thesis
    using read_file_reads_volume [OF _ _ kernel_mounts_ok n(1-3) r n(4), of "\<lparr>mount_table = table_of kernel_mounts, router_volume = sample_fs\<rparr>" "[]" "[1, 2, 3, 4]" 4]
      sample_sound s
    by (simp add: sample_files)
qed

subsection \<open>What a listing contains\<close>

text \<open>The names one after the other, each with its terminator, in \<open>r\<close> bytes: a name that does not fit is cut, and
  what comes after a full buffer is dropped.\<close>

fun pack :: "nat \<Rightarrow> u8 list list \<Rightarrow> u8 list" where
  "pack r [] = []"
| "pack r (n # ns) = (if r = 0 then [] else take (r - 1) n @ 0 # pack (r - 1 - length (take (r - 1) n)) ns)"

lemma pack_0 [simp]: "pack 0 ns = []" by (cases ns) auto

lemma length_pack: "length (pack r ns) \<le> r"
proof (induction r ns rule: pack.induct)
  case (2 r n ns)
  then show ?case by (auto simp: min_def split: if_splits)
qed simp

lemma pack_append: "pack r (xs @ ys) = pack r xs @ pack (r - length (pack r xs)) ys"
proof (induction r xs rule: pack.induct)
  case (2 r n ns)
  then show ?case by simp
qed simp

lemma last_pack: "pack r ns \<noteq> [] \<Longrightarrow> last (pack r ns) = 0"
proof (induction r ns rule: pack.induct)
  case (2 r n ns)
  then show ?case by (cases "r = 0") auto
qed simp

definition listed :: "u8 list \<Rightarrow> u8 list \<Rightarrow> listing" where
  "listed buf out = (out @ drop (length out) buf, int (length out), int (length buf - length out), int (length out))"

lemma list_name_ok:
  assumes "terminated name" and "length (c_str name) \<le> 100" and "buf \<noteq> []"
    and "length out \<le> length buf" and "out \<noteq> [] \<Longrightarrow> last out = 0"
  shows "list_name name (listed buf out) = Some (listed buf (out @ pack (length buf - length out) [c_str name]))"
proof -
  obtain w where w: "w = c_str name" by simp
  have len: "strlen_unsafe (Some name) = Some (length w)" using assms(1,2) w by (simp add: strlen_unsafe_eq)
  have wl: "length w < length name" using terminated_length [OF assms(1)] w by simp
  have pre: "take k name = take k w" if "k \<le> length w" for k
  proof -
    have "take k name = take k (take (length w) name)" using that by (simp add: min_def)
    then show ?thesis by (simp add: w c_str_prefix)
  qed
  show ?thesis
  proof (cases "length out = length buf")
    case True
    then obtain o' where o: "out = o' @ [0]" using assms(3,5) by (metis append_butlast_last_id length_0_conv)
    have c: "mem_copy (Some []) (-1) (Some name) (int (length w)) = Some (-1, Some [])"
      by (simp add: mem_copy_def)
    have up: "(o' @ [0 :: u8])[length o' := 0] = o' @ [0]" by simp
    have "nat (int (length buf) - 1) = length o'" using True o by simp
    then have wr: "wr (o' @ [0]) (nat (int (length buf) - 1)) 0 = Some (o' @ [0 :: u8])" using up by (simp add: wr_in)
    show ?thesis
      using True len c wr assms(3)
      unfolding listed_def list_name_def o w [symmetric] by (simp add: Let_def)
  next
    case False
    then obtain k where k: "length buf - length out = Suc k" using assms(4) by (cases "length buf - length out") auto
    then have L: "length buf = length out + Suc k" using assms(4) by simp
    let ?m = "min (length w) k"
    have d: "drop (length out) (out @ drop (length out) buf) = drop (length out) buf" "take (length out) (out @ drop (length out) buf) = out" by simp_all
    have nm: "nat (min (int (length w)) (int k)) = ?m" by linarith
    have c: "mem_copy (Some (drop (length out) buf)) (int k) (Some name) (int (length w)) =
        Some (int ?m, Some (take ?m w @ drop ?m (drop (length out) buf)))"
      using mem_copy_min [of "int k" "int (length w)" name "drop (length out) buf"] wl k nm by (simp add: pre)
    have dc: "drop (length out + ?m) buf = buf ! (length out + ?m) # drop (Suc (length out + ?m)) buf"
      using k by (intro Cons_nth_drop_Suc [symmetric]) simp
    have up: "(out @ take ?m w @ drop ?m (drop (length out) buf))[length out + ?m := 0] = out @ take ?m w @ 0 # drop (Suc (length out + ?m)) buf"
      using dc by (simp add: list_update_append add.commute)
    have tk: "take k w = take ?m w" by (simp add: min_def)
    have lt: "length out + ?m < length (out @ take ?m w @ drop ?m (drop (length out) buf))" using k by simp
    have pos: "nat (int (length out) + int ?m) = length out + ?m" by linarith
    show ?thesis
      using len c up lt pos dc
      by (simp add: listed_def list_name_def d L w [symmetric] wr_in tk add.assoc Let_def)
  qed
qed

lemma list_loop_ok:
  assumes "\<And>i name. i < n \<Longrightarrow> f i = Some name \<Longrightarrow> terminated name \<and> length (c_str name) \<le> 100" and "buf \<noteq> []"
  shows "for_loop 0 n (\<lambda>i st. case f i of None \<Rightarrow> Some st | Some name \<Rightarrow> list_name name st) (buf, 0, int (length buf), 0) =
    Some (listed buf (pack (length buf) (map c_str (List.map_filter f [0..<n]))))"
proof -
  let ?out = "\<lambda>j. pack (length buf) (map c_str (List.map_filter f [0..<j]))"
  let ?I = "\<lambda>j st. st = listed buf (?out j)"
  have "\<exists>st. for_loop 0 n (\<lambda>i st. case f i of None \<Rightarrow> Some st | Some name \<Rightarrow> list_name name st) (buf, 0, int (length buf), 0) = Some st \<and> ?I n st"
  proof (rule for_loop_rule [where I = ?I])
    fix j st assume st: "?I j st" and j: "j < n"
    show "\<exists>st'. (case f j of None \<Rightarrow> Some st | Some name \<Rightarrow> list_name name st) = Some st' \<and> ?I (Suc j) st'"
    proof (cases "f j")
      case None
      then show ?thesis using st by (simp add: List.map_filter_def)
    next
      case (Some name)
      have "?out (Suc j) = ?out j @ pack (length buf - length (?out j)) [c_str name]"
        using Some by (simp add: List.map_filter_def pack_append)
      then show ?thesis
        using list_name_ok [of name buf "?out j"] assms(1) [OF j Some] assms(2) length_pack last_pack Some st by simp
    qed
  qed (simp_all add: listed_def List.map_filter_def)
  then show ?thesis by (elim exE conjE) (simp only:)
qed

lemma list_tinyfs_ok:
  assumes inv: "fs_sound s" and names: "\<forall>x \<in> set (dir_of s). case x of None \<Rightarrow> True | Some e \<Rightarrow> terminated (fe_name e)"
    and "buf \<noteq> []" and out: "out = pack (length buf) (map fst (List.map_filter id (files s)))"
  shows "list_tinyfs s buf (int (length buf)) = Some (int (length out), out @ drop (length out) buf)"
proof -
  obtain bs where ok: "dir_ok s bs" and rb: "rootdir s = Some bs" and db: "dir_of s = entries bs"
    using fs_sound_root [OF inv] by metis
  let ?f = "\<lambda>i. map_option fe_name (dir_of s ! i)" and ?n = "length bs div 16"
  have n: "?n = length (dir_of s)" by (simp add: db)
  have nm: "terminated name \<and> length (c_str name) \<le> 100" if i: "i < ?n" and f: "?f i = Some name" for i name
  proof -
    obtain e where e: "dir_of s ! i = Some e" "name = fe_name e" using f by auto
    have eb: "entries bs ! i = Some e" "i < length (entries bs)" using e(1) i db by simp_all
    then have "length (fe_name e) = 13"
      by (auto simp: entries_def entry_of_def in_table length_block split: if_splits)
    then have len: "length name = 13" unfolding e(2) .
    have "Some e \<in> set (dir_of s)" using nth_mem [of i "dir_of s"] i n e(1) by simp
    from bspec [OF names this] have "terminated (fe_name e)" by simp
    then have t: "terminated name" unfolding e(2) .
    have "length (c_str name) < length name" by (rule terminated_length [OF t])
    with t len show ?thesis by linarith
  qed
  have body: "for_loop 0 ?n (\<lambda>i st. do {
      (r, entry) \<leftarrow> rootdir_get_file_entry s (of_nat i);
      if r = 0 then do { e \<leftarrow> entry; list_name (fe_name e) st } else Some st }) (buf, 0, int (length buf), 0) =
    for_loop 0 ?n (\<lambda>i st. case ?f i of None \<Rightarrow> Some st | Some name \<Rightarrow> list_name name st) (buf, 0, int (length buf), 0)"
  proof (rule for_loop_cong)
    fix j :: nat and st :: listing assume "j < ?n"
    then have "rootdir_get_file_entry s (of_nat j) = Some (case dir_of s ! j of None \<Rightarrow> (-1, None) | Some e \<Rightarrow> (0, Some e))"
      using get_entry_entries [OF rb, of j] unfolding db by simp
    then show "do {
        (r, entry) \<leftarrow> rootdir_get_file_entry s (of_nat j);
        if r = 0 then do { e \<leftarrow> entry; list_name (fe_name e) st } else Some st } =
      (case ?f j of None \<Rightarrow> Some st | Some name \<Rightarrow> list_name name st)"
      by (cases "dir_of s ! j") simp_all
  qed
  have filt: "map c_str (List.map_filter ?f [0..<?n]) = map fst (List.map_filter id (files s))"
  proof -
    have "map c_str (List.map_filter (map_option fe_name) xs) = map fst (List.map_filter id (map (map_option (\<lambda>e. (c_str (fe_name e), content s e))) xs))" for xs
      by (induction xs) (auto simp: List.map_filter_def split: option.split)
    moreover have "List.map_filter ?f [0..<length xs] = List.map_filter (map_option fe_name) xs" if "xs = dir_of s" for xs
      using arg_cong [OF map_nth [of xs], of "List.map_filter (map_option fe_name)"] that
      by (simp add: List.map_filter_def filter_map comp_def)
    ultimately show ?thesis by (simp add: files_def n)
  qed
  have L: "for_loop 0 ?n (\<lambda>i st. case ?f i of None \<Rightarrow> Some st | Some name \<Rightarrow> list_name name st) (buf, 0, int (length buf), 0) = Some (listed buf out)"
    using list_loop_ok [of ?n ?f buf, OF nm assms(3)] unfolding filt out .
  show ?thesis
    unfolding list_tinyfs_def table_size_eq [OF ok] Option.bind_lunit nat_int body L by (simp add: listed_def)
qed

lemma list_mounts_ok:
  assumes "mount_table rt = table_of ms" and "length ms \<le> 8" and "\<forall>m \<in> set ms. mount_ok m"
    and "buf \<noteq> []" and out: "out = pack (length buf) (map (\<lambda>m. take 63 (c_str (snd m))) ms)"
  shows "list_mounts rt buf (int (length buf)) = Some (int (length out), out @ drop (length out) buf)"
proof -
  let ?f = "\<lambda>i. if i < length ms then Some (stored_path (snd (ms ! i))) else None"
  have nth: "table_of ms ! i = (if i < length ms then \<lparr>mt_fs_type = fst (ms ! i), mt_directory_path = stored_path (snd (ms ! i))\<rparr> else free_entry)"
    if "i < 8" for i
    using that assms(2) by (simp add: table_of_def nth_append split: prod.split)
  have type: "fst (ms ! i) \<noteq> FS_TYPE__NONE" if "i < length ms" for i
    using assms(3) nth_mem [OF that] by (auto simp: mount_ok_def)
  have body: "for_loop 0 8 (\<lambda>i st. do {
      e \<leftarrow> rd (mount_table rt) i;
      if mt_fs_type e \<noteq> FS_TYPE__NONE then list_name (mt_directory_path e) st else Some st }) (buf, 0, int (length buf), 0) =
    for_loop 0 8 (\<lambda>i st. case ?f i of None \<Rightarrow> Some st | Some name \<Rightarrow> list_name name st) (buf, 0, int (length buf), 0)"
  proof (rule for_loop_cong)
    fix j :: nat and st :: listing assume j: "j < 8"
    have "length (table_of ms) = 8" using assms(2) by (simp add: table_of_def)
    then show "do { e \<leftarrow> rd (mount_table rt) j;
        if mt_fs_type e \<noteq> FS_TYPE__NONE then list_name (mt_directory_path e) st else Some st } =
      (case ?f j of None \<Rightarrow> Some st | Some name \<Rightarrow> list_name name st)"
      using nth [OF j] type j assms(1) by (simp add: rd_in free_entry_def)
  qed
  have filt: "map c_str (List.map_filter ?f [0..<8]) = map (\<lambda>m. take 63 (c_str (snd m))) ms"
  proof -
    have "[0..<8] = [0..<length ms] @ [length ms..<8]" using upt_add_eq_append [of 0 "length ms" "8 - length ms"] assms(2) by simp
    moreover have "List.map_filter ?f [0..<length ms] = map (\<lambda>m. stored_path (snd m)) ms"
      by (simp add: List.map_filter_def comp_def filter_True) (rule nth_equalityI; simp)
    moreover have "List.map_filter ?f [length ms..<8] = []" by (auto simp: List.map_filter_def filter_empty_conv)
    ultimately show ?thesis by (simp add: List.map_filter_def)
  qed
  have nm: "terminated name \<and> length (c_str name) \<le> 100" if "i < 8" "?f i = Some name" for i name
    using that terminated_stored by (auto split: if_splits)
  have L: "for_loop 0 8 (\<lambda>i st. case ?f i of None \<Rightarrow> Some st | Some name \<Rightarrow> list_name name st) (buf, 0, int (length buf), 0) = Some (listed buf out)"
    using list_loop_ok [of 8 ?f buf, OF nm assms(4)] unfolding filt out .
  show ?thesis by (simp add: list_mounts_def body L) (simp add: listed_def)
qed

text \<open>A path to a TinyFS mount lists the volume.\<close>

lemma get_list_routed:
  assumes "mount_table rt = table_of ms" and "length ms \<le> 8" and "\<forall>m \<in> set ms. mount_ok m"
    and "path_ok p" and "route ms p = Some (FS_TYPE__TINY_FS, d)" and "length (take 63 (c_str d)) < length p"
  shows "get_list_of_files rt p buf len = list_tinyfs (router_volume rt) buf len"
proof -
  have p: "terminated p" "2 \<le> length (c_str p)" using assms(4) by (auto simp: path_ok_def)
  have "2 < length p" using terminated_length [OF p(1)] p(2) by linarith
  then obtain a b q where q: "p = a # b # q" by (cases p; cases "tl p") auto
  have ab: "a \<noteq> 0" "b \<noteq> 0" using p(2) q by (auto split: if_splits)
  obtain i where f: "find_mount rt (Some p) (replicate 64 0) FS_TYPE__NONE = Some (int i, stored_path d, FS_TYPE__TINY_FS)"
    using find_mount_route [OF assms(1-4), of "replicate 64 0" FS_TYPE__NONE] assms(5) by auto
  have n: "strlen_unsafe (Some (stored_path d)) = Some (length (take 63 (c_str d)))"
    using strlen_unsafe_eq [OF terminated_stored [of d]] by (simp add: min_def)
  have "\<exists>r. advance (length (take 63 (c_str d)) + 1) p = Some r" using assms(6) by (simp add: advance_def Suc_leI)
  then show ?thesis using f n ab by (auto simp: get_list_of_files_def q)
qed

text \<open>Claim C16. A listing of the root holds the paths of the mounts and a listing of a TinyFS mount the names of the
  files on its volume, each with its terminator, cut at the end of the buffer, which is never left.\<close>

theorem listing_packs_names:
  assumes "mount_table rt = table_of ms" and "length ms \<le> 8" and "\<forall>m \<in> set ms. mount_ok m"
    and "path_ok p" and "route ms p = Some (FS_TYPE__TINY_FS, d)" and "length (take 63 (c_str d)) < length p"
    and "fs_sound (router_volume rt)"
    and "\<forall>x \<in> set (dir_of (router_volume rt)). case x of None \<Rightarrow> True | Some e \<Rightarrow> terminated (fe_name e)"
    and "buf \<noteq> []"
  shows "(let out = pack (length buf) (map fst (List.map_filter id (files (router_volume rt)))) in
      get_list_of_files rt p buf (int (length buf)) = Some (int (length out), out @ drop (length out) buf)) \<and>
    (let out = pack (length buf) (map (\<lambda>m. take 63 (c_str (snd m))) ms) in
      get_list_of_files rt [47, 0] buf (int (length buf)) = Some (int (length out), out @ drop (length out) buf))"
proof
  have "get_list_of_files rt p buf (int (length buf)) = list_tinyfs (router_volume rt) buf (int (length buf))"
    by (rule get_list_routed [OF assms(1-6)])
  then show "let out = pack (length buf) (map fst (List.map_filter id (files (router_volume rt)))) in
      get_list_of_files rt p buf (int (length buf)) = Some (int (length out), out @ drop (length out) buf)"
    using list_tinyfs_ok [OF assms(7-9) refl] by (simp add: Let_def)
  show "let out = pack (length buf) (map (\<lambda>m. take 63 (c_str (snd m))) ms) in
      get_list_of_files rt [47, 0] buf (int (length buf)) = Some (int (length out), out @ drop (length out) buf)"
    using list_mounts_ok [OF assms(1-3,9) refl] by (simp add: get_list_of_files_def Let_def)
qed

theorem listing_packs_names_witness:
  "get_list_of_files \<lparr>mount_table = table_of kernel_mounts, router_volume = sample_fs\<rparr> (c_lit ''/mnt'') [9, 9, 9] 3 = Some (2, [0x61, 0, 9])"
proof -
  have p: "path_ok (c_lit ''/mnt'')" "length (take 63 (c_str (c_lit ''/mnt''))) < length (c_lit ''/mnt'')"
    by (simp_all add: c_lit_def map_of_char_def path_ok_def terminated_def first_dir_def)
  have r: "route kernel_mounts (c_lit ''/mnt'') = Some (FS_TYPE__TINY_FS, c_lit ''/mnt'')"
    by (simp add: route_def c_lit_def map_of_char_def first_dir_def)
  have t: "\<forall>x \<in> set (dir_of sample_fs). case x of None \<Rightarrow> True | Some e \<Rightarrow> terminated (fe_name e)"
    by (simp add: sample_dir terminated_def)
  show ?thesis
    using listing_packs_names [OF _ _ kernel_mounts_ok p(1) r p(2), of "\<lparr>mount_table = table_of kernel_mounts, router_volume = sample_fs\<rparr>" "[9, 9, 9]"]
      sample_sound t
    by (simp add: sample_files List.map_filter_def Let_def)
qed

end
