(* ===== verification/Process_Stacks.thy ===== *)
theory Process_Stacks
  imports Heap_Allocator Util
begin

section \<open>The stacks of the processes (scheduler.c: stack memory management)\<close>

text \<open>
  A pool of 32 blocks of 128 KiB, whose free blocks are the indices in a byte stack. Addresses are \<open>u32\<close> values with
  \<open>NULL\<close> = 0. Where the linker puts \<^verbatim>\<open>process_stack_memory\<close> is a parameter of the initialiser, and so are the bytes
  that \<^verbatim>\<open>stack_buffer\<close> holds when it runs. \<^verbatim>\<open>free_blocks_stack\<close> is a static object, so its handle is never \<open>NULL\<close>.
  The messages to LOG are left out.
\<close>

record process_stacks =
  ps_base :: u32
  ps_free :: "stack_handle option"

definition PROCESS_STACK_SIZE :: u32 where "PROCESS_STACK_SIZE = 128 * 1024"
definition PROCESS_STACK_COUNT :: u32 where "PROCESS_STACK_COUNT = 32"

lemmas process_stack_consts = PROCESS_STACK_SIZE_def PROCESS_STACK_COUNT_def

definition stack_idx_to_ptr :: "process_stacks \<Rightarrow> u8 \<Rightarrow> u32" where
  "stack_idx_to_ptr ps idx = (if ucast idx \<ge> PROCESS_STACK_COUNT then 0 else ps_base ps + ucast idx * PROCESS_STACK_SIZE)"

text \<open>The difference of two pointers is signed and its division truncates.\<close>

definition stack_ptr_to_idx :: "process_stacks \<Rightarrow> u32 \<Rightarrow> u8" where
  "stack_ptr_to_idx ps ptr =
     (if ptr \<ge> ps_base ps + PROCESS_STACK_SIZE * PROCESS_STACK_COUNT then ucast PROCESS_STACK_COUNT
      else of_int ((uint ptr - uint (ps_base ps)) sdiv uint PROCESS_STACK_SIZE))"

text \<open>The initialiser ends without a \<^verbatim>\<open>return\<close> when it succeeds: then its result is the value \<open>None\<close>.\<close>

definition init_process_stack_allocator :: "u32 \<Rightarrow> u8 list \<Rightarrow> process_stacks \<Rightarrow> (bool option \<times> process_stacks) option" where
  "init_process_stack_allocator process_stack_memory stack_buffer ps = do {
     a \<leftarrow> c_int (sint process_stack_memory + sint PROCESS_STACK_SIZE);
     let ps = ps\<lparr>ps_base := word_of_int a AND NOT (PROCESS_STACK_SIZE - 1)\<rparr>;
     case stack_init (ps_free ps) (Some stack_buffer) PROCESS_STACK_COUNT of
       (False, s) \<Rightarrow> Some (Some False, ps\<lparr>ps_free := s\<rparr>)
     | (True, s) \<Rightarrow> do {
         (ok, s') \<leftarrow> for_loop 0 (unat PROCESS_STACK_COUNT)
           (\<lambda>i (ok, t). if ok then stack_push t (of_nat (31 - i)) else Some (False, t)) (True, s);
         Some (if ok then None else Some False, ps\<lparr>ps_free := s'\<rparr>)
       }
   }"

definition allocate_stack_memory :: "process_stacks \<Rightarrow> (u32 \<times> process_stacks) option" where
  "allocate_stack_memory ps = do {
     (ok, index, s) \<leftarrow> stack_pop (ps_free ps) (Some 0);
     let ps = ps\<lparr>ps_free := s\<rparr>;
     if ok then do {
       i \<leftarrow> index;
       if ucast i \<ge> PROCESS_STACK_COUNT then Some (0, ps) else Some (stack_idx_to_ptr ps i, ps)
     }
     else Some (0, ps)
   }"

text \<open>An index out of range is only logged: the code pushes it all the same.\<close>

definition free_stack_memory :: "u32 \<Rightarrow> process_stacks \<Rightarrow> process_stacks option" where
  "free_stack_memory ptr ps =
     (if ptr = 0 then Some ps
      else do {
        (ok, s) \<leftarrow> stack_push (ps_free ps) (stack_ptr_to_idx ps ptr);
        Some (ps\<lparr>ps_free := s\<rparr>)
      })"

subsection \<open>The pool\<close>

definition stacks_placed :: "u32 \<Rightarrow> bool" where
  "stacks_placed base \<longleftrightarrow> base \<noteq> 0 \<and> unat base + 4194304 < 2 ^ 32"

definition stacks_ok :: "process_stacks \<Rightarrow> bool" where
  "stacks_ok ps \<longleftrightarrow> stacks_placed (ps_base ps) \<and> stack_ok (ps_free ps) \<and> stack_capacity (ps_free ps) = 32
     \<and> (\<forall>i \<in> set (stack_contents (ps_free ps)). unat i < 32)"

definition stacks_free :: "process_stacks \<Rightarrow> nat list" where
  "stacks_free ps = map unat (stack_contents (ps_free ps))"

definition stack_block :: "u32 \<Rightarrow> nat \<Rightarrow> u32" where
  "stack_block base b = base + of_nat b * 131072"

lemma stacks_okD:
  assumes "stacks_ok ps"
  shows "stacks_placed (ps_base ps)" and "stack_ok (ps_free ps)" and "stack_capacity (ps_free ps) = 32"
    and "i \<in> set (stack_contents (ps_free ps)) \<Longrightarrow> unat i < 32"
  using assms by (auto simp: stacks_ok_def)

lemma unat_stack_block:
  assumes "stacks_placed base" and "b < 32"
  shows "unat (stack_block base b) = unat base + b * 131072"
proof -
  have "unat (of_nat b * 131072 :: u32) = b * 131072"
    using assms(2) by (simp add: unat_word_ariths unsigned_of_nat take_bit_nat_def)
  with assms show ?thesis by (simp add: stack_block_def stacks_placed_def word_nat)
qed

lemma stack_block_nonnull: "stacks_placed base \<Longrightarrow> b < 32 \<Longrightarrow> stack_block base b \<noteq> 0"
  using unat_stack_block [of base b] by (auto simp: stacks_placed_def unat_eq_0)

lemma stack_block_inj: "stacks_placed base \<Longrightarrow> b < 32 \<Longrightarrow> c < 32 \<Longrightarrow> stack_block base b = stack_block base c \<Longrightarrow> b = c"
proof -
  assume a: "stacks_placed base" "b < 32" "c < 32" "stack_block base b = stack_block base c"
  have "unat base + b * 131072 = unat base + c * 131072"
    using unat_stack_block [OF a(1,2)] unat_stack_block [OF a(1,3)] unfolding a(4) by (rule trans [OF sym])
  then show "b = c" by simp
qed

lemma stack_idx_to_ptr_block:
  assumes "unat i < 32"
  shows "stack_idx_to_ptr ps i = stack_block (ps_base ps) (unat i)"
proof -
  have "\<not> ucast i \<ge> PROCESS_STACK_COUNT" using assms by (simp add: process_stack_consts word_le_nat_alt)
  then show ?thesis by (simp add: stack_idx_to_ptr_def stack_block_def process_stack_consts)
qed

lemma stack_ptr_to_idx_block:
  assumes "stacks_placed (ps_base ps)" and "b < 32"
  shows "stack_ptr_to_idx ps (stack_block (ps_base ps) b) = of_nat b"
proof -
  let ?p = "stack_block (ps_base ps) b"
  note u = unat_stack_block [OF assms]
  have "unat (ps_base ps + 4194304) = unat (ps_base ps) + 4194304"
    using assms(1) by (simp add: stacks_placed_def word_nat)
  then have lt: "\<not> ?p \<ge> ps_base ps + PROCESS_STACK_SIZE * PROCESS_STACK_COUNT"
    using u assms(2) by (simp add: process_stack_consts word_le_nat_alt)
  have "uint ?p = int (unat ?p)" "uint (ps_base ps) = int (unat (ps_base ps))" by simp_all
  then have d: "uint ?p - uint (ps_base ps) = int b * 131072" by (simp only: u of_nat_add of_nat_mult)
  have "(int b * 131072) sdiv 131072 = int b" by (simp add: signed_divide_int_eq_divide_int)
  then show ?thesis using lt by (simp add: stack_ptr_to_idx_def d process_stack_consts)
qed

lemma stacks_ok_update:
  "stacks_ok ps \<Longrightarrow> stack_ok s \<Longrightarrow> stack_capacity s = 32 \<Longrightarrow> (\<And>i. i \<in> set (stack_contents s) \<Longrightarrow> unat i < 32) \<Longrightarrow>
   stacks_ok (ps\<lparr>ps_free := s\<rparr>)"
  by (simp add: stacks_ok_def)

interpretation process_stack_pool: block_pool allocate_stack_memory free_stack_memory stacks_free
  "\<lambda>ps. stack_block (ps_base ps)" 32 stacks_ok
proof unfold_locales
  fix ps :: process_stacks and b c :: nat and bs
  let ?s = "ps_free ps"
  assume ok: "stacks_ok ps"
  note okD = stacks_okD [OF ok]
  show "set (stacks_free ps) \<subseteq> {..<32}" using okD(4) by (auto simp: stacks_free_def)
  show "allocate_stack_memory ps = Some (0, ps)" if "stacks_free ps = []"
    using that byte_stack.pop_empty [OF okD(2), of 0] by (simp add: allocate_stack_memory_def stacks_free_def)
  show "\<exists>p'. allocate_stack_memory ps = Some (stack_block (ps_base ps) b, p') \<and> stacks_ok p' \<and> stacks_free p' = bs \<and>
      stack_block (ps_base p') = stack_block (ps_base ps)" if f: "stacks_free ps = b # bs"
  proof -
    from f obtain i js where c: "stack_contents ?s = i # js" and i: "b = unat i" "bs = map unat js"
      by (auto simp: stacks_free_def)
    from byte_stack.pop_ok [OF okD(2) c, of 0] obtain s' where s': "stack_pop ?s (Some 0) = Some (True, Some i, s')"
        "stack_ok s'" "stack_contents s' = js" "stack_capacity s' = 32" using okD(3) by auto
    have lt: "unat i < 32" using okD(4) c by simp
    then have "\<not> ucast i \<ge> PROCESS_STACK_COUNT" by (simp add: process_stack_consts word_le_nat_alt)
    moreover have "stacks_ok (ps\<lparr>ps_free := s'\<rparr>)"
      using okD(4) c s' by (intro stacks_ok_update [OF ok]) simp_all
    moreover have "stacks_free (ps\<lparr>ps_free := s'\<rparr>) = bs" using s'(3) i(2) by (simp add: stacks_free_def)
    ultimately show ?thesis
      using s'(1) stack_idx_to_ptr_block [OF lt, of "ps\<lparr>ps_free := s'\<rparr>"] i(1) by (simp add: allocate_stack_memory_def)
  qed
  show "\<exists>p'. free_stack_memory (stack_block (ps_base ps) b) ps = Some p' \<and> stacks_ok p' \<and>
      stacks_free p' = b # stacks_free ps \<and> stack_block (ps_base p') = stack_block (ps_base ps)"
    if b: "b < 32" and room: "length (stacks_free ps) < 32"
  proof -
    have u: "unat (of_nat b :: u8) = b" using b by (simp add: unsigned_of_nat take_bit_nat_def)
    from byte_stack.push_ok [OF okD(2), of "of_nat b"] room okD(3) obtain s' where
      s': "stack_push ?s (of_nat b) = Some (True, s')" "stack_ok s'"
        "stack_contents s' = of_nat b # stack_contents ?s" "stack_capacity s' = 32"
      by (auto simp: stacks_free_def)
    have "free_stack_memory (stack_block (ps_base ps) b) ps = Some (ps\<lparr>ps_free := s'\<rparr>)"
      using stack_block_nonnull [OF okD(1) b] stack_ptr_to_idx_block [OF okD(1) b] s'(1)
      by (simp add: free_stack_memory_def)
    moreover have "stacks_ok (ps\<lparr>ps_free := s'\<rparr>)"
      using okD(4) b u s' by (intro stacks_ok_update [OF ok]) auto
    moreover have "stacks_free (ps\<lparr>ps_free := s'\<rparr>) = b # stacks_free ps" using s'(3) u by (simp add: stacks_free_def)
    ultimately show ?thesis by simp
  qed
  show "stack_block (ps_base ps) b \<noteq> 0" if "b < 32" by (rule stack_block_nonnull [OF okD(1) that])
  show "b = c" if "b < 32" "c < 32" "stack_block (ps_base ps) b = stack_block (ps_base ps) c"
    using stack_block_inj [OF okD(1)] that by simp
qed

subsection \<open>Start-up\<close>

lemma unat_align: "unat ((w :: u32) AND NOT 131071) = unat w div 131072 * 131072"
proof -
  have m: "(131071 :: u32) = mask 17" by (simp add: mask_eq_exp_minus_1)
  have "w AND NOT 131071 = push_bit 17 (drop_bit 17 w)"
    unfolding m by (rule bit_word_eqI) (auto simp: bit_simps dest: bit_imp_le_length)
  also have "\<dots> = drop_bit 17 w * 131072" by (simp add: push_bit_eq_mult)
  also have "unat \<dots> = unat (drop_bit 17 w) * 131072"
  proof -
    have "unat (drop_bit 17 w) * 131072 < 2 ^ 32"
      using unat_u32_lt [of w] by (simp add: unat_drop_bit_eq drop_bit_eq_div unat_div)
    then show ?thesis by (simp add: word_nat)
  qed
  also have "unat (drop_bit 17 w) = unat w div 131072" by (simp add: drop_bit_eq_div unat_div)
  finally show ?thesis .
qed

lemma of_nat_downto: "rev (map (\<lambda>i. unat (of_nat (31 - i) :: u8)) [0..<32]) = [0..<32]"
proof -
  have "unat (of_nat (31 - i) :: u8) = 31 - i" if "i < 32" for i
    by (simp only: unsigned_of_nat take_bit_nat_def) simp
  then have "map (\<lambda>i. unat (of_nat (31 - i) :: u8)) [0..<32] = map (\<lambda>i. 31 - i) [0..<32]"
    by (intro map_cong) auto
  also have "rev \<dots> = [0..<32]" by (simp add: upt_rec)
  finally show ?thesis .
qed

lemma align_bounds:
  fixes n :: nat
  shows "n < (n + 131072) div 131072 * 131072" and "(n + 131072) div 131072 * 131072 \<le> n + 131072"
  using div_mult_mod_eq [of "n + 131072" 131072] mod_less_divisor [of 131072 "n + 131072"] by linarith+

definition stack_memory_placed :: "u32 \<Rightarrow> bool" where
  "stack_memory_placed addr \<longleftrightarrow> unat addr + 33 * 131072 \<le> 2147483648"

lemma init_process_stacks_ex:
  assumes addr: "stack_memory_placed addr" and sb: "length sb = 32" and h: "ps_free ps0 = Some h"
  shows "\<exists>ps. init_process_stack_allocator addr sb ps0 = Some (None, ps) \<and> stacks_ok ps \<and> stacks_free ps = [0..<32] \<and>
    unat addr < unat (ps_base ps) \<and> unat (ps_base ps) \<le> unat addr + 131072 \<and> unat (ps_base ps) mod 131072 = 0"
proof -
  let ?a = "unat addr + 131072"
  let ?base = "(of_nat ?a :: u32) AND NOT 131071"
  have sa: "sint addr = int (unat addr)" using addr by (intro sint_u32_small) (simp add: stack_memory_placed_def)
  have sz: "sint PROCESS_STACK_SIZE = 131072" by (simp add: process_stack_consts)
  have "?a < 2147483648" using addr by (simp add: stack_memory_placed_def)
  then have "int ?a < 2147483648" by linarith
  moreover have "sint addr + sint PROCESS_STACK_SIZE = int ?a" by (simp only: sa sz of_nat_add of_nat_numeral)
  ultimately have a: "c_int (sint addr + sint PROCESS_STACK_SIZE) = Some (int ?a)"
    by (simp only: c_int_def) simp
  have ua: "unat (of_nat ?a :: u32) = ?a" using addr by (intro unat_of_nat_u32) (simp add: stack_memory_placed_def)
  have ub: "unat ?base = ?a div 131072 * 131072" by (simp only: unat_align ua)
  have b1: "unat addr < unat ?base" and b2: "unat ?base \<le> ?a" and b3: "unat ?base mod 131072 = 0"
    unfolding ub using align_bounds [of "unat addr"] by simp_all
  have pl: "stacks_placed ?base" using b1 b2 addr by (auto simp: stacks_placed_def stack_memory_placed_def unat_eq_0)
  have mk: "PROCESS_STACK_SIZE - 1 = 131071" by (simp add: process_stack_consts)
  have wi: "(word_of_int (int ?a) :: u32) = of_nat ?a" by simp
  obtain s where s: "stack_init (Some h) (Some sb) PROCESS_STACK_COUNT = (True, s)" "stack_ok s"
      "stack_contents s = []" "stack_capacity s = 32"
    using stack_init_ok [of sb h] sb by (fastforce simp: process_stack_consts)
  from byte_stack.push_loop [OF s(2,3), of 0 32 "\<lambda>i. of_nat (31 - i)"] s(4) obtain s' where
    s': "for_loop 0 32 (\<lambda>j (ok, t). if ok then stack_push t (of_nat (31 - j)) else Some (False, t)) (True, s) =
        Some (True, s')" "stack_ok s'" "stack_contents s' = rev (map (\<lambda>i. of_nat (31 - i)) [0..<32])"
      "stack_capacity s' = 32"
    by auto
  have fr: "map unat (stack_contents s') = [0..<32]"
    unfolding s'(3) rev_map [symmetric] map_map o_def by (simp only: rev_map [symmetric] of_nat_downto)
  then have "set (map unat (stack_contents s')) = {0..<32}" by (simp only: set_upt)
  then have lt: "\<And>i. i \<in> set (stack_contents s') \<Longrightarrow> unat i < 32" by auto
  have cnt: "unat PROCESS_STACK_COUNT = 32" by (simp add: process_stack_consts)
  have "init_process_stack_allocator addr sb ps0 = Some (None, ps0\<lparr>ps_base := ?base, ps_free := s'\<rparr>)"
    unfolding init_process_stack_allocator_def a bind.bind_lunit Let_def mk wi
    using s(1) s'(1) h by (simp add: cnt)
  moreover have "stacks_ok (ps0\<lparr>ps_base := ?base, ps_free := s'\<rparr>)"
    using pl s'(2,4) lt by (simp add: stacks_ok_def)
  moreover have "stacks_free (ps0\<lparr>ps_base := ?base, ps_free := s'\<rparr>) = [0..<32]"
    using fr by (simp add: stacks_free_def)
  ultimately show ?thesis using b1 b2 b3
    by (intro exI [of _ "ps0\<lparr>ps_base := ?base, ps_free := s'\<rparr>"]) simp
qed

end
