(* ===== verification/Scheduler.thy ===== *)
theory Scheduler
  imports Process_Stacks
begin

section \<open>The scheduler (scheduler.c, arch/x86-32/arch\_scheduler.asm)\<close>

text \<open>
  The table of 16 processes, the index of the current one and the pool of stacks. A name is the string it points to,
  \<open>None\<close> where it is \<open>NULL\<close>, which marks a free slot. Pointers to table entries are their indices. The registers of
  the machine are a record; those of a process that calls \<^verbatim>\<open>switch_process\<close> are the values it has when the call
  returns. Console output is left out.
\<close>

record process_ctx =
  reg_esp :: u32
  reg_eax :: u32
  reg_ebx :: u32
  reg_ecx :: u32
  reg_edx :: u32
  reg_esi :: u32
  reg_edi :: u32
  reg_ebp :: u32
  reg_ip :: u32
  reg_eflags :: u32
  stack_mem_base :: u32
  process_name :: "u8 list option"

record scheduler =
  process_list :: "process_ctx list"
  current_process_index :: nat
  sched_stacks :: process_stacks

record process_internals =
  pi_stack_mem_start :: u32
  pi_stack_pointer :: u32
  pi_stack_base :: u32
  pi_ip :: u32

definition MAX_PROCESS_COUNT :: nat where "MAX_PROCESS_COUNT = 16"

definition zero_process :: process_ctx where
  "zero_process = \<lparr>reg_esp = 0, reg_eax = 0, reg_ebx = 0, reg_ecx = 0, reg_edx = 0, reg_esi = 0, reg_edi = 0,
     reg_ebp = 0, reg_ip = 0, reg_eflags = 0, stack_mem_base = 0, process_name = None\<rparr>"

definition kernel_process_name :: "u8 list" where
  "kernel_process_name = map_of_char ''Kernel process'' @ [0]"

text \<open>The start of \<^verbatim>\<open>scheduler_init\<close>, up to the test of what the allocator answers, and the whole of it. A failure ends
  in \<^verbatim>\<open>time_to_die\<close>, which does not return.\<close>

definition scheduler_setup :: "u32 \<Rightarrow> u8 list \<Rightarrow> scheduler \<Rightarrow> (bool option \<times> scheduler) option" where
  "scheduler_setup process_stack_memory stack_buffer sc = do {
     p \<leftarrow> rd (process_list sc) 0;
     ps \<leftarrow> wr (process_list sc) 0 (p\<lparr>process_name := Some kernel_process_name\<rparr>);
     (r, st) \<leftarrow> init_process_stack_allocator process_stack_memory stack_buffer (sched_stacks sc);
     Some (r, sc\<lparr>process_list := ps, current_process_index := 0, sched_stacks := st\<rparr>)
   }"

definition scheduler_init :: "u32 \<Rightarrow> u8 list \<Rightarrow> scheduler \<Rightarrow> scheduler option" where
  "scheduler_init process_stack_memory stack_buffer sc = do {
     (r, sc') \<leftarrow> scheduler_setup process_stack_memory stack_buffer sc;
     ok \<leftarrow> r;
     if ok then Some sc' else None
   }"

definition get_current_process :: "scheduler \<Rightarrow> nat" where
  "get_current_process sc = current_process_index sc"

fun find_free_from :: "process_ctx list \<Rightarrow> nat \<Rightarrow> nat option" where
  "find_free_from [] i = None"
| "find_free_from (p # ps) i = (if process_name p = None then Some i else find_free_from ps (Suc i))"

text \<open>The kernel process, slot 0, is skipped.\<close>

definition find_free_process_ctx :: "scheduler \<Rightarrow> nat option" where
  "find_free_process_ctx sc = find_free_from (drop 1 (process_list sc)) 1"

text \<open>The search for the next process never returns when every slot is free.\<close>

partial_function (option) next_process :: "process_ctx list \<Rightarrow> nat \<Rightarrow> nat option" where
  "next_process ps i = do {
     let i = (i + 1) mod MAX_PROCESS_COUNT;
     p \<leftarrow> rd ps i;
     if process_name p = None then next_process ps i else Some i
   }"

definition move_to_next_process :: "scheduler \<Rightarrow> (nat \<times> scheduler) option" where
  "move_to_next_process sc = do {
     i \<leftarrow> next_process (process_list sc) (current_process_index sc);
     Some (i, sc\<lparr>current_process_index := i\<rparr>)
   }"

text \<open>The registers are kept in a \<^verbatim>\<open>process_ctx\<close>, of which only the register fields matter.\<close>

definition save_registers :: "process_ctx \<Rightarrow> process_ctx \<Rightarrow> process_ctx" where
  "save_registers cpu p = cpu\<lparr>stack_mem_base := stack_mem_base p, process_name := process_name p\<rparr>"

definition switch_process :: "nat \<Rightarrow> nat \<Rightarrow> process_ctx \<Rightarrow> scheduler \<Rightarrow> (process_ctx \<times> scheduler) option" where
  "switch_process current_proc next_proc cpu sc = do {
     p \<leftarrow> rd (process_list sc) current_proc;
     ps \<leftarrow> wr (process_list sc) current_proc (save_registers cpu p);
     q \<leftarrow> rd ps next_proc;
     Some (q, sc\<lparr>process_list := ps\<rparr>)
   }"

definition schedule :: "process_ctx \<Rightarrow> scheduler \<Rightarrow> (process_ctx \<times> scheduler) option" where
  "schedule cpu sc = do {
     let process_to_save = get_current_process sc;
     (process_to_restore, sc') \<leftarrow> move_to_next_process sc;
     if process_to_save \<noteq> process_to_restore then switch_process process_to_save process_to_restore cpu sc'
     else Some (cpu, sc')
   }"

definition init_process_ctx :: "nat \<Rightarrow> u8 list option \<Rightarrow> u32 \<Rightarrow> scheduler \<Rightarrow> scheduler option" where
  "init_process_ctx new_process name func_ptr sc = do {
     (base, st) \<leftarrow> allocate_stack_memory (sched_stacks sc);
     ps \<leftarrow> wr (process_list sc) new_process
       (zero_process\<lparr>process_name := name, reg_eflags := 2, reg_ip := func_ptr, stack_mem_base := base, reg_esp := base\<rparr>);
     Some (sc\<lparr>process_list := ps, sched_stacks := st\<rparr>)
   }"

definition create_process :: "u8 list option \<Rightarrow> u32 \<Rightarrow> scheduler \<Rightarrow> scheduler option" where
  "create_process name func_ptr sc =
     (case find_free_process_ctx sc of
        Some proc_ctx \<Rightarrow> init_process_ctx proc_ctx name func_ptr sc
      | None \<Rightarrow> Some sc)"

text \<open>The index is not checked against the table; the stack is freed even if the slot was free already.\<close>

definition kill_process :: "int \<Rightarrow> scheduler \<Rightarrow> scheduler option" where
  "kill_process process_index sc =
     (if process_index = 0 then Some sc
      else if process_index < 0 then None
      else do {
        p \<leftarrow> rd (process_list sc) (nat process_index);
        ps \<leftarrow> wr (process_list sc) (nat process_index) (p\<lparr>process_name := None\<rparr>);
        st \<leftarrow> free_stack_memory (stack_mem_base p) (sched_stacks sc);
        Some (sc\<lparr>process_list := ps, sched_stacks := st\<rparr>)
      })"

definition kill_current_process :: "scheduler \<Rightarrow> scheduler option" where
  "kill_current_process sc =
     (if current_process_index sc \<noteq> 0 then kill_process (int (current_process_index sc)) sc else Some sc)"

definition get_process_name :: "int \<Rightarrow> scheduler \<Rightarrow> u8 list option option" where
  "get_process_name process_index sc =
     (if process_index < 0 then None else map_option process_name (rd (process_list sc) (nat process_index)))"

definition get_process_internals :: "int \<Rightarrow> scheduler \<Rightarrow> process_internals option" where
  "get_process_internals process_index sc =
     (if process_index < 0 then None
      else do {
        p \<leftarrow> rd (process_list sc) (nat process_index);
        Some \<lparr>pi_stack_mem_start = stack_mem_base p, pi_stack_pointer = reg_esp p, pi_stack_base = reg_ebp p, pi_ip = reg_ip p\<rparr>
      })"

definition get_max_process_count :: int where "get_max_process_count = int MAX_PROCESS_COUNT"

subsection \<open>Round robin\<close>

definition is_live :: "process_ctx list \<Rightarrow> nat \<Rightarrow> bool" where
  "is_live ps i = (process_name (ps ! i) \<noteq> None)"

definition live_slots :: "process_ctx list \<Rightarrow> nat list" where
  "live_slots ps = filter (is_live ps) [0..<16]"

text \<open>The order in which the processes get their turn after slot \<open>c\<close>.\<close>

definition turn_order :: "process_ctx list \<Rightarrow> nat \<Rightarrow> nat list" where
  "turn_order ps c = filter (\<lambda>i. c < i) (live_slots ps) @ filter (\<lambda>i. i \<le> c) (live_slots ps)"

lemma next_process_step:
  assumes "length ps = 16"
  shows "next_process ps i = (if is_live ps ((i + 1) mod 16) then Some ((i + 1) mod 16) else next_process ps ((i + 1) mod 16))"
proof -
  have "(i + 1) mod 16 < 16" by simp
  with assms show ?thesis
    by (subst next_process.simps) (simp add: is_live_def MAX_PROCESS_COUNT_def rd_in Let_def)
qed

lemma next_process_skip:
  assumes "length ps = 16" and "\<And>k. i < k \<Longrightarrow> k < j \<Longrightarrow> \<not> is_live ps (k mod 16)" and "i < j" and "is_live ps (j mod 16)"
  shows "next_process ps (i mod 16) = Some (j mod 16)"
  using assms(2-4)
proof (induction "j - i" arbitrary: i)
  case (Suc d)
  have e: "(i mod 16 + 1) mod 16 = Suc i mod 16" by presburger
  note step = next_process_step [OF assms(1), of "i mod 16", unfolded e]
  show ?case
  proof (cases "Suc i = j")
    case True
    then show ?thesis using Suc.prems step by simp
  next
    case False
    then have "\<not> is_live ps (Suc i mod 16)" using Suc.prems by simp
    moreover have "next_process ps (Suc i mod 16) = Some (j mod 16)"
      using Suc False by (intro Suc.hyps(1)) auto
    ultimately show ?thesis using step by simp
  qed
qed simp

lemma filter_first:
  fixes xs :: "nat list"
  assumes "sorted_wrt (<) xs" and "filter (\<lambda>i. c < i) xs = a # ys"
  shows "ys = filter (\<lambda>i. a < i) xs" and "filter (\<lambda>i. i \<le> a) xs = filter (\<lambda>i. i \<le> c) xs @ [a]"
proof -
  have "ys = filter (\<lambda>i. a < i) xs \<and> filter (\<lambda>i. i \<le> a) xs = filter (\<lambda>i. i \<le> c) xs @ [a]"
    using assms
  proof (induction xs)
    case (Cons x xs)
    show ?case
    proof (cases "c < x")
      case True
      then have a: "a = x" "ys = filter (\<lambda>i. c < i) xs" using Cons.prems by auto
      have gt: "\<forall>y \<in> set xs. x < y" using Cons.prems by simp
      then have "filter (\<lambda>i. c < i) xs = xs" "filter (\<lambda>i. x < i) xs = xs" "filter (\<lambda>i. i \<le> x) xs = []"
          "filter (\<lambda>i. i \<le> c) xs = []"
        using True by (auto simp: filter_id_conv filter_empty_conv)
      then show ?thesis using a True by simp
    next
      case False
      then have f: "filter (\<lambda>i. c < i) xs = a # ys" using Cons.prems by simp
      then have "a \<in> set (filter (\<lambda>i. c < i) xs)" by simp
      then have "c < a" by simp
      then show ?thesis using Cons.IH [OF _ f] Cons.prems False by auto
    qed
  qed simp
  then show "ys = filter (\<lambda>i. a < i) xs" "filter (\<lambda>i. i \<le> a) xs = filter (\<lambda>i. i \<le> c) xs @ [a]" by auto
qed

lemma live_slots_sorted: "sorted_wrt (<) (live_slots ps)"
  by (simp add: live_slots_def sorted_wrt_filter strict_sorted_iff)

lemma set_live_slots: "set (live_slots ps) = {i. i < 16 \<and> is_live ps i}"
  unfolding live_slots_def set_filter set_upt by auto

lemma turn_order_next:
  assumes "length ps = 16" and "is_live ps 0" and "c < 16"
  shows "\<exists>a rest. turn_order ps c = a # rest \<and> next_process ps c = Some a \<and> a < 16 \<and> is_live ps a \<and>
    turn_order ps a = rest @ [a]"
proof (cases "filter (\<lambda>i. c < i) (live_slots ps)")
  case (Cons a ys)
  note f = filter_first [OF live_slots_sorted Cons]
  have "set (a # ys) = {i. i < 16 \<and> is_live ps i \<and> c < i}"
    unfolding Cons [symmetric] set_filter set_live_slots by auto
  then have a: "a < 16" "is_live ps a" "c < a" by auto
  have "\<not> is_live ps k" if "c < k" "k < a" for k
  proof
    assume "is_live ps k"
    then have "k \<in> set (filter (\<lambda>i. i \<le> a) (live_slots ps))" using that a by (simp add: set_live_slots)
    then show False unfolding f(2) using that by simp
  qed
  then have "next_process ps (c mod 16) = Some (a mod 16)"
    using a by (intro next_process_skip [OF assms(1)]) simp_all
  then show ?thesis using a assms(3) Cons f by (simp add: turn_order_def)
next
  case Nil
  have no: "\<not> is_live ps k" if "c < k" "k < 16" for k
  proof
    assume "is_live ps k"
    then have "k \<in> set (filter (\<lambda>i. c < i) (live_slots ps))" using that by (simp add: set_live_slots)
    then show False using Nil by simp
  qed
  have "next_process ps (c mod 16) = Some (16 mod 16)"
  proof (rule next_process_skip [OF assms(1)])
    show "\<not> is_live ps (k mod 16)" if "c < k" "k < 16" for k using no that by simp
    show "c < 16" "is_live ps (16 mod 16)" using assms by simp_all
  qed
  then have nx: "next_process ps c = Some 0" using assms(3) by simp
  have l: "live_slots ps = 0 # filter (\<lambda>i. 0 < i) (live_slots ps)"
  proof -
    have "[0..<16] = 0 # [Suc 0..<16]" by (rule upt_conv_Cons) simp
    moreover have "filter (\<lambda>i. 0 < i) (filter (is_live ps) [Suc 0..<16]) = filter (is_live ps) [Suc 0..<16]"
      unfolding filter_id_conv set_filter set_upt by auto
    ultimately show ?thesis using assms(2) by (simp only: live_slots_def filter.simps) simp
  qed
  have "filter (\<lambda>i. i \<le> c) (live_slots ps) = live_slots ps"
    using no by (auto simp: filter_id_conv set_live_slots not_le [symmetric])
  then have "turn_order ps c = 0 # filter (\<lambda>i. 0 < i) (live_slots ps)"
    using Nil l by (simp add: turn_order_def)
  moreover have "filter (\<lambda>i. i \<le> 0) (live_slots ps) = [0]"
  proof -
    obtain L where L: "L = filter (\<lambda>i. 0 < i) (live_slots ps)" by simp
    have "filter (\<lambda>i. i \<le> 0) (0 # L) = [0]" by (auto simp: L filter_empty_conv)
    then show ?thesis using l by (simp only: L)
  qed
  ultimately show ?thesis using nx assms(2) by (simp add: turn_order_def)
qed

fun turns :: "nat \<Rightarrow> scheduler \<Rightarrow> nat list option" where
  "turns 0 sc = Some []"
| "turns (Suc n) sc = do { (i, sc') \<leftarrow> move_to_next_process sc; is \<leftarrow> turns n sc'; Some (i # is) }"

lemma turns_order:
  assumes "length ps = 16" and "is_live ps 0"
  shows "process_list sc = ps \<Longrightarrow> current_process_index sc < 16 \<Longrightarrow> turn_order ps (current_process_index sc) = xs \<Longrightarrow>
    n \<le> length xs \<Longrightarrow> turns n sc = Some (take n xs)"
proof (induction n arbitrary: sc xs)
  case (Suc n)
  from turn_order_next [OF assms Suc.prems(2)] obtain a rest where
    a: "xs = a # rest" "next_process ps (current_process_index sc) = Some a" "a < 16" "turn_order ps a = rest @ [a]"
    using Suc.prems(3) by auto
  have "turns n (sc\<lparr>current_process_index := a\<rparr>) = Some (take n (rest @ [a]))"
    using a Suc.prems by (intro Suc.IH) auto
  moreover have "take n (rest @ [a]) = take n rest" using Suc.prems(4) a(1) by simp
  ultimately show ?case using a(1,2) Suc.prems(1) by (simp add: move_to_next_process_def)
qed simp

subsection \<open>Stacks are never shared\<close>

definition live_stacks :: "process_ctx list \<Rightarrow> u32 list" where
  "live_stacks ps = map (\<lambda>i. stack_mem_base (ps ! i)) (filter (is_live ps) [1..<16])"

definition sched_ok :: "scheduler \<Rightarrow> bool" where
  "sched_ok sc \<longleftrightarrow> length (process_list sc) = 16 \<and> is_live (process_list sc) 0 \<and> current_process_index sc < 16 \<and>
     process_stack_pool.client_ok (live_stacks (process_list sc)) (sched_stacks sc)"

lemma sched_okD:
  assumes "sched_ok sc"
  shows "length (process_list sc) = 16" and "is_live (process_list sc) 0" and "current_process_index sc < 16"
    and "process_stack_pool.client_ok (live_stacks (process_list sc)) (sched_stacks sc)"
  using assms by (simp_all add: sched_ok_def)

lemma set_live_stacks:
  "set (live_stacks ps) = (\<lambda>i. stack_mem_base (ps ! i)) ` {i. 1 \<le> i \<and> i < 16 \<and> is_live ps i}"
  unfolding live_stacks_def set_map set_filter set_upt by auto

lemma distinct_live_stacks:
  "distinct (live_stacks ps) \<longleftrightarrow> inj_on (\<lambda>i. stack_mem_base (ps ! i)) {i. 1 \<le> i \<and> i < 16 \<and> is_live ps i}"
proof -
  have "set (filter (is_live ps) [1..<16]) = {i. 1 \<le> i \<and> i < 16 \<and> is_live ps i}"
    unfolding set_filter set_upt by auto
  then show ?thesis unfolding live_stacks_def distinct_map by (simp only:) (simp add: distinct_filter)
qed

lemma live_stacks_cong:
  assumes "\<And>i. i < 16 \<Longrightarrow> process_name (qs ! i) = process_name (ps ! i) \<and> stack_mem_base (qs ! i) = stack_mem_base (ps ! i)"
  shows "live_stacks qs = live_stacks ps"
proof -
  have "filter (is_live qs) [1..<16] = filter (is_live ps) [1..<16]"
    by (rule filter_cong [OF refl]) (use assms in \<open>simp only: set_upt is_live_def, simp\<close>)
  then show ?thesis unfolding live_stacks_def
    by (intro map_cong) (use assms in \<open>auto simp only: set_upt set_filter, auto\<close>)
qed

lemma find_free_from_Some:
  "find_free_from ps i = Some j \<Longrightarrow> i \<le> j \<and> j < i + length ps \<and> process_name (ps ! (j - i)) = None \<and>
    (\<forall>k. i \<le> k \<longrightarrow> k < j \<longrightarrow> process_name (ps ! (k - i)) \<noteq> None)"
proof (induction ps i rule: find_free_from.induct)
  case (2 p ps i)
  show ?case
  proof (cases "process_name p = None")
    case False
    then have f: "find_free_from ps (Suc i) = Some j" using "2.prems" by (simp only: find_free_from.simps if_False)
    note IH = "2.IH" [OF False f]
    then have "j - i = Suc (j - Suc i)" by linarith
    then have "(p # ps) ! (j - i) = ps ! (j - Suc i)" by (simp only: nth_Cons_Suc)
    moreover have "process_name ((p # ps) ! (k - i)) \<noteq> None" if "i \<le> k" "k < j" for k
    proof (cases "k = i")
      case True
      then show ?thesis using False by simp
    next
      case neq: False
      then have "k - i = Suc (k - Suc i)" using that by linarith
      then have "(p # ps) ! (k - i) = ps ! (k - Suc i)" by (simp only: nth_Cons_Suc)
      then show ?thesis using IH that neq by auto
    qed
    ultimately show ?thesis using IH by auto
  qed (use "2.prems" in auto)
qed simp

lemma find_free_slot:
  assumes "length (process_list sc) = 16" and "find_free_process_ctx sc = Some j"
  shows "1 \<le> j" and "j < 16" and "\<not> is_live (process_list sc) j"
    and "\<And>k. 1 \<le> k \<Longrightarrow> k < j \<Longrightarrow> is_live (process_list sc) k"
  using find_free_from_Some [of "drop 1 (process_list sc)" 1 j] assms
  by (auto simp: find_free_process_ctx_def is_live_def)

lemma find_free_from_None: "find_free_from ps i = None \<longleftrightarrow> (\<forall>p \<in> set ps. process_name p \<noteq> None)"
  by (induction ps i rule: find_free_from.induct) auto

lemma is_live_update: "i < length ps \<Longrightarrow> is_live (ps[i := p]) k = (if k = i then process_name p \<noteq> None else is_live ps k)"
  by (auto simp: is_live_def)

lemma create_process_ok:
  assumes "sched_ok sc" and "name \<noteq> None"
  shows "\<exists>sc'. create_process name f sc = Some sc' \<and> sched_ok sc' \<and>
    stack_block (ps_base (sched_stacks sc')) = stack_block (ps_base (sched_stacks sc)) \<and>
    (\<forall>j. find_free_process_ctx sc = Some j \<longrightarrow> (\<exists>b bs. stacks_free (sched_stacks sc) = b # bs \<and> b < 32 \<and>
       stacks_free (sched_stacks sc') = bs \<and> process_list sc' = (process_list sc)[j := zero_process\<lparr>process_name := name,
         reg_eflags := 2, reg_ip := f, stack_mem_base := stack_block (ps_base (sched_stacks sc)) b,
         reg_esp := stack_block (ps_base (sched_stacks sc)) b\<rparr>]))"
proof (cases "find_free_process_ctx sc")
  case None
  then show ?thesis using assms by (simp add: create_process_def)
next
  case (Some j)
  note ok = sched_okD [OF assms(1)]
  note j = find_free_slot [OF ok(1) Some]
  let ?ps = "process_list sc" and ?st = "sched_stacks sc"
  let ?S = "{i. 1 \<le> i \<and> i < 16 \<and> is_live ?ps i}"
  have "length (live_stacks ?ps) \<le> 15"
    unfolding live_stacks_def length_map by (rule order_trans [OF length_filter_le]) simp
  moreover have "length (live_stacks ?ps) + length (stacks_free ?st) = 32"
    by (rule process_stack_pool.client_counts [OF ok(4)])
  ultimately obtain b bs where b: "stacks_free ?st = b # bs" by (cases "stacks_free ?st") auto
  have so: "stacks_ok ?st" using ok(4) by (simp add: process_stack_pool.client_ok_def)
  then have b32: "b < 32" using process_stack_pool.blocks_range [of ?st] b by auto
  let ?a = "stack_block (ps_base ?st) b"
  from process_stack_pool.client_request [OF ok(4)] process_stack_pool.get_some [OF so b]
  obtain st' where st: "allocate_stack_memory ?st = Some (?a, st')" "stacks_free st' = bs"
      "stack_block (ps_base st') = stack_block (ps_base ?st)"
      "process_stack_pool.client_ok (if ?a = 0 then live_stacks ?ps else ?a # live_stacks ?ps) st'"
    by auto
  have a0: "?a \<noteq> 0" by (rule process_stack_pool.addr_nonnull [OF so b32])
  let ?p = "zero_process\<lparr>process_name := name, reg_eflags := 2, reg_ip := f, stack_mem_base := ?a, reg_esp := ?a\<rparr>"
  let ?qs = "?ps[j := ?p]"
  have c: "create_process name f sc = Some (sc\<lparr>process_list := ?qs, sched_stacks := st'\<rparr>)"
    using Some st(1) j ok(1) by (simp add: create_process_def init_process_ctx_def wr_in)
  have live: "is_live ?qs k = (k = j \<or> is_live ?ps k)" for k
    using is_live_update [of j ?ps ?p k] j ok(1) assms(2) by auto
  have S: "{i. 1 \<le> i \<and> i < 16 \<and> is_live ?qs i} = insert j ?S" using live j by auto
  have base: "stack_mem_base (?qs ! i) = (if i = j then ?a else stack_mem_base (?ps ! i))" for i
    using j ok(1) by (simp add: nth_list_update)
  have set: "set (live_stacks ?qs) = set (?a # live_stacks ?ps)"
    unfolding set_live_stacks S list.set base using j(3) by auto
  have dist: "distinct (?a # live_stacks ?ps)"
    using st(4) a0 by (simp add: process_stack_pool.client_ok_def)
  have d: "distinct (live_stacks ?qs)"
  proof -
    have "inj_on (\<lambda>i. stack_mem_base (?ps ! i)) ?S" "?a \<notin> (\<lambda>i. stack_mem_base (?ps ! i)) ` ?S"
      using dist by (simp_all add: distinct_live_stacks set_live_stacks)
    moreover have jS: "j \<notin> ?S" using j(3) by simp
    obtain g where g: "g = (\<lambda>i. if i = j then ?a else stack_mem_base (?ps ! i))" by simp
    have "inj_on g ?S = inj_on (\<lambda>i. stack_mem_base (?ps ! i)) ?S"
      by (rule inj_on_cong) (use jS g in auto)
    moreover have "g ` ?S = (\<lambda>i. stack_mem_base (?ps ! i)) ` ?S" by (rule image_cong) (use jS g in auto)
    moreover have "g j = ?a" "?S - {j} = ?S" using g jS by auto
    ultimately have "inj_on g (insert j ?S)" by (simp only: inj_on_insert) simp
    then show ?thesis unfolding distinct_live_stacks S base g .
  qed
  have cl: "process_stack_pool.client_ok (?a # live_stacks ?ps) st'" using st(4) a0 by simp
  have "process_stack_pool.client_ok (live_stacks ?qs) st'"
    by (rule process_stack_pool.client_perm [OF cl d set])
  moreover have "is_live ?qs 0" using live ok(2) by simp
  ultimately have "sched_ok (sc\<lparr>process_list := ?qs, sched_stacks := st'\<rparr>)"
    using ok by (simp add: sched_ok_def)
  then show ?thesis using c Some b b32 st by simp
qed

lemma kill_process_ok:
  assumes "sched_ok sc" and "1 \<le> i" and "i < 16" and "is_live (process_list sc) i"
  shows "\<exists>sc'. kill_process (int i) sc = Some sc' \<and> sched_ok sc' \<and>
    stack_block (ps_base (sched_stacks sc')) = stack_block (ps_base (sched_stacks sc)) \<and>
    process_list sc' = (process_list sc)[i := (process_list sc ! i)\<lparr>process_name := None\<rparr>]"
proof -
  note ok = sched_okD [OF assms(1)]
  let ?ps = "process_list sc" and ?st = "sched_stacks sc"
  let ?S = "{i. 1 \<le> i \<and> i < 16 \<and> is_live ?ps i}"
  let ?a = "stack_mem_base (?ps ! i)"
  let ?qs = "?ps[i := (?ps ! i)\<lparr>process_name := None\<rparr>]"
  have iS: "i \<in> ?S" using assms by simp
  then have "?a \<in> set (live_stacks ?ps)" unfolding set_live_stacks by (rule imageI)
  from process_stack_pool.client_return [OF ok(4) this] obtain st' where
    st: "free_stack_memory ?a ?st = Some st'" "process_stack_pool.client_ok (remove1 ?a (live_stacks ?ps)) st'"
      "stack_block (ps_base st') = stack_block (ps_base ?st)" by blast
  have dist: "distinct (live_stacks ?ps)" using ok(4) by (simp add: process_stack_pool.client_ok_def)
  then have inj: "inj_on (\<lambda>i. stack_mem_base (?ps ! i)) ?S" by (simp only: distinct_live_stacks)
  have k: "kill_process (int i) sc = Some (sc\<lparr>process_list := ?qs, sched_stacks := st'\<rparr>)"
    using st(1) assms ok(1) by (simp add: kill_process_def rd_in wr_in)
  have live: "is_live ?qs k = (k \<noteq> i \<and> is_live ?ps k)" for k
    using is_live_update [of i ?ps "(?ps ! i)\<lparr>process_name := None\<rparr>" k] assms ok(1) by auto
  have S: "{k. 1 \<le> k \<and> k < 16 \<and> is_live ?qs k} = ?S - {i}" using live by auto
  have base: "stack_mem_base (?qs ! k) = stack_mem_base (?ps ! k)" for k
    using assms ok(1) by (simp add: nth_list_update)
  have "set (live_stacks ?qs) = set (remove1 ?a (live_stacks ?ps))"
  proof -
    have "(\<lambda>i. stack_mem_base (?ps ! i)) ` (?S - {i}) = (\<lambda>i. stack_mem_base (?ps ! i)) ` ?S - (\<lambda>i. stack_mem_base (?ps ! i)) ` {i}"
      by (rule inj_on_image_set_diff [OF inj]) (use iS in auto)
    then show ?thesis
      unfolding set_remove1_eq [OF dist] set_live_stacks S base by (simp only: image_insert image_empty)
  qed
  moreover have "distinct (live_stacks ?qs)"
    unfolding distinct_live_stacks S base using inj by (rule inj_on_diff)
  ultimately have "process_stack_pool.client_ok (live_stacks ?qs) st'"
    by (rule process_stack_pool.client_perm [OF st(2), rotated])
  moreover have "is_live ?qs 0" using live ok(2) assms(2) by simp
  ultimately have "sched_ok (sc\<lparr>process_list := ?qs, sched_stacks := st'\<rparr>)" using ok by (simp add: sched_ok_def)
  then show ?thesis using k st(3) by simp
qed

lemma schedule_ok:
  assumes "sched_ok sc"
  shows "\<exists>cpu' sc'. schedule cpu sc = Some (cpu', sc') \<and> sched_ok sc' \<and> sched_stacks sc' = sched_stacks sc \<and>
    next_process (process_list sc) (current_process_index sc) = Some (current_process_index sc') \<and>
    (let c = current_process_index sc; n = current_process_index sc' in
       process_list sc' = (if n = c then process_list sc else (process_list sc)[c := save_registers cpu (process_list sc ! c)]) \<and>
       cpu' = (if n = c then cpu else process_list sc ! n))"
proof -
  note ok = sched_okD [OF assms]
  let ?ps = "process_list sc" and ?c = "current_process_index sc"
  obtain n where n: "next_process ?ps ?c = Some n" "n < 16" using turn_order_next [OF ok(1-3)] by auto
  let ?qs = "?ps[?c := save_registers cpu (?ps ! ?c)]"
  have "live_stacks ?qs = live_stacks ?ps"
    using ok(1,3) by (intro live_stacks_cong) (auto simp: nth_list_update save_registers_def)
  moreover have "is_live ?qs 0" using ok by (cases "?c = 0") (simp_all add: is_live_def save_registers_def)
  ultimately have "sched_ok (sc\<lparr>current_process_index := n, process_list := ?qs\<rparr>)"
    using ok n by (simp add: sched_ok_def)
  moreover have "sched_ok (sc\<lparr>current_process_index := n\<rparr>)" using ok n by (simp add: sched_ok_def)
  ultimately show ?thesis using n ok
    by (cases "n = ?c") (simp_all add: schedule_def move_to_next_process_def get_current_process_def switch_process_def rd_in wr_in Let_def)
qed

text \<open>The states the kernel can reach when only live processes are killed. \<open>boot\<close> is the state in which
  \<^verbatim>\<open>scheduler_init\<close> tests what the allocator answered.\<close>

definition zeroed_scheduler :: "stack_handle \<Rightarrow> scheduler" where
  "zeroed_scheduler h = \<lparr>process_list = replicate 16 zero_process, current_process_index = 0,
     sched_stacks = \<lparr>ps_base = 0, ps_free = Some h\<rparr>\<rparr>"

inductive sched_reachable :: "u32 \<Rightarrow> scheduler \<Rightarrow> bool" for addr where
  boot: "stack_memory_placed addr \<Longrightarrow> length stack_buffer = 32 \<Longrightarrow>
    scheduler_setup addr stack_buffer (zeroed_scheduler h) = Some (r, sc) \<Longrightarrow> sched_reachable addr sc"
| create: "sched_reachable addr sc \<Longrightarrow> create_process (Some name) f sc = Some sc' \<Longrightarrow> sched_reachable addr sc'"
| kill: "sched_reachable addr sc \<Longrightarrow> 1 \<le> i \<Longrightarrow> i < 16 \<Longrightarrow> is_live (process_list sc) i \<Longrightarrow>
    kill_process (int i) sc = Some sc' \<Longrightarrow> sched_reachable addr sc'"
| schedule: "sched_reachable addr sc \<Longrightarrow> schedule cpu sc = Some (cpu', sc') \<Longrightarrow> sched_reachable addr sc'"

lemma scheduler_setup_ok:
  assumes "stack_memory_placed addr" and "length sb = 32"
  shows "\<exists>sc. scheduler_setup addr sb (zeroed_scheduler h) = Some (None, sc) \<and> sched_ok sc \<and>
    unat addr < unat (ps_base (sched_stacks sc)) \<and> unat (ps_base (sched_stacks sc)) \<le> unat addr + 131072 \<and>
    process_list sc = (replicate 16 zero_process)[0 := zero_process\<lparr>process_name := Some kernel_process_name\<rparr>] \<and>
    current_process_index sc = 0 \<and> stacks_free (sched_stacks sc) = [0..<32]"
proof -
  obtain ps where ps: "init_process_stack_allocator addr sb \<lparr>ps_base = 0, ps_free = Some h\<rparr> = Some (None, ps)"
      "stacks_ok ps" "stacks_free ps = [0..<32]" "unat addr < unat (ps_base ps)" "unat (ps_base ps) \<le> unat addr + 131072"
    using init_process_stacks_ex [OF assms, of "\<lparr>ps_base = 0, ps_free = Some h\<rparr>" h] by auto
  let ?l = "(replicate 16 zero_process)[0 := zero_process\<lparr>process_name := Some kernel_process_name\<rparr>]"
  have dead: "\<not> is_live ?l k" if "1 \<le> k" "k < 16" for k
    using that by (simp add: is_live_def zero_process_def)
  then have "filter (is_live ?l) [1..<16] = []" unfolding filter_empty_conv set_upt by auto
  then have l: "live_stacks ?l = []" by (simp only: live_stacks_def list.map)
  have "pool_partition [0..<32] {} 32" unfolding pool_partition_def set_upt by auto
  then have "process_stack_pool.client_ok [] ps"
    unfolding process_stack_pool.client_ok_def using ps(2,3) by simp
  moreover have "is_live ?l 0" by (simp add: is_live_def)
  ultimately have "sched_ok \<lparr>process_list = ?l, current_process_index = 0, sched_stacks = ps\<rparr>"
    using l by (simp only: sched_ok_def) simp
  then show ?thesis using ps
    by (intro exI [of _ "\<lparr>process_list = ?l, current_process_index = 0, sched_stacks = ps\<rparr>"])
      (simp add: scheduler_setup_def zeroed_scheduler_def rd_in wr_in)
qed

lemma stack_base_kept:
  assumes "stack_block base = stack_block base'"
  shows "base = base'"
  using fun_cong [OF assms, of 0] by (simp add: stack_block_def)

lemma sched_reachable_ok:
  assumes "sched_reachable addr sc"
  shows "sched_ok sc \<and> unat addr < unat (ps_base (sched_stacks sc)) \<and> unat (ps_base (sched_stacks sc)) \<le> unat addr + 131072"
  using assms
proof induction
  case (boot sb h r sc)
  then show ?case using scheduler_setup_ok [OF boot(1,2), of h] by auto
next
  case (create sc name f sc')
  then show ?case using create_process_ok [of sc "Some name" f] by (auto dest!: stack_base_kept)
next
  case (kill sc i sc')
  then show ?case using kill_process_ok [of sc i] by (auto dest!: stack_base_kept)
next
  case (schedule sc cpu cpu' sc')
  then show ?case using schedule_ok [of sc cpu] by auto
qed

subsection \<open>Properties\<close>

text \<open>Claim C9. As long as only live processes are killed, every operation of the scheduler is defined, each live process has
  a stack of its own inside the stack memory, and the stacks lie at least 128 KiB apart.\<close>

theorem processes_never_share_stacks:
  assumes "sched_reachable addr sc"
  shows "list_all (\<lambda>i. is_live (process_list sc) i \<longrightarrow>
       unat addr < unat (stack_mem_base (process_list sc ! i)) \<and>
       unat (stack_mem_base (process_list sc ! i)) + 131072 \<le> unat addr + 33 * 131072 \<and>
       kill_process (int i) sc \<noteq> None \<and>
       list_all (\<lambda>j. is_live (process_list sc) j \<and> i \<noteq> j \<longrightarrow>
         131072 \<le> \<bar>int (unat (stack_mem_base (process_list sc ! i))) - int (unat (stack_mem_base (process_list sc ! j)))\<bar>)
         [1..<16]) [1..<16] \<and>
     create_process (Some name) f sc \<noteq> None \<and> schedule cpu sc \<noteq> None"
proof -
  note r = sched_reachable_ok [OF assms]
  then have ok: "sched_ok sc" by simp
  let ?ps = "process_list sc" and ?st = "sched_stacks sc"
  note cl = sched_okD(4) [OF ok]
  then have so: "stacks_ok ?st" and dist: "distinct (live_stacks ?ps)"
    by (simp_all add: process_stack_pool.client_ok_def)
  have at: "\<exists>b < 32. unat (stack_mem_base (?ps ! i)) = unat (ps_base ?st) + b * 131072"
    if i: "1 \<le> i" "i < 16" "is_live ?ps i" for i
  proof -
    have "stack_mem_base (?ps ! i) \<in> set (live_stacks ?ps)" unfolding set_live_stacks using i by (intro imageI) simp
    then obtain b where b: "b < 32" "stack_mem_base (?ps ! i) = stack_block (ps_base ?st) b"
      using process_stack_pool.client_held_blocks [OF cl] by blast
    then show ?thesis using unat_stack_block [OF stacks_okD(1) [OF so] b(1)] by auto
  qed
  have inj: "stack_mem_base (?ps ! i) \<noteq> stack_mem_base (?ps ! j)"
    if "1 \<le> i" "i < 16" "is_live ?ps i" "1 \<le> j" "j < 16" "is_live ?ps j" "i \<noteq> j" for i j
    using dist that unfolding distinct_live_stacks inj_on_def by blast
  have apart: "131072 \<le> \<bar>int (unat (stack_mem_base (?ps ! i))) - int (unat (stack_mem_base (?ps ! j)))\<bar>"
    if ij: "1 \<le> i" "i < 16" "is_live ?ps i" "1 \<le> j" "j < 16" "is_live ?ps j" "i \<noteq> j" for i j
  proof -
    from at [OF ij(1-3)] at [OF ij(4-6)] obtain b c where
      bc: "unat (stack_mem_base (?ps ! i)) = unat (ps_base ?st) + b * 131072"
        "unat (stack_mem_base (?ps ! j)) = unat (ps_base ?st) + c * 131072" by blast
    have "b \<noteq> c" using inj [OF ij] bc unat_eqD by metis
    then show ?thesis unfolding bc by (cases b c rule: linorder_cases) auto
  qed
  have inside: "unat addr < unat (stack_mem_base (?ps ! i)) \<and> unat (stack_mem_base (?ps ! i)) + 131072 \<le> unat addr + 33 * 131072"
    if i: "1 \<le> i" "i < 16" "is_live ?ps i" for i
  proof -
    obtain b where b: "b < 32" "unat (stack_mem_base (?ps ! i)) = unat (ps_base ?st) + b * 131072"
      using at [OF i] by blast
    show ?thesis unfolding b(2) using b(1) r by linarith
  qed
  have kill: "kill_process (int i) sc \<noteq> None" if "1 \<le> i" "i < 16" "is_live ?ps i" for i
    using kill_process_ok [OF ok that] by auto
  have each: "\<And>P. (\<And>i. 1 \<le> i \<Longrightarrow> i < 16 \<Longrightarrow> P i) \<Longrightarrow> list_all P [1..<16]"
    unfolding list_all_iff set_upt by auto
  have "create_process (Some name) f sc \<noteq> None" using create_process_ok [OF ok, of "Some name" f] by auto
  moreover have "schedule cpu sc \<noteq> None" using schedule_ok [OF ok, of cpu] by auto
  ultimately show ?thesis using inside kill apart by (intro conjI each) (blast intro: each)+
qed

theorem processes_never_share_stacks_witness:
  "\<exists>sc. sched_reachable 0x200000 sc \<and> create_process (Some [0]) 7 sc \<noteq> None"
proof -
  have p: "stack_memory_placed 0x200000" by (simp add: stack_memory_placed_def)
  obtain sc where "scheduler_setup 0x200000 (replicate 32 0) (zeroed_scheduler zero_handle) = Some (None, sc)"
    using scheduler_setup_ok [OF p, of "replicate 32 0" zero_handle] by auto
  then have "sched_reachable 0x200000 sc" by (intro sched_reachable.boot [OF p]) auto
  with processes_never_share_stacks [OF this, of "[0]" 7] show ?thesis by blast
qed

text \<open>Claim C22. As many turns as there are live processes give each live process exactly one turn, in the order of their slots
  after the current one, and the current one last; no turn of the search hangs.\<close>

theorem schedule_round_robin:
  assumes "length (process_list sc) = 16" and "process_name (process_list sc ! 0) \<noteq> None"
    and "current_process_index sc < 16"
  shows "turns (length (live_slots (process_list sc))) sc =
    Some (filter (\<lambda>i. current_process_index sc < i) (live_slots (process_list sc)) @
          filter (\<lambda>i. i \<le> current_process_index sc) (live_slots (process_list sc)))"
proof -
  let ?c = "current_process_index sc" and ?l = "live_slots (process_list sc)"
  have "length (turn_order (process_list sc) ?c) = length ?l"
    using sum_length_filter_compl [of "\<lambda>i. ?c < i" ?l] by (simp add: turn_order_def not_less)
  with turns_order [OF assms(1) _ refl assms(3) refl, of "length ?l"] assms(2)
  show ?thesis by (simp add: is_live_def turn_order_def)
qed

theorem schedule_round_robin_witness:
  "turns 3 \<lparr>process_list = (replicate 16 zero_process)[0 := zero_process\<lparr>process_name := Some [0]\<rparr>,
        3 := zero_process\<lparr>process_name := Some [0]\<rparr>, 7 := zero_process\<lparr>process_name := Some [0]\<rparr>],
      current_process_index = 3, sched_stacks = \<lparr>ps_base = 0, ps_free = None\<rparr>\<rparr> = Some [7, 0, 3]"
proof -
  let ?l = "(replicate 16 zero_process)[0 := zero_process\<lparr>process_name := Some [0]\<rparr>,
        3 := zero_process\<lparr>process_name := Some [0]\<rparr>, 7 := zero_process\<lparr>process_name := Some [0]\<rparr>]"
  have "live_slots ?l = [0, 3, 7]"
    unfolding live_slots_def by (simp add: upt_rec is_live_def zero_process_def nth_list_update)
  with schedule_round_robin [of "\<lparr>process_list = ?l, current_process_index = 3, sched_stacks = \<lparr>ps_base = 0, ps_free = None\<rparr>\<rparr>"]
  show ?thesis by (simp del: turns.simps add: numeral_3_eq_3)
qed



text \<open>\<^verbatim>\<open>scheduler_init\<close> tests the result of a function that ends without returning one, which C leaves
  undefined.\<close>

theorem scheduler_init_undefined:
  assumes "stack_memory_placed addr" and "length sb = 32"
  shows "scheduler_init addr sb (zeroed_scheduler h) = None"
  using scheduler_setup_ok [OF assms, of h] by (auto simp: scheduler_init_def)

theorem scheduler_init_undefined_witness:
  "scheduler_init 0x200000 (replicate 32 0) (zeroed_scheduler zero_handle) = None"
  by (rule scheduler_init_undefined) (simp_all add: stack_memory_placed_def)

lemma find_free_intro:
  assumes "length (process_list sc) = 16" and "1 \<le> k" and "k < 16" and "\<not> is_live (process_list sc) k"
    and "\<And>m. 1 \<le> m \<Longrightarrow> m < k \<Longrightarrow> is_live (process_list sc) m"
  shows "find_free_process_ctx sc = Some k"
proof (cases "find_free_process_ctx sc")
  case None
  have "process_list sc ! k \<in> set (drop 1 (process_list sc))"
    using nth_mem [of "k - 1" "drop 1 (process_list sc)"] assms(1-3) by simp
  then have "process_name (process_list sc ! k) \<noteq> None"
    using None unfolding find_free_process_ctx_def find_free_from_None by blast
  then show ?thesis using assms(4) unfolding is_live_def by blast
next
  case (Some j)
  note j = find_free_slot [OF assms(1) Some]
  have "j = k" using j(3,4) assms(2,4,5) j(1) by (metis linorder_neqE_nat)
  then show ?thesis using Some by simp
qed

lemma create_process_at:
  assumes "length (process_list sc) = 16" and "find_free_process_ctx sc = Some j"
    and "stacks_ok (sched_stacks sc)" and "stacks_free (sched_stacks sc) = b # bs"
  shows "\<exists>st p. create_process (Some name) f sc = Some (sc\<lparr>process_list := (process_list sc)[j := p], sched_stacks := st\<rparr>) \<and>
    stacks_ok st \<and> stacks_free st = bs \<and> stack_block (ps_base st) = stack_block (ps_base (sched_stacks sc)) \<and>
    process_name p \<noteq> None \<and> stack_mem_base p = stack_block (ps_base (sched_stacks sc)) b"
proof -
  note j = find_free_slot [OF assms(1,2)]
  from process_stack_pool.get_some [OF assms(3,4)] obtain st where
    "allocate_stack_memory (sched_stacks sc) = Some (stack_block (ps_base (sched_stacks sc)) b, st)"
    "stacks_ok st" "stacks_free st = bs" "stack_block (ps_base st) = stack_block (ps_base (sched_stacks sc))" by blast
  moreover obtain p where p: "p = zero_process\<lparr>process_name := Some name, reg_eflags := 2, reg_ip := f,
      stack_mem_base := stack_block (ps_base (sched_stacks sc)) b, reg_esp := stack_block (ps_base (sched_stacks sc)) b\<rparr>" by simp
  ultimately show ?thesis using assms(1,2) j
    by (intro exI [of _ st] exI [of _ p]) (simp add: create_process_def init_process_ctx_def wr_in)
qed

lemma two_live_stacks:
  assumes "sched_ok sc" and "1 \<le> i" and "i < 16" and "is_live (process_list sc) i"
    and "1 \<le> k" and "k < 16" and "is_live (process_list sc) k" and "k \<noteq> i"
  shows "2 \<le> length (live_stacks (process_list sc))"
proof -
  let ?ps = "process_list sc"
  have d: "distinct (live_stacks ?ps)" using sched_okD(4) [OF assms(1)] by (simp add: process_stack_pool.client_ok_def)
  have "stack_mem_base (?ps ! k) \<in> set (live_stacks ?ps)" "stack_mem_base (?ps ! i) \<in> set (live_stacks ?ps)"
    unfolding set_live_stacks using assms(2-7) by (auto intro: imageI)
  moreover have n: "stack_mem_base (?ps ! k) \<noteq> stack_mem_base (?ps ! i)"
    using d assms(2-8) unfolding distinct_live_stacks inj_on_def by blast
  ultimately have "card {stack_mem_base (?ps ! k), stack_mem_base (?ps ! i)} \<le> card (set (live_stacks ?ps))"
    by (intro card_mono) auto
  then show ?thesis using n distinct_card [OF d] by simp
qed

text \<open>After the second kill the block is on the free list twice.\<close>

lemma kill_twice_frees_twice:
  assumes "sched_ok sc" and "1 \<le> i" and "i < 16" and "is_live (process_list sc) i"
    and "1 \<le> k" and "k < 16" and "is_live (process_list sc) k" and "k \<noteq> i"
  shows "\<exists>b st2. b < 32 \<and> Option.bind (kill_process (int i) sc) (kill_process (int i)) =
      Some (sc\<lparr>process_list := (process_list sc)[i := (process_list sc ! i)\<lparr>process_name := None\<rparr>], sched_stacks := st2\<rparr>) \<and>
    stacks_ok st2 \<and> stacks_free st2 = b # b # stacks_free (sched_stacks sc)"
proof -
  note ok = sched_okD [OF assms(1)]
  let ?ps = "process_list sc" and ?st = "sched_stacks sc"
  let ?A = "stack_block (ps_base ?st)"
  have so: "stacks_ok ?st" using ok(4) by (simp add: process_stack_pool.client_ok_def)
  have "stack_mem_base (?ps ! i) \<in> set (live_stacks ?ps)"
    unfolding set_live_stacks using assms(2-4) by (intro imageI) simp
  then obtain b where b: "b < 32" "stack_mem_base (?ps ! i) = ?A b"
    using process_stack_pool.client_held_blocks [OF ok(4)] by blast
  have room: "length (stacks_free ?st) < 32" "Suc (length (stacks_free ?st)) < 32"
    using two_live_stacks [OF assms] process_stack_pool.client_counts [OF ok(4)] by linarith+
  from process_stack_pool.give_ok [OF so b(1) room(1)] obtain st1 where
    1: "free_stack_memory (?A b) ?st = Some st1" "stacks_ok st1" "stacks_free st1 = b # stacks_free ?st"
      "stack_block (ps_base st1) = ?A" by blast
  have r2: "length (stacks_free st1) < 32" unfolding 1(3) list.size using room(2) by simp
  from process_stack_pool.give_ok [OF 1(2) b(1) r2] obtain st2 where
    2: "free_stack_memory (?A b) st1 = Some st2" "stacks_ok st2" "stacks_free st2 = b # b # stacks_free ?st"
    unfolding 1(3,4) by blast
  have "Option.bind (kill_process (int i) sc) (kill_process (int i)) =
      Some (sc\<lparr>process_list := ?ps[i := (?ps ! i)\<lparr>process_name := None\<rparr>], sched_stacks := st2\<rparr>)"
    using 1(1) 2(1) b(2) assms(2,3) ok(1) by (simp add: kill_process_def rd_in wr_in)
  then show ?thesis using b(1) 2(2,3) by blast
qed



end
