(* ===== verification/Shell.thy ===== *)
theory Shell
  imports Shell_Input Kernel_Stdio Filesystem_Router Scheduler
begin

section \<open>The shell and its commands (shell/shell.c, shell/cmd\_*.c)\<close>

text \<open>
  The state of the kernel that the shell works on. \<open>k_line\<close> is the memory from \<^verbatim>\<open>input_line\<close> on: its 50 bytes and what
  follows them, because the code writes the byte behind the array on every key. A command sees its arguments as the
  strings that \<^verbatim>\<open>argv\<close> points to; the block of the heap that holds the pointers is only taken and given back.
  Messages of the file system router and the scheduler are left out, those of the shell are not.

  What the program does not determine is in \<open>env\<close>: the bytes in local arrays that the code leaves uninitialised, the
  time, the memory that \<^verbatim>\<open>dump\<close> looks at, where the linker puts things, and the program that the build generates.
\<close>

record env =
  env_garbage :: "nat \<Rightarrow> u8 list"
  env_timestamp :: u32
  env_memory :: "u32 \<Rightarrow> u8"
  env_hello_bin :: "u8 list"
  env_test_ptr :: "nat \<Rightarrow> u32"
  env_file_buffer :: u32
  env_hexdump_buffer :: u32

record kernel =
  k_console :: console
  k_router :: router
  k_scheduler :: scheduler
  k_heap :: heap_bin_contex
  k_dir :: "u8 list"
  k_line :: "u8 list"
  k_len :: int
  k_dump_offset :: int
  k_file_buffer :: "u8 list"

definition on_console :: "(console \<Rightarrow> console option) \<Rightarrow> kernel \<Rightarrow> kernel option" where
  "on_console f k = do { c \<leftarrow> f (k_console k); Some (k\<lparr>k_console := c\<rparr>) }"

abbreviation println :: "char list \<Rightarrow> kernel \<Rightarrow> kernel option" where
  "println s \<equiv> on_console (kernel_println (c_lit s))"

definition printf :: "env \<Rightarrow> u8 list \<Rightarrow> printf_arg list \<Rightarrow> kernel \<Rightarrow> kernel option" where
  "printf env format args = on_console (kernel_printf format args (env_garbage env 256))"

abbreviation log_message :: "env \<Rightarrow> char list \<Rightarrow> kernel \<Rightarrow> kernel option" where
  "log_message env s \<equiv> on_console (LOG (Some (c_lit s)) (env_timestamp env))"

text \<open>Text with a line feed before and two behind.\<close>

definition framed :: "char list \<Rightarrow> u8 list" where "framed s = 10 # map_of_char s @ [10, 10, 0]"

definition get_current_dir :: "kernel \<Rightarrow> u8 list" where "get_current_dir k = k_dir k"

definition print_prompt :: "env \<Rightarrow> kernel \<Rightarrow> kernel option" where
  "print_prompt env k = printf env (c_lit ''[shell: %s]$ '') [Arg_Str (Some (get_current_dir k))] k"

subsection \<open>cat and ls\<close>

definition command_cat :: "env \<Rightarrow> u8 list \<Rightarrow> kernel \<Rightarrow> kernel option" where
  "command_cat env filename k = do {
     abs_path \<leftarrow> absolute_path (get_current_dir k) filename;
     k \<leftarrow> printf env (framed ''[cat] file path: %s '') [Arg_Str (Some abs_path)] k;
     (ret_len, buffer) \<leftarrow> read_file (env_hello_bin env) (k_router k) (Some abs_path) (env_garbage env 1024) 1024;
     buffer \<leftarrow> wr buffer 1023 0;
     k \<leftarrow> on_console (for_loop 0 (nat ret_len)
       (\<lambda>i c. do { byte \<leftarrow> rd buffer i; kernel_putchar (if byte < 32 then 46 else byte) c })) k;
     println '''' k
   }"

definition execute__cat :: "env \<Rightarrow> int \<Rightarrow> u8 list list \<Rightarrow> kernel \<Rightarrow> kernel option" where
  "execute__cat env argc argv k =
     (if argc > 1 then do { arg \<leftarrow> rd argv 1; command_cat env arg k }
      else println ''cat: Missing arguments!'' k)"

definition execute__ls :: "env \<Rightarrow> int \<Rightarrow> u8 list list \<Rightarrow> kernel \<Rightarrow> kernel option" where
  "execute__ls env argc argv k = do {
     let current_dir = get_current_dir k;
     abs_path \<leftarrow> (if argc > 1 then do { arg \<leftarrow> rd argv 1; absolute_path current_dir arg }
       else do {
         n \<leftarrow> strlen_unsafe (Some current_dir);
         p \<leftarrow> append_string (Some (replicate 100 0)) 100 (Some current_dir) (of_nat n);
         p
       });
     k \<leftarrow> printf env (framed ''[ls] path: %s '') [Arg_Str (Some abs_path)] k;
     (ret_len, buffer) \<leftarrow> get_list_of_files (k_router k) abs_path (env_garbage env 2048) 2048;
     k \<leftarrow> on_console (for_loop 0 (nat ret_len)
       (\<lambda>i c. do { byte \<leftarrow> rd buffer i; kernel_putchar (if byte = 0 then 10 else byte) c })) k;
     println '''' k
   }"

subsection \<open>ps, kill and run\<close>

definition space_for_process_name :: "u8 list" where
  "space_for_process_name = c_lit ''NAME                ''"

definition ps_row :: "env \<Rightarrow> nat \<Rightarrow> kernel \<Rightarrow> kernel option" where
  "ps_row env i k = do {
     name \<leftarrow> get_process_name (int i) (k_scheduler k);
     (case name of
        None \<Rightarrow> Some k
      | Some _ \<Rightarrow> do {
          k \<leftarrow> printf env (c_lit ''%02d     %s'') [Arg_Int (of_nat i), Arg_Str name] k;
          w \<leftarrow> strlen_unsafe (Some space_for_process_name);
          n \<leftarrow> strlen_unsafe name;
          k \<leftarrow> on_console (for_loop 0 (nat (int w - int n)) (\<lambda>_ c. kernel_putchar 32 c)) k;
          proc \<leftarrow> get_process_internals (int i) (k_scheduler k);
          printf env (map_of_char ''0x%08x  0x%08x  0x%08x   0x%08x '' @ [10, 0])
            [Arg_Int (pi_ip proc), Arg_Int (pi_stack_pointer proc), Arg_Int (pi_stack_base proc), Arg_Int (pi_stack_mem_start proc)] k
        })
   }"

definition execute__ps :: "env \<Rightarrow> int \<Rightarrow> u8 list list \<Rightarrow> kernel \<Rightarrow> kernel option" where
  "execute__ps env argc argv k = do {
     k \<leftarrow> printf env (map_of_char ''PID    %sPC/IP       SP          BP           Stack start'' @ [10, 0])
       [Arg_Str (Some space_for_process_name)] k;
     for_loop 0 (nat get_max_process_count) (ps_row env) k
   }"

definition command_kill :: "env \<Rightarrow> u8 list \<Rightarrow> kernel \<Rightarrow> kernel option" where
  "command_kill env str_pid k = do {
     pid \<leftarrow> atoi (Some str_pid);
     sc \<leftarrow> kill_process pid (k_scheduler k);
     printf env (map_of_char ''Executed command 'kill' with arg: %d '' @ [10, 0]) [Arg_Int (of_int pid)] (k\<lparr>k_scheduler := sc\<rparr>)
   }"

definition execute__kill :: "env \<Rightarrow> int \<Rightarrow> u8 list list \<Rightarrow> kernel \<Rightarrow> kernel option" where
  "execute__kill env argc argv k =
     (if argc > 1 then do { arg \<leftarrow> rd argv 1; command_kill env arg k }
      else println ''cat: Missing arguments!'' k)"

definition test_list :: "env \<Rightarrow> (u8 list \<times> u32) list" where
  "test_list env = zip (map c_lit [''Syscall Test'', ''linux_x86_userspace_test_bin'', ''test_thread_2'', ''test_thread_3'', ''test_thread_4''])
     (map (env_test_ptr env) [0..<5])"

definition command_run_test :: "env \<Rightarrow> u8 list \<Rightarrow> kernel \<Rightarrow> kernel option" where
  "command_run_test env test_num_str k = do {
     test_num \<leftarrow> atoi (Some test_num_str);
     k \<leftarrow> printf env (10 # map_of_char ''Executed command run with arg: %d '' @ [10, 0]) [Arg_Int (of_int test_num)] k;
     if unat (of_int test_num :: u32) < length (test_list env)
     then do {
       (name, process_ptr) \<leftarrow> rd (test_list env) (nat test_num);
       sc \<leftarrow> create_process (Some name) process_ptr (k_scheduler k);
       Some (k\<lparr>k_scheduler := sc\<rparr>)
     }
     else Some k
   }"

text \<open>A program read from a file becomes a process whose name is the local array \<^verbatim>\<open>abs_path\<close>: the model keeps the string it holds
  at the call. Its entry is the address of the static \<^verbatim>\<open>file_buffer\<close>.\<close>

definition run_file :: "env \<Rightarrow> u8 list \<Rightarrow> kernel \<Rightarrow> kernel option" where
  "run_file env filename k = do {
     abs_path \<leftarrow> absolute_path (get_current_dir k) filename;
     k \<leftarrow> printf env (framed ''[run] file path: %s '') [Arg_Str (Some abs_path)] k;
     (ret_len, buffer) \<leftarrow> read_file (env_hello_bin env) (k_router k) (Some abs_path) (k_file_buffer k) 256;
     let k = k\<lparr>k_file_buffer := buffer\<rparr>;
     if ret_len > 0
     then do {
       sc \<leftarrow> create_process (Some abs_path) (env_file_buffer env) (k_scheduler k);
       Some (k\<lparr>k_scheduler := sc\<rparr>)
     }
     else printf env (framed ''[run] Unable to read file! ret = %d '') [Arg_Int (of_int ret_len)] k
   }"

definition execute__run :: "env \<Rightarrow> int \<Rightarrow> u8 list list \<Rightarrow> kernel \<Rightarrow> kernel option" where
  "execute__run env argc argv k =
     (if argc > 1
      then do {
        arg \<leftarrow> rd argv 1;
        d \<leftarrow> strncmp arg (c_lit ''test'') 30;
        if d = 0
        then
          (if argc > 2 then do { num \<leftarrow> rd argv 2; command_run_test env num k }
           else do {
             k \<leftarrow> on_console (kernel_println (10 # map_of_char ''run: Missing test number! '' @ [10, 0])) k;
             k \<leftarrow> on_console (kernel_println (map_of_char ''Available tests: '' @ [10, 0])) k;
             for_loop 0 (length (test_list env))
               (\<lambda>i k. do {
                  (name, _) \<leftarrow> rd (test_list env) i;
                  printf env (map_of_char ''  %d - %s '' @ [10, 0]) [Arg_Int (of_nat i), Arg_Str (Some name)] k
                }) k
           })
        else run_file env arg k
      }
      else on_console (kernel_println (10 # map_of_char ''run: Missing argument! '' @ [10, 10] @
        map_of_char ''Usage: 'run test n' or 'run filename' '' @ [10, 0])) k)"

subsection \<open>dump and hexdump\<close>

definition dump_template :: "u8 list" where
  "dump_template = c_lit ''addrnumb: XX XX XX XX XX XX XX XX  XX XX XX XX XX XX XX XX   |Place_ASCII_text|''"

text \<open>\<^verbatim>\<open>long_to_hex\<close> into the line from a position on.\<close>

definition hex_into :: "u8 list \<Rightarrow> nat \<Rightarrow> int \<Rightarrow> int \<Rightarrow> u8 list option" where
  "hex_into line pos number digits = do {
     tail \<leftarrow> long_to_hex number (Some (drop pos line)) digits 16;
     t \<leftarrow> tail;
     Some (take pos line @ t)
   }"

text \<open>One row of 16 bytes at an address. A \<^verbatim>\<open>char\<close> is signed: bytes of 128 and more are negative.\<close>

definition dump_line :: "(u32 \<Rightarrow> u8) \<Rightarrow> int \<Rightarrow> u8 list option" where
  "dump_line memory offset = do {
     line \<leftarrow> hex_into dump_template 0 offset 8;
     (line, _) \<leftarrow> for_loop 0 16
       (\<lambda>hex_no (line, hex_line_offset). do {
          line \<leftarrow> hex_into line hex_line_offset (uint (memory (of_int (offset + int hex_no)))) 2;
          Some (line, if hex_no = 7 then hex_line_offset + 4 else hex_line_offset + 3)
        }) (line, 10);
     for_loop 0 16
       (\<lambda>char_no line.
          let character = memory (of_int (offset + int char_no))
          in wr line (62 + char_no) (if sint character < 32 then 46 else character)) line
   }"

definition execute__dump_data :: "env \<Rightarrow> (u32 \<Rightarrow> u8) \<Rightarrow> int \<Rightarrow> u8 list list \<Rightarrow> kernel \<Rightarrow> kernel option" where
  "execute__dump_data env memory argc argv k = do {
     offset \<leftarrow> (if argc > 1 then do { arg \<leftarrow> rd argv 1; hex_to_long (Some arg) } else Some 0);
     offset \<leftarrow> (if argc = 1 then c_int (k_dump_offset k + 0x80) else Some offset);
     (k, _) \<leftarrow> for_loop 0 8
       (\<lambda>row (k, offset). do {
          line \<leftarrow> dump_line memory offset;
          k \<leftarrow> on_console (kernel_println line) k;
          offset \<leftarrow> c_int (offset + 16);
          Some (k, offset)
        }) (k\<lparr>k_dump_offset := offset\<rparr>, offset);
     println '''' k
   }"

text \<open>\<^verbatim>\<open>hexdump\<close> reads the file into a local array and dumps the memory at its address.\<close>

definition execute__hexdump :: "env \<Rightarrow> int \<Rightarrow> u8 list list \<Rightarrow> kernel \<Rightarrow> kernel option" where
  "execute__hexdump env argc argv k =
     (if argc < 2 then println ''hexdump: Missing arguments!'' k
      else do {
        filename \<leftarrow> rd argv 1;
        abs_path \<leftarrow> absolute_path (get_current_dir k) filename;
        k \<leftarrow> printf env (framed ''[hexdump] file path: %s '') [Arg_Str (Some abs_path)] k;
        (ret_len, buffer) \<leftarrow> read_file (env_hello_bin env) (k_router k) (Some abs_path) (replicate 128 0) 128;
        if ret_len > 0
        then do {
          let addr = env_hexdump_buffer env;
          hex_addr \<leftarrow> hex_into (replicate 10 0) 0 (sint addr) 9;
          let memory = (\<lambda>a. let i = unat (a - addr) in if i < length buffer then buffer ! i else env_memory env a);
          execute__dump_data env memory 2 [[0], hex_addr] k
        }
        else printf env (framed ''[hexdump] Unable to read file! ret = %d '') [Arg_Int (of_int ret_len)] k
      })"

subsection \<open>The command line\<close>

text \<open>The result is \<^verbatim>\<open>argc\<close> and, where it is not \<open>NULL\<close>, the block of \<^verbatim>\<open>argv\<close> and the words' indices in the line.\<close>

definition parse_arguments :: "env \<Rightarrow> kernel \<Rightarrow> (int \<times> (u32 \<times> nat list) option \<times> kernel) option" where
  "parse_arguments env k = do {
     t \<leftarrow> trim_string (Some (k_line k));
     case t of
       None \<Rightarrow> Some (0, None, k)
     | Some (trimmed_input, line) \<Rightarrow> do {
         len \<leftarrow> strlen_unsafe (Some (drop trimmed_input line));
         num_of_args \<leftarrow> count_args (drop trimmed_input line) 0 len;
         let argc = int num_of_args + 1;
         (argv, hb) \<leftarrow> heap_malloc (of_int argc * 4) (k_heap k);
         let k = k\<lparr>k_line := line, k_heap := hb\<rparr>;
         if argv = 0
         then do { k \<leftarrow> log_message env ''ERROR: parse_arguments() - No free memory!'' k; Some (argc, None, k) }
         else do {
           (line, ptrs) \<leftarrow> split_args line trimmed_input (nat argc);
           Some (argc, Some (argv, ptrs), k\<lparr>k_line := line\<rparr>)
         }
       }
   }"

definition command_help :: "kernel \<Rightarrow> kernel option" where
  "command_help k = do {
     k \<leftarrow> println '''' k;
     k \<leftarrow> println ''Available commands:'' k;
     k \<leftarrow> println '''' k;
     k \<leftarrow> println ''    ls       - List files'' k;
     k \<leftarrow> println ''    cat file - Output file content'' k;
     k \<leftarrow> println ''    ps       - List processes'' k;
     k \<leftarrow> println ''    kill PID - Kill a process'' k;
     k \<leftarrow> println ''    run TEST - Run a test process'' k;
     k \<leftarrow> println ''    dump x   - Dump content of the memory at address x'' k;
     k \<leftarrow> println ''    hex x    - Dump content of the file x'' k;
     k \<leftarrow> println ''    help     - Prints this message'' k;
     println '''' k
   }"

definition unknown_command :: "env \<Rightarrow> u8 list \<Rightarrow> kernel \<Rightarrow> kernel option" where
  "unknown_command env input k = do {
     k \<leftarrow> println '''' k;
     k \<leftarrow> println ''Unknown command!'' k;
     k \<leftarrow> printf env (c_lit ''command = %s'') [Arg_Str (Some input)] k;
     k \<leftarrow> printf env (10 # c_lit '' hex ='') [] k;
     k \<leftarrow> for_loop 0 4 (\<lambda>i k. do { c \<leftarrow> rd input i; printf env (c_lit '' %x'') [Arg_Int (ucast c)] k }) k;
     println '''' k
   }"

text \<open>The command is chosen by the first characters of the line, not of the trimmed text.\<close>

definition dispatch :: "env \<Rightarrow> int \<Rightarrow> u8 list list \<Rightarrow> kernel \<Rightarrow> kernel option" where
  "dispatch env argc argv k = do {
     c \<leftarrow> rd (k_line k) 0;
     if c = 99 then do {
       c1 \<leftarrow> rd (k_line k) 1;
       if c1 = 100 then do { d \<leftarrow> execute__cd argc argv (k_dir k); Some (k\<lparr>k_dir := d\<rparr>) }
       else execute__cat env argc argv k
     }
     else if c = 100 then execute__dump_data env (env_memory env) argc argv k
     else if c = 104 then do {
       c2 \<leftarrow> rd (k_line k) 2;
       if c2 = 120 then execute__hexdump env argc argv k else command_help k
     }
     else if c = 107 then execute__kill env argc argv k
     else if c = 108 then execute__ls env argc argv k
     else if c = 112 then execute__ps env argc argv k
     else if c = 114 then execute__run env argc argv k
     else if c = 0 then Some k
     else unknown_command env (k_line k) k
   }"

definition shell_execute_command :: "env \<Rightarrow> kernel \<Rightarrow> kernel option" where
  "shell_execute_command env k = do {
     (argc, argv, k) \<leftarrow> parse_arguments env k;
     (case argv of
        None \<Rightarrow> println ''ERROR: Parsing arguments failed'' k
      | Some (mem, ptrs) \<Rightarrow> do {
          k \<leftarrow> dispatch env argc (map (\<lambda>a. drop a (k_line k)) ptrs) k;
          k \<leftarrow> print_prompt env k;
          hb \<leftarrow> heap_free mem (k_heap k);
          Some (k\<lparr>k_heap := hb\<rparr>)
        })
   }"

subsection \<open>Keys\<close>

text \<open>The last write of a key that is added goes to the byte behind \<^verbatim>\<open>input_line\<close>.\<close>

definition shell_on_input :: "env \<Rightarrow> u8 \<Rightarrow> kernel \<Rightarrow> kernel option" where
  "shell_on_input env key k = do {
     k \<leftarrow> on_console (kernel_putchar key) k;
     if key = 10 \<or> key = 13
     then do {
       k \<leftarrow> shell_execute_command env k;
       line \<leftarrow> wr (k_line k) 0 0;
       Some (k\<lparr>k_len := 0, k_line := line\<rparr>)
     }
     else if key = 8 \<or> key = 0x7f
     then
       (if k_len k > 0
        then do {
          line \<leftarrow> wr (k_line k) (nat (k_len k - 1)) 0;
          Some (k\<lparr>k_len := k_len k - 1, k_line := line\<rparr>)
        }
        else Some k)
     else if k_len k < 0 then None
     else do {
       line \<leftarrow> wr (k_line k) (nat (k_len k)) key;
       line \<leftarrow> wr line (nat (k_len k + 1)) 0;
       line \<leftarrow> wr line 50 0;
       Some (k\<lparr>k_len := k_len k + 1, k_line := line\<rparr>)
     }
   }"

definition event_on_keypress :: "env \<Rightarrow> u8 \<Rightarrow> kernel \<Rightarrow> kernel option" where
  "event_on_keypress env key = shell_on_input env key"

definition shell_init :: "env \<Rightarrow> kernel \<Rightarrow> kernel option" where
  "shell_init env k = do {
     k \<leftarrow> on_console (kernel_println (map_of_char ''Called shell_init()'' @ [10, 10, 0])) k;
     print_prompt env k
   }"

end
