(* ===== verification/Keyboard.thy ===== *)
theory Keyboard
  imports Prelude
begin

section \<open>The keyboard (drivers/poors\_man\_keyboard\_driver.c)\<close>

text \<open>
  The driver polls the controller: what port \<^verbatim>\<open>0x60\<close> answers is an argument, and so is the handler
  \<^verbatim>\<open>event_on_keypress\<close> of the code's callback, which works on a state of its own. The static
  \<^verbatim>\<open>previous_scan_code\<close> is threaded with it.
\<close>

definition scancode_to_ASCII_table :: "u8 list" where
  "scancode_to_ASCII_table =
     [0x3F, 0x3F, 0x31, 0x32, 0x33, 0x34, 0x35, 0x36, 0x37, 0x38, 0x39, 0x30, 0x2D, 0x3D, 0x08, 0x09,
      0x71, 0x77, 0x65, 0x72, 0x74, 0x79, 0x75, 0x69, 0x6F, 0x70, 0x5B, 0x5D, 0x0A, 0x3F, 0x61, 0x73,
      0x64, 0x66, 0x67, 0x68, 0x6A, 0x6B, 0x6C, 0x3B, 0x27, 0x3F, 0x3F, 0x5C, 0x7A, 0x78, 0x63, 0x76,
      0x62, 0x6E, 0x6D, 0x2C, 0x2E, 0x2F, 0x3F, 0x3F, 0x3F, 0x20, 0x3F, 0x3F, 0x3F, 0x3F, 0x3F, 0x3F,
      0x3F, 0x3F, 0x3F, 0x3F, 0x3F, 0x3F, 0x3F, 0x37, 0x38, 0x39, 0x2D, 0x34, 0x35, 0x36, 0x2B, 0x31,
      0x32, 0x33, 0x30] @ replicate 173 0x3F"

definition convert_scancode_to_ASCII :: "u8 \<Rightarrow> u8 option" where
  "convert_scancode_to_ASCII scan_code = rd scancode_to_ASCII_table (unat (scan_code AND NOT 0x80))"

definition keyboard_driver_poll :: "(u8 \<Rightarrow> 's \<Rightarrow> 's option) \<Rightarrow> u8 \<Rightarrow> u8 \<times> 's \<Rightarrow> (u8 \<times> 's) option" where
  "keyboard_driver_poll event_on_keypress scan_code st = (let (previous_scan_code, s) = st in
     if scan_code = 0xFA then Some (previous_scan_code, s)
     else if previous_scan_code \<noteq> scan_code \<and> scan_code AND 0x80 = 0
     then do {
       ASCII_code \<leftarrow> convert_scancode_to_ASCII scan_code;
       s' \<leftarrow> event_on_keypress ASCII_code s;
       Some (scan_code, s')
     }
     else Some (scan_code, s))"

fun keyboard_polls :: "(u8 \<Rightarrow> 's \<Rightarrow> 's option) \<Rightarrow> u8 list \<Rightarrow> u8 \<times> 's \<Rightarrow> (u8 \<times> 's) option" where
  "keyboard_polls event_on_keypress [] st = Some st"
| "keyboard_polls event_on_keypress (c # cs) st = do { st' \<leftarrow> keyboard_driver_poll event_on_keypress c st; keyboard_polls event_on_keypress cs st' }"

subsection \<open>Which events a sequence of polls raises\<close>

text \<open>A key is pressed when a code below 0x80 follows a different one; acknowledgements do not count.\<close>

fun pressed :: "u8 \<Rightarrow> u8 list \<Rightarrow> u8 list" where
  "pressed p [] = []"
| "pressed p (c # cs) = (if c < 0x80 \<and> c \<noteq> p then c # pressed c cs else pressed c cs)"

abbreviation codes :: "u8 list \<Rightarrow> u8 list" where "codes cs \<equiv> filter (\<lambda>c. c \<noteq> 0xFA) cs"

definition ascii :: "u8 \<Rightarrow> u8" where "ascii c = scancode_to_ASCII_table ! unat c"

fun handle_all :: "(u8 \<Rightarrow> 's \<Rightarrow> 's option) \<Rightarrow> u8 list \<Rightarrow> 's \<Rightarrow> 's option" where
  "handle_all h [] s = Some s"
| "handle_all h (k # ks) s = do { s' \<leftarrow> h k s; handle_all h ks s' }"

lemma handle_all_append: "handle_all h (ks @ ls) s = Option.bind (handle_all h ks s) (handle_all h ls)"
proof (induction ks arbitrary: s)
  case (Cons k ks)
  then show ?case by (cases "h k s") simp_all
qed simp

lemma bit_0x80: "bit (0x80 :: u8) n \<longleftrightarrow> n = 7"
proof -
  have "(0x80 :: u8) = 2 ^ 7" by simp
  then have "bit (0x80 :: u8) n = bit (2 ^ 7 :: u8) n" by simp
  then show ?thesis by (auto simp only: bit_exp_iff possible_bit_word) simp
qed

lemma u8_bit_7: "(c :: u8) AND 0x80 = 0 \<longleftrightarrow> \<not> bit c 7"
proof -
  have "c AND 0x80 = 0 \<longleftrightarrow> (\<forall>n. \<not> (bit c n \<and> n = 7))"
    by (simp only: bit_eq_iff bit_and_iff bit_0x80 bit_0_eq bot_apply possible_bit_word) (use bit_imp_le_length in fastforce)
  then show ?thesis by blast
qed

lemma u8_low_bit: "(c :: u8) AND 0x80 = 0 \<longleftrightarrow> c < 0x80"
proof -
  have "\<not> bit c 7 \<longleftrightarrow> take_bit 7 c = c"
  proof
    assume a: "\<not> bit c 7"
    show "take_bit 7 c = c"
    proof (rule bit_word_eqI)
      fix n assume "n < LENGTH(8)"
      then have "n < 7 \<or> n = 7" by auto
      then show "bit (take_bit 7 c) n = bit c n" using a by (auto simp: bit_take_bit_iff)
    qed
  next
    assume t: "take_bit 7 c = c"
    have "\<not> bit (take_bit 7 c) 7" by (simp add: bit_take_bit_iff)
    then show "\<not> bit c 7" unfolding t .
  qed
  also have "\<dots> \<longleftrightarrow> unat c < 128"
  proof -
    have "take_bit 7 c = c \<longleftrightarrow> unat (take_bit 7 c) = unat c" using unat_eqD [of "take_bit 7 c" c] by auto
    then show ?thesis by (simp add: unsigned_take_bit_eq take_bit_nat_eq_self_iff)
  qed
  finally show ?thesis by (simp add: u8_bit_7 word_less_nat_alt)
qed

lemma u8_low_mask: "(c :: u8) < 0x80 \<Longrightarrow> c AND NOT 0x80 = c"
proof -
  assume "c < 0x80"
  then have "\<not> bit c 7" by (simp add: u8_low_bit flip: u8_bit_7)
  then show ?thesis by (intro bit_word_eqI) (auto simp only: bit_and_iff bit_not_iff bit_0x80 possible_bit_word)
qed

lemma length_table: "length scancode_to_ASCII_table = 256"
  by (simp add: scancode_to_ASCII_table_def)

lemma convert_ok: "c < 0x80 \<Longrightarrow> convert_scancode_to_ASCII c = Some (ascii c)"
  unfolding convert_scancode_to_ASCII_def ascii_def
  by (simp only: u8_low_mask rd_def length_table word_less_nat_alt) simp

lemma keyboard_driver_poll_eq:
  "keyboard_driver_poll h c (p, s) =
     (if c = 0xFA then Some (p, s)
      else if c < 0x80 \<and> c \<noteq> p then map_option (Pair c) (h (ascii c) s)
      else Some (c, s))"
  using convert_ok [of c] by (auto simp: keyboard_driver_poll_def u8_low_bit option_bind_tail)

lemma keyboard_polls_eq:
  "keyboard_polls h cs (p, s) =
     map_option (Pair (last (p # codes cs))) (handle_all h (map ascii (pressed p (codes cs))) s)"
proof (induction cs arbitrary: p s)
  case (Cons c cs)
  then show ?case by (cases "h (ascii c) s") (auto simp: keyboard_driver_poll_eq)
qed simp

text \<open>Claim C19. Whatever codes the controller answers, the driver stays inside its table, and the handler sees exactly the
  keys pressed, in order: a held key once, a released one not at all.\<close>

theorem keyboard_polls_events:
  "map_option snd (keyboard_polls h cs (0, s)) = handle_all h (map ascii (pressed 0 (codes cs))) s"
  by (simp add: keyboard_polls_eq option.map_comp comp_def option.map_ident)

lemma keyboard_sample: "map ascii (pressed 0 (codes [0x26, 0x26, 0xA6, 0xFA, 0x1F, 0x9F, 0x1C])) = [0x6C, 0x73, 0x0A]"
  by (simp add: ascii_def scancode_to_ASCII_table_def)

end
