(* ===== verification/Shell_Facts.thy ===== *)
theory Shell_Facts
  imports Shell Keyboard
begin

section \<open>Facts and properties of the shell\<close>

text \<open>
  What the console shows after a sequence of operations, the line editor, the command line from its text to the
  command, and the commands that combine the parts below them.
\<close>

subsection \<open>What console operations print\<close>

definition prints :: "u8 list \<Rightarrow> console \<Rightarrow> console \<Rightarrow> bool" where
  "prints txt c c' \<longleftrightarrow> console_ok c' \<and> log_terminal c' = log_terminal c \<and>
    (terminal_lines (shell_terminal c'), tc_current_end_x (shell_terminal c')) =
      screen_text 17 txt (terminal_lines (shell_terminal c), tc_current_end_x (shell_terminal c)) \<and>
    (txt \<noteq> [] \<or> shows_lines (con_machine c) (shell_terminal c) \<longrightarrow> shows_lines (con_machine c') (shell_terminal c')) \<and>
    same_rows {18..<25} (con_machine c) (con_machine c') \<and>
    serial (con_machine c') = serial (con_machine c) @ tty_text txt"

lemma prints_ok: "prints txt c c' \<Longrightarrow> console_ok c'"
  by (simp add: prints_def)

lemma screen_text_append: "screen_text n (a @ b) s = screen_text n b (screen_text n a s)"
  by (simp add: screen_text_def)

lemma tty_text_append: "tty_text (a @ b) = tty_text a @ tty_text b"
  by (simp add: tty_text_def)

lemma same_rows_trans: "same_rows R a b \<Longrightarrow> same_rows R b c \<Longrightarrow> same_rows R a c"
  by (simp add: same_rows_def)

lemma prints_trans: "prints a c c1 \<Longrightarrow> prints b c1 c2 \<Longrightarrow> prints (a @ b) c c2"
proof -
  assume 1: "prints a c c1" and 2: "prints b c1 c2"
  have "same_rows {18..<25} (con_machine c) (con_machine c2)"
    using 1 2 same_rows_trans unfolding prints_def by blast
  moreover have "a @ b \<noteq> [] \<or> shows_lines (con_machine c) (shell_terminal c) \<longrightarrow> shows_lines (con_machine c2) (shell_terminal c2)"
    using 1 2 unfolding prints_def by auto
  ultimately show ?thesis using 1 2 unfolding prints_def by (simp add: screen_text_append tty_text_append)
qed

lemma prints_nothing: "console_ok c \<Longrightarrow> prints [] c c"
  by (simp add: prints_def screen_text_def tty_text_def same_rows_def)

lemma kernel_print_prints:
  assumes "console_ok c" and "terminated s"
  shows "\<exists>c'. kernel_print s c = Some c' \<and> prints (c_str s) c c'"
  using kernel_print_ok [OF assms] unfolding prints_def by blast

lemma kernel_println_prints:
  assumes "console_ok c" and "terminated s"
  shows "\<exists>c'. kernel_println s c = Some c' \<and> prints (c_str s @ [10]) c c'"
proof -
  obtain c1 where 1: "kernel_print s c = Some c1" "prints (c_str s) c c1"
    using kernel_print_prints [OF assms] by blast
  have "terminated [10, 0 :: u8]" by (simp add: terminated_def)
  then obtain c2 where 2: "kernel_print [10, 0] c1 = Some c2" "prints [10] c1 c2"
    using kernel_print_prints [OF prints_ok [OF 1(2)], of "[10, 0]"] by auto
  show ?thesis using 1(1) 2(1) prints_trans [OF 1(2) 2(2)] by (simp add: kernel_println_def)
qed

lemma kernel_printf_prints:
  assumes "console_ok c" and "list_all printable ds" and "list_all arg_ok args" and "rendered ds args = Some out"
    and "length buffer = 256" and "fmt = concat (map directive_text ds) @ 0 # rest"
  shows "\<exists>c'. kernel_printf fmt args buffer c = Some c' \<and> prints (take 255 (c_str out)) c c'"
proof -
  obtain b where b: "printf_buffer fmt args buffer = Some b" "terminated b" "c_str b = take 255 (c_str out)"
    using printf_buffer_ex [OF assms(2-5), of rest] assms(6) by blast
  show ?thesis using kernel_print_prints [OF assms(1) b(2)] b(1,3) by (simp add: kernel_printf_def)
qed

text \<open>A single character; the erasing ones send a space between two backspaces to the serial line.\<close>

lemma kernel_putchar_ok:
  assumes "console_ok c"
  shows "\<exists>c'. kernel_putchar ch c = Some c' \<and> console_ok c' \<and> log_terminal c' = log_terminal c \<and>
    (terminal_lines (shell_terminal c'), tc_current_end_x (shell_terminal c')) =
      screen_put 17 ch (terminal_lines (shell_terminal c), tc_current_end_x (shell_terminal c)) \<and>
    shows_lines (con_machine c') (shell_terminal c') \<and> same_rows {18..<25} (con_machine c) (con_machine c') \<and>
    serial (con_machine c') = serial (con_machine c) @ (if ch = 8 \<or> ch = 0x7f then [8, 32, 8] else tty_text [ch])"
proof -
  note ok = console_okD [OF assms]
  let ?t = "shell_terminal c" and ?m = "con_machine c"
  obtain t m1 where 1: "terminal_putchar ch (?t, ?m) = Some (t, m1)" "terminal_ok t" "same_window ?t t"
      "(terminal_lines t, tc_current_end_x t) = screen_put 17 ch (terminal_lines ?t, tc_current_end_x ?t)"
      "only_rows {0..<18} ?m m1"
    using putchar_ok [OF ok(1,3), of ch ?m] unfolding ok(5,7) by blast
  note w = same_windowD [OF 1(3)]
  have wt: "window_ok t" using w ok(3) by simp
  obtain m2 where 2: "terminal_render_to_VGA t m1 = Some m2" "draws (terminal_picture t) m1 m2" "only_rows {0..<18} m1 m2"
    using render_rows [OF 1(2) wt, of m1] w ok(5) by auto
  obtain m3 where m3: "m3 = (if ch = 8 \<or> ch = 0x7f then tty_write 8 (tty_write 32 (tty_write 8 m2)) else tty_write ch m2)" by simp
  have v: "vga_ram m3 = vga_ram m2"
    unfolding m3 by (simp add: tty_write_def COM_port_TX_def write_byte_to_IO_port_def Let_def)
  have s: "serial m3 = serial m2 @ (if ch = 8 \<or> ch = 0x7f then [8, 32, 8] else tty_text [ch])"
    unfolding m3 by (simp add: serial_tty_write) (simp add: tty_text_def)
  let ?c = "c\<lparr>shell_terminal := t, con_machine := m3\<rparr>"
  have "kernel_putchar ch c = Some ?c" using 1(1) 2(1) m3 by (simp add: kernel_putchar_def Let_def)
  moreover have "console_ok ?c" by (rule console_ok_shell [OF assms 1(2,3)])
  moreover have "shows_lines m3 t" by (rule shows_lines_vga [OF draws_shows_lines [OF 1(2) wt 2(2)] v])
  moreover have o: "only_rows {0..<18} ?m m2" by (rule only_rows_trans [OF 1(5) 2(3)])
  have "same_rows {18..<25} ?m m3" by (rule same_rows_vga [OF only_rows_same [OF o] v]) auto
  moreover have "serial m2 = serial ?m" using o by (simp add: only_rows_def)
  ultimately show ?thesis using 1(4) s by (intro exI [of _ ?c]) simp
qed

lemma kernel_putchar_prints:
  assumes "console_ok c" and "ch \<noteq> 8" and "ch \<noteq> 0x7f"
  shows "\<exists>c'. kernel_putchar ch c = Some c' \<and> prints [ch] c c'"
  using kernel_putchar_ok [OF assms(1), of ch] assms(2,3) by (auto simp: prints_def screen_text_def)

lemma putchar_loop_prints:
  assumes "console_ok c" and "n \<le> length buffer" and "\<forall>b \<in> set (take n buffer). f b \<noteq> 8 \<and> f b \<noteq> 0x7f"
  shows "\<exists>c'. for_loop 0 n (\<lambda>i c. do { b \<leftarrow> rd buffer i; kernel_putchar (f b) c }) c = Some c' \<and>
    prints (map f (take n buffer)) c c'"
proof (rule for_loop_rule [where I = "\<lambda>j c'. prints (map f (take j buffer)) c c'"])
  fix j c1 assume I: "prints (map f (take j buffer)) c c1" and j: "j < n"
  have tk: "take (Suc j) buffer = take j buffer @ [buffer ! j]" using j assms(2) by (simp add: take_Suc_conv_app_nth)
  have "buffer ! j \<in> set (take n buffer)" using j assms(2) by (auto simp: in_set_conv_nth intro!: exI [of _ j])
  then obtain c2 where c2: "kernel_putchar (f (buffer ! j)) c1 = Some c2" "prints [f (buffer ! j)] c1 c2"
    using kernel_putchar_prints [OF prints_ok [OF I], of "f (buffer ! j)"] assms(3) by auto
  then show "\<exists>c'. (do { b \<leftarrow> rd buffer j; kernel_putchar (f b) c1 }) = Some c' \<and> prints (map f (take (Suc j) buffer)) c c'"
    using prints_trans [OF I c2(2)] j assms(2) by (simp add: rd_in tk)
qed (use prints_nothing [OF assms(1)] in simp_all)

subsection \<open>The line editor\<close>

text \<open>The line holds a text \<open>t\<close>: the text, its terminator and, behind the array, the 0 that the code keeps there.\<close>

definition line_holds :: "kernel \<Rightarrow> u8 list \<Rightarrow> bool" where
  "line_holds k t \<longleftrightarrow> 51 \<le> length (k_line k) \<and> k_line k ! 50 = 0 \<and> length t < 50 \<and> 0 \<notin> set t \<and>
     k_len k = int (length t) \<and> take (Suc (length t)) (k_line k) = t @ [0]"

fun edit :: "u8 list \<Rightarrow> u8 \<Rightarrow> u8 list" where
  "edit t key = (if key = 8 \<or> key = 0x7f then butlast t else t @ [key])"

lemma line_holds_split:
  assumes "line_holds k t"
  obtains z where "k_line k = t @ 0 # z" "49 - length t < length z" "z ! (49 - length t) = 0"
proof -
  obtain z where z: "z = drop (Suc (length t)) (k_line k)" by simp
  have e: "k_line k = t @ 0 # z"
    using append_take_drop_id [of "Suc (length t)" "k_line k"] assms unfolding line_holds_def z by simp
  have l: "51 \<le> length (t @ 0 # z)" "(t @ 0 # z) ! 50 = 0" "length t < 50"
    using assms unfolding line_holds_def e by simp_all
  then have "50 - length t = Suc (49 - length t)" by simp
  then have "z ! (49 - length t) = 0" "49 - length t < length z" using l by (simp_all add: nth_append)
  with e that show ?thesis by blast
qed

lemma shell_on_input_edit:
  assumes "console_ok (k_console k)" and "line_holds k t" and "key \<noteq> 0" and "key \<noteq> 10" and "key \<noteq> 13"
    and "length (edit t key) < 50"
  shows "\<exists>c line. shell_on_input env key k = Some (k\<lparr>k_console := c, k_line := line, k_len := int (length (edit t key))\<rparr>) \<and>
    console_ok c \<and> line_holds (k\<lparr>k_console := c, k_line := line, k_len := int (length (edit t key))\<rparr>) (edit t key) \<and>
    length line = length (k_line k)"
proof -
  obtain c where c: "kernel_putchar key (k_console k) = Some c" "console_ok c"
    using kernel_putchar_ok [OF assms(1), of key] by blast
  obtain z where z: "k_line k = t @ 0 # z" "49 - length t < length z" "z ! (49 - length t) = 0"
    using line_holds_split [OF assms(2)] by blast
  have h: "length t < 50" "0 \<notin> set t" "k_len k = int (length t)" "51 \<le> length (k_line k)" "k_line k ! 50 = 0"
    using assms(2) by (simp_all add: line_holds_def)
  show ?thesis
  proof (cases "key = 8 \<or> key = 0x7f")
    case True
    show ?thesis
    proof (cases "t = []")
      case Nil: True
      have "shell_on_input env key k = Some (k\<lparr>k_console := c\<rparr>)"
        using c(1) True h(3) assms(4,5) Nil by (simp add: shell_on_input_def on_console_def)
      then show ?thesis using c(2) True Nil assms(2)
        by (intro exI [of _ c] exI [of _ "k_line k"]) (simp add: line_holds_def)
    next
      case False
      then obtain u x where u: "t = u @ [x]" by (metis rev_exhaust)
      let ?line = "u @ 0 # 0 # z"
      have w: "wr (k_line k) (length u) 0 = Some ?line" using z(1) u by (simp add: wr_def list_update_append)
      have n: "nat (k_len k - 1) = length u" "k_len k - 1 = int (length u)" "k_len k > 0" using h(3) u by simp_all
      have "?line ! 50 = 0"
      proof -
        have "?line = (k_line k)[length u := 0]" using w by (simp add: wr_def split: if_splits)
        then have "?line ! 50 = (k_line k)[length u := 0] ! 50" by simp
        also have "\<dots> = 0" using h(1,5) u by simp
        finally show ?thesis .
      qed
      moreover have "shell_on_input env key k = Some (k\<lparr>k_console := c, k_len := k_len k - 1, k_line := ?line\<rparr>)"
        using c(1) True assms(4,5) n w by (simp add: shell_on_input_def on_console_def)
      ultimately show ?thesis using c(2) True u h n z(1)
        by (intro exI [of _ c] exI [of _ ?line]) (simp add: line_holds_def)
    qed
  next
    case False
    then have l49: "length t < 49" using assms(6) by simp
    obtain a z' where za: "z = a # z'" using z(2) by (cases z) auto
    let ?line = "(t @ key # 0 # z')[50 := 0]"
    have w: "wr (k_line k) (length t) key = Some (t @ key # z)" using z(1) by (simp add: wr_def)
    have w2: "wr (t @ key # z) (length t + 1) 0 = Some (t @ key # 0 # z')"
      using za by (simp add: wr_def list_update_append)
    have l51: "51 \<le> length (t @ key # 0 # z')" using h(4) z(1) za by simp
    then have w3: "wr (t @ key # 0 # z') 50 0 = Some ?line" by (simp add: wr_def)
    have n: "nat (k_len k) = length t" "nat (k_len k + 1) = length t + 1" "\<not> k_len k < 0" using h(3) by simp_all
    have "shell_on_input env key k = Some (k\<lparr>k_console := c, k_len := k_len k + 1, k_line := ?line\<rparr>)"
      unfolding shell_on_input_def on_console_def using c(1) False assms(4,5) n w w2 w3 by simp
    moreover have "take (Suc (Suc (length t))) ?line = t @ key # [0]"
      using l49 by simp
    moreover have "length ?line = length (k_line k)" using z(1) za by simp
    moreover have "?line ! 50 = 0" using l51 by simp
    ultimately show ?thesis using c(2) False h assms(3) l49
      by (intro exI [of _ c] exI [of _ ?line]) (simp add: line_holds_def)
  qed
qed

text \<open>Whatever keys are typed, erasures included, the line holds exactly the edited text as long as it stays below 50
  characters, and nothing but the line and the console changes.\<close>

lemma keys_edit:
  assumes "console_ok (k_console k)" and "line_holds k t" and "0 \<notin> set keys" and "10 \<notin> set keys" and "13 \<notin> set keys"
    and "\<forall>n \<le> length keys. length (foldl edit t (take n keys)) < 50"
  shows "\<exists>c line len. handle_all (shell_on_input env) keys k = Some (k\<lparr>k_console := c, k_line := line, k_len := len\<rparr>) \<and>
    console_ok c \<and> line_holds (k\<lparr>k_console := c, k_line := line, k_len := len\<rparr>) (foldl edit t keys)"
  using assms
proof (induction keys arbitrary: k t)
  case Nil
  then show ?case by (intro exI [of _ "k_console k"] exI [of _ "k_line k"] exI [of _ "k_len k"]) simp
next
  case (Cons key keys)
  have "length (edit t key) < 50" using spec [OF Cons.prems(6), of 1] by (simp del: edit.simps)
  with shell_on_input_edit [OF Cons.prems(1,2), of key env] Cons.prems(3-5) obtain c line where
    1: "shell_on_input env key k = Some (k\<lparr>k_console := c, k_line := line, k_len := int (length (edit t key))\<rparr>)" "console_ok c"
      "line_holds (k\<lparr>k_console := c, k_line := line, k_len := int (length (edit t key))\<rparr>) (edit t key)"
    by (auto simp del: edit.simps)
  let ?k = "k\<lparr>k_console := c, k_line := line, k_len := int (length (edit t key))\<rparr>"
  have rest: "\<forall>n \<le> length keys. length (foldl edit (edit t key) (take n keys)) < 50"
  proof (intro allI impI)
    fix n assume "n \<le> length keys"
    then show "length (foldl edit (edit t key) (take n keys)) < 50"
      using spec [OF Cons.prems(6), of "Suc n"] by (simp del: edit.simps)
  qed
  have "console_ok (k_console ?k)" using 1(2) by simp
  from Cons.IH [OF this 1(3)] rest Cons.prems(3-5) obtain c' line' len' where
    "handle_all (shell_on_input env) keys ?k = Some (?k\<lparr>k_console := c', k_line := line', k_len := len'\<rparr>)" "console_ok c'"
    "line_holds (?k\<lparr>k_console := c', k_line := line', k_len := len'\<rparr>) (foldl edit (edit t key) keys)"
    by (auto simp del: edit.simps)
  then show ?case using 1(1) by (intro exI [of _ c'] exI [of _ line'] exI [of _ len']) (simp del: edit.simps)
qed

subsection \<open>From the line to the command\<close>

lemma gaps_half: "2 * gaps x \<le> length x + 1"
proof (induction "length x" arbitrary: x rule: less_induct)
  case less
  consider "x = []" | a where "x = [a]" | c d cs where "x = c # d # cs" by (cases x rule: gaps.cases)
  then show ?case
  proof cases
    case (3 c d cs)
    have a: "2 * gaps (d # cs) \<le> length (d # cs) + 1" and b: "2 * gaps cs \<le> length cs + 1"
      using less [of "d # cs"] less [of cs] 3 by simp_all
    show ?thesis
    proof (cases "c = 32 \<and> d \<noteq> 32")
      case True
      then have "gaps x = Suc (gaps cs)" using 3 by (simp add: gaps_Cons)
      then show ?thesis using b 3 by simp
    qed (use a 3 in auto)
  qed simp_all
qed

lemma words_few: "length (words (strip y)) \<le> (length y + 1) div 2 + 1"
proof -
  have "2 * gaps (strip y) \<le> length (strip y) + 1" by (rule gaps_half)
  then have "gaps (strip y) \<le> (length y + 1) div 2" using length_strip [of y] by linarith
  then show ?thesis using length_words [OF strip_last, of y] by simp
qed

lemma heap_take:
  assumes "heap_ok hb" and "heap_free_blocks hb = b # bs" and "0 < n" and "n \<le> 128"
  shows "\<exists>hb'. heap_malloc n hb = Some (block_addr (hb_buffer_start hb) b, hb') \<and> heap_ok hb' \<and> heap_free_blocks hb' = bs \<and>
    block_addr (hb_buffer_start hb') = block_addr (hb_buffer_start hb) \<and> block_addr (hb_buffer_start hb) b \<noteq> 0 \<and>
    (\<exists>hb''. heap_free (block_addr (hb_buffer_start hb) b) hb' = Some hb'' \<and> heap_ok hb'' \<and> heap_free_blocks hb'' = b # bs)"
proof -
  have p: "heap_ok hb \<and> 0 < n \<and> n \<le> BIN_BLOCK_SIZE" using assms by (simp add: bin_consts)
  obtain hb' where 1: "heap_malloc n hb = Some (block_addr (hb_buffer_start hb) b, hb')" "heap_ok hb' \<and> 0 < n \<and> n \<le> BIN_BLOCK_SIZE"
      "heap_free_blocks hb' = bs" "block_addr (hb_buffer_start hb') = block_addr (hb_buffer_start hb)"
    using heap_pool.get_some [OF p assms(2)] by blast
  have b: "b < 3" using heap_pool.blocks_range [OF p] assms(2) by auto
  have "length (heap_free_blocks hb) \<le> 3"
    using byte_stack.fits [of "hb_free_blocks_stack hb"] assms(1) by (simp add: heap_ok_def heap_free_blocks_def)
  then have "length (heap_free_blocks hb') < 3" using assms(2) 1(3) by simp
  from heap_pool.give_ok [OF 1(2) b this] obtain hb'' where
    "heap_free (block_addr (hb_buffer_start hb) b) hb' = Some hb''" "heap_ok hb''" "heap_free_blocks hb'' = b # bs"
    unfolding 1(3,4) by blast
  then show ?thesis using 1 heap_pool.addr_nonnull [OF p b] by blast
qed

lemma argv_bytes:
  assumes "0 < n" and "n \<le> 32"
  shows "0 < (of_int (int n) * 4 :: u32)" and "(of_int (int n) * 4 :: u32) \<le> 128"
proof -
  have "unat (of_nat n :: u32) = n" using assms by (intro unat_of_nat_u32) simp
  then have "unat (of_nat n * 4 :: u32) = n * 4" using assms by (subst unat_mult_lt) simp_all
  then show "0 < (of_int (int n) * 4 :: u32)" "(of_int (int n) * 4 :: u32) \<le> 128"
    using assms by (simp_all add: word_less_nat_alt word_le_nat_alt)
qed

text \<open>What a parsed line looks like: the words of its text, terminated in place.\<close>

definition cut_into :: "u8 list \<Rightarrow> u8 list \<Rightarrow> u8 list \<Rightarrow> nat list \<Rightarrow> bool" where
  "cut_into y line line' ptrs \<longleftrightarrow> length line' = length line \<and> drop (length y) line' = drop (length y) line \<and>
     length ptrs = length (words (strip y)) \<and> ptrs ! 0 = length (spaces y) \<and>
     (\<forall>i < length ptrs. ptrs ! i \<le> length y \<and> terminated (drop (ptrs ! i) line') \<and> c_str (drop (ptrs ! i) line') = words (strip y) ! i)"

lemma parse_arguments_ok:
  assumes "line_holds k y" and "heap_ok (k_heap k)" and "heap_free_blocks (k_heap k) = b # bs"
  shows "\<exists>mem hb line ptrs. parse_arguments env k =
      Some (int (length (words (strip y))), Some (mem, ptrs), k\<lparr>k_line := line, k_heap := hb\<rparr>) \<and>
    cut_into y (k_line k) line ptrs \<and> heap_ok hb \<and> heap_free_blocks hb = bs \<and>
    (\<exists>hb'. heap_free mem hb = Some hb' \<and> heap_ok hb' \<and> heap_free_blocks hb' = b # bs)"
proof -
  obtain z where z: "k_line k = y @ 0 # z" "49 - length y < length z" "z ! (49 - length y) = 0"
    using line_holds_split [OF assms(1)] by blast
  have y: "0 \<notin> set y" "length y < 50" using assms(1) by (simp_all add: line_holds_def)
  have "0 \<in> set z" using z(2,3) nth_mem by metis
  then have sp: "\<exists>c \<in> set z. c \<noteq> 32" by (intro bexI [of _ 0]) simp_all
  have y100: "length y \<le> 100" using y(2) by simp
  let ?n = "length (words (strip y))"
  obtain start m m' ptrs where p: "trim_string (Some (y @ 0 # z)) = Some (Some (start, m))"
      "strlen_unsafe (Some (drop start m)) = Some (length (strip y))"
      "count_args (drop start m) 0 (length (strip y)) = Some (?n - 1)"
      "split_args m start ?n = Some (m', ptrs)" "length m' = length (y @ 0 # z)" "drop (length y) m' = 0 # z"
      "length ptrs = ?n" "ptrs ! 0 = length (spaces y)"
      "\<forall>i < length ptrs. ptrs ! i \<le> length y \<and> terminated (drop (ptrs ! i) m') \<and> c_str (drop (ptrs ! i) m') = words (strip y) ! i"
    using parse_words [OF y(1) y100 sp] by (elim exE conjE) (rule that; assumption)
  have n1: "0 < ?n" using length_words [OF strip_last, of y] by simp
  have n32: "?n \<le> 32" using words_few [of y] y(2) by simp
  obtain hb where hb: "heap_malloc (of_int (int ?n) * 4) (k_heap k) = Some (block_addr (hb_buffer_start (k_heap k)) b, hb)"
      "heap_ok hb" "heap_free_blocks hb = bs" "block_addr (hb_buffer_start (k_heap k)) b \<noteq> 0"
      "\<exists>hb'. heap_free (block_addr (hb_buffer_start (k_heap k)) b) hb = Some hb' \<and> heap_ok hb' \<and> heap_free_blocks hb' = b # bs"
    using heap_take [OF assms(2,3) argv_bytes [OF n1 n32]] by blast
  have ac: "int (?n - 1) + 1 = int ?n" using n1 by linarith
  have "parse_arguments env k = Some (int ?n, Some (block_addr (hb_buffer_start (k_heap k)) b, ptrs), k\<lparr>k_line := m', k_heap := hb\<rparr>)"
    unfolding parse_arguments_def z(1) p(1) Option.bind_lunit option.case prod.case p(2,3) Let_def ac hb(1)
    using hb(4) p(4) by simp
  moreover have "cut_into y (k_line k) m' ptrs"
    using p(5-9) unfolding cut_into_def z(1) by simp
  ultimately show ?thesis using hb by blast
qed

lemma rendered_lits: "rendered (map Lit pre @ ds) args = map_option (append pre) (rendered ds args)"
  by (induction pre) (auto simp: option.map_comp comp_def option.map_ident)

lemma printf_str:
  assumes "console_ok (k_console k)" and "length (env_garbage env 256) = 256" and "0 \<notin> set pre" and "37 \<notin> set pre"
    and "0 \<notin> set post" and "37 \<notin> set post" and "terminated s" and "length pre + length (c_str s) + length post \<le> 255"
  shows "\<exists>c. printf env (pre @ 37 # 115 # post @ [0]) [Arg_Str (Some s)] k = Some (k\<lparr>k_console := c\<rparr>) \<and>
    prints (pre @ c_str s @ post) (k_console k) c"
proof -
  let ?ds = "map Lit pre @ Str # map Lit post" and ?args = "[Arg_Str (Some s)]"
  have lits: "concat (map directive_text (map Lit xs)) = xs" for xs by (induction xs) simp_all
  have t: "concat (map directive_text ?ds) @ 0 # [] = pre @ 37 # 115 # post @ [0]"
    using lits [of pre] lits [of post] by simp
  have p: "list_all printable ?ds" using assms(3-6) by (auto simp: list_all_iff printable_def)
  have "rendered (map Lit post) [] = Some post" using rendered_lits [of post "[]" "[]"] by simp
  then have r: "rendered ?ds ?args = Some (pre @ c_str s @ post)" using assms(7) by (simp add: rendered_lits)
  have a: "list_all arg_ok ?args" using assms(7) by (simp add: arg_ok_def)
  have nz: "c_str (pre @ c_str s @ post) = pre @ c_str s @ post"
    using assms(3,5) c_str_no_null [of s] by (auto simp: takeWhile_eq_all_conv)
  obtain c where "kernel_printf (pre @ 37 # 115 # post @ [0]) ?args (env_garbage env 256) (k_console k) = Some c"
      "prints (take 255 (c_str (pre @ c_str s @ post))) (k_console k) c"
    using kernel_printf_prints [OF assms(1) p a r assms(2) t [symmetric]] by blast
  then show ?thesis using assms(8) unfolding nz by (intro exI [of _ c]) (simp add: printf_def on_console_def)
qed

lemma map_of_char_append: "map_of_char (a @ b) = map_of_char a @ map_of_char b"
  by (simp add: map_of_char_def)

lemma println_prints:
  assumes "console_ok (k_console k)" and "0 \<notin> set (map_of_char s)"
  shows "\<exists>c. println s k = Some (k\<lparr>k_console := c\<rparr>) \<and> prints (map_of_char s @ [10]) (k_console k) c"
proof -
  have "terminated (c_lit s)" by (simp add: terminated_def c_lit_def)
  moreover have "c_str (c_lit s) = map_of_char s" using c_str_append_null [OF assms(2), of "[]"] by (simp add: c_lit_def)
  ultimately show ?thesis using kernel_println_prints [OF assms(1), of "c_lit s"] by (auto simp: on_console_def)
qed

definition prompt_text :: "u8 list \<Rightarrow> u8 list" where
  "prompt_text dir = map_of_char ''[shell: '' @ dir @ map_of_char '']$ ''"

lemma print_prompt_prints:
  assumes "console_ok (k_console k)" and "length (env_garbage env 256) = 256" and "path_buffer (k_dir k)"
  shows "\<exists>c. print_prompt env k = Some (k\<lparr>k_console := c\<rparr>) \<and> prints (prompt_text (c_str (k_dir k))) (k_console k) c"
proof -
  have f: "c_lit ''[shell: %s]$ '' = map_of_char ''[shell: '' @ 37 # 115 # map_of_char '']$ '' @ [0]"
    by (simp add: c_lit_def map_of_char_def)
  have "length (c_str (k_dir k)) < 100" using terminated_length [of "k_dir k"] assms(3) by (simp add: path_buffer_def)
  then show ?thesis
    using printf_str [OF assms(1,2), of "map_of_char ''[shell: ''" "map_of_char '']$ ''" "k_dir k"] assms(3)
    unfolding print_prompt_def get_current_dir_def f prompt_text_def
    by (simp add: map_of_char_def path_buffer_def)
qed

subsection \<open>cat\<close>

lemma route_under: "dir_name_ok d \<Longrightarrow> route ms (under d x) = List.find (\<lambda>m. first_dir (c_str (snd m)) = d) (take 8 ms)"
  by (simp add: route_def first_dir_under)

definition dots :: "u8 list \<Rightarrow> u8 list" where "dots = map (\<lambda>b. if b < 32 then 46 else b)"

definition cat_text :: "u8 list \<Rightarrow> u8 list \<Rightarrow> u8 list" where
  "cat_text path bytes = 10 # map_of_char ''[cat] file path: '' @ path @ [32, 10, 10] @ dots bytes @ [10]"

text \<open>The volume behind a router has a file of that name in that directory.\<close>

definition file_at :: "router \<Rightarrow> u8 list \<Rightarrow> u8 list \<Rightarrow> bool" where
  "file_at rt path bytes \<longleftrightarrow> (\<exists>ms d n p i m. path = 47 # d @ 47 # n \<and> dir_name_ok d \<and>
     mount_table rt = table_of ms \<and> length ms \<le> 8 \<and> (\<forall>m \<in> set ms. mount_ok m) \<and>
     route ms (under d [0]) = Some (FS_TYPE__TINY_FS, p) \<and> c_str p = 47 # d \<and> fs_sound (router_volume rt) \<and>
     slot_of n (files (router_volume rt)) = int i \<and> files (router_volume rt) ! i = Some (m, bytes))"

text \<open>The volume has no file of that name.\<close>

definition missing_at :: "router \<Rightarrow> u8 list \<Rightarrow> bool" where
  "missing_at rt path \<longleftrightarrow> (\<exists>ms d n p. path = 47 # d @ 47 # n \<and> dir_name_ok d \<and>
     mount_table rt = table_of ms \<and> length ms \<le> 8 \<and> (\<forall>m \<in> set ms. mount_ok m) \<and>
     route ms (under d [0]) = Some (FS_TYPE__TINY_FS, p) \<and> c_str p = 47 # d \<and> fs_sound (router_volume rt) \<and>
     slot_of n (files (router_volume rt)) = -1)"

lemma read_file_tinyfs:
  assumes "c_str P = 47 # d @ 47 # n" and "dir_name_ok d" and "mount_table rt = table_of ms" and "length ms \<le> 8"
    and "\<forall>m \<in> set ms. mount_ok m" and "route ms (under d [0]) = Some (FS_TYPE__TINY_FS, p)" and "c_str p = 47 # d"
    and "terminated P" and "length (c_str P) \<le> 99"
  shows "\<exists>name. terminated name \<and> c_str name = n \<and>
    read_file hello rt (Some P) buffer len = read_tinyfs (router_volume rt) name buffer"
proof -
  obtain z where z: "P = c_str P @ 0 # z" using c_str_decomp [OF assms(8)] by blast
  let ?name = "n @ 0 # z"
  have P: "P = under d ?name" using z unfolding assms(1) by (simp add: under_def)
  have "0 \<notin> set n" using c_str_no_null [of P] unfolding assms(1) by simp
  then have cn: "c_str ?name = n" by (rule c_str_append_null)
  have tn: "terminated ?name" by (simp add: terminated_def)
  have len: "length d + length (c_str ?name) \<le> 98" using assms(9) unfolding assms(1) cn by simp
  have r: "route ms (under d ?name) = Some (FS_TYPE__TINY_FS, p)" using assms(6) unfolding route_under [OF assms(2)] .
  have "read_file hello rt (Some (under d ?name)) buffer len = read_tinyfs (router_volume rt) ?name buffer"
    using routed [OF assms(3-5,2) tn len r assms(7)] by (auto simp: read_file_def fs_types)
  then show ?thesis using tn cn unfolding P [symmetric] by blast
qed

lemma read_file_at:
  assumes "file_at rt (c_str P) bytes" and "terminated P" and "length (c_str P) \<le> 99" and "length bytes \<le> length buffer"
  shows "read_file hello rt (Some P) buffer len = Some (int (length bytes), bytes @ drop (length bytes) buffer)"
proof -
  obtain ms d n p i m where h: "c_str P = 47 # d @ 47 # n" "dir_name_ok d"
      "mount_table rt = table_of ms" "length ms \<le> 8" "\<forall>m \<in> set ms. mount_ok m"
      "route ms (under d [0]) = Some (FS_TYPE__TINY_FS, p)" "c_str p = 47 # d" "fs_sound (router_volume rt)"
      "slot_of n (files (router_volume rt)) = int i" "files (router_volume rt) ! i = Some (m, bytes)"
    using assms(1) unfolding file_at_def by blast
  from read_file_tinyfs [OF h(1-7) assms(2,3), of hello buffer len] show ?thesis
    using read_tinyfs_ok(2) [OF h(8) _ _ h(10) assms(4)] h(9) by fastforce
qed

lemma read_file_missing:
  assumes "missing_at rt (c_str P)" and "terminated P" and "length (c_str P) \<le> 99"
  shows "read_file hello rt (Some P) buffer len = Some (-1, buffer)"
proof -
  obtain ms d n p where h: "c_str P = 47 # d @ 47 # n" "dir_name_ok d"
      "mount_table rt = table_of ms" "length ms \<le> 8" "\<forall>m \<in> set ms. mount_ok m"
      "route ms (under d [0]) = Some (FS_TYPE__TINY_FS, p)" "c_str p = 47 # d" "fs_sound (router_volume rt)"
      "slot_of n (files (router_volume rt)) = -1"
    using assms(1) unfolding missing_at_def by blast
  from read_file_tinyfs [OF h(1-7) assms(2,3), of hello buffer len] show ?thesis
    using read_tinyfs_ok(1) [OF h(8)] h(9) by fastforce
qed

text \<open>What \<^verbatim>\<open>cat\<close> prints, given what the router answers.\<close>

lemma command_cat_reads:
  assumes "console_ok (k_console k)" and g: "\<forall>n. length (env_garbage env n) = n" and "path_buffer (k_dir k)"
    and "terminated arg" and "c_str arg \<noteq> []" and "length (c_str arg) \<le> 99" and path: "path = path_from (c_str (k_dir k)) (c_str arg)"
    and reads: "\<And>P. terminated P \<Longrightarrow> length (c_str P) \<le> 99 \<Longrightarrow> c_str P = path \<Longrightarrow>
      read_file (env_hello_bin env) (k_router k) (Some P) (env_garbage env 1024) 1024 = Some (r, bytes @ rest)"
    and "nat r = length bytes" and "length (bytes @ rest) = 1024" and "length bytes \<le> 1023" and "0x7f \<notin> set bytes"
  shows "\<exists>c. command_cat env arg k = Some (k\<lparr>k_console := c\<rparr>) \<and> prints (cat_text path bytes) (k_console k) c"
proof -
  obtain P where P: "absolute_path (k_dir k) arg = Some P" "path_buffer P" "c_str P = path"
    using absolute_path_ok [OF assms(3-6)] unfolding path by blast
  have tP: "terminated P" "length (c_str P) \<le> 99" using P(2) terminated_length [of P] by (simp_all add: path_buffer_def)
  have f: "framed ''[cat] file path: %s '' = (10 # map_of_char ''[cat] file path: '') @ 37 # 115 # [32, 10, 10] @ [0]"
    by (simp add: framed_def map_of_char_def)
  obtain c1 where c1: "printf env (framed ''[cat] file path: %s '') [Arg_Str (Some P)] k = Some (k\<lparr>k_console := c1\<rparr>)"
      "prints ((10 # map_of_char ''[cat] file path: '') @ c_str P @ [32, 10, 10]) (k_console k) c1"
    using printf_str [OF assms(1), of env "10 # map_of_char ''[cat] file path: ''" "[32, 10, 10]" P] g tP
    unfolding f by (auto simp: map_of_char_def)
  let ?n = "length bytes" and ?buf = "(bytes @ rest)[1023 := 0]"
  note lb = assms(10)
  have tk: "take ?n ?buf = bytes" using assms(11) by simp
  have "\<forall>b \<in> set (take ?n ?buf). (if b < 32 then 46 else b) \<noteq> 8 \<and> (if b < 32 then 46 else b) \<noteq> 0x7f"
    using assms(12) unfolding tk by auto
  then obtain c2 where c2: "for_loop 0 ?n (\<lambda>i c. do { b \<leftarrow> rd ?buf i; kernel_putchar (if b < 32 then 46 else b) c }) c1 = Some c2"
      "prints (dots bytes) c1 c2"
    using putchar_loop_prints [OF prints_ok [OF c1(2)], of ?n ?buf "\<lambda>b. if b < 32 then 46 else b"] lb
    unfolding tk dots_def by auto
  obtain c3 where c3: "println '''' (k\<lparr>k_console := c2\<rparr>) = Some (k\<lparr>k_console := c3\<rparr>)" "prints [10] c2 c3"
    using println_prints [of "k\<lparr>k_console := c2\<rparr>" "''''"] prints_ok [OF c2(2)] by (auto simp: map_of_char_def)
  have "command_cat env arg k = Some (k\<lparr>k_console := c3\<rparr>)"
    unfolding command_cat_def get_current_dir_def P(1) Option.bind_lunit c1(1)
    using reads [OF tP P(3)] lb assms(9) c2(1) c3(1) by (simp add: wr_in on_console_def)
  moreover have "prints (cat_text (c_str P) bytes) (k_console k) c3"
    using prints_trans [OF prints_trans [OF c1(2) c2(2)] c3(2)] by (simp add: cat_text_def)
  ultimately show ?thesis unfolding P(3) by blast
qed

text \<open>A file is shown, and nothing when there is none.\<close>

definition shown_at :: "router \<Rightarrow> u8 list \<Rightarrow> u8 list \<Rightarrow> bool" where
  "shown_at rt path bytes \<longleftrightarrow> file_at rt path bytes \<or> missing_at rt path \<and> bytes = []"

lemma command_cat_ok:
  assumes "console_ok (k_console k)" and g: "\<forall>n. length (env_garbage env n) = n" and "path_buffer (k_dir k)"
    and "terminated arg" and "c_str arg \<noteq> []" and "length (c_str arg) \<le> 99"
    and "shown_at (k_router k) (path_from (c_str (k_dir k)) (c_str arg)) bytes" and "length bytes \<le> 1023" and "0x7f \<notin> set bytes"
  shows "\<exists>c. command_cat env arg k = Some (k\<lparr>k_console := c\<rparr>) \<and>
    prints (cat_text (path_from (c_str (k_dir k)) (c_str arg)) bytes) (k_console k) c"
proof (cases "file_at (k_router k) (path_from (c_str (k_dir k)) (c_str arg)) bytes")
  case True
  show ?thesis
    by (rule command_cat_reads [OF assms(1-6) refl _ _ _ assms(8,9), where r = "int (length bytes)" and rest = "drop (length bytes) (env_garbage env 1024)"])
      (use True g assms(8) read_file_at [of "k_router k" _ bytes] in simp_all)
next
  case False
  then have m: "missing_at (k_router k) (path_from (c_str (k_dir k)) (c_str arg))" "bytes = []"
    using assms(7) by (simp_all add: shown_at_def)
  show ?thesis
    by (rule command_cat_reads [OF assms(1-6) refl _ _ _ assms(8,9), where r = "-1" and rest = "env_garbage env 1024"])
      (use m g read_file_missing [of "k_router k"] in simp_all)
qed

subsection \<open>The heap is balanced\<close>

text \<open>No command touches the allocator.\<close>

lemma on_console_heap: "on_console f k = Some k' \<Longrightarrow> k_heap k' = k_heap k"
  by (auto simp: on_console_def bind_eq_Some_conv)

lemma printf_heap: "printf env fmt args k = Some k' \<Longrightarrow> k_heap k' = k_heap k"
  by (simp add: printf_def on_console_heap)

lemma for_loop_heap:
  assumes "for_loop i n body k = Some k'" and "\<And>j a b. body j a = Some b \<Longrightarrow> k_heap b = k_heap a"
  shows "k_heap k' = k_heap k"
  using for_loop_keeps [OF assms(1), of "\<lambda>a. k_heap a = k_heap k"] assms(2) by auto


lemma cat_heap: "execute__cat env argc argv k = Some k' \<Longrightarrow> k_heap k' = k_heap k"
  by (auto simp: execute__cat_def command_cat_def bind_eq_Some_conv split: if_splits dest!: on_console_heap printf_heap)

lemma ls_heap: "execute__ls env argc argv k = Some k' \<Longrightarrow> k_heap k' = k_heap k"
  by (auto simp: execute__ls_def Let_def bind_eq_Some_conv split: if_splits dest!: on_console_heap printf_heap)

lemma ps_heap: "execute__ps env argc argv k = Some k' \<Longrightarrow> k_heap k' = k_heap k"
proof -
  have row: "k_heap b = k_heap a" if "ps_row env j a = Some b" for j a b
    using that by (auto simp: ps_row_def bind_eq_Some_conv split: option.splits dest!: on_console_heap printf_heap)
  show "execute__ps env argc argv k = Some k' \<Longrightarrow> k_heap k' = k_heap k"
    by (auto simp: execute__ps_def bind_eq_Some_conv dest!: printf_heap for_loop_heap [OF _ row])
qed

lemma kill_heap: "execute__kill env argc argv k = Some k' \<Longrightarrow> k_heap k' = k_heap k"
  by (auto simp: execute__kill_def command_kill_def bind_eq_Some_conv split: if_splits dest!: on_console_heap printf_heap)

lemma run_heap: "execute__run env argc argv k = Some k' \<Longrightarrow> k_heap k' = k_heap k"
proof -
  have f: "k_heap k' = k_heap k" if "run_file env arg k = Some k'" for arg k k'
    using that by (auto simp: run_file_def Let_def bind_eq_Some_conv split: if_splits dest!: printf_heap)
  have t: "k_heap k' = k_heap k" if "command_run_test env arg k = Some k'" for arg k k'
    using that by (auto simp: command_run_test_def bind_eq_Some_conv split: if_splits prod.splits dest!: printf_heap)
  have l: "k_heap b = k_heap a" if "(do { (name, _) \<leftarrow> rd (test_list env) i; printf env (map_of_char ''  %d - %s '' @ [10, 0]) [Arg_Int (of_nat i), Arg_Str (Some name)] a }) = Some b" for i a b
    using that by (auto simp: bind_eq_Some_conv dest!: printf_heap)
  show "execute__run env argc argv k = Some k' \<Longrightarrow> k_heap k' = k_heap k"
    by (auto simp: execute__run_def bind_eq_Some_conv split: if_splits dest!: on_console_heap for_loop_heap [OF _ l] f t)
qed

lemma dump_heap: "execute__dump_data env memory argc argv k = Some k' \<Longrightarrow> k_heap k' = k_heap k"
proof -
  assume a: "execute__dump_data env memory argc argv k = Some k'"
  let ?body = "\<lambda>row (k, offset). do { line \<leftarrow> dump_line memory offset; k \<leftarrow> on_console (kernel_println line) k;
      offset \<leftarrow> c_int (offset + 16); Some (k, offset) }"
  have l: "k_heap k1 = k_heap k0" if "for_loop i n ?body (k0, of0) = Some (k1, of1)" for i n k0 of0 k1 of1
  proof -
    have "(\<lambda>a. k_heap (fst a) = k_heap k0) (k1, of1)"
      by (rule for_loop_keeps [OF that]) (auto simp: bind_eq_Some_conv dest!: on_console_heap)
    then show ?thesis by simp
  qed
  show ?thesis using a unfolding execute__dump_data_def
    by (auto simp: bind_eq_Some_conv split: if_splits dest!: on_console_heap l)
qed

lemma hexdump_heap: "execute__hexdump env argc argv k = Some k' \<Longrightarrow> k_heap k' = k_heap k"
  by (auto simp: execute__hexdump_def Let_def bind_eq_Some_conv split: if_splits dest!: on_console_heap printf_heap dump_heap)

lemma help_heap: "command_help k = Some k' \<Longrightarrow> k_heap k' = k_heap k"
  by (auto simp: command_help_def bind_eq_Some_conv dest!: on_console_heap)

lemma unknown_heap: "unknown_command env input k = Some k' \<Longrightarrow> k_heap k' = k_heap k"
proof -
  have l: "k_heap b = k_heap a" if "(do { c \<leftarrow> rd input i; printf env (c_lit '' %x'') [Arg_Int (ucast c)] a }) = Some b" for i a b
    using that by (auto simp: bind_eq_Some_conv dest!: printf_heap)
  show "unknown_command env input k = Some k' \<Longrightarrow> k_heap k' = k_heap k"
    by (auto simp: unknown_command_def bind_eq_Some_conv dest!: on_console_heap printf_heap for_loop_heap [OF _ l])
qed

lemma dispatch_heap: "dispatch env argc argv k = Some k' \<Longrightarrow> k_heap k' = k_heap k"
  by (auto simp: dispatch_def bind_eq_Some_conv split: if_splits
      dest!: cat_heap ls_heap ps_heap kill_heap run_heap dump_heap hexdump_heap help_heap unknown_heap)

end
