(* ===== verification/Shell_Sessions.thy ===== *)
theory Shell_Sessions
  imports Shell_Facts
begin

section \<open>Sessions at the shell\<close>

text \<open>
  What a line typed at the prompt does: the block of the heap for its arguments is given back, and the shell is ready
  for the next line. The properties of the shell are at the end.
\<close>

lemma malloc_free:
  assumes "heap_ok hb" and "heap_malloc n hb = Some (mem, hb1)"
  shows "if mem = 0 then hb1 = hb
    else \<exists>hb2. heap_free mem hb1 = Some hb2 \<and> heap_ok hb2 \<and> heap_free_blocks hb2 = heap_free_blocks hb"
proof (cases "0 < n \<and> n \<le> 128")
  case True
  show ?thesis
  proof (cases "heap_free_blocks hb")
    case Nil
    have "heap_ok hb \<and> 0 < n \<and> n \<le> BIN_BLOCK_SIZE" using assms(1) True by (simp add: bin_consts)
    then show ?thesis using heap_pool.get_none [of hb n] Nil assms(2) by simp
  next
    case (Cons b bs)
    then show ?thesis using heap_take [OF assms(1) Cons, of n] True assms(2) by auto
  qed
next
  case False
  have "hb_block_size hb = 128" using assms(1) by (simp add: heap_ok_def bin_consts)
  then have "hb_block_size hb < n \<or> n = 0" using False by (auto simp: not_le word_gt_0)
  then have "heap_malloc n hb = Some (0, hb)" by (auto simp: heap_malloc_def)
  then show ?thesis using assms(2) by simp
qed

lemma parse_heap:
  assumes "heap_ok (k_heap k)" and "parse_arguments env k = Some (argc, argv, k1)"
  shows "case argv of None \<Rightarrow> k_heap k1 = k_heap k
    | Some (mem, ptrs) \<Rightarrow> \<exists>hb. heap_free mem (k_heap k1) = Some hb \<and> heap_ok hb \<and> heap_free_blocks hb = heap_free_blocks (k_heap k)"
proof -
  obtain t where t: "trim_string (Some (k_line k)) = Some t"
    using assms(2) by (auto simp: parse_arguments_def bind_eq_Some_conv)
  show ?thesis
  proof (cases t)
    case None
    then show ?thesis using assms(2) t by (simp add: parse_arguments_def)
  next
    case (Some tl)
    obtain tr line where tl: "tl = (tr, line)" by (cases tl)
    obtain len num mem hb where p: "strlen_unsafe (Some (drop tr line)) = Some len" "count_args (drop tr line) 0 len = Some num"
        "heap_malloc (of_int (int num + 1) * 4) (k_heap k) = Some (mem, hb)"
      using assms(2) t Some tl by (auto simp: parse_arguments_def Let_def bind_eq_Some_conv)
    note m = malloc_free [OF assms(1) p(3)]
    show ?thesis
    proof (cases "mem = 0")
      case True
      then have "argv = None" "k_heap k1 = hb"
        using assms(2) t Some tl p by (auto simp: parse_arguments_def Let_def bind_eq_Some_conv dest!: on_console_heap)
      then show ?thesis using m True by simp
    next
      case False
      then obtain ptrs where "argv = Some (mem, ptrs)" "k_heap k1 = hb"
        using assms(2) t Some tl p by (auto simp: parse_arguments_def Let_def bind_eq_Some_conv)
      then show ?thesis using m False by simp
    qed
  qed
qed

lemma shell_command_heap_ok:
  assumes "heap_ok (k_heap k)" and "shell_execute_command env k = Some k'"
  shows "heap_ok (k_heap k') \<and> heap_free_blocks (k_heap k') = heap_free_blocks (k_heap k)"
proof -
  obtain argc argv k1 where p: "parse_arguments env k = Some (argc, argv, k1)"
    using assms(2) by (auto simp: shell_execute_command_def bind_eq_Some_conv)
  note ph = parse_heap [OF assms(1) p]
  show ?thesis
  proof (cases argv)
    case None
    then have "println ''ERROR: Parsing arguments failed'' k1 = Some k'"
      using assms(2) p by (simp add: shell_execute_command_def)
    then show ?thesis using ph None assms(1) on_console_heap by fastforce
  next
    case (Some a)
    obtain mem ptrs where a: "a = (mem, ptrs)" by (cases a)
    obtain k2 k3 hb where d: "dispatch env argc (map (\<lambda>a. drop a (k_line k1)) ptrs) k1 = Some k2" "print_prompt env k2 = Some k3"
        "heap_free mem (k_heap k3) = Some hb" "k' = k3\<lparr>k_heap := hb\<rparr>"
      using assms(2) p Some a by (auto simp: shell_execute_command_def bind_eq_Some_conv)
    have "k_heap k3 = k_heap k1"
      using dispatch_heap [OF d(1)] printf_heap [OF d(2) [unfolded print_prompt_def]] by simp
    then show ?thesis using ph Some a d(3,4) by auto
  qed
qed

subsection \<open>Enter\<close>

lemma putchar_10_prints:
  assumes "console_ok (k_console k)"
  shows "\<exists>c. on_console (kernel_putchar 10) k = Some (k\<lparr>k_console := c\<rparr>) \<and> prints [10] (k_console k) c"
  using kernel_putchar_prints [OF assms, of 10] by (auto simp: on_console_def)

lemma line_holds_console [simp]: "line_holds (k\<lparr>k_console := c\<rparr>) y = line_holds k y"
  by (simp add: line_holds_def)

lemma cut_line_empty:
  assumes "line_holds k y" and "cut_into y (k_line k) line ptrs"
  shows "line_holds (k'\<lparr>k_len := 0, k_line := line[0 := 0]\<rparr>) [] \<and> wr line 0 0 = Some (line[0 := 0])"
proof -
  have l: "length line = length (k_line k)" "drop (length y) line = drop (length y) (k_line k)"
    using assms(2) by (simp_all add: cut_into_def)
  have h: "51 \<le> length (k_line k)" "k_line k ! 50 = 0" "length y < 50" using assms(1) by (simp_all add: line_holds_def)
  have "line ! 50 = drop (length y) line ! (50 - length y)" using h l(1) by simp
  also have "\<dots> = 0" using h unfolding l(2) by simp
  finally have "line ! 50 = 0" .
  moreover have "take (Suc 0) (line[0 := 0]) = [0]" using l(1) h(1) by (cases line) auto
  ultimately show ?thesis using l(1) h(1) by (auto simp: line_holds_def wr_def)
qed

lemma words_length: "w \<in> set (words x) \<Longrightarrow> length w \<le> length x"
proof (induction x rule: words.induct)
  case (1 x)
  show ?case
  proof (cases "dropWhile (\<lambda>c. c = 32) (dropWhile (\<lambda>c. c \<noteq> 32) x)")
    case Nil
    have "words x = [word x]" by (subst words.simps) (simp only: Nil list.case)
    then have "w = word x" using 1(2) by simp
    then show ?thesis using length_takeWhile_le [of "\<lambda>c. c \<noteq> 32" x] by simp
  next
    case (Cons c r)
    have "length (c # r) \<le> length x"
      using Cons length_dropWhile_le [of "\<lambda>c. c = 32" "dropWhile (\<lambda>c. c \<noteq> 32) x"] length_dropWhile_le [of "\<lambda>c. c \<noteq> 32" x]
      by simp
    moreover have "w = word x \<or> w \<in> set (words (c # r))"
    proof -
      have "words x = word x # words (c # r)" by (subst words.simps) (simp only: Cons list.case)
      then show ?thesis using 1(2) by simp
    qed
    ultimately show ?thesis using 1(1) [OF Cons] length_takeWhile_le [of "\<lambda>c. c \<noteq> 32" x] by auto
  qed
qed

text \<open>A command line \<open>runs\<close> to a text, a directory and a scheduler: called with its words after the line feed, the command prints
  the text and leaves these, and touches neither the line nor the heap nor the file systems.\<close>

definition runs :: "env \<Rightarrow> kernel \<Rightarrow> u8 list \<Rightarrow> u8 list \<Rightarrow> u8 list \<Rightarrow> scheduler \<Rightarrow> bool" where
  "runs env k y txt dir' sc' \<longleftrightarrow> (\<forall>c0 line hb ptrs. prints [10] (k_console k) c0 \<longrightarrow> cut_into y (k_line k) line ptrs \<longrightarrow> ptrs ! 0 = 0 \<longrightarrow>
     (\<exists>k1. dispatch env (int (length (words (strip y)))) (map (\<lambda>a. drop a line) ptrs) (k\<lparr>k_console := c0, k_line := line, k_heap := hb\<rparr>) =
        Some k1 \<and> prints txt c0 (k_console k1) \<and> k_line k1 = line \<and> k_heap k1 = hb \<and> path_buffer (k_dir k1) \<and>
        c_str (k_dir k1) = dir' \<and> k_scheduler k1 = sc' \<and> k_router k1 = k_router k))"

lemma runsI:
  assumes "\<And>c0 line hb ptrs. prints [10] (k_console k) c0 \<Longrightarrow> cut_into y (k_line k) line ptrs \<Longrightarrow> ptrs ! 0 = 0 \<Longrightarrow>
    \<exists>c1 d. dispatch env (int (length (words (strip y)))) (map (\<lambda>a. drop a line) ptrs) (k\<lparr>k_console := c0, k_line := line, k_heap := hb\<rparr>) =
        Some (k\<lparr>k_console := c1, k_line := line, k_heap := hb, k_dir := d, k_scheduler := sc'\<rparr>) \<and>
      prints txt c0 c1 \<and> path_buffer d \<and> c_str d = dir'"
  shows "runs env k y txt dir' sc'"
  unfolding runs_def
proof (intro allI impI)
  fix c0 line hb ptrs
  assume "prints [10] (k_console k) c0" "cut_into y (k_line k) line ptrs" "ptrs ! 0 = 0"
  from assms [OF this, of hb] show "\<exists>k1. dispatch env (int (length (words (strip y)))) (map (\<lambda>a. drop a line) ptrs)
      (k\<lparr>k_console := c0, k_line := line, k_heap := hb\<rparr>) = Some k1 \<and> prints txt c0 (k_console k1) \<and> k_line k1 = line \<and> k_heap k1 = hb \<and>
      path_buffer (k_dir k1) \<and> c_str (k_dir k1) = dir' \<and> k_scheduler k1 = sc' \<and> k_router k1 = k_router k"
    by (elim exE conjE) (rule exI, rule conjI, assumption, simp)
qed

text \<open>Enter on a line whose first word starts the line: the command gets the words, and the shell is ready for the next line.\<close>

lemma enter_runs:
  assumes "console_ok (k_console k)" and "\<forall>n. length (env_garbage env n) = n"
    and "line_holds k y" and "heap_ok (k_heap k)" and "heap_free_blocks (k_heap k) = b # bs" and "spaces y = []"
    and run: "runs env k y txt dir' sc'"
  shows "\<exists>k'. shell_on_input env 10 k = Some k' \<and> prints (10 # txt @ prompt_text dir') (k_console k) (k_console k') \<and>
    line_holds k' [] \<and> heap_ok (k_heap k') \<and> heap_free_blocks (k_heap k') = b # bs \<and> path_buffer (k_dir k') \<and> c_str (k_dir k') = dir' \<and>
    k_router k' = k_router k \<and> k_scheduler k' = sc'"
proof -
  obtain c0 where c0: "on_console (kernel_putchar 10) k = Some (k\<lparr>k_console := c0\<rparr>)" "prints [10] (k_console k) c0"
    using putchar_10_prints [OF assms(1)] by blast
  let ?k0 = "k\<lparr>k_console := c0\<rparr>"
  obtain mem hb line ptrs hb' where p: "parse_arguments env ?k0 =
      Some (int (length (words (strip y))), Some (mem, ptrs), ?k0\<lparr>k_line := line, k_heap := hb\<rparr>)"
      "cut_into y (k_line k) line ptrs" "heap_free mem hb = Some hb'" "heap_ok hb'" "heap_free_blocks hb' = b # bs"
    using parse_arguments_ok [of ?k0 y b bs env] assms(3-5) by auto
  have "ptrs ! 0 = 0" using p(2) assms(6) by (simp add: cut_into_def)
  from run [unfolded runs_def, rule_format, OF c0(2) p(2) this, of hb] obtain k1 where d:
    "dispatch env (int (length (words (strip y)))) (map (\<lambda>a. drop a line) ptrs) (k\<lparr>k_console := c0, k_line := line, k_heap := hb\<rparr>) = Some k1"
    "prints txt c0 (k_console k1)" "k_line k1 = line" "k_heap k1 = hb" "path_buffer (k_dir k1)" "c_str (k_dir k1) = dir'"
    "k_scheduler k1 = sc'" "k_router k1 = k_router k"
    by blast
  obtain c2 where c2: "print_prompt env k1 = Some (k1\<lparr>k_console := c2\<rparr>)" "prints (prompt_text dir') (k_console k1) c2"
    using print_prompt_prints [of k1 env] prints_ok [OF d(2)] assms(2) d(5,6) by auto
  have e: "shell_execute_command env ?k0 = Some (k1\<lparr>k_console := c2, k_heap := hb'\<rparr>)"
    using p(1,3) d(1,4) c2(1) by (simp add: shell_execute_command_def)
  let ?k2 = "k1\<lparr>k_console := c2, k_heap := hb'\<rparr>"
  note cl = cut_line_empty [OF assms(3) p(2)]
  have "shell_on_input env 10 k = Some (?k2\<lparr>k_len := 0, k_line := line[0 := 0]\<rparr>)"
    using c0(1) e cl d(3) by (simp add: shell_on_input_def)
  moreover have "prints (10 # txt @ prompt_text dir') (k_console k) c2"
    using prints_trans [OF prints_trans [OF c0(2) d(2)] c2(2)] by simp
  ultimately show ?thesis using cl [of ?k2] p(4,5) d(5-8)
    by (intro exI [of _ "?k2\<lparr>k_len := 0, k_line := line[0 := 0]\<rparr>"]) simp
qed

text \<open>The words of a line, as the command gets them.\<close>

lemma cut_word:
  assumes "cut_into y (k_line k) line ptrs" and "line_holds k y" and "i < length (words (strip y))"
  shows "rd (map (\<lambda>a. drop a line) ptrs) i = Some (drop (ptrs ! i) line)" and "c_str (drop (ptrs ! i) line) = words (strip y) ! i"
    and "terminated (drop (ptrs ! i) line)" and "length (words (strip y) ! i) \<le> 99"
proof -
  have n: "i < length ptrs" using assms(1,3) by (simp add: cut_into_def)
  then show "rd (map (\<lambda>a. drop a line) ptrs) i = Some (drop (ptrs ! i) line)" by (simp add: rd_def)
  show "c_str (drop (ptrs ! i) line) = words (strip y) ! i" "terminated (drop (ptrs ! i) line)"
    using assms(1) n unfolding cut_into_def by blast+
  show "length (words (strip y) ! i) \<le> 99"
    using words_length [OF nth_mem [OF assms(3)]] length_strip [of y] assms(2) by (simp add: line_holds_def)
qed

text \<open>The command is chosen by the first characters of the line, which are those of the first word.\<close>

lemma cut_command:
  assumes "cut_into y (k_line k) line ptrs" and "ptrs ! 0 = 0" and "words (strip y) = cmd # ws"
  shows "c_str line = cmd"
proof -
  have "0 < length ptrs" using assms(1,3) by (simp add: cut_into_def)
  then have "c_str (drop (ptrs ! 0) line) = words (strip y) ! 0" using assms(1) unfolding cut_into_def by blast
  then show ?thesis using assms(2,3) by simp
qed

text \<open>The words that the command of a line of two words gets.\<close>

lemma cut_two_words:
  assumes "cut_into y (k_line k) line ptrs" and "ptrs ! 0 = 0" and "line_holds k y" and "words (strip y) = [cmd, arg]"
  shows "c_str line = cmd" and "rd (map (\<lambda>a. drop a line) ptrs) 1 = Some (drop (ptrs ! 1) line)" and "c_str (drop (ptrs ! 1) line) = arg"
    and "terminated (drop (ptrs ! 1) line)" and "length arg \<le> 99"
  using cut_command [OF assms(1,2,4)] cut_word [OF assms(1,3), of 1] assms(4) by simp_all

subsection \<open>Properties\<close>

text \<open>Claim C17. Whatever keys are typed, erasures included, the line of the shell holds exactly the edited text as long as it
  stays below 50 characters, and nothing but the line and the console changes.\<close>

theorem shell_edits_line:
  assumes "console_ok (k_console k)" and "line_holds k t" and "0 \<notin> set keys" and "10 \<notin> set keys" and "13 \<notin> set keys"
    and "\<forall>n \<le> length keys. length (foldl edit t (take n keys)) < 50"
  shows "\<exists>c line len. handle_all (shell_on_input env) keys k = Some (k\<lparr>k_console := c, k_line := line, k_len := len\<rparr>) \<and>
    console_ok c \<and> line_holds (k\<lparr>k_console := c, k_line := line, k_len := len\<rparr>) (foldl edit t keys)"
  by (rule keys_edit [OF assms])

text \<open>A kernel at its prompt, for the witnesses: the console after its initialisation, the current directory \<^verbatim>\<open>/mnt\<close>.\<close>

definition prompt_kernel :: "console \<Rightarrow> kernel" where
  "prompt_kernel c = \<lparr>k_console = c, k_router = \<lparr>mount_table = table_of kernel_mounts, router_volume = sample_fs\<rparr>,
     k_scheduler = zeroed_scheduler zero_handle, k_heap = sample_heap, k_dir = c_lit ''/mnt/'' @ replicate 94 0,
     k_line = replicate 64 0, k_len = 0, k_dump_offset = 0, k_file_buffer = []\<rparr>"

definition quiet_env :: env where
  "quiet_env = \<lparr>env_garbage = \<lambda>n. replicate n 0, env_timestamp = 0, env_memory = \<lambda>_. 0, env_hello_bin = [], env_test_ptr = \<lambda>_. 0,
     env_file_buffer = 0, env_hexdump_buffer = 0\<rparr>"

definition first_console :: console where
  "first_console = \<lparr>shell_terminal = zeroed_terminal, log_terminal = zeroed_terminal,
     con_machine = \<lparr>vga_ram = \<lambda>_. 0, port_writes = []\<rparr>\<rparr>"

lemma first_console_ok: "\<exists>c. kernel_stdio_init first_console = Some c \<and> console_ok c"
  using kernel_stdio_init_ok unfolding first_console_def by blast

lemma prompt_kernel_line: "line_holds (prompt_kernel c) []"
  by (simp add: line_holds_def prompt_kernel_def take_Suc)

theorem shell_edits_line_witness:
  "\<exists>c k'. kernel_stdio_init first_console = Some c \<and>
     handle_all (shell_on_input quiet_env) [0x70, 0x71, 8, 0x73] (prompt_kernel c) = Some k' \<and> line_holds k' [0x70, 0x73]"
proof -
  obtain c where c: "kernel_stdio_init first_console = Some c" "console_ok c" using first_console_ok by blast
  have keys: "\<forall>n \<le> length [0x70, 0x71, 8, 0x73 :: u8]. length (foldl edit [] (take n [0x70, 0x71, 8, 0x73 :: u8])) < 50"
  proof (intro allI impI)
    fix n assume "n \<le> length [0x70, 0x71, 8, 0x73 :: u8]"
    then have "n = 0 \<or> n = 1 \<or> n = 2 \<or> n = 3 \<or> n = 4" by auto
    then show "length (foldl edit [] (take n [0x70, 0x71, 8, 0x73 :: u8])) < 50" by (elim disjE) simp_all
  qed
  have "console_ok (k_console (prompt_kernel c))" using c(2) by (simp add: prompt_kernel_def)
  from shell_edits_line [OF this prompt_kernel_line, of "[0x70, 0x71, 8, 0x73]" quiet_env] keys c(1)
  show ?thesis by fastforce
qed

text \<open>A key that the shell stores writes behind its array of 50 bytes: when nothing follows the array, every such
  key is undefined, whatever the line holds, and so is a key that leaves the memory behind it.\<close>

theorem shell_key_out_of_bounds:
  assumes "key \<noteq> 10" and "key \<noteq> 13" and "key \<noteq> 8" and "key \<noteq> 0x7f"
    and "length (k_line k) \<le> 50 \<or> int (length (k_line k)) \<le> k_len k + 1"
  shows "shell_on_input env key k = None"
proof -
  have "(do { line \<leftarrow> wr (k_line k) i key; line \<leftarrow> wr line j 0; wr line 50 0 }) = None" if "length (k_line k) \<le> 50 \<or> length (k_line k) \<le> j" for i j
    using that by (auto simp: wr_def)
  then show ?thesis using assms
    by (auto simp: shell_on_input_def on_console_def bind_eq_None_conv wr_def split: if_splits)
qed

theorem shell_key_out_of_bounds_witness:
  "shell_on_input quiet_env 0x61 (prompt_kernel first_console\<lparr>k_line := replicate 50 0\<rparr>) = None"
  by (rule shell_key_out_of_bounds) simp_all

text \<open>Claim C18. A command gives back the block it takes for its arguments: whatever the line and the command, the heap has the
  same free blocks afterwards, also when no block was free and the command was refused.\<close>

theorem shell_command_heap:
  assumes "heap_ok (k_heap k)" and "shell_execute_command env k = Some k'"
  shows "heap_ok (k_heap k') \<and> heap_free_blocks (k_heap k') = heap_free_blocks (k_heap k)"
  by (rule shell_command_heap_ok [OF assms])


text \<open>Enter on an empty line does nothing but ask again.\<close>

lemma empty_runs:
  assumes "path_buffer (k_dir k)" and "line_holds k []"
  shows "runs env k [] [] (c_str (k_dir k)) (k_scheduler k)"
proof (rule runsI)
  fix c0 line hb ptrs
  assume c0: "prints [10] (k_console k) c0" and cut: "cut_into [] (k_line k) line ptrs"
  have "line = k_line k" using cut by (simp add: cut_into_def)
  moreover have "rd (k_line k) 0 = Some 0" using assms(2) by (cases "k_line k") (auto simp: line_holds_def rd_def)
  ultimately show "\<exists>c1 d. dispatch env (int (length (words (strip [])))) (map (\<lambda>a. drop a line) ptrs)
      (k\<lparr>k_console := c0, k_line := line, k_heap := hb\<rparr>) =
        Some (k\<lparr>k_console := c1, k_line := line, k_heap := hb, k_dir := d, k_scheduler := k_scheduler k\<rparr>) \<and>
      prints [] c0 c1 \<and> path_buffer d \<and> c_str d = c_str (k_dir k)"
    using prints_nothing [OF prints_ok [OF c0]] assms(1) by (intro exI [of _ c0] exI [of _ "k_dir k"]) (simp add: dispatch_def)
qed

lemma empty_line_ok:
  assumes "console_ok (k_console k)" and "\<forall>n. length (env_garbage env n) = n" and "path_buffer (k_dir k)"
    and "line_holds k []" and "heap_ok (k_heap k)" and "heap_free_blocks (k_heap k) = b # bs"
  shows "\<exists>k'. shell_on_input env 10 k = Some k' \<and> prints (10 # [] @ prompt_text (c_str (k_dir k))) (k_console k) (k_console k') \<and>
    line_holds k' [] \<and> heap_ok (k_heap k') \<and> heap_free_blocks (k_heap k') = b # bs \<and> path_buffer (k_dir k') \<and>
    c_str (k_dir k') = c_str (k_dir k) \<and> k_router k' = k_router k \<and> k_scheduler k' = k_scheduler k"
  by (rule enter_runs [OF assms(1,2,4-6) _ empty_runs [OF assms(3,4)]]) simp

lemma prompt_kernel_ready:
  assumes "console_ok c"
  shows "console_ok (k_console (prompt_kernel c))" and "\<forall>n. length (env_garbage quiet_env n) = n" and "path_buffer (k_dir (prompt_kernel c))"
    and "heap_ok (k_heap (prompt_kernel c))" and "heap_free_blocks (k_heap (prompt_kernel c)) = [0]"
    and "c_str (k_dir (prompt_kernel c)) = map_of_char ''/mnt/''"
  using assms sample_heap_ok
  by (simp_all add: prompt_kernel_def quiet_env_def path_buffer_def c_lit_def map_of_char_def terminated_def)

theorem shell_command_heap_witness:
  "\<exists>k k'. shell_execute_command quiet_env k = Some k' \<and> heap_free_blocks (k_heap k') = [0]"
proof -
  obtain c where c: "console_ok c" using first_console_ok by blast
  note r = prompt_kernel_ready [OF c]
  obtain k' where k': "shell_on_input quiet_env 10 (prompt_kernel c) = Some k'"
    using empty_line_ok [OF r(1-3) prompt_kernel_line r(4,5)] by blast
  obtain k1 where k1: "on_console (kernel_putchar 10) (prompt_kernel c) = Some k1"
    using putchar_10_prints [OF r(1)] by blast
  then obtain k2 where k2: "shell_execute_command quiet_env k1 = Some k2"
    using k' by (auto simp: shell_on_input_def bind_eq_Some_conv)
  have "k_heap k1 = sample_heap" using on_console_heap [OF k1] by (simp add: prompt_kernel_def)
  then show ?thesis using shell_command_heap [OF _ k2] k2 sample_heap_ok by auto
qed

lemma cat_runs:
  assumes "\<forall>n. length (env_garbage env n) = n" and "path_buffer (k_dir k)" and "line_holds k y"
    and "words (strip y) = [map_of_char ''cat'', arg]" and "arg \<noteq> []"
    and "shown_at (k_router k) (path_from (c_str (k_dir k)) arg) bytes" and "length bytes \<le> 1023" and "0x7f \<notin> set bytes"
  shows "runs env k y (cat_text (path_from (c_str (k_dir k)) arg) bytes) (c_str (k_dir k)) (k_scheduler k)"
proof (rule runsI)
  fix c0 line hb ptrs
  assume c0: "prints [10] (k_console k) c0" and cut: "cut_into y (k_line k) line ptrs" and p0: "ptrs ! 0 = 0"
  let ?k = "k\<lparr>k_console := c0, k_line := line, k_heap := hb\<rparr>"
  note w = cut_two_words [OF cut p0 assms(3,4)]
  obtain z where z: "line = 99 # 97 # z"
    using w(1) by (cases line; cases "tl line") (auto simp: map_of_char_def split: if_splits)
  have e: "dispatch env (int (length (words (strip y)))) (map (\<lambda>a. drop a line) ptrs) ?k = command_cat env (drop (ptrs ! 1) line) ?k"
    using w(2) assms(4) z by (simp add: dispatch_def execute__cat_def rd_def)
  obtain c1 where "command_cat env (drop (ptrs ! 1) line) ?k = Some (?k\<lparr>k_console := c1\<rparr>)"
      "prints (cat_text (path_from (c_str (k_dir k)) arg) bytes) c0 c1"
    using command_cat_ok [of ?k env "drop (ptrs ! 1) line" bytes] prints_ok [OF c0] w(3-5) assms(1,2,5-8) by auto
  then show "\<exists>c1 d. dispatch env (int (length (words (strip y)))) (map (\<lambda>a. drop a line) ptrs) ?k =
        Some (k\<lparr>k_console := c1, k_line := line, k_heap := hb, k_dir := d, k_scheduler := k_scheduler k\<rparr>) \<and>
      prints (cat_text (path_from (c_str (k_dir k)) arg) bytes) c0 c1 \<and> path_buffer d \<and> c_str d = c_str (k_dir k)"
    using e assms(2) by (intro exI [of _ c1] exI [of _ "k_dir k"]) simp
qed

text \<open>Typing \<^verbatim>\<open>cat\<close> and a path at the prompt, then Enter, shows the file: the console prints the absolute path, the
  bytes of the file on the mounted volume with control characters as dots, and the prompt; the line is empty again, the
  heap as before, and nothing else of the kernel has changed.\<close>

theorem shell_cat_session:
  assumes "console_ok (k_console k)" and "\<forall>n. length (env_garbage env n) = n" and "path_buffer (k_dir k)"
    and "line_holds k y" and "heap_ok (k_heap k)" and "heap_free_blocks (k_heap k) = b # bs"
    and "spaces y = []" and "words (strip y) = [map_of_char ''cat'', arg]" and "arg \<noteq> []"
    and "file_at (k_router k) (path_from (c_str (k_dir k)) arg) bytes" and "length bytes \<le> 1023" and "0x7f \<notin> set bytes"
  shows "\<exists>k'. shell_on_input env 10 k = Some k' \<and>
    prints (10 # cat_text (path_from (c_str (k_dir k)) arg) bytes @ prompt_text (c_str (k_dir k))) (k_console k) (k_console k') \<and>
    line_holds k' [] \<and> heap_ok (k_heap k') \<and> heap_free_blocks (k_heap k') = b # bs \<and> path_buffer (k_dir k') \<and>
    c_str (k_dir k') = c_str (k_dir k) \<and> k_router k' = k_router k \<and> k_scheduler k' = k_scheduler k"
proof -
  have "shown_at (k_router k) (path_from (c_str (k_dir k)) arg) bytes" using assms(10) by (simp add: shown_at_def)
  from enter_runs [OF assms(1,2,4-7) cat_runs [OF assms(2-4,8,9) this assms(11,12)]] show ?thesis .
qed

lemma sample_file_at: "file_at (k_router (prompt_kernel c)) (map_of_char ''/mnt/a'') [0x78, 0x79, 0x7A]"
proof -
  have "map_of_char ''/mnt/a'' = 47 # map_of_char ''mnt'' @ 47 # [0x61]" "dir_name_ok (map_of_char ''mnt'')"
      "c_str (c_lit ''/mnt'') = 47 # map_of_char ''mnt''"
    by (simp_all add: map_of_char_def c_lit_def dir_name_ok_def)
  moreover have "route kernel_mounts (under (map_of_char ''mnt'') [0]) = Some (FS_TYPE__TINY_FS, c_lit ''/mnt'')"
    by (simp add: route_def c_lit_def map_of_char_def first_dir_def under_def)
  moreover have "slot_of [0x61] (files sample_fs) = int 0" "files sample_fs ! 0 = Some ([0x61], [0x78, 0x79, 0x7A])"
    by (simp_all add: sample_files slot_of_def first_index_def named_def)
  ultimately show ?thesis
    using kernel_mounts_ok sample_sound unfolding file_at_def prompt_kernel_def kernel.simps router.simps
    by (intro exI [of _ kernel_mounts] exI [of _ "map_of_char ''mnt''"] exI [of _ "[0x61]"] exI [of _ "c_lit ''/mnt''"] exI [of _ 0]) auto
qed

lemma sample_words: "strip (map_of_char ''cat a'') = map_of_char ''cat a''" "words (map_of_char ''cat a'') = [map_of_char ''cat'', [0x61]]"
  by (simp_all add: strip_def map_of_char_def words.simps)

theorem shell_cat_session_witness:
  "\<exists>c k'. kernel_stdio_init first_console = Some c \<and>
     shell_on_input quiet_env 10 (prompt_kernel c\<lparr>k_line := map_of_char ''cat a'' @ replicate 60 0, k_len := 5\<rparr>) = Some k' \<and>
     prints (10 # cat_text (map_of_char ''/mnt/a'') [0x78, 0x79, 0x7A] @ prompt_text (map_of_char ''/mnt/'')) c (k_console k')"
proof -
  obtain c where c: "kernel_stdio_init first_console = Some c" "console_ok c" using first_console_ok by blast
  note r = prompt_kernel_ready [OF c(2)]
  let ?k = "prompt_kernel c\<lparr>k_line := map_of_char ''cat a'' @ replicate 60 0, k_len := 5\<rparr>"
  have l: "line_holds ?k (map_of_char ''cat a'')"
    by (simp add: line_holds_def map_of_char_def)
  have p: "path_from (map_of_char ''/mnt/'') [0x61] = map_of_char ''/mnt/a''" by (simp add: path_from_def map_of_char_def)
  have k: "k_dir ?k = k_dir (prompt_kernel c)" "k_heap ?k = k_heap (prompt_kernel c)" "k_router ?k = k_router (prompt_kernel c)"
    "k_console ?k = k_console (prompt_kernel c)" "k_console (prompt_kernel c) = c"
    by (simp_all add: prompt_kernel_def)
  have sp: "spaces (map_of_char ''cat a'') = []" by (simp add: map_of_char_def)
  show ?thesis
    using shell_cat_session [of ?k quiet_env "map_of_char ''cat a''" 0 "[]" "[0x61]" "[0x78, 0x79, 0x7A]"] r l sp sample_words sample_file_at c(1)
    unfolding k r(6) p by fastforce
qed

end
