(* ===== verification/Descriptors.thy ===== *)
theory Descriptors
  imports Shell_Sessions
begin

section \<open>Interrupt and segment descriptors (arch/x86-32)\<close>

text \<open>
  An entry is the memory from its address on. The descriptor table register and the memory that \<^verbatim>\<open>sidt\<close> stores it to
  (\<^verbatim>\<open>store_idt\<close>) are a pair of limit and base each; the table itself is the static \<^verbatim>\<open>IDT_table\<close>, placed by the linker at
  \<open>table_addr\<close>. The addresses of the handlers are parameters too.
\<close>

record idt =
  idtr :: "u16 \<times> u32"
  store_idt :: "u16 \<times> u32"
  IDT_table :: "u8 list"

definition VEC_DIVIDE_ERROR :: u8 where "VEC_DIVIDE_ERROR = 0x0"
definition VEC_INVALID_OPCODE :: u8 where "VEC_INVALID_OPCODE = 0x6"
definition VEC_SEGMENT_NOT_PRESENT :: u8 where "VEC_SEGMENT_NOT_PRESENT = 0xB"
definition VEC_GENERAL_PROTECTION :: u8 where "VEC_GENERAL_PROTECTION = 0xD"
definition VEC_LINUX_SYSCALL_API :: u8 where "VEC_LINUX_SYSCALL_API = 0x80"
definition IDT_ENTRY_SIZE :: nat where "IDT_ENTRY_SIZE = 8"
definition GATE_TYPE__32_BIT_INTERRUPT :: u8 where "GATE_TYPE__32_BIT_INTERRUPT = 0x0E"
definition GATE_TYPE__32_BIT_TRAP :: u8 where "GATE_TYPE__32_BIT_TRAP = 0x0F"

lemmas idt_consts = VEC_DIVIDE_ERROR_def VEC_INVALID_OPCODE_def VEC_SEGMENT_NOT_PRESENT_def VEC_GENERAL_PROTECTION_def
  VEC_LINUX_SYSCALL_API_def IDT_ENTRY_SIZE_def GATE_TYPE__32_BIT_INTERRUPT_def GATE_TYPE__32_BIT_TRAP_def

definition get_IDT_table_location :: "idt \<Rightarrow> idt" where
  "get_IDT_table_location t = t\<lparr>store_idt := idtr t\<rparr>"

definition set_IDT_table_location :: "idt \<Rightarrow> idt" where
  "set_IDT_table_location t = t\<lparr>idtr := store_idt t\<rparr>"

subsection \<open>The fields of a gate\<close>

text \<open>The highest byte is shifted as an \<^verbatim>\<open>int\<close>, which overflows from 128 on.\<close>

definition get_descriptor_offset :: "u8 list \<Rightarrow> u32 option" where
  "get_descriptor_offset entry_addr = do {
     offset_bit_00_07 \<leftarrow> rd entry_addr 0;
     offset_bit_08_15 \<leftarrow> rd entry_addr 1;
     offset_bit_16_23 \<leftarrow> rd entry_addr 6;
     offset_bit_24_31 \<leftarrow> rd entry_addr 7;
     _ \<leftarrow> c_int (uint offset_bit_24_31 * 2 ^ 24);
     Some (ucast offset_bit_00_07 + push_bit 8 (ucast offset_bit_08_15) + push_bit 16 (ucast offset_bit_16_23) +
       push_bit 24 (ucast offset_bit_24_31))
   }"

definition set_descriptor_offset :: "u8 list \<Rightarrow> u32 \<Rightarrow> u8 list option" where
  "set_descriptor_offset entry_addr offset_addr = do {
     e \<leftarrow> wr entry_addr 0 (ucast (drop_bit 0 offset_addr AND 0xff));
     e \<leftarrow> wr e 1 (ucast (drop_bit 8 offset_addr AND 0xff));
     e \<leftarrow> wr e 6 (ucast (drop_bit 16 offset_addr AND 0xff));
     wr e 7 (ucast (drop_bit 24 offset_addr AND 0xff))
   }"

definition get_descriptor_segment :: "u8 list \<Rightarrow> u16 option" where
  "get_descriptor_segment entry_addr = do {
     segement_selector_00_07 \<leftarrow> rd entry_addr 2;
     segement_selector_07_15 \<leftarrow> rd entry_addr 3;
     Some (ucast segement_selector_00_07 + push_bit 8 (ucast segement_selector_07_15))
   }"

definition set_descriptor_segment :: "u8 list \<Rightarrow> u16 \<Rightarrow> u8 list option" where
  "set_descriptor_segment entry_addr segement_selector = do {
     e \<leftarrow> wr entry_addr 2 (ucast (drop_bit 0 segement_selector AND 0xff));
     wr e 3 (ucast (drop_bit 8 segement_selector AND 0xff))
   }"

definition get_descriptor_gate_type :: "u8 list \<Rightarrow> u8 option" where
  "get_descriptor_gate_type entry_addr = do { b \<leftarrow> rd entry_addr 5; Some (b AND 0xf) }"

definition set_descriptor_gate_type :: "env \<Rightarrow> u8 list \<Rightarrow> u8 \<Rightarrow> kernel \<Rightarrow> (u8 list \<times> kernel) option" where
  "set_descriptor_gate_type env entry_addr gate_type k = do {
     (gate_type, k) \<leftarrow> (if (gate_type < 0x5 \<or> gate_type > 0x7) \<and> gate_type \<noteq> 0xE \<and> gate_type \<noteq> 0xF
       then do {
         k \<leftarrow> printf env (10 # map_of_char ''[ERROR] IDT set_descriptor_privilege(): Invalid gate_type! gate_type = %d '' @ [10, 0])
           [Arg_Int (ucast gate_type)] k;
         Some (0, k)
       }
       else Some (gate_type, k));
     b \<leftarrow> rd entry_addr 5;
     e \<leftarrow> wr entry_addr 5 (b OR (gate_type AND 0xf));
     Some (e, k)
   }"

definition get_descriptor_privilege :: "u8 list \<Rightarrow> u32 option" where
  "get_descriptor_privilege entry_addr = do { b \<leftarrow> rd entry_addr 5; Some (ucast (drop_bit 5 b AND 0x3)) }"

definition set_descriptor_privilege :: "env \<Rightarrow> u8 list \<Rightarrow> u8 \<Rightarrow> kernel \<Rightarrow> (u8 list \<times> kernel) option" where
  "set_descriptor_privilege env entry_addr CPU_privilege k = do {
     (CPU_privilege, k) \<leftarrow> (if CPU_privilege > 3
       then do {
         k \<leftarrow> printf env (10 # map_of_char ''[ERROR] IDT set_descriptor_privilege(): Invalid privilege number! CPU_privilege = %d '' @ [10, 0])
           [Arg_Int (ucast CPU_privilege)] k;
         Some (3, k)
       }
       else Some (CPU_privilege, k));
     b \<leftarrow> rd entry_addr 5;
     e \<leftarrow> wr entry_addr 5 (b OR push_bit 5 (CPU_privilege AND 0x3));
     Some (e, k)
   }"

definition get_descriptor_present_bit :: "u8 list \<Rightarrow> u8 option" where
  "get_descriptor_present_bit entry_addr = do { b \<leftarrow> rd entry_addr 5; Some (drop_bit 7 b) }"

definition set_descriptor_present_bit :: "u8 list \<Rightarrow> u8 \<Rightarrow> u8 list option" where
  "set_descriptor_present_bit entry_addr v = do { b \<leftarrow> rd entry_addr 5; wr entry_addr 5 (b OR push_bit 7 v) }"

subsection \<open>The table\<close>

text \<open>Where the table holds the entry at \<open>base + index * 8\<close>.\<close>

definition get_IDT_table_entry :: "u32 \<Rightarrow> idt \<Rightarrow> u8 \<Rightarrow> nat" where
  "get_IDT_table_entry table_addr t index = unat (snd (store_idt t) + ucast index * of_nat IDT_ENTRY_SIZE - table_addr)"

definition add_IDT_entry :: "env \<Rightarrow> u32 \<Rightarrow> u8 \<Rightarrow> u8 \<Rightarrow> u8 \<Rightarrow> u16 \<Rightarrow> u32 \<Rightarrow> idt \<times> kernel \<Rightarrow> (idt \<times> kernel) option" where
  "add_IDT_entry env table_addr vector_id privilage gate_type segment func_handler st = (let (t, k) = st in do {
     k \<leftarrow> printf env (map_of_char ''IDT Interrupt table: Registering vector no. %d with handler at 0x%x '' @ [10, 0])
       [Arg_Int (ucast vector_id), Arg_Int func_handler] k;
     let i = get_IDT_table_entry table_addr t vector_id;
     e \<leftarrow> set_descriptor_present_bit (drop i (IDT_table t)) 1;
     (e, k) \<leftarrow> set_descriptor_privilege env e privilage k;
     (e, k) \<leftarrow> set_descriptor_gate_type env e gate_type k;
     e \<leftarrow> set_descriptor_segment e segment;
     e \<leftarrow> set_descriptor_offset e func_handler;
     Some (t\<lparr>IDT_table := take i (IDT_table t) @ e\<rparr>, k)
   })"

definition configure_interrupt_descriptor_table :: "env \<Rightarrow> u32 \<Rightarrow> (u8 \<Rightarrow> u32) \<Rightarrow> idt \<times> kernel \<Rightarrow> (idt \<times> kernel) option" where
  "configure_interrupt_descriptor_table env table_addr handler st = (let (t, k) = st in do {
     k \<leftarrow> printf env (10 # map_of_char ''Called configure_interrupt_descriptor_table(): '' @ [10, 0]) [] k;
     let t = get_IDT_table_location t;
     let (limit, base) = store_idt t;
     k \<leftarrow> printf env (10 # map_of_char ''Old IDT data: '' @ [10, 0]) [] k;
     k \<leftarrow> printf env (map_of_char ''IDT base  = 0x%x '' @ [10, 0]) [Arg_Int base] k;
     k \<leftarrow> printf env (map_of_char ''IDT limit = %d / 0x%x '' @ [10, 0]) [Arg_Int (ucast limit), Arg_Int (ucast limit)] k;
     let num_of_entries = of_nat ((unat limit + 1) div IDT_ENTRY_SIZE);
     k \<leftarrow> printf env (map_of_char ''Number of entries = %d / 0x%x '' @ [10, 0]) [Arg_Int num_of_entries, Arg_Int num_of_entries] k;
     let limit = of_nat (length (IDT_table t));
     let t = t\<lparr>store_idt := (limit, table_addr)\<rparr>;
     k \<leftarrow> printf env (10 # map_of_char ''New IDT table location = 0x%x '' @ [10, 0]) [Arg_Int table_addr] k;
     k \<leftarrow> printf env (map_of_char ''New IDT table limit = %d / 0x%x '' @ [10, 0]) [Arg_Int (ucast limit), Arg_Int (ucast limit)] k;
     table \<leftarrow> for_loop 0 (unat limit div IDT_ENTRY_SIZE)
       (\<lambda>i table. for_loop 0 8 (\<lambda>j table. wr table (get_IDT_table_entry table_addr t (of_nat i) + j) 0) table) (IDT_table t);
     st \<leftarrow> add_IDT_entry env table_addr VEC_DIVIDE_ERROR 0 GATE_TYPE__32_BIT_TRAP 0x8 (handler VEC_DIVIDE_ERROR) (t\<lparr>IDT_table := table\<rparr>, k);
     st \<leftarrow> add_IDT_entry env table_addr VEC_INVALID_OPCODE 0 GATE_TYPE__32_BIT_TRAP 0x8 (handler VEC_INVALID_OPCODE) st;
     st \<leftarrow> add_IDT_entry env table_addr VEC_SEGMENT_NOT_PRESENT 0 GATE_TYPE__32_BIT_TRAP 0x8 (handler VEC_SEGMENT_NOT_PRESENT) st;
     st \<leftarrow> add_IDT_entry env table_addr VEC_GENERAL_PROTECTION 0 GATE_TYPE__32_BIT_TRAP 0x8 (handler VEC_GENERAL_PROTECTION) st;
     (t, k) \<leftarrow> add_IDT_entry env table_addr VEC_LINUX_SYSCALL_API 0 GATE_TYPE__32_BIT_INTERRUPT 0x8 (handler VEC_LINUX_SYSCALL_API) st;
     Some (set_IDT_table_location t, k)
   })"

text \<open>\<^verbatim>\<open>printf\<close> of the eight bytes of an entry, and of its fields.\<close>

definition print_IDT_row :: "env \<Rightarrow> u8 list \<Rightarrow> nat \<Rightarrow> kernel \<Rightarrow> kernel option" where
  "print_IDT_row env e i k = do {
     p \<leftarrow> get_descriptor_present_bit e;
     if p \<noteq> 0 then
       (if length e < 8 then None
        else printf env (map_of_char ''[%03d] %02X %02X %02X %02X %02X %02X %02X %02X (BE) '' @ [10, 0])
          (Arg_Int (of_nat i) # map (\<lambda>b. Arg_Int (ucast b)) (take 8 e)) k)
     else Some k
   }"

definition print_IDT_entry :: "env \<Rightarrow> u8 list \<Rightarrow> nat \<Rightarrow> kernel \<Rightarrow> kernel option" where
  "print_IDT_entry env e i k = do {
     p \<leftarrow> get_descriptor_present_bit e;
     if p \<noteq> 0 then do {
       k \<leftarrow> printf env (map_of_char ''[%02x] => '' @ [10, 0]) [Arg_Int (of_nat i)] k;
       k \<leftarrow> printf env (map_of_char ''     Present bit      = 0x%X '' @ [10, 0]) [Arg_Int (ucast p)] k;
       offset \<leftarrow> get_descriptor_offset e;
       k \<leftarrow> printf env (map_of_char ''     Offset address   = 0x%X '' @ [10, 0]) [Arg_Int offset] k;
       segment \<leftarrow> get_descriptor_segment e;
       k \<leftarrow> printf env (map_of_char ''     Segment selector = 0x%X / %d '' @ [10, 0]) [Arg_Int (ucast segment), Arg_Int (ucast segment)] k;
       gate \<leftarrow> get_descriptor_gate_type e;
       k \<leftarrow> printf env (map_of_char ''     Gate type        = 0x%X '' @ [10, 0]) [Arg_Int (ucast gate)] k;
       privilege \<leftarrow> get_descriptor_privilege e;
       k \<leftarrow> printf env (map_of_char ''     Privilege level  = 0x%X '' @ [10, 0]) [Arg_Int privilege] k;
       printf env [10, 0] [] k
     }
     else Some k
   }"

definition print_interrupt_descriptor_table :: "env \<Rightarrow> u32 \<Rightarrow> idt \<times> kernel \<Rightarrow> (idt \<times> kernel) option" where
  "print_interrupt_descriptor_table env table_addr st = (let (t, k) = st; t = get_IDT_table_location t; (limit, base) = store_idt t in do {
     k \<leftarrow> printf env (10 # map_of_char ''Global descriptor table (IDT) data: '' @ [10, 0]) [] k;
     k \<leftarrow> printf env (map_of_char ''IDT base  = 0x%x '' @ [10, 0]) [Arg_Int base] k;
     k \<leftarrow> printf env (map_of_char ''IDT limit = %d / 0x%x '' @ [10, 0]) [Arg_Int (ucast limit), Arg_Int (ucast limit)] k;
     let num_of_entries = (unat limit + 1) div IDT_ENTRY_SIZE;
     k \<leftarrow> printf env (map_of_char ''Number of entries = %d / 0x%x '' @ [10, 0])
       [Arg_Int (of_nat num_of_entries), Arg_Int (of_nat num_of_entries)] k;
     let entry = (\<lambda>i. drop (unat (base + of_nat (i * IDT_ENTRY_SIZE) - table_addr)) (IDT_table t));
     k \<leftarrow> printf env (10 # map_of_char ''IDT Entries (hex): '' @ [10, 0]) [] k;
     k \<leftarrow> for_loop 0 num_of_entries (\<lambda>i. print_IDT_row env (entry i) i) k;
     k \<leftarrow> printf env (10 # map_of_char ''IDT Entries (decoded): '' @ [10, 0]) [] k;
     k \<leftarrow> for_loop 0 num_of_entries (\<lambda>i. print_IDT_entry env (entry i) i) k;
     Some (t, k)
   })"

subsection \<open>Printing numbers\<close>

text \<open>Formats of plain characters and unpadded conversions, for a number of integer arguments.\<close>

fun fmt_ok :: "u8 list \<Rightarrow> nat \<Rightarrow> bool" where
  "fmt_ok [] n = False"
| "fmt_ok (c # r) n =
     (if c = 0 then n = 0 else if c \<noteq> 37 then fmt_ok r n
      else (case r of [] \<Rightarrow> False | f # r' \<Rightarrow> (case n of 0 \<Rightarrow> False | Suc m \<Rightarrow> (f = 100 \<or> f = 120 \<or> f = 88) \<and> fmt_ok r' m)))"

lemma fmt_ok_renders:
  assumes "fmt_ok f n" and "length args = n" and "list_all (\<lambda>a. case a of Arg_Int w \<Rightarrow> w \<noteq> 0x80000000 | _ \<Rightarrow> False) args"
  shows "\<exists>ds rest out. f = concat (map directive_text ds) @ 0 # rest \<and> list_all printable ds \<and> rendered ds args = Some out"
  using assms
proof (induction f n arbitrary: args rule: fmt_ok.induct)
  case (2 c r n)
  show ?case
  proof (cases "c = 0")
    case True
    then show ?thesis using 2 by (intro exI [of _ "[]"] exI [of _ r] exI [of _ "[]"]) simp
  next
    case False
    show ?thesis
    proof (cases "c = 37")
      case plain: False
      have f: "fmt_ok r n" using 2(3) False plain by simp
      obtain ds rest out where "r = concat (map directive_text ds) @ 0 # rest" "list_all printable ds" "rendered ds args = Some out"
        using 2(1) [OF False plain f 2(4,5)] by blast
      moreover have "printable (Lit c)" using False plain by (simp add: printable_def)
      ultimately have "c # r = concat (map directive_text (Lit c # ds)) @ 0 # rest" "list_all printable (Lit c # ds)"
        "rendered (Lit c # ds) args = Some (c # out)" by simp_all
      then show ?thesis by blast
    next
      case True
      then obtain f r' m where r: "r = f # r'" "n = Suc m" "f = 100 \<or> f = 120 \<or> f = 88" "fmt_ok r' m"
        using 2(3) False by (auto split: list.splits nat.splits)
      obtain w as where a: "args = Arg_Int w # as" "length as = m"
          "list_all (\<lambda>a. case a of Arg_Int w \<Rightarrow> w \<noteq> 0x80000000 | _ \<Rightarrow> False) as"
        using 2(4,5) r(2) by (cases args) (auto split: printf_arg.splits)
      have "\<not> c \<noteq> 37" using True by simp
      from 2(2) [OF False this r(1,2,4) a(2,3)] obtain ds rest out where
        ih: "r' = concat (map directive_text ds) @ 0 # rest" "list_all printable ds" "rendered ds as = Some out" by blast
      obtain d where d: "directive_text d = [37, f]" "printable d" "\<exists>o'. rendered (d # ds) args = Some o'"
      proof -
        have "\<exists>d. directive_text d = [37, f] \<and> printable d \<and> (\<exists>o'. rendered (d # ds) args = Some o')"
        proof (cases "f = 100")
          case True
          then show ?thesis using ih(3) a(1) by (intro exI [of _ "Dec False 0"]) (simp add: width_text_def printable_def)
        next
          case f: False
          then show ?thesis using ih(3) a(1) r(3)
            by (intro exI [of _ "Hex (f = 88) False 0"]) (auto simp: width_text_def printable_def)
        qed
        then show ?thesis using that by blast
      qed
      have "c # r = concat (map directive_text (d # ds)) @ 0 # rest" "list_all printable (d # ds)"
        using d(1,2) ih(1,2) True r(1) by simp_all
      then show ?thesis using d(3) by blast
    qed
  qed
qed simp

text \<open>What only prints.\<close>

definition printed :: "kernel \<Rightarrow> kernel \<Rightarrow> bool" where
  "printed k k' \<longleftrightarrow> (\<exists>c. k' = k\<lparr>k_console := c\<rparr> \<and> console_ok c)"

lemma printed_trans: "printed a b \<Longrightarrow> printed b c \<Longrightarrow> printed a c"
  by (auto simp: printed_def)

lemma printed_ok: "printed a b \<Longrightarrow> console_ok (k_console b)"
  by (auto simp: printed_def)

lemma printf_ints:
  assumes "console_ok (k_console k)" and "length (env_garbage env 256) = 256" and "fmt_ok f (length args)"
    and "list_all (\<lambda>a. case a of Arg_Int w \<Rightarrow> w \<noteq> 0x80000000 | _ \<Rightarrow> False) args"
  shows "\<exists>k'. printf env f args k = Some k' \<and> printed k k'"
proof -
  obtain ds rest out where d: "f = concat (map directive_text ds) @ 0 # rest" "list_all printable ds" "rendered ds args = Some out"
    using fmt_ok_renders [OF assms(3) refl assms(4)] by blast
  have "list_all arg_ok args" using assms(4) by (auto simp: list_all_iff arg_ok_def split: printf_arg.splits)
  then obtain c where "kernel_printf f args (env_garbage env 256) (k_console k) = Some c" "prints (take 255 (c_str out)) (k_console k) c"
    using kernel_printf_prints [OF assms(1) d(2) _ d(3) assms(2), of f rest] d(1) by blast
  then show ?thesis using prints_ok by (auto simp: printf_def on_console_def printed_def)
qed

subsection \<open>The fields read back\<close>

text \<open>The bytes of a gate.\<close>

definition gate :: "u32 \<Rightarrow> u16 \<Rightarrow> u8 \<Rightarrow> u8 \<Rightarrow> u8 list" where
  "gate h seg p g = [ucast (h AND 0xff), ucast (drop_bit 8 h AND 0xff), ucast (seg AND 0xff), ucast (drop_bit 8 seg AND 0xff), 0,
     0x80 OR push_bit 5 p OR g, ucast (drop_bit 16 h AND 0xff), ucast (drop_bit 24 h AND 0xff)]"

lemma and_0xff: "(w :: 'a :: len word) AND 0xff = take_bit 8 w"
proof -
  have "(0xff :: 'a word) = mask 8" by (simp add: mask_eq_exp_minus_1)
  then show ?thesis by (simp add: take_bit_eq_mask)
qed

lemma ucast_byte_u32: "(ucast (ucast (take_bit 8 w :: u32) :: u8) :: u32) = take_bit 8 w"
  by (rule bit_word_eqI) (auto simp: bit_simps)

lemma ucast_byte_u16: "(ucast (ucast (take_bit 8 w :: u16) :: u8) :: u16) = take_bit 8 w"
  by (rule bit_word_eqI) (auto simp: bit_simps)

lemma u32_quarters:
  "take_bit 8 h + push_bit 8 (take_bit 8 (drop_bit 8 h)) + push_bit 16 (take_bit 8 (drop_bit 16 h)) + push_bit 24 (take_bit 8 (drop_bit 24 h)) = (h :: u32)"
proof -
  have step: "take_bit 8 w + push_bit 8 (drop_bit 8 w) = w" for w :: u32
    using bits_ident [of 8 w] by (simp add: add.commute)
  have top: "take_bit 8 (drop_bit 24 h) = drop_bit 24 h" by (rule bit_word_eqI) (auto simp: bit_simps dest: bit_imp_le_length)
  have 3: "take_bit 8 (drop_bit 16 h) + push_bit 8 (drop_bit 24 h) = drop_bit 16 h" using step [of "drop_bit 16 h"] by simp
  have 2: "take_bit 8 (drop_bit 8 h) + push_bit 8 (drop_bit 16 h) = drop_bit 8 h" using step [of "drop_bit 8 h"] by simp
  have "push_bit 16 (take_bit 8 (drop_bit 16 h)) + push_bit 24 (drop_bit 24 h) = push_bit 16 (drop_bit 16 h)"
    using arg_cong [OF 3, of "push_bit 16"] by (simp add: push_bit_add)
  moreover have "push_bit 8 (take_bit 8 (drop_bit 8 h)) + push_bit 16 (drop_bit 16 h) = push_bit 8 (drop_bit 8 h)"
    using arg_cong [OF 2, of "push_bit 8"] by (simp add: push_bit_add)
  ultimately show ?thesis unfolding top using step [of h] by (simp only: add.assoc)
qed

lemma small_take_bit: "(w :: u8) < 2 ^ n \<Longrightarrow> n < 8 \<Longrightarrow> take_bit n w = w"
  by (simp add: less_mask_eq take_bit_eq_mask)

lemma top_byte_fits:
  assumes "h < (0x80000000 :: u32)"
  shows "c_int (uint (ucast (take_bit 8 (drop_bit 24 h)) :: u8) * 2 ^ 24) \<noteq> None"
proof -
  have "unat (ucast (take_bit 8 (drop_bit 24 h)) :: u8) < 128"
  proof -
    have top: "take_bit 8 (drop_bit 24 h) = drop_bit 24 h" by (rule bit_word_eqI) (auto simp: bit_simps dest: bit_imp_le_length)
    have "unat (drop_bit 24 h) = unat h div 2 ^ 24" by (simp add: unat_drop_bit_eq drop_bit_eq_div unat_div)
    moreover have "unat h < 2147483648" using assms by (simp add: word_less_nat_alt)
    ultimately have "unat (drop_bit 24 h) < 128" by simp
    then show ?thesis unfolding top by (simp add: unsigned_ucast_eq take_bit_nat_eq_self)
  qed
  moreover have "uint b < 128" if "unat b < 128" for b :: u8 using that unfolding uint_nat by linarith
  moreover have "c_int (uint b * 2 ^ 24) = Some (uint b * 2 ^ 24)" if "uint b < 128" for b :: u8
  proof -
    have e: "(2 :: int) ^ 24 = 16777216" by simp
    have "- 2147483648 \<le> uint b * 16777216" "uint b * 16777216 < 2147483648"
      using that uint_ge_0 [of b] by linarith+
    then show ?thesis unfolding e by (rule c_int_in)
  qed
  ultimately show ?thesis by (metis option.distinct(1))
qed

lemma gate_fields:
  assumes "h < 0x80000000" and "p \<le> 3" and "g \<le> 15"
  shows "get_descriptor_offset (gate h seg p g @ z) = Some h" and "get_descriptor_segment (gate h seg p g @ z) = Some seg"
    and "get_descriptor_gate_type (gate h seg p g @ z) = Some g" and "get_descriptor_privilege (gate h seg p g @ z) = Some (ucast p)"
    and "get_descriptor_present_bit (gate h seg p g @ z) = Some 1"
proof -
  note c = top_byte_fits [OF assms(1)]
  have r: "rd (gate h seg p g @ z) 0 = Some (ucast (take_bit 8 h))" "rd (gate h seg p g @ z) 1 = Some (ucast (take_bit 8 (drop_bit 8 h)))"
      "rd (gate h seg p g @ z) 6 = Some (ucast (take_bit 8 (drop_bit 16 h)))" "rd (gate h seg p g @ z) 7 = Some (ucast (take_bit 8 (drop_bit 24 h)))"
    by (simp_all only: gate_def and_0xff) (simp_all add: rd_def)
  show "get_descriptor_offset (gate h seg p g @ z) = Some h"
    unfolding get_descriptor_offset_def r Option.bind_lunit ucast_byte_u32 u32_quarters using c by auto
  show "get_descriptor_segment (gate h seg p g @ z) = Some seg"
  proof -
    have "take_bit 8 (drop_bit 8 seg) = drop_bit 8 seg" by (rule bit_word_eqI) (auto simp: bit_simps dest: bit_imp_le_length)
    then have "take_bit 8 seg + push_bit 8 (take_bit 8 (drop_bit 8 seg)) = seg" using bits_ident [of 8 seg] by (simp add: add.commute)
    then show ?thesis by (simp add: get_descriptor_segment_def gate_def rd_def and_0xff ucast_byte_u16)
  qed
  let ?b = "0x80 OR push_bit 5 p OR g"
  have f: "(0xf :: u8) = mask 4" "(0x3 :: u8) = mask 2"
    by (simp_all add: mask_eq_exp_minus_1)
  have p: "take_bit 2 p = p" using small_take_bit [of p 2] assms(2) by (simp add: word_less_nat_alt word_le_nat_alt)
  have g: "take_bit 4 g = g" using small_take_bit [of g 4] assms(3) by (simp add: word_less_nat_alt word_le_nat_alt)
  have pb: "bit p n \<Longrightarrow> n < 2" and gb: "bit g n \<Longrightarrow> n < 4" for n
    using p g by (metis bit_take_bit_iff)+
  obtain q where q: "(0x80 :: u8) = q" by simp
  have qb: "bit q n \<longleftrightarrow> n = 7" for n using bit_0x80 [of n] unfolding q .
  have "?b AND 0xf = g"
    unfolding f(1) q using gb by (intro bit_word_eqI) (auto simp: bit_simps qb)
  then show "get_descriptor_gate_type (gate h seg p g @ z) = Some g" by (simp add: get_descriptor_gate_type_def gate_def rd_def)
  have "drop_bit 5 ?b AND 0x3 = p"
    unfolding f(2) q using pb gb by (intro bit_word_eqI) (fastforce simp: bit_simps qb)
  then show "get_descriptor_privilege (gate h seg p g @ z) = Some (ucast p)" by (simp add: get_descriptor_privilege_def gate_def rd_def)
  have "drop_bit 7 ?b = 1"
    unfolding q using pb gb by (intro bit_word_eqI) (fastforce simp: bit_simps qb bit_1_iff)
  then show "get_descriptor_present_bit (gate h seg p g @ z) = Some 1" by (simp add: get_descriptor_present_bit_def gate_def rd_def)
qed

subsection \<open>The configured table\<close>

lemma unat_u8_u32: "unat (ucast (v :: u8) :: u32) = unat v"
  using unat_u8_lt [of v] by (simp add: unsigned_ucast_eq take_bit_nat_eq_self)

lemma gate_entry_offset:
  assumes "snd (store_idt t) = table_addr"
  shows "get_IDT_table_entry table_addr t v = unat v * 8"
proof -
  have "unat (ucast v :: u32) = unat v" by (rule unat_u8_u32)
  moreover have "unat v < 256" using unat_u8_lt [of v] by simp
  ultimately have "unat (ucast v * 8 :: u32) = unat v * 8" by (subst unat_mult_lt) simp_all
  then show ?thesis using assms by (simp add: get_IDT_table_entry_def IDT_ENTRY_SIZE_def)
qed

lemma add_IDT_entry_ok:
  assumes "console_ok (k_console k)" and "length (env_garbage env 256) = 256" and "p \<le> 3" and "g = 0xE \<or> g = 0xF" and "h < 0x80000000"
    and "snd (store_idt t) = table_addr" and "IDT_table t = a @ [0, 0, 0, 0, 0, 0, 0, 0] @ b" and "length a = unat v * 8"
  shows "\<exists>k'. add_IDT_entry env table_addr v p g seg h (t, k) = Some (t\<lparr>IDT_table := a @ gate h seg p g @ b\<rparr>, k') \<and> printed k k'"
proof -
  let ?fmt = "map_of_char ''IDT Interrupt table: Registering vector no. %d with handler at 0x%x '' @ [10, 0]"
  have "fmt_ok ?fmt (Suc (Suc 0))" by (simp add: map_of_char_def)
  moreover have "(ucast v :: u32) \<noteq> 0x80000000"
  proof
    assume "(ucast v :: u32) = 0x80000000"
    then have "unat v = unat (0x80000000 :: u32)" using unat_u8_u32 [of v] by (simp only:)
    then show False using unat_u8_lt [of v] by simp
  qed
  moreover have "h \<noteq> 0x80000000" using assms(5) by auto
  ultimately obtain k' where k': "printf env ?fmt [Arg_Int (ucast v), Arg_Int h] k = Some k'" "printed k k'"
    using printf_ints [OF assms(1,2), of ?fmt "[Arg_Int (ucast v), Arg_Int h]"] by auto
  have i: "get_IDT_table_entry table_addr t v = length a" using gate_entry_offset [OF assms(6)] assms(8) by simp
  have d: "drop (length a) (IDT_table t) = [0, 0, 0, 0, 0, 0, 0, 0] @ b" "take (length a) (IDT_table t) = a"
    using assms(7) by simp_all
  have pa: "p AND 3 = p"
  proof -
    have "p AND 3 = take_bit 2 p" by (simp add: take_bit_eq_mask mask_eq_exp_minus_1)
    also have "\<dots> = p" using small_take_bit [of p 2] assms(3) by (simp add: word_less_nat_alt word_le_nat_alt)
    finally show ?thesis .
  qed
  have pa5: "push_bit 5 p AND 96 = push_bit 5 p" using arg_cong [OF pa, of "push_bit 5"] by simp
  have ga: "g AND 0xf = g" "\<not> ((g < 5 \<or> 7 < g) \<and> g \<noteq> 0xE \<and> g \<noteq> 0xF)" using assms(4) by auto
  have one: "push_bit 7 (1 :: u8) = 0x80" by simp
  have pr: "\<not> 3 < p" using assms(3) by simp
  have "set_descriptor_present_bit ([0, 0, 0, 0, 0, 0, 0, 0] @ b) 1 = Some ([0, 0, 0, 0, 0, 0x80, 0, 0] @ b)"
    by (simp add: set_descriptor_present_bit_def rd_def wr_def)
  moreover have "set_descriptor_privilege env ([0, 0, 0, 0, 0, x, 0, 0] @ b) p k' = Some ([0, 0, 0, 0, 0, x OR push_bit 5 p, 0, 0] @ b, k')" for x
    using pr pa5 by (simp add: set_descriptor_privilege_def rd_def wr_def)
  moreover have "set_descriptor_gate_type env ([0, 0, 0, 0, 0, x, 0, 0] @ b) g k' = Some ([0, 0, 0, 0, 0, x OR g, 0, 0] @ b, k')" for x
    using assms(4) by (auto simp: set_descriptor_gate_type_def rd_def wr_def)
  moreover have "set_descriptor_segment ([0, 0, 0, 0, 0, x, 0, 0] @ b) seg =
      Some ([0, 0, ucast (seg AND 0xff), ucast (drop_bit 8 seg AND 0xff), 0, x, 0, 0] @ b)" for x
    by (simp add: set_descriptor_segment_def rd_def wr_def)
  moreover have "set_descriptor_offset ([0, 0, ucast (seg AND 0xff), ucast (drop_bit 8 seg AND 0xff), 0, (0x80 OR push_bit 5 p) OR g, 0, 0] @ b) h = Some (gate h seg p g @ b)"
    by (simp add: set_descriptor_offset_def rd_def wr_def gate_def or.assoc)
  ultimately show ?thesis
    unfolding add_IDT_entry_def Let_def prod.case k'(1) Option.bind_lunit i d using k'(2) by simp
qed


text \<open>A table is the sequence of its entries.\<close>

definition entries_from :: "(nat \<Rightarrow> u8 list) \<Rightarrow> nat \<Rightarrow> nat \<Rightarrow> u8 list" where
  "entries_from ent i j = concat (map ent [i..<j])"

lemma entries_split: "i \<le> v \<Longrightarrow> v < j \<Longrightarrow> entries_from ent i j = entries_from ent i v @ ent v @ entries_from ent (Suc v) j"
proof -
  assume "i \<le> v" "v < j"
  then have "[i..<j] = [i..<v] @ v # [Suc v..<j]" by (metis le_Suc_ex less_imp_le upt_add_eq_append upt_conv_Cons)
  then show ?thesis by (simp add: entries_from_def)
qed

lemma entries_cong: "(\<And>k. i \<le> k \<Longrightarrow> k < j \<Longrightarrow> f k = g k) \<Longrightarrow> entries_from f i j = entries_from g i j"
  unfolding entries_from_def by (intro arg_cong [of _ _ concat] map_cong) auto

lemma length_gate_entries: "(\<And>k. length (ent k) = 8) \<Longrightarrow> length (entries_from ent i j) = (j - i) * 8"
  by (induction j) (auto simp: entries_from_def Suc_diff_le)

lemma entries_update:
  assumes "v < n"
  shows "entries_from (ent(v := e)) 0 n = entries_from ent 0 v @ e @ entries_from ent (Suc v) n"
  using entries_split [of 0 v n "ent(v := e)"] assms entries_cong [of 0 v "ent(v := e)" ent] entries_cong [of "Suc v" n "ent(v := e)" ent]
  by simp

definition eight_zeros :: "u8 list" where "eight_zeros = [0, 0, 0, 0, 0, 0, 0, 0]"

definition gates_ok :: "(nat \<Rightarrow> u8 list) \<Rightarrow> bool" where "gates_ok ent \<longleftrightarrow> (\<forall>k. length (ent k) = 8)"

lemma gates_ok_zeros: "gates_ok (\<lambda>_. eight_zeros)" by (simp add: gates_ok_def eight_zeros_def)
lemma gates_ok_update: "gates_ok ent \<Longrightarrow> gates_ok (ent(v := gate h seg p g))" by (simp add: gates_ok_def gate_def)

lemma add_gate:
  assumes "console_ok (k_console k)" and "length (env_garbage env 256) = 256" and "g = 0xE \<or> g = 0xF" and "h < 0x80000000"
    and "snd (store_idt t) = table_addr" and "IDT_table t = entries_from ent 0 256" and "gates_ok ent" and "ent (unat v) = eight_zeros"
  shows "\<exists>k'. add_IDT_entry env table_addr v 0 g 8 h (t, k) =
    Some (t\<lparr>IDT_table := entries_from (ent(unat v := gate h 8 0 g)) 0 256\<rparr>, k') \<and> printed k k'"
proof -
  have v: "unat v < 256" by (rule unat_u8_lt)
  have "IDT_table t = entries_from ent 0 (unat v) @ [0, 0, 0, 0, 0, 0, 0, 0] @ entries_from ent (Suc (unat v)) 256"
    using entries_split [of 0 "unat v" 256 ent] v assms(6,8) by (simp add: eight_zeros_def)
  moreover have "length (entries_from ent 0 (unat v)) = unat v * 8" using length_gate_entries [of ent 0 "unat v"] assms(7) by (simp add: gates_ok_def)
  ultimately show ?thesis
    using add_IDT_entry_ok [OF assms(1,2) _ assms(3-5), of 0 _ _ v 8] unfolding entries_update [OF v] by simp
qed

lemma clear_table:
  assumes "snd (store_idt t) = table_addr" and "length table = 2048"
  shows "for_loop 0 256 (\<lambda>i table. for_loop 0 8 (\<lambda>j table. wr table (get_IDT_table_entry table_addr t (of_nat i) + j) 0) table) table =
    Some (entries_from (\<lambda>_. eight_zeros) 0 256)"
proof -
  let ?I = "\<lambda>n tab. length tab = 2048 \<and> (\<forall>m < n. tab ! m = 0)"
  have "\<exists>tab. for_loop 0 256 (\<lambda>i table. for_loop 0 8 (\<lambda>j table. wr table (get_IDT_table_entry table_addr t (of_nat i) + j) 0) table) table = Some tab \<and> ?I (256 * 8) tab"
  proof (rule for_loop_rule [where I = "\<lambda>i. ?I (i * 8)"])
    fix i tab assume I: "?I (i * 8) tab" and i: "i < 256"
    have "unat (of_nat i :: u8) = i" using i by (simp add: unat_of_nat take_bit_nat_eq_self)
    then have e: "get_IDT_table_entry table_addr t (of_nat i) = i * 8" using gate_entry_offset [OF assms(1)] by simp
    have "\<exists>tab'. for_loop 0 8 (\<lambda>j table. wr table (i * 8 + j) 0) tab = Some tab' \<and> ?I (i * 8 + 8) tab'"
    proof (rule for_loop_rule [where I = "\<lambda>j. ?I (i * 8 + j)"])
      fix j tb assume J: "?I (i * 8 + j) tb" and j: "j < 8"
      have lt: "i * 8 + j < length tb" using J i j by simp
      have "wr tb (i * 8 + j) 0 = Some (tb[i * 8 + j := 0])" using lt by (simp add: wr_in)
      moreover have "?I (i * 8 + Suc j) (tb[i * 8 + j := 0])" using J lt by (auto simp: nth_list_update less_Suc_eq)
      ultimately show "\<exists>t'. wr tb (i * 8 + j) 0 = Some t' \<and> ?I (i * 8 + Suc j) t'" by blast
    qed (use I in simp_all)
    then show "\<exists>t'. for_loop 0 8 (\<lambda>j table. wr table (get_IDT_table_entry table_addr t (of_nat i) + j) 0) tab = Some t' \<and> ?I (Suc i * 8) t'"
      unfolding e by (simp add: add.commute)
  qed (use assms(2) in simp_all)
  then obtain tab where tab: "for_loop 0 256 (\<lambda>i table. for_loop 0 8 (\<lambda>j table. wr table (get_IDT_table_entry table_addr t (of_nat i) + j) 0) table) table = Some tab"
      "length tab = 2048" "\<forall>m < 2048. tab ! m = 0" by auto
  have "tab = replicate 2048 0" using tab(2,3) by (intro nth_equalityI) auto
  moreover have "entries_from (\<lambda>_. eight_zeros) 0 n = replicate (n * 8) 0" for n
  proof (induction n)
    case (Suc n)
    have z: "eight_zeros = replicate 8 0" by (simp add: eight_zeros_def numeral_eq_Suc)
    have "entries_from (\<lambda>_. eight_zeros) 0 (Suc n) = replicate (n * 8) 0 @ replicate 8 0"
      using Suc z by (simp add: entries_from_def)
    then show ?case by (simp only: replicate_add [symmetric] mult_Suc add.commute)
  qed (simp add: entries_from_def)
  ultimately show ?thesis using tab(1) by simp
qed

lemma printf_then:
  assumes "printed k0 k" and "length (env_garbage env 256) = 256" and "fmt_ok f (length args)"
    and "list_all (\<lambda>a. case a of Arg_Int w \<Rightarrow> w \<noteq> 0x80000000 | _ \<Rightarrow> False) args"
  shows "\<exists>k'. printf env f args k = Some k' \<and> printed k0 k'"
  using printf_ints [OF printed_ok [OF assms(1)] assms(2-4)] printed_trans [OF assms(1)] by blast

lemma add_gate_then:
  assumes "printed k0 k" and "length (env_garbage env 256) = 256" and "g = 0xE \<or> g = 0xF" and "h < 0x80000000"
    and "gates_ok ent" and "ent (unat v) = eight_zeros"
  shows "\<exists>k'. add_IDT_entry env table_addr v 0 g 8 h (t\<lparr>store_idt := (l, table_addr), IDT_table := entries_from ent 0 256\<rparr>, k) =
    Some (t\<lparr>store_idt := (l, table_addr), IDT_table := entries_from (ent(unat v := gate h 8 0 g)) 0 256\<rparr>, k') \<and> printed k0 k'"
  using add_gate [OF printed_ok [OF assms(1)] assms(2-4) _ _ assms(5,6), of "t\<lparr>store_idt := (l, table_addr), IDT_table := entries_from ent 0 256\<rparr>" table_addr]
    printed_trans [OF assms(1)] by fastforce

definition kernel_gates :: "(u8 \<Rightarrow> u32) \<Rightarrow> nat \<Rightarrow> u8 list" where
  "kernel_gates handler = (\<lambda>_. eight_zeros)(0 := gate (handler 0) 8 0 0xF, 6 := gate (handler 6) 8 0 0xF, 11 := gate (handler 0xB) 8 0 0xF,
     13 := gate (handler 0xD) 8 0 0xF, 128 := gate (handler 0x80) 8 0 0xE)"

lemma u16_word: "(ucast (w :: u16) :: u32) \<noteq> 0x80000000"
proof
  assume "(ucast w :: u32) = 0x80000000"
  then have "unat (ucast w :: u32) = 2147483648" by simp
  moreover have "unat w < 65536" using unsigned_less [of w] by simp
  then have "unat (ucast w :: u32) < 65536" by (simp add: unsigned_ucast_eq take_bit_nat_eq_self)
  ultimately show False by simp
qed

lemma entries_count: "(of_nat ((unat (w :: u16) + 1) div 8) :: u32) \<noteq> 0x80000000"
proof
  assume a: "(of_nat ((unat w + 1) div 8) :: u32) = 0x80000000"
  have "unat w < 65536" using unsigned_less [of w] by simp
  then have l: "(unat w + 1) div 8 < 4294967296" by linarith
  then have "unat (of_nat ((unat w + 1) div 8) :: u32) = (unat w + 1) div 8" by (intro unat_of_nat_u32) simp
  then have "(unat w + 1) div 8 = 2147483648" unfolding a by simp
  then show False using \<open>unat w < 65536\<close> by linarith
qed

lemma configure_ok:
  assumes "console_ok (k_console k)" and garbage: "length (env_garbage env 256) = 256" and "length (IDT_table t) = 2048" and h: "\<And>v. handler v < 0x80000000"
    and "table_addr \<noteq> 0x80000000" and "snd (idtr t) \<noteq> 0x80000000"
  shows "\<exists>k'. configure_interrupt_descriptor_table env table_addr handler (t, k) =
    Some (t\<lparr>idtr := (2048, table_addr), store_idt := (2048, table_addr), IDT_table := entries_from (kernel_gates handler) 0 256\<rparr>, k') \<and> printed k k'"
proof -
  obtain l b where lb: "idtr t = (l, b)" by (cases "idtr t")
  let ?n = "of_nat ((unat l + 1) div 8) :: u32"
  have p0: "printed k k" using assms(1) by (auto simp: printed_def intro!: exI [of _ "k_console k"])
  note go = printf_then [OF _ garbage]
  obtain k1 where 1: "printf env (10 # map_of_char ''Called configure_interrupt_descriptor_table(): '' @ [10, 0]) [] k = Some k1" "printed k k1"
    using go [OF p0, of "10 # map_of_char ''Called configure_interrupt_descriptor_table(): '' @ [10, 0]" "[]"] by (auto simp: map_of_char_def)
  obtain k2 where 2: "printf env (10 # map_of_char ''Old IDT data: '' @ [10, 0]) [] k1 = Some k2" "printed k k2"
    using go [OF 1(2), of "10 # map_of_char ''Old IDT data: '' @ [10, 0]" "[]"] by (auto simp: map_of_char_def)
  obtain k3 where 3: "printf env (map_of_char ''IDT base  = 0x%x '' @ [10, 0]) [Arg_Int b] k2 = Some k3" "printed k k3"
    using go [OF 2(2), of "map_of_char ''IDT base  = 0x%x '' @ [10, 0]" "[Arg_Int b]"] assms(6) lb by (auto simp: map_of_char_def)
  obtain k4 where 4: "printf env (map_of_char ''IDT limit = %d / 0x%x '' @ [10, 0]) [Arg_Int (ucast l), Arg_Int (ucast l)] k3 = Some k4" "printed k k4"
    using go [OF 3(2), of "map_of_char ''IDT limit = %d / 0x%x '' @ [10, 0]" "[Arg_Int (ucast l), Arg_Int (ucast l)]"] u16_word [of l] by (auto simp: map_of_char_def)
  obtain k5 where 5: "printf env (map_of_char ''Number of entries = %d / 0x%x '' @ [10, 0]) [Arg_Int ?n, Arg_Int ?n] k4 = Some k5" "printed k k5"
    using go [OF 4(2), of "map_of_char ''Number of entries = %d / 0x%x '' @ [10, 0]" "[Arg_Int ?n, Arg_Int ?n]"] entries_count [of l] by (auto simp: map_of_char_def)
  obtain k6 where 6: "printf env (10 # map_of_char ''New IDT table location = 0x%x '' @ [10, 0]) [Arg_Int table_addr] k5 = Some k6" "printed k k6"
    using go [OF 5(2), of "10 # map_of_char ''New IDT table location = 0x%x '' @ [10, 0]" "[Arg_Int table_addr]"] assms(5) by (auto simp: map_of_char_def)
  obtain k7 where 7: "printf env (map_of_char ''New IDT table limit = %d / 0x%x '' @ [10, 0]) [Arg_Int 2048, Arg_Int 2048] k6 = Some k7" "printed k k7"
    using go [OF 6(2), of "map_of_char ''New IDT table limit = %d / 0x%x '' @ [10, 0]" "[Arg_Int 2048, Arg_Int 2048]"] by (auto simp: map_of_char_def)
  let ?t = "t\<lparr>store_idt := (2048, table_addr)\<rparr>" and ?z = "\<lambda>_ :: nat. eight_zeros"
  note clear = clear_table [of ?t table_addr "IDT_table t"]
  note gk = gates_ok_update gates_ok_zeros
  obtain k8 where 8: "add_IDT_entry env table_addr 0 0 0xF 8 (handler 0) (?t\<lparr>IDT_table := entries_from ?z 0 256\<rparr>, k7) =
      Some (?t\<lparr>IDT_table := entries_from (?z(0 := gate (handler 0) 8 0 0xF)) 0 256\<rparr>, k8)" "printed k k8"
    using add_gate_then [OF 7(2) garbage _ h [of "0"], where g = "0xF" and ent = "?z" and v = "0" and table_addr = table_addr and t = t and l = 2048] gk by auto
  let ?e1 = "?z(0 := gate (handler 0) 8 0 0xF)"
  obtain k9 where 9: "add_IDT_entry env table_addr 6 0 0xF 8 (handler 6) (?t\<lparr>IDT_table := entries_from ?e1 0 256\<rparr>, k8) =
      Some (?t\<lparr>IDT_table := entries_from (?e1(6 := gate (handler 6) 8 0 0xF)) 0 256\<rparr>, k9)" "printed k k9"
    using add_gate_then [OF 8(2) garbage _ h [of "6"], where g = "0xF" and ent = "?e1" and v = "6" and table_addr = table_addr and t = t and l = 2048] gk by auto
  let ?e2 = "?e1(6 := gate (handler 6) 8 0 0xF)"
  obtain k10 where 10: "add_IDT_entry env table_addr 0xB 0 0xF 8 (handler 0xB) (?t\<lparr>IDT_table := entries_from ?e2 0 256\<rparr>, k9) =
      Some (?t\<lparr>IDT_table := entries_from (?e2(11 := gate (handler 0xB) 8 0 0xF)) 0 256\<rparr>, k10)" "printed k k10"
    using add_gate_then [OF 9(2) garbage _ h [of "0xB"], where g = "0xF" and ent = "?e2" and v = "0xB" and table_addr = table_addr and t = t and l = 2048] gk by auto
  let ?e3 = "?e2(11 := gate (handler 0xB) 8 0 0xF)"
  obtain k11 where 11: "add_IDT_entry env table_addr 0xD 0 0xF 8 (handler 0xD) (?t\<lparr>IDT_table := entries_from ?e3 0 256\<rparr>, k10) =
      Some (?t\<lparr>IDT_table := entries_from (?e3(13 := gate (handler 0xD) 8 0 0xF)) 0 256\<rparr>, k11)" "printed k k11"
    using add_gate_then [OF 10(2) garbage _ h [of "0xD"], where g = "0xF" and ent = "?e3" and v = "0xD" and table_addr = table_addr and t = t and l = 2048] gk by auto
  let ?e4 = "?e3(13 := gate (handler 0xD) 8 0 0xF)"
  obtain k12 where 12: "add_IDT_entry env table_addr 0x80 0 0xE 8 (handler 0x80) (?t\<lparr>IDT_table := entries_from ?e4 0 256\<rparr>, k11) =
      Some (?t\<lparr>IDT_table := entries_from (?e4(128 := gate (handler 0x80) 8 0 0xE)) 0 256\<rparr>, k12)" "printed k k12"
    using add_gate_then [OF 11(2) garbage _ h [of "0x80"], where g = "0xE" and ent = "?e4" and v = "0x80" and table_addr = table_addr and t = t and l = 2048] gk by auto
  show ?thesis
    using 1(1) 2(1) 3(1) 4(1) 5(1) 6(1) 7(1) clear 8(1) 9(1) 10(1) 11(1) 12 lb assms(3)
    by (simp add: configure_interrupt_descriptor_table_def get_IDT_table_location_def set_IDT_table_location_def idt_consts kernel_gates_def)
qed

text \<open>What the processor finds at a vector: the fields of a gate, or an entry that is all 0.\<close>

definition gate_found :: "u8 list \<Rightarrow> u32 \<Rightarrow> u8 \<Rightarrow> bool" where
  "gate_found e h g \<longleftrightarrow> get_descriptor_offset e = Some h \<and> get_descriptor_segment e = Some 8 \<and>
     get_descriptor_gate_type e = Some g \<and> get_descriptor_privilege e = Some 0 \<and> get_descriptor_present_bit e = Some 1"

lemma kernel_gates_ok: "length (kernel_gates handler v) = 8"
  by (simp add: kernel_gates_def gate_def eight_zeros_def)

lemma drop_entry:
  "v < 256 \<Longrightarrow> drop (v * 8) (entries_from (kernel_gates handler) 0 256) = kernel_gates handler v @ entries_from (kernel_gates handler) (Suc v) 256"
  using entries_split [of 0 v 256 "kernel_gates handler"] length_gate_entries [of "kernel_gates handler" 0 v] kernel_gates_ok by simp

text \<open>Claim C25. After \<^verbatim>\<open>configure_interrupt_descriptor_table\<close> the processor uses the kernel's table, and for every vector the
  accessors find there either a present 32-bit gate of the kernel's code segment to its handler (an interrupt gate for the
  system call, trap gates for the four faults) or an entry that is all 0.\<close>

theorem configure_installs_gates:
  assumes "console_ok (k_console k)" and "length (env_garbage env 256) = 256" and "length (IDT_table t) = 2048"
    and "\<And>v. handler v < 0x80000000" and "table_addr \<noteq> 0x80000000" and "snd (idtr t) \<noteq> 0x80000000"
  shows "\<exists>t' k'. configure_interrupt_descriptor_table env table_addr handler (t, k) = Some (t', k') \<and> printed k k' \<and>
    idtr t' = (2048, table_addr) \<and> length (IDT_table t') = 2048 \<and>
    (\<forall>v. let e = drop (unat v * 8) (IDT_table t') in
       if v = VEC_LINUX_SYSCALL_API then gate_found e (handler v) GATE_TYPE__32_BIT_INTERRUPT
       else if v \<in> {VEC_DIVIDE_ERROR, VEC_INVALID_OPCODE, VEC_SEGMENT_NOT_PRESENT, VEC_GENERAL_PROTECTION}
       then gate_found e (handler v) GATE_TYPE__32_BIT_TRAP
       else take 8 e = replicate 8 0)"
proof -
  let ?T = "entries_from (kernel_gates handler) 0 256"
  obtain k' where k': "configure_interrupt_descriptor_table env table_addr handler (t, k) =
      Some (t\<lparr>idtr := (2048, table_addr), store_idt := (2048, table_addr), IDT_table := ?T\<rparr>, k')" "printed k k'"
    using configure_ok [where handler = handler, OF assms(1-3) _ assms(5,6)] assms(4) by blast
  have found: "gate_found (gate (handler v) 8 0 g @ z) (handler v) g" if "g \<le> 15" for v g z
    using gate_fields [OF assms(4) [of v], of 0 g 8 z] that by (simp add: gate_found_def)
  have "let e = drop (unat v * 8) ?T in
       if v = VEC_LINUX_SYSCALL_API then gate_found e (handler v) GATE_TYPE__32_BIT_INTERRUPT
       else if v \<in> {VEC_DIVIDE_ERROR, VEC_INVALID_OPCODE, VEC_SEGMENT_NOT_PRESENT, VEC_GENERAL_PROTECTION}
       then gate_found e (handler v) GATE_TYPE__32_BIT_TRAP
       else take 8 e = replicate 8 0" for v
  proof -
    obtain Z where d: "drop (unat v * 8) ?T = kernel_gates handler (unat v) @ Z"
      using drop_entry [OF unat_u8_lt] by blast
    have z: "take 8 eight_zeros = replicate 8 0" "length eight_zeros = 8" by (simp_all add: eight_zeros_def numeral_eq_Suc)
    have n: "unat v = unat w \<longleftrightarrow> v = w" for w using unat_eqD by auto
    consider "v = 0x80" | "v = 0" | "v = 6" | "v = 0xB" | "v = 0xD" | "v \<notin> {0x80, 0, 6, 0xB, 0xD}" by blast
    then show ?thesis
    proof cases
      case 6
      then have "unat v \<noteq> 128" "unat v \<noteq> 0" "unat v \<noteq> 6" "unat v \<noteq> 11" "unat v \<noteq> 13"
        using n [of "0x80"] n [of 0] n [of 6] n [of "0xB"] n [of "0xD"] by auto
      then have "kernel_gates handler (unat v) = eight_zeros" by (simp add: kernel_gates_def)
      then show ?thesis unfolding d Let_def idt_consts using 6 by (simp add: z)
    qed (unfold d Let_def idt_consts, use found in \<open>simp_all add: kernel_gates_def\<close>)
  qed
  moreover have "length ?T = 2048" using length_gate_entries [of "kernel_gates handler" 0 256] kernel_gates_ok by simp
  ultimately show ?thesis using k' by auto
qed

theorem configure_installs_gates_witness:
  "\<exists>c t' k'. kernel_stdio_init first_console = Some c \<and>
     configure_interrupt_descriptor_table quiet_env 0x110000 (\<lambda>v. 0x100000 + ucast v)
       (\<lparr>idtr = (0x27, 0x8F5C), store_idt = (0, 0), IDT_table = replicate 2048 0\<rparr>, prompt_kernel c) = Some (t', k') \<and>
     get_descriptor_offset (drop (128 * 8) (IDT_table t')) = Some 0x100080"
proof -
  obtain c where c: "kernel_stdio_init first_console = Some c" "console_ok c" using first_console_ok by blast
  have h: "0x100000 + ucast v < (0x80000000 :: u32)" for v :: u8
  proof -
    have "unat (ucast v :: u32) < 256" using unat_u8_u32 [of v] unat_u8_lt [of v] by simp
    then show ?thesis by (simp add: word_less_nat_alt unat_word_ariths)
  qed
  note r = prompt_kernel_ready [OF c(2)]
  from configure_installs_gates [where handler = "\<lambda>v. 0x100000 + ucast v" and table_addr = "0x110000" and env = quiet_env
      and t = "\<lparr>idtr = (0x27, 0x8F5C), store_idt = (0, 0), IDT_table = replicate 2048 0\<rparr>", OF r(1)] h r(2)
  obtain t' k' where "configure_interrupt_descriptor_table quiet_env 0x110000 (\<lambda>v. 0x100000 + ucast v)
       (\<lparr>idtr = (0x27, 0x8F5C), store_idt = (0, 0), IDT_table = replicate 2048 0\<rparr>, prompt_kernel c) = Some (t', k')"
      and a: "\<And>v. let e = drop (unat v * 8) (IDT_table t') in
       if v = VEC_LINUX_SYSCALL_API then gate_found e (0x100000 + ucast v) GATE_TYPE__32_BIT_INTERRUPT
       else if v \<in> {VEC_DIVIDE_ERROR, VEC_INVALID_OPCODE, VEC_SEGMENT_NOT_PRESENT, VEC_GENERAL_PROTECTION}
       then gate_found e (0x100000 + ucast v) GATE_TYPE__32_BIT_TRAP
       else take 8 e = replicate 8 0"
    by auto
  moreover have "get_descriptor_offset (drop (128 * 8) (IDT_table t')) = Some 0x100080"
    using a [of "0x80"] by (simp add: idt_consts gate_found_def Let_def)
  ultimately show ?thesis using c(1) by blast
qed

end
