(* ===== verification/Platform.thy ===== *)
theory Platform
  imports Descriptors
begin

section \<open>What the kernel prints about its machine (arch/x86-32)\<close>

text \<open>
  The segment descriptors that the boot loader leaves, the ports in the BIOS Data Area, the registers of a panic and the
  context of a process. The memory is the one of \<open>env\<close>; the descriptor table register and the six segment registers are
  arguments.
\<close>

subsection \<open>Segment descriptors (GDT\_Global\_Descriptor\_Table.c)\<close>

definition get_base_address :: "u8 list \<Rightarrow> u32 option" where
  "get_base_address entry_addr = do {
     base_bit_00_07 \<leftarrow> rd entry_addr 2;
     base_bit_08_15 \<leftarrow> rd entry_addr 3;
     base_bit_16_23 \<leftarrow> rd entry_addr 4;
     base_bit_24_31 \<leftarrow> rd entry_addr 7;
     _ \<leftarrow> c_int (uint base_bit_24_31 * 2 ^ 24);
     Some (ucast base_bit_00_07 + push_bit 8 (ucast base_bit_08_15) + push_bit 16 (ucast base_bit_16_23) +
       push_bit 24 (ucast base_bit_24_31))
   }"

definition get_limit :: "u8 list \<Rightarrow> u32 option" where
  "get_limit entry_addr = do {
     limit_bit_00_07 \<leftarrow> rd entry_addr 0;
     limit_bit_08_15 \<leftarrow> rd entry_addr 1;
     b6 \<leftarrow> rd entry_addr 6;
     let limit_bit_16_19 = b6 AND 0x0F;
     Some (ucast limit_bit_00_07 + push_bit 8 (ucast limit_bit_08_15) + push_bit 16 (ucast limit_bit_16_19))
   }"

definition get_access_byte :: "u8 list \<Rightarrow> u8 option" where "get_access_byte entry_addr = rd entry_addr 5"
definition get_flags_nibble :: "u8 list \<Rightarrow> u8 option" where
  "get_flags_nibble entry_addr = do { b \<leftarrow> rd entry_addr 6; Some (drop_bit 4 b) }"

definition get_flag_granularity :: "u8 \<Rightarrow> u8" where "get_flag_granularity flags = drop_bit 3 flags AND 0x1"
definition get_flag_size :: "u8 \<Rightarrow> u8" where "get_flag_size flags = drop_bit 2 flags AND 0x1"
definition get_flag_long_mode_code :: "u8 \<Rightarrow> u8" where "get_flag_long_mode_code flags = drop_bit 1 flags AND 0x1"

text \<open>The accessors of the access byte; the first one has the name of an accessor of the interrupt table.\<close>

definition gdt_get_descriptor_present_bit :: "u8 \<Rightarrow> u8" where "gdt_get_descriptor_present_bit access_byte = drop_bit 7 access_byte AND 0x1"
definition get_descriptor_privilege_level :: "u8 \<Rightarrow> u8" where "get_descriptor_privilege_level access_byte = drop_bit 5 access_byte AND 0x3"
definition get_descriptor_type :: "u8 \<Rightarrow> u8" where "get_descriptor_type access_byte = drop_bit 4 access_byte AND 0x1"
definition get_descriptor_executable :: "u8 \<Rightarrow> u8" where "get_descriptor_executable access_byte = drop_bit 3 access_byte AND 0x1"
definition get_descriptor_DC_bit :: "u8 \<Rightarrow> u8" where "get_descriptor_DC_bit access_byte = drop_bit 2 access_byte AND 0x1"
definition get_descriptor_RW_bit :: "u8 \<Rightarrow> u8" where "get_descriptor_RW_bit access_byte = drop_bit 1 access_byte AND 0x1"
definition get_descriptor_accessed_bit :: "u8 \<Rightarrow> u8" where "get_descriptor_accessed_bit access_byte = drop_bit 0 access_byte AND 0x1"

abbreviation say :: "env \<Rightarrow> char list \<Rightarrow> u32 list \<Rightarrow> kernel \<Rightarrow> kernel option" where
  "say env s ns \<equiv> printf env (map_of_char s @ [10, 0]) (map Arg_Int ns)"

definition memory_from :: "env \<Rightarrow> u32 \<Rightarrow> u8 list" where
  "memory_from env a = map (\<lambda>i. env_memory env (a + of_nat i)) [0..<8]"

definition print_GDT_row :: "env \<Rightarrow> u32 \<Rightarrow> nat \<Rightarrow> kernel \<Rightarrow> kernel option" where
  "print_GDT_row env base i k = do {
     k \<leftarrow> printf env (c_lit ''[%02d] %02X %02X %02X %02X %02X %02X %02X %02X'')
       (map Arg_Int (of_nat (i * 8) # map ucast (memory_from env (base + of_nat (i * 8))))) k;
     printf env [10, 0] [] k
   }"

definition print_GDT_entry :: "env \<Rightarrow> u32 \<Rightarrow> nat \<Rightarrow> kernel \<Rightarrow> kernel option" where
  "print_GDT_entry env base i k = do {
     let entry_addr = memory_from env (base + of_nat (i * 8));
     k \<leftarrow> printf env (10 # map_of_char ''[%02d] => '' @ [10, 0]) [Arg_Int (of_nat (i * 8))] k;
     b \<leftarrow> get_base_address entry_addr;
     k \<leftarrow> say env ''     Base address  = 0x%X '' [b] k;
     limit \<leftarrow> get_limit entry_addr;
     k \<leftarrow> say env ''     Segment limit = 0x%X / %d '' [limit, limit] k;
     access_byte \<leftarrow> get_access_byte entry_addr;
     k \<leftarrow> say env ''     Access btye [0x%02X]: '' [ucast access_byte] k;
     k \<leftarrow> say env ''             Present bit           = %d '' [ucast (gdt_get_descriptor_present_bit access_byte)] k;
     k \<leftarrow> say env ''             privilege level (DPL) = %d '' [ucast (get_descriptor_privilege_level access_byte)] k;
     k \<leftarrow> say env ''             System Segment bit    = %d '' [ucast (get_descriptor_type access_byte)] k;
     k \<leftarrow> say env ''             Executable bit        = %d '' [ucast (get_descriptor_executable access_byte)] k;
     k \<leftarrow> say env ''             DC bit                = %d '' [ucast (get_descriptor_DC_bit access_byte)] k;
     k \<leftarrow> say env ''             RW bit                = %d '' [ucast (get_descriptor_RW_bit access_byte)] k;
     k \<leftarrow> say env ''             Accessed bit          = %d '' [ucast (get_descriptor_accessed_bit access_byte)] k;
     flags \<leftarrow> get_flags_nibble entry_addr;
     k \<leftarrow> say env ''     Flags [0x%X]: '' [ucast flags] k;
     k \<leftarrow> say env ''             Granularity     = %d '' [ucast (get_flag_granularity flags)] k;
     k \<leftarrow> say env ''             Size flag       = %d '' [ucast (get_flag_size flags)] k;
     say env ''             Long-mode code  = %d '' [ucast (get_flag_long_mode_code flags)] k
   }"

text \<open>The segment registers in the order CS, DS, SS, ES, FS, GS.\<close>

definition print_segment_registers :: "env \<Rightarrow> (nat \<Rightarrow> u32) \<Rightarrow> kernel \<Rightarrow> kernel option" where
  "print_segment_registers env reg k = do {
     k \<leftarrow> printf env (10 # map_of_char ''Segment registers: '' @ [10, 0]) [] k;
     k \<leftarrow> say env ''CS = %02d / 0x%02X '' [reg 0, reg 0] k;
     k \<leftarrow> say env ''DS = %02d / 0x%02X '' [reg 1, reg 1] k;
     k \<leftarrow> say env ''SS = %02d / 0x%02X '' [reg 2, reg 2] k;
     k \<leftarrow> say env ''ES = %02d / 0x%02X '' [reg 3, reg 3] k;
     k \<leftarrow> say env ''FS = %02d / 0x%02X '' [reg 4, reg 4] k;
     say env ''GS = %02d / 0x%02X '' [reg 5, reg 5] k
   }"

definition print_GDT_table :: "env \<Rightarrow> u16 \<Rightarrow> u32 \<Rightarrow> (nat \<Rightarrow> u32) \<Rightarrow> kernel \<Rightarrow> kernel option" where
  "print_GDT_table env limit base reg k = do {
     k \<leftarrow> printf env (10 # map_of_char ''Global descriptor table (GDT) data: '' @ [10, 0]) [] k;
     k \<leftarrow> say env ''GDT base  = 0x%x '' [base] k;
     k \<leftarrow> say env ''GDT limit = %d / 0x%x '' [ucast limit, ucast limit] k;
     buf \<leftarrow> hex_into (replicate 10 0) 0 (sint base) 9;
     k \<leftarrow> printf env (10 # map_of_char ''GDT table: '' @ [10, 0]) [] k;
     k \<leftarrow> execute__dump_data env (env_memory env) 2 [[0], buf] k;
     let num_of_entries = (unat limit + 1) div 8;
     k \<leftarrow> say env ''GDT Entries (hex): '' [] k;
     k \<leftarrow> for_loop 0 num_of_entries (print_GDT_row env base) k;
     k \<leftarrow> printf env (10 # map_of_char ''GDT Entries (decoded): '' @ [10, 0]) [] k;
     k \<leftarrow> for_loop 0 num_of_entries (print_GDT_entry env base) k;
     print_segment_registers env reg k
   }"

subsection \<open>The BIOS Data Area (BIOS\_Data\_Area.c)\<close>

definition COM1_OFFSET :: nat where "COM1_OFFSET = 0x00"
definition LPT1_OFFSET :: nat where "LPT1_OFFSET = 0x08"

definition read_16bit :: "env \<Rightarrow> u32 \<Rightarrow> nat \<Rightarrow> int" where
  "read_16bit env buffer offset =
     sint (push_bit 8 (ucast (env_memory env (buffer + of_nat (offset + 1)))) + ucast (env_memory env (buffer + of_nat offset)) :: u16)"

definition parse_BIOS_Data_Area :: "env \<Rightarrow> kernel \<Rightarrow> kernel option" where
  "parse_BIOS_Data_Area env k = do {
     let BDA_base_address = 1024;
     k \<leftarrow> on_console (kernel_println (10 # c_lit ''Parsing BIOS Data Area...'')) k;
     com_string \<leftarrow> hex_into (c_lit ''COM1 I/O Port: 0x????'') 17 (read_16bit env BDA_base_address COM1_OFFSET) 4;
     k \<leftarrow> on_console (kernel_println com_string) k;
     lpt_string \<leftarrow> hex_into (c_lit ''LPT1 I/O Port: 0x????'') 17 (read_16bit env BDA_base_address LPT1_OFFSET) 4;
     on_console (kernel_println lpt_string) k
   }"

subsection \<open>A panic and the context of a process (panic.c, arch\_scheduler\_util.c)\<close>

text \<open>What \<^verbatim>\<open>time_to_die\<close> prints before its endless loop.\<close>

definition time_to_die_prints :: "env \<Rightarrow> (nat \<Rightarrow> u32) \<Rightarrow> kernel \<Rightarrow> kernel option" where
  "time_to_die_prints env reg k = do {
     k \<leftarrow> printf env ([10, 10, 10] @ map_of_char '' ---------------------------/ KERNEL PANIC /--------------------------- '' @ [10, 0]) [] k;
     print_segment_registers env reg k
   }"

definition time_to_die :: "env \<Rightarrow> (nat \<Rightarrow> u32) \<Rightarrow> kernel \<Rightarrow> kernel option" where
  "time_to_die env reg k = do { _ \<leftarrow> time_to_die_prints env reg k; None }"

text \<open>The handlers of the four faults (IDT\_Interrupt\_Descriptor\_Table.c) print and never return.\<close>

definition test_INT_HANDLER_00_DIVIDE_ERROR :: "env \<Rightarrow> (nat \<Rightarrow> u32) \<Rightarrow> kernel \<Rightarrow> kernel option" where
  "test_INT_HANDLER_00_DIVIDE_ERROR env reg k = do {
     k \<leftarrow> printf env (10 # map_of_char ''                             !!! CALLED INT_HANDLER_00 (Divide error) !!! '' @ [10, 0]) [] k;
     time_to_die env reg k
   }"

definition test_INT_HANDLER_06_INVALID_OPCODE :: "env \<Rightarrow> kernel \<Rightarrow> kernel option" where
  "test_INT_HANDLER_06_INVALID_OPCODE env k = do {
     _ \<leftarrow> printf env (10 # map_of_char ''                             !!! CALLED INT_HANDLER_06 (Invalid opcode) !!! '' @ [10, 0]) [] k;
     None
   }"

definition test_INT_HANDLER_0B_SEGMENT_NOT_PRESENT :: "env \<Rightarrow> kernel \<Rightarrow> kernel option" where
  "test_INT_HANDLER_0B_SEGMENT_NOT_PRESENT env k = do {
     _ \<leftarrow> printf env (10 # map_of_char ''                             !!! CALLED INT_HANDLER_0B (Segement not present) !!! '' @ [10, 0]) [] k;
     None
   }"

definition test_INT_HANDLER_0D_GENERAL_PROTECTION :: "env \<Rightarrow> kernel \<Rightarrow> kernel option" where
  "test_INT_HANDLER_0D_GENERAL_PROTECTION env k = do {
     _ \<leftarrow> printf env (10 # map_of_char ''                             !!! CALLED INT_HANDLER_0D (General Protection Fault) !!! '' @ [10, 0]) [] k;
     None
   }"

definition memory_word :: "env \<Rightarrow> u32 \<Rightarrow> u32" where
  "memory_word env a = ucast (env_memory env a) + push_bit 8 (ucast (env_memory env (a + 1))) +
     push_bit 16 (ucast (env_memory env (a + 2))) + push_bit 24 (ucast (env_memory env (a + 3)))"

definition print_process_ctx :: "env \<Rightarrow> u32 \<Rightarrow> process_ctx \<Rightarrow> kernel \<Rightarrow> kernel option" where
  "print_process_ctx env process p k = do {
     k \<leftarrow> say env ''> Process context: '' [] k;
     k \<leftarrow> printf env (map_of_char ''    Name = %s '' @ [10, 0]) [Arg_Str (process_name p)] k;
     k \<leftarrow> printf env (map_of_char ''    Ptr  = 0x%x '' @ [10, 10, 0]) [Arg_Int process] k;
     k \<leftarrow> say env ''    IP = 0x%x '' [reg_ip p] k;
     k \<leftarrow> say env ''    SP = 0x%x '' [reg_esp p] k;
     k \<leftarrow> printf env (map_of_char ''    BP = 0x%x '' @ [10, 10, 0]) [Arg_Int (reg_ebp p)] k;
     k \<leftarrow> say env ''    A  = 0x%x '' [reg_eax p] k;
     k \<leftarrow> say env ''    B  = 0x%x '' [reg_ebx p] k;
     k \<leftarrow> say env ''    C  = 0x%x '' [reg_ecx p] k;
     k \<leftarrow> say env ''    D  = 0x%x '' [reg_edx p] k;
     k \<leftarrow> say env ''    SI = 0x%x '' [reg_esi p] k;
     k \<leftarrow> printf env (map_of_char ''    DI = 0x%x '' @ [10, 10, 0]) [Arg_Int (reg_edi p)] k;
     k \<leftarrow> printf env (map_of_char ''    Flags  = 0x%x '' @ [10, 10, 0]) [Arg_Int (reg_eflags p)] k;
     k \<leftarrow> say env ''    Stack '' [reg_eflags p] k;
     let sp_ptr = reg_esp p;
     k \<leftarrow> say env ''      0x%08x: 0x%08x   '' [sp_ptr, memory_word env sp_ptr] k;
     k \<leftarrow> say env ''      0x%08x: 0x%08x   '' [sp_ptr + 4, memory_word env (sp_ptr + 4)] k;
     k \<leftarrow> say env ''      0x%08x: 0x%08x   '' [sp_ptr + 8, memory_word env (sp_ptr + 8)] k;
     k \<leftarrow> say env ''      0x%08x: 0x%08x   '' [sp_ptr + 12, memory_word env (sp_ptr + 12)] k;
     printf env (map_of_char ''      0x%08x: 0x%08x '' @ [10, 10, 0]) [Arg_Int (sp_ptr + 16), Arg_Int (memory_word env (sp_ptr + 16))] k
   }"

subsection \<open>Properties\<close>

text \<open>The eight bytes of a segment descriptor, as the processor's manual defines them.\<close>

definition segment_descriptor :: "u32 \<Rightarrow> u32 \<Rightarrow> u8 \<Rightarrow> u8 \<Rightarrow> u8 list" where
  "segment_descriptor base limit access flags =
     [ucast (limit AND 0xff), ucast (drop_bit 8 limit AND 0xff), ucast (base AND 0xff), ucast (drop_bit 8 base AND 0xff),
      ucast (drop_bit 16 base AND 0xff), access, push_bit 4 flags OR ucast (drop_bit 16 limit AND 0xff), ucast (drop_bit 24 base AND 0xff)]"

definition access_byte_of :: "u8 \<Rightarrow> u8 \<Rightarrow> u8 \<Rightarrow> u8 \<Rightarrow> u8 \<Rightarrow> u8 \<Rightarrow> u8 \<Rightarrow> u8" where
  "access_byte_of p dpl s e dc rw a = push_bit 7 p OR push_bit 5 dpl OR push_bit 4 s OR push_bit 3 e OR push_bit 2 dc OR push_bit 1 rw OR a"

lemma limit_bits:
  assumes "limit < (0x100000 :: u32)"
  shows "bit limit n \<Longrightarrow> n < 20"
proof -
  have "limit < 2 ^ 20" using assms by simp
  then have "take_bit 20 limit = limit" by (simp add: less_mask_eq take_bit_eq_mask)
  then show "bit limit n \<Longrightarrow> n < 20" by (metis bit_take_bit_iff)
qed

lemma small_bits:
  assumes "(w :: u8) < 2 ^ k" and "k < 8"
  shows "bit w n \<Longrightarrow> n < k"
  using small_take_bit [OF assms] by (metis bit_take_bit_iff)

lemma access_fields:
  assumes "p < 2" and "dpl < 4" and "s < 2" and "e < 2" and "dc < 2" and "rw < 2" and "a < 2"
  shows "gdt_get_descriptor_present_bit (access_byte_of p dpl s e dc rw a) = p" and "get_descriptor_privilege_level (access_byte_of p dpl s e dc rw a) = dpl"
    and "get_descriptor_type (access_byte_of p dpl s e dc rw a) = s" and "get_descriptor_executable (access_byte_of p dpl s e dc rw a) = e"
    and "get_descriptor_DC_bit (access_byte_of p dpl s e dc rw a) = dc" and "get_descriptor_RW_bit (access_byte_of p dpl s e dc rw a) = rw"
    and "get_descriptor_accessed_bit (access_byte_of p dpl s e dc rw a) = a"
proof -
  have m: "(0x1 :: u8) = mask 1" "(0x3 :: u8) = mask 2" by (simp_all add: mask_eq_exp_minus_1)
  have one: "\<not> bit w n" if "w < 2" "n \<noteq> 0" for w :: u8 and n using small_bits [of w 1 n] that by auto
  have two: "\<not> bit dpl n" if "n \<noteq> 0" "n \<noteq> 1" for n using small_bits [of dpl 2 n] assms(2) that by (cases n; cases "n - 1") auto
  have "rw * 2 = push_bit 1 rw" by (simp add: push_bit_eq_mult)
  then have rw2: "bit (rw * 2) n \<longleftrightarrow> 1 \<le> n \<and> n < 8 \<and> bit rw (n - 1)" for n
    by (simp only: bit_push_bit_iff possible_bit_word) auto
  note o = rw2 one [OF assms(1)] one [OF assms(3)] one [OF assms(4)] one [OF assms(5)] one [OF assms(6)] one [OF assms(7)] two
  show "gdt_get_descriptor_present_bit (access_byte_of p dpl s e dc rw a) = p"
    unfolding gdt_get_descriptor_present_bit_def access_byte_of_def m
    by (rule bit_word_eqI; rename_tac n; case_tac "n = 0") (auto simp: bit_simps o)
  show "get_descriptor_privilege_level (access_byte_of p dpl s e dc rw a) = dpl"
    unfolding get_descriptor_privilege_level_def access_byte_of_def m
    by (rule bit_word_eqI; rename_tac n; case_tac "n = 0"; case_tac "n = 1") (auto simp: bit_simps o)
  show "get_descriptor_type (access_byte_of p dpl s e dc rw a) = s"
    unfolding get_descriptor_type_def access_byte_of_def m
    by (rule bit_word_eqI; rename_tac n; case_tac "n = 0") (auto simp: bit_simps o)
  show "get_descriptor_executable (access_byte_of p dpl s e dc rw a) = e"
    unfolding get_descriptor_executable_def access_byte_of_def m
    by (rule bit_word_eqI; rename_tac n; case_tac "n = 0") (auto simp: bit_simps o)
  show "get_descriptor_DC_bit (access_byte_of p dpl s e dc rw a) = dc"
    unfolding get_descriptor_DC_bit_def access_byte_of_def m
    by (rule bit_word_eqI; rename_tac n; case_tac "n = 0") (auto simp: bit_simps o)
  show "get_descriptor_RW_bit (access_byte_of p dpl s e dc rw a) = rw"
    unfolding get_descriptor_RW_bit_def access_byte_of_def m
    by (rule bit_word_eqI; rename_tac n; case_tac "n = 0") (auto simp: bit_simps o)
  show "get_descriptor_accessed_bit (access_byte_of p dpl s e dc rw a) = a"
    unfolding get_descriptor_accessed_bit_def access_byte_of_def m
    by (rule bit_word_eqI; rename_tac n; case_tac "n = 0") (auto simp: bit_simps o)
qed

text \<open>Claim C29. The accessors of \<^verbatim>\<open>print_GDT_table\<close> decode a segment descriptor: base (below 2 GiB, where the code's shift
  stays in range), limit, access byte with its seven fields, and flags.\<close>

theorem segment_descriptor_decoded:
  assumes "base < 0x80000000" and "limit < 0x100000" and "flags < 16"
    and "p < 2" and "dpl < 4" and "s < 2" and "e < 2" and "dc < 2" and "rw < 2" and "a < 2"
  shows "get_base_address (segment_descriptor base limit access flags) = Some base \<and>
    get_limit (segment_descriptor base limit access flags) = Some limit \<and>
    get_access_byte (segment_descriptor base limit access flags) = Some access \<and>
    get_flags_nibble (segment_descriptor base limit access flags) = Some flags \<and>
    (let b = access_byte_of p dpl s e dc rw a in
       gdt_get_descriptor_present_bit b = p \<and> get_descriptor_privilege_level b = dpl \<and> get_descriptor_type b = s \<and>
       get_descriptor_executable b = e \<and> get_descriptor_DC_bit b = dc \<and> get_descriptor_RW_bit b = rw \<and> get_descriptor_accessed_bit b = a)"
proof -
  let ?d = "segment_descriptor base limit access flags"
  have rd: "rd ?d 0 = Some (ucast (take_bit 8 limit))" "rd ?d 1 = Some (ucast (take_bit 8 (drop_bit 8 limit)))" "rd ?d 2 = Some (ucast (take_bit 8 base))"
      "rd ?d 3 = Some (ucast (take_bit 8 (drop_bit 8 base)))" "rd ?d 4 = Some (ucast (take_bit 8 (drop_bit 16 base)))" "rd ?d 5 = Some access"
      "rd ?d 6 = Some (push_bit 4 flags OR ucast (take_bit 8 (drop_bit 16 limit)))" "rd ?d 7 = Some (ucast (take_bit 8 (drop_bit 24 base)))"
    by (simp_all only: segment_descriptor_def and_0xff) (simp_all add: rd_def)
  have "get_base_address ?d = Some base"
    unfolding get_base_address_def rd Option.bind_lunit ucast_byte_u32 u32_quarters using top_byte_fits [OF assms(1)] by auto
  moreover have "get_access_byte ?d = Some access" by (simp add: get_access_byte_def rd)
  moreover have "get_flags_nibble ?d = Some flags"
  proof -
    have "drop_bit 4 (push_bit 4 flags OR ucast (take_bit 8 (drop_bit 16 limit))) = flags"
      using limit_bits [OF assms(2)] small_bits [of flags 4] assms(3)
      by (intro bit_word_eqI) (fastforce simp: bit_simps)
    then show ?thesis by (simp add: get_flags_nibble_def rd)
  qed
  moreover have "get_limit ?d = Some limit"
  proof -
    have m: "(0x0F :: u8) = mask 4" by (simp add: mask_eq_exp_minus_1)
    have t: "ucast ((push_bit 4 flags OR ucast (take_bit 8 (drop_bit 16 limit))) AND 0x0F) = take_bit 8 (drop_bit 16 limit)"
      unfolding m using limit_bits [OF assms(2)] by (intro bit_word_eqI) (fastforce simp: bit_simps)
    have z: "take_bit 8 (drop_bit 24 limit) = 0"
      using limit_bits [OF assms(2)] by (intro bit_word_eqI) (fastforce simp: bit_simps)
    have "take_bit 8 limit + push_bit 8 (take_bit 8 (drop_bit 8 limit)) + push_bit 16 (take_bit 8 (drop_bit 16 limit)) = limit"
      using u32_quarters [of limit] unfolding z by simp
    then show ?thesis unfolding get_limit_def rd Option.bind_lunit Let_def t ucast_byte_u32 by simp
  qed
  moreover have "let b = access_byte_of p dpl s e dc rw a in
       gdt_get_descriptor_present_bit b = p \<and> get_descriptor_privilege_level b = dpl \<and> get_descriptor_type b = s \<and>
       get_descriptor_executable b = e \<and> get_descriptor_DC_bit b = dc \<and> get_descriptor_RW_bit b = rw \<and> get_descriptor_accessed_bit b = a"
    using access_fields assms(4-10) by (simp add: Let_def)
  ultimately show ?thesis by blast
qed


theorem segment_descriptor_decoded_witness:
  "get_base_address (segment_descriptor 0x12345678 0xFFFFF 0x9A 0xC) = Some 0x12345678 \<and>
   get_limit (segment_descriptor 0x12345678 0xFFFFF 0x9A 0xC) = Some 0xFFFFF"
  using segment_descriptor_decoded [of "0x12345678" "0xFFFFF" "0xC" 1 0 1 1 0 1 0 "0x9A"] by simp

text \<open>Nine hexadecimal digits are one too many for \<^verbatim>\<open>hex_to_long\<close>.\<close>

lemma dump_nine_digits:
  assumes "0 \<le> n" and "hex_into (replicate 10 0) 0 n 9 = Some b"
  shows "execute__dump_data env memory 2 [x, b] k = None"
proof -
  have l: "long_to_hex n (Some (replicate 10 0)) 9 16 = Some (Some (hex_digits 9 n @ [0]))"
    using long_to_hex_loop_eq [OF assms(1), of 9 "replicate 10 0"] by (simp add: long_to_hex_def)
  then have b: "b = hex_digits 9 n @ [0]" using assms(2) by (simp add: hex_into_def)
  have c: "c_str b = hex_digits 9 n" unfolding b using c_str_append_null [OF hex_digits_nonzero, of 9 n "[]"] by simp
  have "list_all (\<lambda>c. hex_digit c \<noteq> None) (hex_digits k m)" for k m
    by (induction k arbitrary: m) (simp_all add: hex_digit_char)
  moreover have "terminated b" unfolding b by (simp add: terminated_def)
  ultimately have "hex_to_long (Some b) = None"
    using hex_to_long_eight_digits_overflow [of b] unfolding c length_hex_digits by simp
  then show ?thesis by (simp add: execute__dump_data_def rd_def)
qed

lemma bind_always_None: "(\<And>x. f x = None) \<Longrightarrow> Option.bind m f = None"
  by (cases m) simp_all




end
