(* ===== verification/Syscalls.thy ===== *)
theory Syscalls
  imports Shell_Sessions
begin

section \<open>System calls (system\_calls.c)\<close>

text \<open>
  What \<^verbatim>\<open>syscall_entry_point_asm\<close> of arch/x86-32/arch\_syscall.asm calls with the registers of the program. The text
  of a \<^verbatim>\<open>write\<close> is the program's memory from its pointer on, \<open>None\<close> where that is \<open>NULL\<close>.
\<close>

definition STDOUT_FILENO :: int where "STDOUT_FILENO = 1"
definition E_BAD_DESCRIPTOR :: int where "E_BAD_DESCRIPTOR = 9"
definition E_NO_MEM :: int where "E_NO_MEM = 12"
definition SYSCALL_EXIT :: u32 where "SYSCALL_EXIT = 1"
definition SYSCALL_WRITE :: u32 where "SYSCALL_WRITE = 4"

lemmas syscall_consts = STDOUT_FILENO_def E_BAD_DESCRIPTOR_def E_NO_MEM_def SYSCALL_EXIT_def SYSCALL_WRITE_def

definition sys_write :: "env \<Rightarrow> int \<Rightarrow> u8 list option \<Rightarrow> u32 \<Rightarrow> kernel \<Rightarrow> (int \<times> kernel) option" where
  "sys_write env fd buf count k =
     (if fd \<noteq> STDOUT_FILENO then do {
        k \<leftarrow> printf env (c_lit ''[ERROR] sys_write(): Bad FD = %d'') [Arg_Int (of_int fd)] k;
        Some (- E_BAD_DESCRIPTOR, k)
      }
      else if count > 1024 - 1 then do {
        k \<leftarrow> printf env (c_lit ''[ERROR] sys_write(): Mesage too big! count = %d'') [Arg_Int count] k;
        Some (- E_NO_MEM, k)
      }
      else do {
        (_, copied) \<leftarrow> mem_copy (Some (replicate 1024 0)) 1024 buf (sint count);
        local_buf \<leftarrow> copied;
        local_buf \<leftarrow> wr local_buf 1023 0;
        k \<leftarrow> printf env (c_lit ''%s'') [Arg_Str (Some local_buf)] k;
        Some (sint count, k)
      })"

definition sys_exit :: "env \<Rightarrow> int \<Rightarrow> kernel \<Rightarrow> kernel option" where
  "sys_exit env exit_status k = do {
     k \<leftarrow> printf env (10 # map_of_char ''Called sys_exit() with args: '' @ [10, 0]) [] k;
     k \<leftarrow> printf env (map_of_char ''    status = %d '' @ [10, 0]) [Arg_Int (of_int exit_status)] k;
     sc \<leftarrow> kill_current_process (k_scheduler k);
     Some (k\<lparr>k_scheduler := sc\<rparr>)
   }"

text \<open>The result of \<^verbatim>\<open>sys_write\<close> is dropped here. At most 1023 bytes of the memory are read.\<close>

definition program_memory :: "env \<Rightarrow> u32 \<Rightarrow> u8 list option" where
  "program_memory env p = (if p = 0 then None else Some (map (\<lambda>i. env_memory env (p + of_nat i)) [0..<1023]))"

definition syscall_entry_point_C :: "env \<Rightarrow> u32 \<Rightarrow> u32 \<Rightarrow> u32 \<Rightarrow> u32 \<Rightarrow> kernel \<Rightarrow> kernel option" where
  "syscall_entry_point_C env syscall_num arg1 arg2 arg3 k =
     (if syscall_num = SYSCALL_WRITE
      then do { (_, k) \<leftarrow> sys_write env (sint arg1) (program_memory env arg2) arg3 k; Some k }
      else if syscall_num = SYSCALL_EXIT then sys_exit env (sint arg1) k
      else Some k)"

definition sys_write_test :: "env \<Rightarrow> kernel \<Rightarrow> kernel option" where
  "sys_write_test env k = do {
     let msg = [10, 10] @ map_of_char ''           >>>> CALLED sys_write_test() <<< '' @ [10, 0];
     (_, k) \<leftarrow> sys_write env STDOUT_FILENO (Some msg) (of_nat (length msg)) k;
     Some k
   }"

subsection \<open>The test threads (scheduler.c)\<close>

text \<open>The endless loop of \<^verbatim>\<open>thread_test\<close> is given by what precedes it and by its body up to \<^verbatim>\<open>schedule()\<close>, over the counter. The
  remainder is taken of unsigned values, and the counter overflows behind the last \<^verbatim>\<open>int\<close>. \<open>msg\<close> is the address of the newline
  that the assembly routine writes.\<close>

definition INT_80_test_silent :: "env \<Rightarrow> u32 \<Rightarrow> kernel \<Rightarrow> kernel option" where
  "INT_80_test_silent env msg k = syscall_entry_point_C env 4 1 msg 1 k"

definition thread_test_start :: "env \<Rightarrow> u8 list \<Rightarrow> kernel \<Rightarrow> kernel option" where
  "thread_test_start env func_name k =
     printf env (10 # map_of_char ''[%s] Start of %s() '' @ [10, 0]) [Arg_Str (Some func_name), Arg_Str (Some func_name)] k"

definition thread_test_step :: "env \<Rightarrow> u32 \<Rightarrow> u8 list \<Rightarrow> u32 \<Rightarrow> int \<Rightarrow> kernel \<Rightarrow> (int \<times> kernel) option" where
  "thread_test_step env msg func_name counter_target counter k = do {
     k \<leftarrow> (if of_int counter mod counter_target = 1
       then do {
         k \<leftarrow> printf env (10 # c_lit ''[%s] Still running... '') [Arg_Str (Some func_name)] k;
         INT_80_test_silent env msg k
       }
       else Some k);
     counter \<leftarrow> c_int (counter + 1);
     Some (counter, k)
   }"

text \<open>The names and the targets of the three threads.\<close>

definition test_threads :: "(u8 list \<times> u32) list" where
  "test_threads = [(c_lit ''test_thread_2_handler'', 1 * 1000 * 1000), (c_lit ''test_thread_3_handler'', 2 * 1000 * 1000),
     (c_lit ''test_thread_4_handler'', 3 * 1000 * 1000)]"

subsection \<open>What a write shows\<close>

lemma sys_write_ok:
  assumes "console_ok (k_console k)" and "length (env_garbage env 256) = 256" and "unat count \<le> 1023" and "unat count \<le> length buf"
  shows "\<exists>c. sys_write env 1 (Some buf) count k = Some (int (unat count), k\<lparr>k_console := c\<rparr>) \<and>
    prints (take 255 (takeWhile (\<lambda>b. b \<noteq> 0) (take (unat count) buf))) (k_console k) c"
proof -
  obtain n where n: "n = unat count" by simp
  have nb: "n \<le> 1023" "n \<le> length buf" using assms(3,4) n by simp_all
  obtain t where t: "t = takeWhile (\<lambda>b. b \<noteq> 0) (take n buf)" by simp
  obtain local where local: "local = take n buf @ replicate (1024 - n) 0" by simp
  have s: "sint count = int n" using assms(3) unfolding n by (intro sint_u32_small) simp
  have "1024 - n = Suc (1023 - n)" using assms(3) n by simp
  then have l: "local = take n buf @ 0 # replicate (1023 - n) 0" unfolding local by (simp only: replicate_Suc)
  have len: "length local = 1024" "local ! 1023 = 0"
    unfolding local using assms(3,4) n by (simp_all add: nth_append)
  have cl: "c_str local = t" unfolding t l by (simp add: c_str_stop takeWhile_append) (metis (mono_tags) takeWhile_eq_all_conv)?
  have "mem_copy (Some (replicate 1024 0)) 1024 (Some buf) (sint count) = Some (int n, Some local)"
    using mem_copy_eq [of "int n" buf "replicate 1024 0" 1024] nb unfolding s local by simp
  moreover have "wr local 1023 0 = Some local"
    using len list_update_id [of local 1023] by (simp add: wr_in)
  moreover have "\<not> count > 1024 - 1" using assms(3) by (simp add: word_less_nat_alt)
  moreover obtain c where "printf env (c_lit ''%s'') [Arg_Str (Some local)] k = Some (k\<lparr>k_console := c\<rparr>)" "prints (take 255 t) (k_console k) c"
  proof -
    have tl: "terminated local" unfolding l by (simp add: terminated_def)
    have "c_str (c_str local) = t" unfolding cl t by (simp add: takeWhile_idem)
    then show ?thesis
      using kernel_printf_prints [OF assms(1), of "[Str]" "[Arg_Str (Some local)]" "c_str local" "env_garbage env 256" "c_lit ''%s''" "[]"]
        assms(2) tl that
      by (auto simp: printf_def on_console_def printable_def arg_ok_def c_lit_def map_of_char_def)
  qed
  ultimately show ?thesis unfolding n [symmetric] t [symmetric] using s
    by (intro exI [of _ c]) (simp add: sys_write_def STDOUT_FILENO_def)
qed


text \<open>Claim C21. A program that writes at most 1023 bytes to the standard output is told that all of them were written, and the
  console prints those before the first 0, but only the first 255 of them.\<close>

theorem sys_write_shows:
  assumes "console_ok (k_console k)" and "length (env_garbage env 256) = 256" and "unat count \<le> 1023" and "unat count \<le> length buf"
  shows "\<exists>c. sys_write env STDOUT_FILENO (Some buf) count k = Some (int (unat count), k\<lparr>k_console := c\<rparr>) \<and>
    prints (take 255 (takeWhile (\<lambda>b. b \<noteq> 0) (take (unat count) buf))) (k_console k) c"
  unfolding STDOUT_FILENO_def by (rule sys_write_ok [OF assms])

theorem sys_write_shows_witness:
  "\<exists>c c'. kernel_stdio_init first_console = Some c \<and>
     sys_write quiet_env 1 (Some (replicate 300 0x61)) 300 (prompt_kernel c) = Some (300, prompt_kernel c\<lparr>k_console := c'\<rparr>) \<and>
     prints (replicate 255 0x61) c c'"
proof -
  obtain c where c: "kernel_stdio_init first_console = Some c" "console_ok c" using first_console_ok by blast
  note r = prompt_kernel_ready [OF c(2)]
  have t: "take 255 (takeWhile (\<lambda>b. b \<noteq> 0) (take 300 (replicate 300 0x61))) = replicate 255 (0x61 :: u8)"
    by (simp add: takeWhile_replicate)
  have "k_console (prompt_kernel c) = c" by (simp add: prompt_kernel_def)
  then show ?thesis using sys_write_shows [OF r(1), of quiet_env 300 "replicate 300 0x61"] r(2) c(1) t
    unfolding STDOUT_FILENO_def by auto
qed

end
