(* ===== verification/Process_Commands.thy ===== *)
theory Process_Commands
  imports Shell_Sessions
begin

section \<open>Sessions about processes (shell/cmd\_kill.c, cmd\_ps.c)\<close>

text \<open>The commands \<^verbatim>\<open>kill\<close> and \<^verbatim>\<open>ps\<close> from the key that ends the line to the next prompt.\<close>

lemma text_lits: "concat (map directive_text (map Lit xs)) = xs"
  by (induction xs) simp_all

lemma printf_out:
  assumes "console_ok (k_console k)" and "length (env_garbage env 256) = 256" and "list_all printable ds" and "list_all arg_ok args"
    and "rendered ds args = Some out" and "0 \<notin> set out" and "length out \<le> 255"
  shows "\<exists>c. printf env (concat (map directive_text ds) @ [0]) args k = Some (k\<lparr>k_console := c\<rparr>) \<and> prints out (k_console k) c"
proof -
  have "c_str out = out" using assms(6) by (auto simp: takeWhile_eq_all_conv)
  then have "take 255 (c_str out) = out" using assms(7) by (metis take_all)
  then obtain c where "kernel_printf (concat (map directive_text ds) @ [0]) args (env_garbage env 256) (k_console k) = Some c"
      "prints out (k_console k) c"
    using kernel_printf_prints [OF assms(1,3-5,2) refl, of "[]"] by metis
  then show ?thesis by (intro exI [of _ c]) (simp add: printf_def on_console_def)
qed

lemma dec_text_small:
  assumes "n < 100"
  shows "dec_text n = (if n < 10 then [] else [48 + of_nat (n div 10)]) @ [48 + of_nat (n mod 10)]"
proof -
  have "n div 10 < 10" using assms by presburger
  then have "dec_text (n div 10) = [48 + of_nat (n div 10)]" by (subst dec_text.simps) simp
  then show ?thesis by (subst dec_text.simps) simp
qed

lemma digit_char:
  assumes "n < 10"
  shows "48 + of_nat n \<noteq> (0 :: u8)" and "48 + of_nat n \<noteq> (8 :: u8)"
proof -
  have "n = 0 \<or> n = 1 \<or> n = 2 \<or> n = 3 \<or> n = 4 \<or> n = 5 \<or> n = 6 \<or> n = 7 \<or> n = 8 \<or> n = 9" using assms by arith
  then show "48 + of_nat n \<noteq> (0 :: u8)" "48 + of_nat n \<noteq> (8 :: u8)" by (elim disjE; simp)+
qed

lemma dec_text_digits: "0 \<notin> set (dec_text n)"
proof (induction n rule: dec_text.induct)
  case (1 n)
  have d: "48 + of_nat (n mod 10) \<noteq> (0 :: u8)" using digit_char [of "n mod 10"] by simp
  show ?case
  proof (cases "n < 10")
    case True
    then show ?thesis using d by (subst dec_text.simps) simp
  next
    case False
    then show ?thesis using d 1 by (subst dec_text.simps) simp
  qed
qed

lemma small_arg:
  assumes "i < 16"
  shows "sint (of_nat i :: u32) = int i" and "(of_nat i :: u32) \<noteq> 0x80000000"
proof -
  have u: "unat (of_nat i :: u32) = i" using assms by (simp add: unat_of_nat)
  then show "sint (of_nat i :: u32) = int i" using sint_u32_small [of "of_nat i"] assms by simp
  show "(of_nat i :: u32) \<noteq> 0x80000000"
  proof
    assume "(of_nat i :: u32) = 0x80000000"
    then have "unat (of_nat i :: u32) = 2147483648" by simp
    then show False using u assms by simp
  qed
qed

subsection \<open>kill\<close>

definition kill_text :: "nat \<Rightarrow> u8 list" where
  "kill_text i = map_of_char ''Executed command 'kill' with arg: '' @ dec_text i @ [32, 10]"

lemma kill_prints:
  assumes "console_ok (k_console k)" and "length (env_garbage env 256) = 256" and "i < 16"
  shows "\<exists>c. printf env (map_of_char ''Executed command 'kill' with arg: %d '' @ [10, 0]) [Arg_Int (of_int (int i))] k = Some (k\<lparr>k_console := c\<rparr>) \<and>
    prints (kill_text i) (k_console k) c"
proof -
  let ?ds = "map Lit (map_of_char ''Executed command 'kill' with arg: '') @ [Dec False 0, Lit 32, Lit 10]"
  have f: "map_of_char ''Executed command 'kill' with arg: %d '' @ [10, 0] = concat (map directive_text ?ds) @ [0]"
    unfolding map_append concat_append text_lits by (simp add: map_of_char_def width_text_def)
  note w = small_arg [OF assms(3)]
  show ?thesis unfolding f
  proof (rule printf_out [OF assms(1,2)])
    show "list_all printable ?ds" by (simp add: printable_def map_of_char_def)
    show "list_all arg_ok [Arg_Int (of_int (int i))]" using w(2) by (simp add: arg_ok_def)
    show "rendered ?ds [Arg_Int (of_int (int i))] = Some (kill_text i)"
      using w(1) by (simp add: rendered_lits padding_def kill_text_def)
    show "0 \<notin> set (kill_text i)" using dec_text_digits by (simp add: kill_text_def map_of_char_def)
    show "length (kill_text i) \<le> 255" using assms(3) by (simp add: kill_text_def map_of_char_def dec_text_small)
  qed
qed

lemma kill_runs:
  assumes "\<forall>n. length (env_garbage env n) = n" and "path_buffer (k_dir k)" and "line_holds k y"
    and "words (strip y) = [map_of_char ''kill'', arg]" and "length (filter dec_char arg) \<le> 9" and "decimal (filter dec_char arg) = int i"
    and "i < 16" and sc: "kill_process (int i) (k_scheduler k) = Some sc"
  shows "runs env k y (kill_text i) (c_str (k_dir k)) sc"
proof (rule runsI)
  fix c0 line hb ptrs
  assume c0: "prints [10] (k_console k) c0" and cut: "cut_into y (k_line k) line ptrs" and p0: "ptrs ! 0 = 0"
  note w = cut_two_words [OF cut p0 assms(3,4)]
  obtain z where z: "line = 107 # z"
    using w(1) by (cases line) (auto simp: map_of_char_def split: if_splits)
  let ?k = "k\<lparr>k_console := c0, k_line := line, k_heap := hb, k_scheduler := sc\<rparr>"
  obtain c1 where c1: "printf env (map_of_char ''Executed command 'kill' with arg: %d '' @ [10, 0]) [Arg_Int (of_int (int i))] ?k =
      Some (?k\<lparr>k_console := c1\<rparr>)" "prints (kill_text i) c0 c1"
    using kill_prints [of ?k env i] prints_ok [OF c0] assms(1,7) by auto
  have "atoi (Some (drop (ptrs ! 1) line)) = Some (int i)"
    unfolding atoi_reads_decimal_ok [OF w(4)] w(3) using assms(5,6) w(5) by simp
  then have "dispatch env (int (length (words (strip y)))) (map (\<lambda>a. drop a line) ptrs) (k\<lparr>k_console := c0, k_line := line, k_heap := hb\<rparr>) =
      Some (?k\<lparr>k_console := c1\<rparr>)"
    using c1(1) w(2) sc z assms(4) by (simp add: dispatch_def execute__kill_def command_kill_def)
  then show "\<exists>c1 d. dispatch env (int (length (words (strip y)))) (map (\<lambda>a. drop a line) ptrs) (k\<lparr>k_console := c0, k_line := line, k_heap := hb\<rparr>) =
        Some (k\<lparr>k_console := c1, k_line := line, k_heap := hb, k_dir := d, k_scheduler := sc\<rparr>) \<and>
      prints (kill_text i) c0 c1 \<and> path_buffer d \<and> c_str d = c_str (k_dir k)"
    using c1(2) assms(2) by (intro exI [of _ c1] exI [of _ "k_dir k"]) simp
qed


text \<open>A kernel with one process beside its own, for the witness.\<close>

lemma started_process:
  "\<exists>sc. sched_ok sc \<and> process_list sc ! 0 = zero_process\<lparr>process_name := Some kernel_process_name\<rparr> \<and>
    process_name (process_list sc ! 1) = Some (c_lit ''p'') \<and> (\<forall>i. 2 \<le> i \<and> i < 16 \<longrightarrow> process_name (process_list sc ! i) = None)"
proof -
  obtain s0 where s0: "sched_ok s0" "process_list s0 = (replicate 16 zero_process)[0 := zero_process\<lparr>process_name := Some kernel_process_name\<rparr>]"
    using scheduler_setup_ok [of "0x200000" "replicate 32 0" zero_handle] by (auto simp: stack_memory_placed_def)
  have z: "process_name zero_process = None" by (simp add: zero_process_def)
  have f: "find_free_process_ctx s0 = Some 1"
    by (rule find_free_intro) (use s0 z in \<open>auto simp: is_live_def\<close>)
  obtain sc where sc: "sched_ok sc" "\<exists>q. process_list sc = (process_list s0)[1 := q] \<and> process_name q = Some (c_lit ''p'')"
    using create_process_ok [OF s0(1), of "Some (c_lit ''p'')" 0] f by fastforce
  then show ?thesis using s0(2) z by (intro exI [of _ sc]) (auto simp: nth_list_update)
qed

subsection \<open>ps\<close>

lemma hex_char_nonzero: "d < 16 \<Longrightarrow> hex_char False (of_nat d) \<noteq> 0"
proof -
  assume "d < 16"
  then have "d = 0 \<or> d = 1 \<or> d = 2 \<or> d = 3 \<or> d = 4 \<or> d = 5 \<or> d = 6 \<or> d = 7 \<or> d = 8 \<or> d = 9 \<or>
    d = 10 \<or> d = 11 \<or> d = 12 \<or> d = 13 \<or> d = 14 \<or> d = 15" by arith
  then show ?thesis by (elim disjE; simp add: hex_char_def)
qed

lemma hex_text_chars: "0 \<notin> set (hex_text False n)"
proof (induction False n rule: hex_text.induct)
  case (1 n)
  have d: "hex_char False (of_nat (n mod 16)) \<noteq> 0" using hex_char_nonzero [of "n mod 16"] by simp
  show ?case
  proof (cases "n < 16")
    case True
    then show ?thesis using d by (subst hex_text.simps) simp
  next
    case False
    then show ?thesis using d 1 by (subst hex_text.simps) simp
  qed
qed

lemma hex_text_short: "n < 16 ^ Suc k \<Longrightarrow> length (hex_text False n) \<le> Suc k"
proof (induction k arbitrary: n)
  case 0
  then show ?case by (subst hex_text.simps) simp
next
  case (Suc k)
  have "n div 16 < 16 ^ Suc k" using Suc.prems by (simp add: div_less_iff_less_mult mult.commute)
  then show ?case using Suc.IH [of "n div 16"] by (subst hex_text.simps) auto
qed

text \<open>A register, padded to its eight digits.\<close>

definition hex8 :: "u32 \<Rightarrow> u8 list" where "hex8 w = padding True 8 (hex_text False (unat w))"

lemma hex8_text: "0 \<notin> set (hex8 w)" "length (hex8 w) = 8"
proof -
  have "unat w < 16 ^ Suc 7" using unat_u32_lt [of w] by simp
  then show "length (hex8 w) = 8" using hex_text_short [of "unat w" 7] by (simp add: hex8_def padding_def)
  show "0 \<notin> set (hex8 w)" using hex_text_chars by (simp add: hex8_def padding_def)
qed

text \<open>The row of a process: number, name in 20 columns, instruction pointer, stack pointer, base pointer and stack memory.\<close>

definition ps_head :: "nat \<Rightarrow> u8 list \<Rightarrow> u8 list" where
  "ps_head i name = padding True 2 (dec_text i) @ replicate 5 32 @ name"

definition ps_registers :: "process_ctx \<Rightarrow> u8 list" where
  "ps_registers p = [48, 120] @ hex8 (reg_ip p) @ [32, 32, 48, 120] @ hex8 (reg_esp p) @ [32, 32, 48, 120] @ hex8 (reg_ebp p) @
     [32, 32, 32, 48, 120] @ hex8 (stack_mem_base p) @ [32, 10]"

definition ps_line :: "process_ctx list \<Rightarrow> nat \<Rightarrow> u8 list" where
  "ps_line ps i = (case process_name (ps ! i) of None \<Rightarrow> []
     | Some s \<Rightarrow> ps_head i (c_str s) @ replicate (20 - length (c_str s)) 32 @ ps_registers (ps ! i))"

definition ps_text :: "process_ctx list \<Rightarrow> u8 list" where
  "ps_text ps = map_of_char ''PID    NAME                PC/IP       SP          BP           Stack start'' @ [10] @ concat (map (ps_line ps) [0..<16])"

text \<open>Names are strings of at most 100 characters, and no register is \<^verbatim>\<open>INT_MIN\<close>.\<close>

definition listable :: "process_ctx \<Rightarrow> bool" where
  "listable p \<longleftrightarrow> (\<forall>s. process_name p = Some s \<longrightarrow> terminated s \<and> length (c_str s) \<le> 100) \<and>
     list_all arg_ok (map Arg_Int [reg_ip p, reg_esp p, reg_ebp p, stack_mem_base p])"

lemma head_prints:
  assumes "console_ok (k_console k)" and "length (env_garbage env 256) = 256" and "i < 16" and "terminated s" and "length (c_str s) \<le> 100"
  shows "\<exists>c. printf env (c_lit ''%02d     %s'') [Arg_Int (of_nat i), Arg_Str (Some s)] k = Some (k\<lparr>k_console := c\<rparr>) \<and>
    prints (ps_head i (c_str s)) (k_console k) c"
proof -
  let ?ds = "Dec True 2 # map Lit [32, 32, 32, 32, 32] @ [Str]"
  have f: "c_lit ''%02d     %s'' = concat (map directive_text ?ds) @ [0]"
    by (simp add: c_lit_def map_of_char_def width_text_def dec_text_small)
  note w = small_arg [OF assms(3)]
  have r5: "replicate 5 (32 :: u8) = [32, 32, 32, 32, 32]" by (simp add: eval_nat_numeral)
  show ?thesis unfolding f
  proof (rule printf_out [OF assms(1,2)])
    show "list_all printable ?ds" by (simp add: printable_def)
    show "list_all arg_ok [Arg_Int (of_nat i), Arg_Str (Some s)]" using w(2) assms(4) by (simp add: arg_ok_def)
    show "rendered ?ds [Arg_Int (of_nat i), Arg_Str (Some s)] = Some (ps_head i (c_str s))"
      using w(1) by (simp add: ps_head_def r5)
    show "0 \<notin> set (ps_head i (c_str s))" using dec_text_digits [of i] c_str_no_null [of s] by (auto simp: ps_head_def padding_def)
    show "length (ps_head i (c_str s)) \<le> 255" using assms(3,5) by (simp add: ps_head_def padding_def dec_text_small)
  qed
qed

lemma registers_print:
  assumes "console_ok (k_console k)" and "length (env_garbage env 256) = 256" and "listable p"
  shows "\<exists>c. printf env (map_of_char ''0x%08x  0x%08x  0x%08x   0x%08x '' @ [10, 0])
      [Arg_Int (reg_ip p), Arg_Int (reg_esp p), Arg_Int (reg_ebp p), Arg_Int (stack_mem_base p)] k = Some (k\<lparr>k_console := c\<rparr>) \<and>
    prints (ps_registers p) (k_console k) c"
proof -
  let ?H = "Hex False True 8"
  let ?ds = "[Lit 48, Lit 120, ?H, Lit 32, Lit 32, Lit 48, Lit 120, ?H, Lit 32, Lit 32, Lit 48, Lit 120, ?H, Lit 32, Lit 32, Lit 32, Lit 48, Lit 120, ?H, Lit 32, Lit 10]"
  have f: "map_of_char ''0x%08x  0x%08x  0x%08x   0x%08x '' @ [10, 0] = concat (map directive_text ?ds) @ [0]"
    by (simp add: map_of_char_def width_text_def dec_text_small)
  show ?thesis unfolding f
  proof (rule printf_out [OF assms(1,2)])
    show "list_all printable ?ds" by (simp add: printable_def)
    show "list_all arg_ok [Arg_Int (reg_ip p), Arg_Int (reg_esp p), Arg_Int (reg_ebp p), Arg_Int (stack_mem_base p)]"
      using assms(3) by (simp add: listable_def)
    show "rendered ?ds [Arg_Int (reg_ip p), Arg_Int (reg_esp p), Arg_Int (reg_ebp p), Arg_Int (stack_mem_base p)] = Some (ps_registers p)"
      by (simp add: ps_registers_def hex8_def)
    show "0 \<notin> set (ps_registers p)" using hex8_text(1) by (simp add: ps_registers_def)
    show "length (ps_registers p) \<le> 255" by (simp add: ps_registers_def hex8_text(2))
  qed
qed

lemma spaces_print:
  assumes "console_ok c"
  shows "\<exists>c'. for_loop 0 n (\<lambda>_ c. kernel_putchar 32 c) c = Some c' \<and> prints (replicate n 32) c c'"
proof (rule for_loop_rule [where I = "\<lambda>j c'. prints (replicate j 32) c c'"])
  fix j c1 assume I: "prints (replicate j 32) c c1"
  obtain c2 where c2: "kernel_putchar 32 c1 = Some c2" "prints [32] c1 c2" using kernel_putchar_prints [OF prints_ok [OF I], of 32] by auto
  then have "prints (replicate j 32 @ [32]) c c2" by (intro prints_trans [OF I])
  then have "prints (replicate (Suc j) 32) c c2" by (simp add: replicate_append_same)
  then show "\<exists>c'. kernel_putchar 32 c1 = Some c' \<and> prints (replicate (Suc j) 32) c c'"
    using c2(1) by blast
qed (use prints_nothing [OF assms] in simp_all)

lemma ps_row_ok:
  assumes "console_ok (k_console k)" and "length (env_garbage env 256) = 256" and "i < 16"
    and "length (process_list (k_scheduler k)) = 16" and "listable (process_list (k_scheduler k) ! i)"
  shows "\<exists>c. ps_row env i k = Some (k\<lparr>k_console := c\<rparr>) \<and> prints (ps_line (process_list (k_scheduler k)) i) (k_console k) c"
proof -
  let ?p = "process_list (k_scheduler k) ! i"
  have g: "get_process_name (int i) (k_scheduler k) = Some (process_name ?p)"
    using assms(3,4) by (simp add: get_process_name_def rd_in)
  show ?thesis
  proof (cases "process_name ?p")
    case None
    then show ?thesis using g prints_nothing [OF assms(1)] by (intro exI [of _ "k_console k"]) (simp add: ps_row_def ps_line_def)
  next
    case (Some s)
    have s: "terminated s" "length (c_str s) \<le> 100" using assms(5) Some by (simp_all add: listable_def)
    obtain c1 where c1: "printf env (c_lit ''%02d     %s'') [Arg_Int (of_nat i), Arg_Str (Some s)] k = Some (k\<lparr>k_console := c1\<rparr>)"
        "prints (ps_head i (c_str s)) (k_console k) c1"
      using head_prints [OF assms(1-3) s] by blast
    have w: "strlen_unsafe (Some space_for_process_name) = Some 20"
      by (subst strlen_unsafe_eq) (simp_all add: space_for_process_name_def c_lit_def map_of_char_def terminated_def)
    have n: "strlen_unsafe (Some s) = Some (length (c_str s))" using s by (simp add: strlen_unsafe_eq)
    obtain c2 where c2: "for_loop 0 (20 - length (c_str s)) (\<lambda>_ c. kernel_putchar 32 c) c1 = Some c2"
        "prints (replicate (20 - length (c_str s)) 32) c1 c2"
      using spaces_print [OF prints_ok [OF c1(2)]] by blast
    obtain c3 where c3: "printf env (map_of_char ''0x%08x  0x%08x  0x%08x   0x%08x '' @ [10, 0])
        [Arg_Int (reg_ip ?p), Arg_Int (reg_esp ?p), Arg_Int (reg_ebp ?p), Arg_Int (stack_mem_base ?p)] (k\<lparr>k_console := c2\<rparr>) =
          Some (k\<lparr>k_console := c3\<rparr>)" "prints (ps_registers ?p) c2 c3"
      using registers_print [of "k\<lparr>k_console := c2\<rparr>" env ?p] prints_ok [OF c2(2)] assms(2,5) by auto
    have m: "nat (20 - int (length (c_str s))) = 20 - length (c_str s)" by simp
    have "ps_row env i k = Some (k\<lparr>k_console := c3\<rparr>)"
      unfolding ps_row_def g using Some c1(1) c2(1) c3(1) assms(3,4)
      by (simp add: w n m on_console_def get_process_internals_def rd_in)
    moreover have "prints (ps_line (process_list (k_scheduler k)) i) (k_console k) c3"
      using prints_trans [OF prints_trans [OF c1(2) c2(2)] c3(2)] Some by (simp add: ps_line_def)
    ultimately show ?thesis by blast
  qed
qed

lemma execute__ps_ok:
  assumes "console_ok (k_console k)" and "length (env_garbage env 256) = 256"
    and "length (process_list (k_scheduler k)) = 16" and "list_all listable (process_list (k_scheduler k))"
  shows "\<exists>c. execute__ps env argc argv k = Some (k\<lparr>k_console := c\<rparr>) \<and> prints (ps_text (process_list (k_scheduler k))) (k_console k) c"
proof -
  let ?ps = "process_list (k_scheduler k)" and ?pre = "map_of_char ''PID    ''"
    and ?post = "map_of_char ''PC/IP       SP          BP           Stack start'' @ [10]"
  have sp: "terminated space_for_process_name" "c_str space_for_process_name = map_of_char ''NAME                ''"
    by (simp_all add: space_for_process_name_def c_lit_def map_of_char_def terminated_def)
  let ?head = "map_of_char ''PID    NAME                PC/IP       SP          BP           Stack start'' @ [10]"
  have f: "map_of_char ''PID    %sPC/IP       SP          BP           Stack start'' @ [10, 0] = ?pre @ 37 # 115 # ?post @ [0]"
    and h: "?pre @ c_str space_for_process_name @ ?post = ?head"
    unfolding sp(2) by (simp_all add: map_of_char_def)
  have "\<exists>c. printf env (?pre @ 37 # 115 # ?post @ [0]) [Arg_Str (Some space_for_process_name)] k = Some (k\<lparr>k_console := c\<rparr>) \<and>
      prints (?pre @ c_str space_for_process_name @ ?post) (k_console k) c"
    by (rule printf_str [OF assms(1,2) _ _ _ _ sp(1)]) (simp_all add: map_of_char_def sp(2))
  then obtain c1 where c1: "printf env (map_of_char ''PID    %sPC/IP       SP          BP           Stack start'' @ [10, 0])
      [Arg_Str (Some space_for_process_name)] k = Some (k\<lparr>k_console := c1\<rparr>)" "prints ?head (k_console k) c1"
    unfolding f h by blast
  let ?I = "\<lambda>j k'. \<exists>c. k' = k\<lparr>k_console := c\<rparr> \<and> prints (concat (map (ps_line ?ps) [0..<j])) c1 c"
  have "\<exists>k'. for_loop 0 16 (ps_row env) (k\<lparr>k_console := c1\<rparr>) = Some k' \<and> ?I 16 k'"
  proof (rule for_loop_rule [where I = ?I])
    show "?I 0 (k\<lparr>k_console := c1\<rparr>)" using prints_nothing [OF prints_ok [OF c1(2)]] by auto
    fix j k' assume "?I j k'" and j: "j < 16"
    then obtain c where c: "k' = k\<lparr>k_console := c\<rparr>" "prints (concat (map (ps_line ?ps) [0..<j])) c1 c" by blast
    have "listable (?ps ! j)" using assms(3,4) j by (simp add: list_all_length)
    then obtain c' where "ps_row env j k' = Some (k'\<lparr>k_console := c'\<rparr>)" "prints (ps_line ?ps j) c c'"
      using ps_row_ok [of k' env j] prints_ok [OF c(2)] c(1) assms(2,3) j by auto
    then show "\<exists>k''. ps_row env j k' = Some k'' \<and> ?I (Suc j) k''"
      using prints_trans [OF c(2)] c(1) by auto
  qed simp
  then obtain c2 where c2: "for_loop 0 16 (ps_row env) (k\<lparr>k_console := c1\<rparr>) = Some (k\<lparr>k_console := c2\<rparr>)"
      "prints (concat (map (ps_line ?ps) [0..<16])) c1 c2" by blast
  have "nat get_max_process_count = 16" by (simp add: get_max_process_count_def MAX_PROCESS_COUNT_def)
  then have "execute__ps env argc argv k = Some (k\<lparr>k_console := c2\<rparr>)"
    unfolding execute__ps_def using c1(1) c2(1) by simp
  moreover have "prints (ps_text ?ps) (k_console k) c2"
    using prints_trans [OF c1(2) c2(2)] by (simp add: ps_text_def)
  ultimately show ?thesis by blast
qed

lemma ps_runs:
  assumes "\<forall>n. length (env_garbage env n) = n" and "path_buffer (k_dir k)" and "words (strip y) = [map_of_char ''ps'']"
    and "length (process_list (k_scheduler k)) = 16" and "list_all listable (process_list (k_scheduler k))"
  shows "runs env k y (ps_text (process_list (k_scheduler k))) (c_str (k_dir k)) (k_scheduler k)"
proof (rule runsI)
  fix c0 line hb ptrs
  assume c0: "prints [10] (k_console k) c0" and cut: "cut_into y (k_line k) line ptrs" and p0: "ptrs ! 0 = 0"
  let ?k = "k\<lparr>k_console := c0, k_line := line, k_heap := hb\<rparr>" and ?argv = "map (\<lambda>a. drop a line) ptrs" and ?argc = "int (length (words (strip y)))"
  obtain z where z: "line = 112 # z"
    using cut_command [OF cut p0 assms(3)] by (cases line) (auto simp: map_of_char_def split: if_splits)
  obtain c1 where c1: "execute__ps env ?argc ?argv ?k = Some (?k\<lparr>k_console := c1\<rparr>)" "prints (ps_text (process_list (k_scheduler k))) c0 c1"
    using execute__ps_ok [of ?k env ?argc ?argv] prints_ok [OF c0] assms(1,4,5) by auto
  have "dispatch env ?argc ?argv ?k = Some (?k\<lparr>k_console := c1\<rparr>)" using z c1(1) by (simp add: dispatch_def)
  then show "\<exists>c1 d. dispatch env ?argc ?argv ?k = Some (k\<lparr>k_console := c1, k_line := line, k_heap := hb, k_dir := d, k_scheduler := k_scheduler k\<rparr>) \<and>
      prints (ps_text (process_list (k_scheduler k))) c0 c1 \<and> path_buffer d \<and> c_str d = c_str (k_dir k)"
    using c1(2) assms(2) by (intro exI [of _ c1] exI [of _ "k_dir k"]) simp
qed

text \<open>\<^verbatim>\<open>ps\<close> at the prompt prints the table of the live processes, each in its row with its number, its name in 20
  columns and its four registers in eight hexadecimal digits, and changes nothing but the console.\<close>

theorem shell_ps_session:
  assumes "console_ok (k_console k)" and "\<forall>n. length (env_garbage env n) = n" and "path_buffer (k_dir k)"
    and "line_holds k (map_of_char ''ps'')" and "heap_ok (k_heap k)" and "heap_free_blocks (k_heap k) = b # bs"
    and "length (process_list (k_scheduler k)) = 16" and "list_all listable (process_list (k_scheduler k))"
  shows "\<exists>k'. shell_on_input env 10 k = Some k' \<and>
    prints (10 # ps_text (process_list (k_scheduler k)) @ prompt_text (c_str (k_dir k))) (k_console k) (k_console k') \<and>
    line_holds k' [] \<and> heap_ok (k_heap k') \<and> heap_free_blocks (k_heap k') = b # bs \<and> path_buffer (k_dir k') \<and>
    c_str (k_dir k') = c_str (k_dir k) \<and> k_router k' = k_router k \<and> k_scheduler k' = k_scheduler k"
proof -
  have y: "spaces (map_of_char ''ps'') = []" "words (strip (map_of_char ''ps'')) = [map_of_char ''ps'']"
    by (simp_all add: strip_def map_of_char_def words.simps)
  show ?thesis by (rule enter_runs [OF assms(1,2,4-6) y(1) ps_runs [OF assms(2,3) y(2) assms(7,8)]])
qed

theorem shell_ps_session_witness:
  "\<exists>k k'. shell_on_input quiet_env 10 k = Some k' \<and> is_live (process_list (k_scheduler k)) 1 \<and>
     prints (10 # ps_text (process_list (k_scheduler k)) @ prompt_text (map_of_char ''/mnt/'')) (k_console k) (k_console k')"
proof -
  obtain c where c: "kernel_stdio_init first_console = Some c" "console_ok c" using first_console_ok by blast
  note r = prompt_kernel_ready [OF c(2)]
  let ?p = "zero_process\<lparr>process_name := Some (c_lit ''p'')\<rparr>"
  let ?sc = "zeroed_scheduler zero_handle\<lparr>process_list := (replicate 16 zero_process)[1 := ?p]\<rparr>"
  let ?k = "prompt_kernel c\<lparr>k_scheduler := ?sc, k_line := map_of_char ''ps'' @ replicate 60 0, k_len := 2\<rparr>"
  have l: "line_holds ?k (map_of_char ''ps'')" by (simp add: line_holds_def map_of_char_def)
  have z: "listable zero_process" "listable ?p"
    by (simp_all add: listable_def zero_process_def arg_ok_def c_lit_def map_of_char_def terminated_def)
  have a: "list_all listable (process_list ?sc)" "length (process_list ?sc) = 16" "is_live (process_list ?sc) 1"
    using z by (auto simp: list_all_length nth_list_update is_live_def)
  obtain k' where "shell_on_input quiet_env 10 ?k = Some k'"
      "prints (10 # ps_text (process_list ?sc) @ prompt_text (map_of_char ''/mnt/'')) (k_console ?k) (k_console k')"
    using shell_ps_session [of ?k quiet_env 0 "[]"] r l a(1,2) by auto
  then show ?thesis using a(3) by (intro exI [of _ ?k] exI [of _ k']) simp
qed

end
