(* ===== verification/Dump_Command.thy ===== *)
theory Dump_Command
  imports Shell_Sessions
begin

section \<open>Dumping memory (shell/cmd\_hexdump.c)\<close>

text \<open>The command \<^verbatim>\<open>dump\<close> with an address: the rows that it prints are those of the memory.\<close>

subsection \<open>One row\<close>

text \<open>Where the hexadecimal pair of a byte starts in the row, and the spaces behind it.\<close>

definition pair_pos :: "nat \<Rightarrow> nat" where "pair_pos j = 10 + 3 * j + (if j < 8 then 0 else 1)"

definition pair_gap :: "nat \<Rightarrow> u8 list" where "pair_gap j = (if j = 7 then [32, 32] else [32])"

definition dump_pairs :: "(nat \<Rightarrow> u8) \<Rightarrow> nat \<Rightarrow> u8 list" where
  "dump_pairs m n = concat (map (\<lambda>j. hex_digits 2 (uint (m j)) @ pair_gap j) [0..<n])"

text \<open>Bytes below 32 and, because \<^verbatim>\<open>char\<close> is signed, from 128 on are shown as dots.\<close>

definition dump_char :: "u8 \<Rightarrow> u8" where "dump_char b = (if sint b < 32 then 46 else b)"

definition dump_row :: "(nat \<Rightarrow> u8) \<Rightarrow> int \<Rightarrow> u8 list" where
  "dump_row m offset = hex_digits 8 offset @ [58, 32] @ dump_pairs m 16 @ [32, 32, 124] @ map (\<lambda>j. dump_char (m j)) [0..<16] @ [124]"

lemma template_pair:
  assumes "j < 16"
  shows "drop (pair_pos j) dump_template = 88 # 88 # pair_gap j @ drop (pair_pos (Suc j)) dump_template"
proof -
  have "j = 0 \<or> j = 1 \<or> j = 2 \<or> j = 3 \<or> j = 4 \<or> j = 5 \<or> j = 6 \<or> j = 7 \<or> j = 8 \<or> j = 9 \<or>
    j = 10 \<or> j = 11 \<or> j = 12 \<or> j = 13 \<or> j = 14 \<or> j = 15" using assms by arith
  then show ?thesis
    by (elim disjE) (simp_all add: pair_pos_def pair_gap_def dump_template_def c_lit_def map_of_char_def)
qed

lemma hex_into_eq:
  assumes "0 \<le> n" and "k \<le> length tail" and "pos = length pre"
  shows "hex_into (pre @ tail) pos n (int k) = Some (pre @ hex_digits k n @ drop k tail)"
  using assms by (simp add: hex_into_def long_to_hex_def long_to_hex_loop_eq)

lemma length_pairs: "n \<le> 16 \<Longrightarrow> length (dump_pairs m n) = pair_pos n - 10"
proof (induction n)
  case (Suc n)
  have "dump_pairs m (Suc n) = dump_pairs m n @ hex_digits 2 (uint (m n)) @ pair_gap n" by (simp add: dump_pairs_def)
  then show ?case using Suc by (auto simp: pair_pos_def pair_gap_def)
qed (simp add: dump_pairs_def pair_pos_def)

lemma dump_pairs_ok:
  assumes "length head = 10" and m: "\<And>j. m j = memory (of_int (offset + int j))"
  shows "for_loop 0 16
       (\<lambda>hex_no (line, hex_line_offset). do {
          line \<leftarrow> hex_into line hex_line_offset (uint (memory (of_int (offset + int hex_no)))) 2;
          Some (line, if hex_no = 7 then hex_line_offset + 4 else hex_line_offset + 3)
        }) (head @ drop 10 dump_template, 10) = Some (head @ dump_pairs m 16 @ drop 59 dump_template, 59)"
proof -
  let ?I = "\<lambda>j s. s = (head @ dump_pairs m j @ drop (pair_pos j) dump_template, pair_pos j) \<and> j \<le> 16"
  have "\<exists>s. for_loop 0 16
       (\<lambda>hex_no (line, hex_line_offset). do {
          line \<leftarrow> hex_into line hex_line_offset (uint (memory (of_int (offset + int hex_no)))) 2;
          Some (line, if hex_no = 7 then hex_line_offset + 4 else hex_line_offset + 3)
        }) (head @ drop 10 dump_template, 10) = Some s \<and> ?I 16 s"
  proof (rule for_loop_rule [where I = ?I])
    show "?I 0 (head @ drop 10 dump_template, 10)" by (simp add: dump_pairs_def pair_pos_def)
    fix j s assume I: "?I j s" and j: "j < 16"
    let ?pre = "head @ dump_pairs m j" and ?tail = "pair_gap j @ drop (pair_pos (Suc j)) dump_template"
    have s: "s = (?pre @ 88 # 88 # ?tail, pair_pos j)" using I template_pair [OF j] by simp
    have pos: "pair_pos j = length ?pre" using length_pairs [of j m] assms(1) j by (simp add: pair_pos_def)
    have "hex_into (?pre @ 88 # 88 # ?tail) (pair_pos j) (uint (memory (of_int (offset + int j)))) 2 =
        Some (?pre @ hex_digits 2 (uint (m j)) @ ?tail)"
      using hex_into_eq [of "uint (m j)" 2 "88 # 88 # ?tail" "pair_pos j" ?pre] pos m by simp
    moreover have "?pre @ hex_digits 2 (uint (m j)) @ ?tail = head @ dump_pairs m (Suc j) @ drop (pair_pos (Suc j)) dump_template"
      by (simp add: dump_pairs_def)
    moreover have "pair_pos (Suc j) = (if j = 7 then pair_pos j + 4 else pair_pos j + 3)" by (auto simp: pair_pos_def)
    ultimately show "\<exists>s'. (case s of (line, hex_line_offset) \<Rightarrow> do {
          line \<leftarrow> hex_into line hex_line_offset (uint (memory (of_int (offset + int j)))) 2;
          Some (line, if j = 7 then hex_line_offset + 4 else hex_line_offset + 3) }) = Some s' \<and> ?I (Suc j) s'"
      using s j by simp
  qed simp
  then show ?thesis by (auto simp: pair_pos_def)
qed

lemma dump_chars_ok:
  assumes "length head = 62" and "length tail = 16" and m: "\<And>j. m j = memory (of_int (offset + int j))"
  shows "for_loop 0 16
       (\<lambda>char_no line.
          let character = memory (of_int (offset + int char_no))
          in wr line (62 + char_no) (if sint character < 32 then 46 else character)) (head @ tail @ rest) =
    Some (head @ map (\<lambda>j. dump_char (m j)) [0..<16] @ rest)"
proof -
  let ?I = "\<lambda>j line. line = head @ map (\<lambda>j. dump_char (m j)) [0..<j] @ drop j tail @ rest"
  have "\<exists>l. for_loop 0 16
       (\<lambda>char_no line.
          let character = memory (of_int (offset + int char_no))
          in wr line (62 + char_no) (if sint character < 32 then 46 else character)) (head @ tail @ rest) = Some l \<and> ?I 16 l"
  proof (rule for_loop_rule [where I = ?I])
    fix j line assume I: "?I j line" and j: "j < 16"
    obtain t ts where t: "drop j tail = t # ts" "drop (Suc j) tail = ts"
      using j assms(2) by (metis Cons_nth_drop_Suc)
    have "wr line (62 + j) (dump_char (m j)) = Some (head @ map (\<lambda>j. dump_char (m j)) [0..<j] @ dump_char (m j) # ts @ rest)"
      using I t(1) assms(1) by (simp add: wr_def list_update_append)
    then show "\<exists>l. (let character = memory (of_int (offset + int j))
          in wr line (62 + j) (if sint character < 32 then 46 else character)) = Some l \<and> ?I (Suc j) l"
      using t(2) by (simp add: Let_def m dump_char_def)
  qed simp_all
  then show ?thesis using assms(2) by simp
qed

lemma dump_line_ok:
  assumes "0 \<le> offset" and m: "\<And>j. m j = memory (of_int (offset + int j))"
  shows "dump_line memory offset = Some (dump_row m offset @ [0])"
proof -
  let ?A = "hex_digits 8 offset @ [58, 32]"
  have a: "hex_into dump_template 0 offset 8 = Some (?A @ drop 10 dump_template)"
    using hex_into_eq [OF assms(1), of 8 dump_template 0 "[]"] by (simp add: dump_template_def c_lit_def map_of_char_def)
  have l: "length ?A = 10" by simp
  have d: "drop 59 dump_template = [32, 32, 124] @ map_of_char ''Place_ASCII_text'' @ [124, 0]"
    by (simp add: dump_template_def c_lit_def map_of_char_def)
  let ?H = "?A @ dump_pairs m 16 @ [32, 32, 124]"
  have lh: "length ?H = 62" using length_pairs [of 16 m] by (simp add: pair_pos_def)
  have lt: "length (map_of_char ''Place_ASCII_text'') = 16" by (simp add: map_of_char_def)
  have "dump_line memory offset = Some (?H @ map (\<lambda>j. dump_char (m j)) [0..<16] @ [124, 0])"
    unfolding dump_line_def a Option.bind_lunit dump_pairs_ok [of ?A m memory offset, OF l m] prod.case
    using dump_chars_ok [of ?H "map_of_char ''Place_ASCII_text''" m memory offset "[124, 0]", OF lh lt m] by (simp add: d)
  then show ?thesis by (simp add: dump_row_def)
qed

subsection \<open>The command\<close>

definition dump_text :: "(u32 \<Rightarrow> u8) \<Rightarrow> int \<Rightarrow> u8 list" where
  "dump_text memory offset =
     concat (map (\<lambda>r. let a = offset + 16 * int r in dump_row (\<lambda>j. memory (of_int (a + int j))) a @ [10]) [0..<8]) @ [10]"

lemma dump_row_nonzero: "0 \<notin> set (dump_row m offset)"
proof -
  have "dump_char b \<noteq> 0" for b by (auto simp: dump_char_def)
  then have "0 \<notin> set (map (\<lambda>j. dump_char (m j)) [0..<16])" by (metis (no_types, lifting) ex_map_conv)
  moreover have "0 \<notin> set (dump_pairs m 16)" using hex_digits_nonzero [of 2] by (auto simp: dump_pairs_def pair_gap_def)
  ultimately show ?thesis using hex_digits_nonzero [of 8 offset] by (simp add: dump_row_def del: set_map)
qed

lemma dump_rows_ok:
  assumes "console_ok (k_console k)" and "0 \<le> offset" and "offset + 128 < 2147483648"
  shows "\<exists>c. for_loop 0 8
       (\<lambda>row (k, offset). do {
          line \<leftarrow> dump_line memory offset;
          k \<leftarrow> on_console (kernel_println line) k;
          offset \<leftarrow> c_int (offset + 16);
          Some (k, offset)
        }) (k, offset) = Some (k\<lparr>k_console := c\<rparr>, offset + 128) \<and>
    prints (concat (map (\<lambda>r. let a = offset + 16 * int r in dump_row (\<lambda>j. memory (of_int (a + int j))) a @ [10]) [0..<8])) (k_console k) c"
proof -
  let ?row = "\<lambda>r. let a = offset + 16 * int r in dump_row (\<lambda>j. memory (of_int (a + int j))) a @ [10]"
  let ?body = "\<lambda>row :: nat. \<lambda>(k, offset). do {
      line \<leftarrow> dump_line memory offset;
      k \<leftarrow> on_console (kernel_println line) k;
      offset \<leftarrow> c_int (offset + 16);
      Some (k, offset)
    }"
  let ?I = "\<lambda>j s. \<exists>c. s = (k\<lparr>k_console := c\<rparr>, offset + 16 * int j) \<and> prints (concat (map ?row [0..<j])) (k_console k) c"
  have "\<exists>s. for_loop 0 8 ?body (k, offset) = Some s \<and> ?I 8 s"
  proof (rule for_loop_rule [where I = ?I])
    show "?I 0 (k, offset)" using prints_nothing [OF assms(1)] by (intro exI [of _ "k_console k"]) simp
    fix j :: nat and s assume "?I j s" and j: "j < 8"
    then obtain c where c: "s = (k\<lparr>k_console := c\<rparr>, offset + 16 * int j)" "prints (concat (map ?row [0..<j])) (k_console k) c" by blast
    let ?a = "offset + 16 * int j"
    let ?m = "\<lambda>i. memory (of_int (?a + int i))"
    have l: "dump_line memory ?a = Some (dump_row ?m ?a @ [0])" by (rule dump_line_ok) (use assms(2) in simp_all)
    have t: "terminated (dump_row ?m ?a @ [0])" by (simp add: terminated_def)
    have "c_str (dump_row ?m ?a @ [0]) = dump_row ?m ?a" using c_str_append_null [OF dump_row_nonzero, of ?m ?a "[]"] by simp
    then obtain c' where c': "kernel_println (dump_row ?m ?a @ [0]) c = Some c'" "prints (?row j) c c'"
      using kernel_println_prints [OF prints_ok [OF c(2)] t] by (auto simp: Let_def)
    have o: "c_int (?a + 16) = Some (?a + 16)" using assms(2,3) j by (simp add: c_int_def)
    have "?body j s = Some (k\<lparr>k_console := c'\<rparr>, offset + 16 * int (Suc j))"
      unfolding c(1) prod.case l Option.bind_lunit o using c'(1) by (simp add: on_console_def)
    moreover have "prints (concat (map ?row [0..<Suc j])) (k_console k) c'" using prints_trans [OF c(2) c'(2)] by simp
    ultimately show "\<exists>s'. ?body j s = Some s' \<and> ?I (Suc j) s'" by blast
  qed simp
  then show ?thesis by auto
qed

lemma hex_word_value:
  assumes "terminated arg" and "c_str arg = hex_digits k n" and "k \<le> 7" and "0 \<le> n" and "n < 16 ^ k"
  shows "hex_to_long (Some arg) = Some n"
proof -
  obtain z where z: "arg = hex_digits k n @ 0 # z" using c_str_decomp [OF assms(1)] unfolding assms(2) by blast
  have "16 ^ k \<le> (16 :: int) ^ 7" using assms(3) by (intro power_increasing) simp_all
  then have b: "(16 :: int) ^ k < 2147483648" by simp
  then have "n < 2147483648" using assms(5) by linarith
  note b = b this
  have "strlen_unsafe (Some arg) = Some k" using strlen_unsafe_eq [OF assms(1)] assms(2,3) by simp
  then show ?thesis using hex_to_long_loop_eq [OF assms(4,5), of 1 0 "0 # z"] b by (simp add: hex_to_long_def z)
qed

lemma dump_runs:
  assumes "path_buffer (k_dir k)" and "line_holds k y" and ws: "words (strip y) = [map_of_char ''dump'', hex_digits d n]"
    and "d \<le> 7" and "0 \<le> n" and "n < 16 ^ d"
  shows "runs env k y (dump_text (env_memory env) n) (c_str (k_dir k)) (k_scheduler k)"
  unfolding runs_def
proof (intro allI impI)
  fix c0 line hb ptrs
  assume c0: "prints [10] (k_console k) c0" and cut: "cut_into y (k_line k) line ptrs" and p0: "ptrs ! 0 = 0"
  let ?k = "k\<lparr>k_console := c0, k_line := line, k_heap := hb\<rparr>" and ?argv = "map (\<lambda>a. drop a line) ptrs"
  have n1: "1 < length (words (strip y))" "words (strip y) ! 1 = hex_digits d n" "int (length (words (strip y))) = 2" unfolding ws by simp_all
  note w = cut_word [OF cut assms(2) n1(1), unfolded n1(2)]
  obtain z where z: "line = 100 # z"
    using cut_command [OF cut p0 ws] by (cases line) (auto simp: map_of_char_def split: if_splits)
  have v: "hex_to_long (Some (drop (ptrs ! 1) line)) = Some n" by (rule hex_word_value [OF w(3,2) assms(4-6)])
  have "16 ^ d \<le> (16 :: int) ^ 7" using assms(4) by (intro power_increasing) simp_all
  then have n: "n + 128 < 2147483648" using assms(6) by simp
  let ?k1 = "?k\<lparr>k_dump_offset := n\<rparr>"
  obtain c1 where c1: "for_loop 0 8
       (\<lambda>row (k, offset). do {
          line \<leftarrow> dump_line (env_memory env) offset;
          k \<leftarrow> on_console (kernel_println line) k;
          offset \<leftarrow> c_int (offset + 16);
          Some (k, offset)
        }) (?k1, n) = Some (?k1\<lparr>k_console := c1\<rparr>, n + 128)"
      "prints (concat (map (\<lambda>r. let a = n + 16 * int r in dump_row (\<lambda>j. env_memory env (of_int (a + int j))) a @ [10]) [0..<8])) c0 c1"
    using dump_rows_ok [of ?k1 n "env_memory env"] prints_ok [OF c0] assms(5) n by auto
  obtain c2 where c2: "println '''' (?k1\<lparr>k_console := c1\<rparr>) = Some (?k1\<lparr>k_console := c2\<rparr>)" "prints [10] c1 c2"
    using println_prints [of "?k1\<lparr>k_console := c1\<rparr>" "''''"] prints_ok [OF c1(2)] by (auto simp: map_of_char_def)
  have "execute__dump_data env (env_memory env) 2 ?argv ?k = Some (?k1\<lparr>k_console := c2\<rparr>)"
    unfolding execute__dump_data_def using w(1) v c1(1) c2(1) by simp
  then have "dispatch env (int (length (words (strip y)))) ?argv ?k = Some (?k1\<lparr>k_console := c2\<rparr>)"
    unfolding n1(3) using z by (simp add: dispatch_def rd_def)
  moreover have "prints (dump_text (env_memory env) n) c0 c2"
    using prints_trans [OF c1(2) c2(2)] by (simp add: dump_text_def)
  ultimately show "\<exists>k1. dispatch env (int (length (words (strip y)))) ?argv ?k = Some k1 \<and> prints (dump_text (env_memory env) n) c0 (k_console k1) \<and>
      k_line k1 = line \<and> k_heap k1 = hb \<and> path_buffer (k_dir k1) \<and> c_str (k_dir k1) = c_str (k_dir k) \<and> k_scheduler k1 = k_scheduler k \<and>
      k_router k1 = k_router k"
    using assms(1) by (intro exI [of _ "?k1\<lparr>k_console := c2\<rparr>"]) simp
qed

end
