(* ===== verification/Shell_Scripts.thy ===== *)
theory Shell_Scripts
  imports Process_Commands Dump_Command
begin

section \<open>Whole sessions: from the scan codes to the screen\<close>

text \<open>
  What a user of the kernel sees. \<open>replies\<close> is the specification of the shell, a step relation on the current directory and
  the processes: which text a line is answered with, over a given state of the file systems. \<open>session\<close> chains it over the lines
  that are typed. The simulation of it by the kernel is proved through the locale \<open>simulation\<close>, from single lines
  to sessions, and reaches from the codes of the keyboard controller to the display and the serial line.
\<close>

subsection \<open>Typing a line\<close>

definition plain :: "u8 list \<Rightarrow> bool" where
  "plain keys \<longleftrightarrow> set keys \<inter> {0, 8, 10, 13, 0x7f} = {}"

lemma shell_on_input_console:
  "shell_on_input env key k = Some k' \<Longrightarrow> key \<noteq> 10 \<Longrightarrow> key \<noteq> 13 \<Longrightarrow> kernel_putchar key (k_console k) = Some (k_console k')"
  by (auto simp: shell_on_input_def on_console_def bind_eq_Some_conv split: if_splits)

lemma typed_ok:
  assumes "console_ok (k_console k)" and "line_holds k t" and "plain keys" and "length t + length keys < 50"
  shows "\<exists>c line len. handle_all (shell_on_input env) keys k = Some (k\<lparr>k_console := c, k_line := line, k_len := len\<rparr>) \<and>
    prints keys (k_console k) c \<and> line_holds (k\<lparr>k_console := c, k_line := line, k_len := len\<rparr>) (t @ keys)"
  using assms
proof (induction keys arbitrary: k t)
  case Nil
  then show ?case using prints_nothing
    by (intro exI [of _ "k_console k"] exI [of _ "k_line k"] exI [of _ "k_len k"]) simp
next
  case (Cons key keys)
  have key: "key \<noteq> 0" "key \<noteq> 8" "key \<noteq> 10" "key \<noteq> 13" "key \<noteq> 0x7f" "plain keys"
    using Cons.prems(3) by (auto simp: plain_def)
  have e: "edit t key = t @ [key]" using key by simp
  obtain c line where
    1: "shell_on_input env key k = Some (k\<lparr>k_console := c, k_line := line, k_len := int (length (t @ [key]))\<rparr>)" "console_ok c"
      "line_holds (k\<lparr>k_console := c, k_line := line, k_len := int (length (t @ [key]))\<rparr>) (t @ [key])"
    using shell_on_input_edit [OF Cons.prems(1,2) key(1,3,4), of env] Cons.prems(4) unfolding e by auto
  let ?k = "k\<lparr>k_console := c, k_line := line, k_len := int (length (t @ [key]))\<rparr>"
  have p: "prints [key] (k_console k) c"
    using kernel_putchar_prints [OF Cons.prems(1) key(2,5)] shell_on_input_console [OF 1(1) key(3,4)] by auto
  have "console_ok (k_console ?k)" using 1(2) by simp
  from Cons.IH [OF this 1(3) key(6)] Cons.prems(4) obtain c' line' len' where
    "handle_all (shell_on_input env) keys ?k = Some (?k\<lparr>k_console := c', k_line := line', k_len := len'\<rparr>)" "prints keys c c'"
    "line_holds (?k\<lparr>k_console := c', k_line := line', k_len := len'\<rparr>) ((t @ [key]) @ keys)"
    by auto
  then show ?case using 1(1) prints_trans [OF p]
    by (intro exI [of _ c'] exI [of _ line'] exI [of _ len']) simp
qed

subsection \<open>cd and help\<close>

lemma cd_runs:
  assumes "path_buffer (k_dir k)" and "line_holds k y" and "words (strip y) = [map_of_char ''cd'', arg]" and "arg \<noteq> []"
  shows "runs env k y [] (with_slash (path_from (c_str (k_dir k)) arg)) (k_scheduler k)"
proof (rule runsI)
  fix c0 line hb ptrs
  assume c0: "prints [10] (k_console k) c0" and cut: "cut_into y (k_line k) line ptrs" and p0: "ptrs ! 0 = 0"
  let ?k = "k\<lparr>k_console := c0, k_line := line, k_heap := hb\<rparr>"
  have n: "1 < length (words (strip y))" "words (strip y) ! 1 = arg" using assms(3) by simp_all
  note w = cut_word [OF cut assms(2) n(1), unfolded n(2)]
  obtain z where z: "line = 99 # 100 # z"
    using cut_command [OF cut p0 assms(3)] by (cases line; cases "tl line") (auto simp: map_of_char_def split: if_splits)
  obtain d where d: "command_cd (drop (ptrs ! 1) line) (k_dir k) = Some d" "path_buffer d"
      "c_str d = with_slash (path_from (c_str (k_dir k)) arg)"
    using command_cd_ok [OF assms(1) w(3)] w(2,4) assms(4) by auto
  have "dispatch env (int (length (words (strip y)))) (map (\<lambda>a. drop a line) ptrs) ?k = Some (?k\<lparr>k_dir := d\<rparr>)"
    using w(1) d(1) z assms(3) by (simp add: dispatch_def execute__cd_def rd_def)
  then show "\<exists>c1 d. dispatch env (int (length (words (strip y)))) (map (\<lambda>a. drop a line) ptrs) ?k =
        Some (k\<lparr>k_console := c1, k_line := line, k_heap := hb, k_dir := d, k_scheduler := k_scheduler k\<rparr>) \<and>
      prints [] c0 c1 \<and> path_buffer d \<and> c_str d = with_slash (path_from (c_str (k_dir k)) arg)"
    using d(2,3) prints_nothing [OF prints_ok [OF c0]] by (intro exI [of _ c0] exI [of _ d]) simp
qed

lemma cd_home_runs:
  assumes "path_buffer (k_dir k)" and "words (strip y) = [map_of_char ''cd'']"
  shows "runs env k y [] [47] (k_scheduler k)"
proof (rule runsI)
  fix c0 line hb ptrs
  assume c0: "prints [10] (k_console k) c0" and cut: "cut_into y (k_line k) line ptrs" and p0: "ptrs ! 0 = 0"
  let ?k = "k\<lparr>k_console := c0, k_line := line, k_heap := hb\<rparr>"
  obtain z where z: "line = 99 # 100 # z"
    using cut_command [OF cut p0 assms(2)] by (cases line; cases "tl line") (auto simp: map_of_char_def split: if_splits)
  have "terminated [47, 0 :: u8]" by (simp add: terminated_def)
  then obtain d where d: "command_cd [47, 0] (k_dir k) = Some d" "path_buffer d" "c_str d = [47]"
    using command_cd_ok [OF assms(1), of "[47, 0]"] by (auto simp: path_from_def with_slash_def)
  have "dispatch env (int (length (words (strip y)))) (map (\<lambda>a. drop a line) ptrs) ?k = Some (?k\<lparr>k_dir := d\<rparr>)"
    using d(1) z assms(2) by (simp add: dispatch_def execute__cd_def rd_def)
  then show "\<exists>c1 d. dispatch env (int (length (words (strip y)))) (map (\<lambda>a. drop a line) ptrs) ?k =
        Some (k\<lparr>k_console := c1, k_line := line, k_heap := hb, k_dir := d, k_scheduler := k_scheduler k\<rparr>) \<and>
      prints [] c0 c1 \<and> path_buffer d \<and> c_str d = [47]"
    using d(2,3) prints_nothing [OF prints_ok [OF c0]] by (intro exI [of _ c0] exI [of _ d]) simp
qed


text \<open>The lines of the help.\<close>

definition help_lines :: "char list list" where
  "help_lines = ['''', ''Available commands:'', '''', ''    ls       - List files'', ''    cat file - Output file content'',
     ''    ps       - List processes'', ''    kill PID - Kill a process'', ''    run TEST - Run a test process'',
     ''    dump x   - Dump content of the memory at address x'', ''    hex x    - Dump content of the file x'',
     ''    help     - Prints this message'', '''']"

definition help_text :: "u8 list" where
  "help_text = concat (map (\<lambda>s. map_of_char s @ [10]) help_lines)"

fun print_lines :: "char list list \<Rightarrow> kernel \<Rightarrow> kernel option" where
  "print_lines [] k = Some k"
| "print_lines (s # ss) k = do { k \<leftarrow> println s k; print_lines ss k }"

lemma print_lines_rules: "print_lines [] = Some" "print_lines (s # ss) = (\<lambda>k. Option.bind (println s k) (print_lines ss))"
  by (simp_all add: fun_eq_iff)

lemma print_lines_prints:
  assumes "console_ok (k_console k)" and "\<forall>s \<in> set ss. 0 \<notin> set (map_of_char s)"
  shows "\<exists>c. print_lines ss k = Some (k\<lparr>k_console := c\<rparr>) \<and> prints (concat (map (\<lambda>s. map_of_char s @ [10]) ss)) (k_console k) c"
  using assms
proof (induction ss arbitrary: k)
  case Nil
  then show ?case using prints_nothing by (intro exI [of _ "k_console k"]) simp
next
  case (Cons s ss)
  obtain c where c: "println s k = Some (k\<lparr>k_console := c\<rparr>)" "prints (map_of_char s @ [10]) (k_console k) c"
    using println_prints [OF Cons.prems(1), of s] Cons.prems(2) by auto
  have "console_ok (k_console (k\<lparr>k_console := c\<rparr>))" using prints_ok [OF c(2)] by simp
  from Cons.IH [OF this] Cons.prems(2) obtain c' where c': "print_lines ss (k\<lparr>k_console := c\<rparr>) = Some (k\<lparr>k_console := c'\<rparr>)"
      "prints (concat (map (\<lambda>s. map_of_char s @ [10]) ss)) c c'"
    by auto
  show ?case using c(1) c'(1) prints_trans [OF c(2) c'(2)] by (intro exI [of _ c']) simp
qed

lemma command_help_ok:
  assumes "console_ok (k_console k)"
  shows "\<exists>c. command_help k = Some (k\<lparr>k_console := c\<rparr>) \<and> prints help_text (k_console k) c"
proof -
  have "command_help k = print_lines help_lines k"
    by (simp add: command_help_def help_lines_def print_lines_rules)
  moreover have "\<forall>s \<in> set help_lines. 0 \<notin> set (map_of_char s)" by (simp add: help_lines_def map_of_char_def)
  ultimately show ?thesis using print_lines_prints [OF assms, of help_lines] by (simp add: help_text_def)
qed

lemma help_runs:
  assumes "path_buffer (k_dir k)" and "words (strip y) = map_of_char ''help'' # ws"
  shows "runs env k y help_text (c_str (k_dir k)) (k_scheduler k)"
proof (rule runsI)
  fix c0 line hb ptrs
  assume c0: "prints [10] (k_console k) c0" and cut: "cut_into y (k_line k) line ptrs" and p0: "ptrs ! 0 = 0"
  let ?k = "k\<lparr>k_console := c0, k_line := line, k_heap := hb\<rparr>"
  have l: "c_str line = map_of_char ''help''" by (rule cut_command [OF cut p0 assms(2)])
  obtain z where z: "line = 104 # 101 # 108 # z"
    using l by (cases line; cases "tl line"; cases "tl (tl line)") (auto simp: map_of_char_def split: if_splits)
  obtain c1 where c1: "command_help ?k = Some (?k\<lparr>k_console := c1\<rparr>)" "prints help_text c0 c1"
    using command_help_ok [of ?k] prints_ok [OF c0] by auto
  have "dispatch env (int (length (words (strip y)))) (map (\<lambda>a. drop a line) ptrs) ?k = Some (?k\<lparr>k_console := c1\<rparr>)"
    using c1(1) z by (simp add: dispatch_def rd_def)
  then show "\<exists>c1 d. dispatch env (int (length (words (strip y)))) (map (\<lambda>a. drop a line) ptrs) ?k =
        Some (k\<lparr>k_console := c1, k_line := line, k_heap := hb, k_dir := d, k_scheduler := k_scheduler k\<rparr>) \<and>
      prints help_text c0 c1 \<and> path_buffer d \<and> c_str d = c_str (k_dir k)"
    using c1(2) assms(1) by (intro exI [of _ c1] exI [of _ "k_dir k"]) simp
qed

subsection \<open>ls\<close>

text \<open>Without an argument the current directory is the path. The buffer is zeroed, so the terminator is there though the copy
  leaves it out.\<close>

lemma append_to_zeros:
  assumes "terminated s" and "length (c_str s) \<le> 99"
  shows "append_string (Some (replicate 100 0)) 100 (Some s) (of_nat (length (c_str s))) =
    Some (Some (c_str s @ replicate (100 - length (c_str s)) 0))"
proof -
  let ?n = "length (c_str s)"
  have e: "scan_end (replicate 100 0) 0 100 = Some 0"
    using scan_end_found [of "replicate 100 0" 0 100] by (simp add: terminated_def)
  have u: "unat (of_nat ?n :: u32) = ?n" using assms(2) by (intro unat_of_nat_u32) simp
  then have sn: "sint (of_nat ?n :: u32) = int ?n" using sint_u32_small [of "of_nat ?n"] assms(2) by simp
  have s99: "sint (99 :: u32) = 99" by simp
  have ls: "?n \<le> length s" using terminated_length [OF assms(1)] by simp
  have mc: "mem_copy (Some (replicate 100 0)) 99 (Some s) (int ?n) = Some (int ?n, Some (take ?n s @ drop ?n (replicate 100 0)))"
    using mem_copy_min [of 99 "int ?n" s "replicate 100 0"] ls assms(2) by simp
  have l: "length (c_str s @ replicate (100 - ?n) 0) = 100" using assms(2) by simp
  have "(c_str s @ replicate (100 - ?n) 0) ! 99 = 0" using assms(2) by (simp add: nth_append)
  then have up: "(c_str s @ replicate (100 - ?n) 0)[99 := 0] = c_str s @ replicate (100 - ?n) 0" by (metis list_update_id)
  have w: "wr (c_str s @ replicate (100 - ?n) 0) 99 0 = Some (c_str s @ replicate (100 - ?n) 0)"
    using l up by (simp add: wr_in)
  show ?thesis using w by (simp add: append_string_def e mc sn s99 c_str_prefix Let_def)
qed

text \<open>The path that \<^verbatim>\<open>ls\<close> lists.\<close>

definition ls_path :: "u8 list \<Rightarrow> u8 list list \<Rightarrow> u8 list" where
  "ls_path dir args = (case args of [] \<Rightarrow> dir | a # _ \<Rightarrow> path_from dir a)"

text \<open>The directory behind a path is the root, with the paths of the mounts, or on the volume of a TinyFS mount.\<close>

definition lists :: "router \<Rightarrow> u8 list \<Rightarrow> u8 list \<Rightarrow> bool" where
  "lists rt p out \<longleftrightarrow> (\<exists>ms. mount_table rt = table_of ms \<and> length ms \<le> 8 \<and> (\<forall>m \<in> set ms. mount_ok m) \<and>
     (p = [47] \<and> out = pack 2048 (map (\<lambda>m. take 63 (c_str (snd m))) ms) \<or>
      (\<exists>d. path_ok (p @ [0]) \<and> 0 \<notin> set p \<and> route ms (p @ [0]) = Some (FS_TYPE__TINY_FS, d) \<and> length (take 63 (c_str d)) \<le> length p \<and>
         fs_sound (router_volume rt) \<and> (\<forall>x \<in> set (dir_of (router_volume rt)). case x of None \<Rightarrow> True | Some e \<Rightarrow> terminated (fe_name e)) \<and>
         out = pack 2048 (map fst (List.map_filter id (files (router_volume rt)))))))"

lemma path_ok_c_str: "terminated q \<Longrightarrow> path_ok (c_str q @ [0]) \<Longrightarrow> path_ok q"
  using c_str_append_null [OF c_str_no_null, of q "[]"] by (simp add: path_ok_def)

lemma route_c_str: "route ms (c_str q @ [0]) = route ms q"
  using c_str_append_null [OF c_str_no_null, of q "[]"] by (simp add: route_def)

lemma get_list_ok:
  assumes "lists rt (c_str q) out" and "terminated q" and "length buf = 2048"
  shows "get_list_of_files rt q buf 2048 = Some (int (length out), out @ drop (length out) buf)"
proof -
  obtain ms where ms: "mount_table rt = table_of ms" "length ms \<le> 8" "\<forall>m \<in> set ms. mount_ok m"
      "c_str q = [47] \<and> out = pack 2048 (map (\<lambda>m. take 63 (c_str (snd m))) ms) \<or>
      (\<exists>d. path_ok (c_str q @ [0]) \<and> 0 \<notin> set (c_str q) \<and> route ms (c_str q @ [0]) = Some (FS_TYPE__TINY_FS, d) \<and> length (take 63 (c_str d)) \<le> length (c_str q) \<and>
         fs_sound (router_volume rt) \<and> (\<forall>x \<in> set (dir_of (router_volume rt)). case x of None \<Rightarrow> True | Some e \<Rightarrow> terminated (fe_name e)) \<and>
         out = pack 2048 (map fst (List.map_filter id (files (router_volume rt)))))"
    using assms(1) unfolding lists_def by blast
  have b: "buf \<noteq> []" "int (length buf) = 2048" using assms(3) by auto
  obtain z where z: "q = c_str q @ 0 # z" using c_str_decomp [OF assms(2)] by blast
  from ms(4) show ?thesis
  proof (elim disjE conjE exE)
    assume h: "c_str q = [47]" "out = pack 2048 (map (\<lambda>m. take 63 (c_str (snd m))) ms)"
    have "c_str q @ 0 # z = 47 # 0 # z" unfolding h(1) by simp
    with z have "q = 47 # 0 # z" by (rule trans)
    then have "get_list_of_files rt q buf 2048 = list_mounts rt buf 2048" by (simp add: get_list_of_files_def rd_def)
    then show ?thesis using list_mounts_ok [OF ms(1-3) b(1), of out] b(2) h(2) assms(3) by simp
  next
    fix d assume h: "path_ok (c_str q @ [0])" "route ms (c_str q @ [0]) = Some (FS_TYPE__TINY_FS, d)" "length (take 63 (c_str d)) \<le> length (c_str q)"
      "fs_sound (router_volume rt)" "\<forall>x \<in> set (dir_of (router_volume rt)). case x of None \<Rightarrow> True | Some e \<Rightarrow> terminated (fe_name e)"
      "out = pack 2048 (map fst (List.map_filter id (files (router_volume rt))))"
    have p: "path_ok q" "route ms q = Some (FS_TYPE__TINY_FS, d)"
      using path_ok_c_str [OF assms(2) h(1)] h(2) by (simp_all add: route_c_str)
    have "length (take 63 (c_str d)) < length q" using h(3) terminated_length [OF assms(2)] by linarith
    from get_list_routed [OF ms(1-3) p this, of buf 2048]
    have "get_list_of_files rt q buf 2048 = list_tinyfs (router_volume rt) buf 2048" .
    then show ?thesis using list_tinyfs_ok [OF h(4,5) b(1), of out] b(2) h(6) assms(3) by simp
  qed
qed


lemma ls_path_ok:
  assumes "path_buffer dir" and "argc > 1 \<Longrightarrow> 1 < length argv \<and> terminated (argv ! 1) \<and> c_str (argv ! 1) = a \<and> a \<noteq> [] \<and> length a \<le> 99"
  shows "\<exists>P. (if argc > 1 then do { arg \<leftarrow> rd argv 1; absolute_path dir arg }
       else do {
         n \<leftarrow> strlen_unsafe (Some dir);
         p \<leftarrow> append_string (Some (replicate 100 0)) 100 (Some dir) (of_nat n);
         p
       }) = Some P \<and> path_buffer P \<and> c_str P = (if argc > 1 then path_from (c_str dir) a else c_str dir)"
proof (cases "argc > 1")
  case True
  note h = assms(2) [OF True]
  then show ?thesis using True absolute_path_ok [OF assms(1), of "argv ! 1"] by (simp add: rd_in)
next
  case False
  have d: "terminated dir" "length (c_str dir) \<le> 99"
    using assms(1) terminated_length [of dir] by (simp_all add: path_buffer_def)
  let ?P = "c_str dir @ replicate (100 - length (c_str dir)) 0"
  have r: "replicate (100 - length (c_str dir)) 0 = 0 # replicate (99 - length (c_str dir)) (0 :: u8)"
    using d(2) by (simp flip: replicate_Suc add: Suc_diff_le)
  have "strlen_unsafe (Some dir) = Some (length (c_str dir))" using strlen_unsafe_eq [OF d(1)] d(2) by simp
  moreover have "c_str ?P = c_str dir" unfolding r by (rule c_str_append_null [OF c_str_no_null])
  moreover have "path_buffer ?P" using d(2) unfolding path_buffer_def r by (simp add: terminated_def)
  ultimately show ?thesis using False append_to_zeros [OF d] by (intro exI [of _ ?P]) simp
qed

definition ls_text :: "u8 list \<Rightarrow> u8 list \<Rightarrow> u8 list" where
  "ls_text p out = 10 # map_of_char ''[ls] path: '' @ p @ [32, 10, 10] @ map (\<lambda>b. if b = 0 then 10 else b) out @ [10]"

lemma lists_length: "lists rt p out \<Longrightarrow> length out \<le> 2048"
  unfolding lists_def by (auto simp: length_pack)

lemma execute__ls_ok:
  assumes "console_ok (k_console k)" and g: "\<forall>n. length (env_garbage env n) = n" and "path_buffer (k_dir k)"
    and args: "argc > 1 \<Longrightarrow> 1 < length argv \<and> terminated (argv ! 1) \<and> c_str (argv ! 1) = a \<and> a \<noteq> [] \<and> length a \<le> 99"
    and p: "p = (if argc > 1 then path_from (c_str (k_dir k)) a else c_str (k_dir k))"
    and "lists (k_router k) p out" and "8 \<notin> set out" and "0x7f \<notin> set out"
  shows "\<exists>c. execute__ls env argc argv k = Some (k\<lparr>k_console := c\<rparr>) \<and> prints (ls_text p out) (k_console k) c"
proof -
  obtain P where P: "(if argc > 1 then do { arg \<leftarrow> rd argv 1; absolute_path (k_dir k) arg }
       else do { n \<leftarrow> strlen_unsafe (Some (k_dir k)); p \<leftarrow> append_string (Some (replicate 100 0)) 100 (Some (k_dir k)) (of_nat n); p }) = Some P"
      "path_buffer P" "c_str P = p"
    using ls_path_ok [OF assms(3) args] unfolding p by blast
  have tP: "terminated P" "length (c_str P) \<le> 99" using P(2) terminated_length [of P] by (simp_all add: path_buffer_def)
  have f: "framed ''[ls] path: %s '' = (10 # map_of_char ''[ls] path: '') @ 37 # 115 # [32, 10, 10] @ [0]"
    by (simp add: framed_def map_of_char_def)
  obtain c1 where c1: "printf env (framed ''[ls] path: %s '') [Arg_Str (Some P)] k = Some (k\<lparr>k_console := c1\<rparr>)"
      "prints ((10 # map_of_char ''[ls] path: '') @ p @ [32, 10, 10]) (k_console k) c1"
    using printf_str [OF assms(1), of env "10 # map_of_char ''[ls] path: ''" "[32, 10, 10]" P] g tP
    unfolding f P(3) by (auto simp: map_of_char_def)
  let ?g = "env_garbage env 2048" and ?n = "length out"
  have gl: "get_list_of_files (k_router k) P ?g 2048 = Some (int ?n, out @ drop ?n ?g)"
    using get_list_ok [of "k_router k" P out ?g] assms(6) tP(1) g P(3) by simp
  let ?buf = "out @ drop ?n ?g" and ?f = "\<lambda>b :: u8. if b = 0 then 10 else b"
  have tk: "take ?n ?buf = out" by simp
  have "\<forall>b \<in> set (take ?n ?buf). ?f b \<noteq> 8 \<and> ?f b \<noteq> 0x7f" using assms(7,8) unfolding tk by auto
  then obtain c2 where c2: "for_loop 0 ?n (\<lambda>i c. do { b \<leftarrow> rd ?buf i; kernel_putchar (?f b) c }) c1 = Some c2"
      "prints (map ?f out) c1 c2"
    using putchar_loop_prints [OF prints_ok [OF c1(2)], of ?n ?buf ?f] unfolding tk by auto
  obtain c3 where c3: "println '''' (k\<lparr>k_console := c2\<rparr>) = Some (k\<lparr>k_console := c3\<rparr>)" "prints [10] c2 c3"
    using println_prints [of "k\<lparr>k_console := c2\<rparr>" "''''"] prints_ok [OF c2(2)] by (auto simp: map_of_char_def)
  have "execute__ls env argc argv k = Some (k\<lparr>k_console := c3\<rparr>)"
    unfolding execute__ls_def get_current_dir_def Let_def P(1) Option.bind_lunit c1(1)
    using gl c2(1) c3(1) by (simp add: on_console_def)
  moreover have "prints (ls_text p out) (k_console k) c3"
    using prints_trans [OF prints_trans [OF c1(2) c2(2)] c3(2)] by (simp add: ls_text_def)
  ultimately show ?thesis by blast
qed

lemma ls_runs:
  assumes "\<forall>n. length (env_garbage env n) = n" and "path_buffer (k_dir k)" and "line_holds k y"
    and "words (strip y) = map_of_char ''ls'' # args" and "[] \<notin> set args"
    and "lists (k_router k) (ls_path (c_str (k_dir k)) args) out" and "8 \<notin> set out" and "0x7f \<notin> set out"
  shows "runs env k y (ls_text (ls_path (c_str (k_dir k)) args) out) (c_str (k_dir k)) (k_scheduler k)"
proof (rule runsI)
  fix c0 line hb ptrs
  assume c0: "prints [10] (k_console k) c0" and cut: "cut_into y (k_line k) line ptrs" and p0: "ptrs ! 0 = 0"
  let ?k = "k\<lparr>k_console := c0, k_line := line, k_heap := hb\<rparr>" and ?argv = "map (\<lambda>a. drop a line) ptrs" and ?argc = "int (length (words (strip y)))"
  obtain z where z: "line = 108 # z"
    using cut_command [OF cut p0 assms(4)] by (cases line) (auto simp: map_of_char_def split: if_splits)
  have a1: "1 < length ?argv \<and> terminated (?argv ! 1) \<and> c_str (?argv ! 1) = hd args \<and> hd args \<noteq> [] \<and> length (hd args) \<le> 99" if "?argc > 1"
  proof -
    have n: "1 < length (words (strip y))" "1 < length ptrs" using that cut by (simp_all add: cut_into_def)
    obtain a as where a: "args = a # as" using n(1) assms(4) by (cases args) auto
    then have "words (strip y) ! 1 = hd args" "hd args \<noteq> []" using assms(4,5) by auto
    then show ?thesis using cut_word [OF cut assms(3) n(1)] n(2) by simp
  qed
  have k: "console_ok (k_console ?k)" "path_buffer (k_dir ?k)"
      "ls_path (c_str (k_dir k)) args = (if ?argc > 1 then path_from (c_str (k_dir ?k)) (hd args) else c_str (k_dir ?k))"
      "lists (k_router ?k) (ls_path (c_str (k_dir k)) args) out"
    using prints_ok [OF c0] assms(2,4,6) by (cases args; simp add: ls_path_def)+
  obtain c1 where c1: "execute__ls env ?argc ?argv ?k = Some (?k\<lparr>k_console := c1\<rparr>)"
      "prints (ls_text (ls_path (c_str (k_dir k)) args) out) c0 c1"
    using execute__ls_ok [of ?k env ?argc ?argv, OF k(1) assms(1) k(2) a1 k(3,4) assms(7,8)] by auto
  have "dispatch env ?argc ?argv ?k = Some (?k\<lparr>k_console := c1\<rparr>)" using c1(1) z by (simp add: dispatch_def rd_def)
  then show "\<exists>c1 d. dispatch env ?argc ?argv ?k =
        Some (k\<lparr>k_console := c1, k_line := line, k_heap := hb, k_dir := d, k_scheduler := k_scheduler k\<rparr>) \<and>
      prints (ls_text (ls_path (c_str (k_dir k)) args) out) c0 c1 \<and> path_buffer d \<and> c_str d = c_str (k_dir k)"
    using c1(2) assms(2) by (intro exI [of _ c1] exI [of _ "k_dir k"]) simp
qed


subsection \<open>run\<close>

definition run_text :: "nat \<Rightarrow> u8 list" where
  "run_text i = 10 # map_of_char ''Executed command run with arg: '' @ dec_text i @ [32, 10]"

text \<open>The processes after \<^verbatim>\<open>run test i\<close>: a test becomes a process, other numbers are ignored.\<close>

definition starts_test :: "env \<Rightarrow> nat \<Rightarrow> scheduler \<Rightarrow> scheduler option" where
  "starts_test env i sc =
     (if i < 5 then create_process (Some (fst (test_list env ! i))) (snd (test_list env ! i)) sc else Some sc)"

lemma run_prints:
  assumes "console_ok (k_console k)" and "length (env_garbage env 256) = 256" and "i < 16"
  shows "\<exists>c. printf env (10 # map_of_char ''Executed command run with arg: %d '' @ [10, 0]) [Arg_Int (of_int (int i))] k = Some (k\<lparr>k_console := c\<rparr>) \<and>
    prints (run_text i) (k_console k) c"
proof -
  let ?ds = "map Lit (10 # map_of_char ''Executed command run with arg: '') @ [Dec False 0, Lit 32, Lit 10]"
  have f: "10 # map_of_char ''Executed command run with arg: %d '' @ [10, 0] = concat (map directive_text ?ds) @ [0]"
    unfolding map_append concat_append text_lits by (simp add: map_of_char_def width_text_def)
  note w = small_arg [OF assms(3)]
  show ?thesis unfolding f
  proof (rule printf_out [OF assms(1,2)])
    show "list_all printable ?ds" by (simp add: printable_def map_of_char_def)
    show "list_all arg_ok [Arg_Int (of_int (int i))]" using w(2) by (simp add: arg_ok_def)
    show "rendered ?ds [Arg_Int (of_int (int i))] = Some (run_text i)"
      using w(1) unfolding rendered_lits by (simp add: padding_def run_text_def)
    show "0 \<notin> set (run_text i)" using dec_text_digits by (simp add: run_text_def map_of_char_def)
    show "length (run_text i) \<le> 255" using assms(3) by (simp add: run_text_def map_of_char_def dec_text_small)
  qed
qed

lemma command_run_test_ok:
  assumes "console_ok (k_console k)" and "length (env_garbage env 256) = 256" and "atoi (Some num) = Some (int i)" and "i < 16"
    and "starts_test env i (k_scheduler k) = Some sc"
  shows "\<exists>c. command_run_test env num k = Some (k\<lparr>k_console := c, k_scheduler := sc\<rparr>) \<and> prints (run_text i) (k_console k) c"
proof -
  obtain c where c: "printf env (10 # map_of_char ''Executed command run with arg: %d '' @ [10, 0]) [Arg_Int (of_int (int i))] k = Some (k\<lparr>k_console := c\<rparr>)"
      "prints (run_text i) (k_console k) c"
    using run_prints [OF assms(1,2,4)] by blast
  have u: "unat (of_int (int i) :: u32) = i" using assms(4) by (simp add: unat_of_nat)
  have n: "length (test_list env) = 5" by (simp add: test_list_def)
  have "command_run_test env num k = Some (k\<lparr>k_console := c, k_scheduler := sc\<rparr>)"
    unfolding command_run_test_def assms(3) Option.bind_lunit c(1) u n
    using assms(5) n by (cases "test_list env ! i") (auto simp: starts_test_def rd_in split: if_splits)
  then show ?thesis using c(2) by blast
qed

lemma run_test_runs:
  assumes "\<forall>n. length (env_garbage env n) = n" and "path_buffer (k_dir k)" and "line_holds k y"
    and ws: "words (strip y) = [map_of_char ''run'', map_of_char ''test'', num]" and "length (filter dec_char num) \<le> 9"
    and "decimal (filter dec_char num) = int i" and "i < 16" and sc: "starts_test env i (k_scheduler k) = Some sc"
  shows "runs env k y (run_text i) (c_str (k_dir k)) sc"
proof (rule runsI)
  fix c0 line hb ptrs
  assume c0: "prints [10] (k_console k) c0" and cut: "cut_into y (k_line k) line ptrs" and p0: "ptrs ! 0 = 0"
  let ?k = "k\<lparr>k_console := c0, k_line := line, k_heap := hb\<rparr>" and ?argv = "map (\<lambda>a. drop a line) ptrs" and ?argc = "int (length (words (strip y)))"
  obtain z where z: "line = 114 # z"
    using cut_command [OF cut p0 ws] by (cases line) (auto simp: map_of_char_def split: if_splits)
  have n: "1 < length (words (strip y))" "2 < length (words (strip y))" "words (strip y) ! 1 = map_of_char ''test''" "words (strip y) ! 2 = num" "?argc = 3"
    unfolding ws by simp_all
  note w1 = cut_word [OF cut assms(3) n(1), unfolded n(3)] and w2 = cut_word [OF cut assms(3) n(2), unfolded n(4)]
  have "terminated (c_lit ''test'')" "c_str (c_lit ''test'') = map_of_char ''test''"
    by (simp_all add: c_lit_def map_of_char_def terminated_def)
  then have s: "strncmp (drop (ptrs ! 1) line) (c_lit ''test'') 30 = Some 0"
    using w1(2,3) by (simp add: strncmp_zero)
  have a: "atoi (Some (drop (ptrs ! 2) line)) = Some (int i)"
    unfolding atoi_reads_decimal_ok [OF w2(3)] w2(2) using assms(5,6) w2(4) by simp
  have g: "length (env_garbage env 256) = 256" using assms(1) by simp
  obtain c1 where c1: "command_run_test env (drop (ptrs ! 2) line) ?k = Some (?k\<lparr>k_console := c1, k_scheduler := sc\<rparr>)" "prints (run_text i) c0 c1"
    using command_run_test_ok [of ?k, OF _ g a assms(7), of sc] prints_ok [OF c0] sc by auto
  have "dispatch env ?argc ?argv ?k = Some (?k\<lparr>k_console := c1, k_scheduler := sc\<rparr>)"
    unfolding n(5) using c1(1) z s w1(1) w2(1) by (simp add: dispatch_def execute__run_def rd_def)
  then show "\<exists>c1 d. dispatch env ?argc ?argv ?k =
        Some (k\<lparr>k_console := c1, k_line := line, k_heap := hb, k_dir := d, k_scheduler := sc\<rparr>) \<and>
      prints (run_text i) c0 c1 \<and> path_buffer d \<and> c_str d = c_str (k_dir k)"
    using c1(2) assms(2) by (intro exI [of _ c1] exI [of _ "k_dir k"]) simp
qed

subsection \<open>The specification of the shell\<close>

text \<open>The state is the current directory and the processes, the files are those of \<open>rt\<close>. The words of a line decide.\<close>

inductive replies :: "env \<Rightarrow> router \<Rightarrow> u8 list \<Rightarrow> u8 list \<times> scheduler \<Rightarrow> u8 list \<Rightarrow> u8 list \<times> scheduler \<Rightarrow> bool" for env rt where
  Reply_nothing: "replies env rt [] (d, sc) [] (d, sc)"
| Reply_help: "words (strip y) = map_of_char ''help'' # ws \<Longrightarrow> replies env rt y (d, sc) help_text (d, sc)"
| Reply_home: "words (strip y) = [map_of_char ''cd''] \<Longrightarrow> replies env rt y (d, sc) [] ([47], sc)"
| Reply_cd: "words (strip y) = [map_of_char ''cd'', a] \<Longrightarrow> a \<noteq> [] \<Longrightarrow> replies env rt y (d, sc) [] (with_slash (path_from d a), sc)"
| Reply_ls: "words (strip y) = map_of_char ''ls'' # args \<Longrightarrow> [] \<notin> set args \<Longrightarrow> lists rt (ls_path d args) out \<Longrightarrow> set out \<inter> {8, 0x7f} = {} \<Longrightarrow>
    replies env rt y (d, sc) (ls_text (ls_path d args) out) (d, sc)"
| Reply_cat: "words (strip y) = [map_of_char ''cat'', a] \<Longrightarrow> a \<noteq> [] \<Longrightarrow> shown_at rt (path_from d a) bytes \<Longrightarrow> length bytes \<le> 1023 \<Longrightarrow> 0x7f \<notin> set bytes \<Longrightarrow>
    replies env rt y (d, sc) (cat_text (path_from d a) bytes) (d, sc)"
| Reply_ps: "words (strip y) = [map_of_char ''ps''] \<Longrightarrow> length (process_list sc) = 16 \<Longrightarrow> list_all listable (process_list sc) \<Longrightarrow>
    replies env rt y (d, sc) (ps_text (process_list sc)) (d, sc)"
| Reply_kill: "words (strip y) = [map_of_char ''kill'', num] \<Longrightarrow> length (filter dec_char num) \<le> 9 \<Longrightarrow> decimal (filter dec_char num) = int i \<Longrightarrow> i < 16 \<Longrightarrow>
    kill_process (int i) sc = Some sc' \<Longrightarrow> replies env rt y (d, sc) (kill_text i) (d, sc')"
| Reply_run: "words (strip y) = [map_of_char ''run'', map_of_char ''test'', num] \<Longrightarrow> length (filter dec_char num) \<le> 9 \<Longrightarrow>
    decimal (filter dec_char num) = int i \<Longrightarrow> i < 16 \<Longrightarrow> starts_test env i sc = Some sc' \<Longrightarrow> replies env rt y (d, sc) (run_text i) (d, sc')"
| Reply_dump: "words (strip y) = [map_of_char ''dump'', hex_digits len n] \<Longrightarrow> len \<le> 7 \<Longrightarrow> 0 \<le> n \<Longrightarrow> n < 16 ^ len \<Longrightarrow>
    replies env rt y (d, sc) (dump_text (env_memory env) n) (d, sc)"

text \<open>A line at the prompt: it is echoed, answered, and the prompt follows.\<close>

definition answers :: "env \<Rightarrow> router \<Rightarrow> u8 list \<Rightarrow> u8 list \<times> scheduler \<Rightarrow> u8 list \<Rightarrow> u8 list \<times> scheduler \<Rightarrow> bool" where
  "answers env rt y st out st' \<longleftrightarrow> plain y \<and> length y < 50 \<and> spaces y = [] \<and>
     (\<exists>txt. replies env rt y st txt st' \<and> out = y @ 10 # txt @ prompt_text (fst st'))"

text \<open>A kernel at its prompt.\<close>

definition at_prompt :: "env \<Rightarrow> router \<Rightarrow> nat list \<Rightarrow> u8 list \<times> scheduler \<Rightarrow> kernel \<Rightarrow> bool" where
  "at_prompt env rt blocks st k \<longleftrightarrow> console_ok (k_console k) \<and> (\<forall>n. length (env_garbage env n) = n) \<and> path_buffer (k_dir k) \<and>
     line_holds k [] \<and> heap_ok (k_heap k) \<and> heap_free_blocks (k_heap k) = blocks \<and> blocks \<noteq> [] \<and>
     c_str (k_dir k) = fst st \<and> k_router k = rt \<and> k_scheduler k = snd st"

lemma replies_runs:
  assumes "replies env rt y (d, sc) txt (d', sc')" and "\<forall>n. length (env_garbage env n) = n" and "path_buffer (k_dir k)" and "line_holds k y"
    and "c_str (k_dir k) = d" and "k_router k = rt" and "k_scheduler k = sc"
  shows "runs env k y txt d' sc'"
  using assms(1)
proof (cases rule: replies.cases)
  case Reply_nothing
  then show ?thesis using empty_runs [OF assms(3)] assms(4-7) by auto
next
  case (Reply_help ws)
  then show ?thesis using help_runs [OF assms(3) Reply_help(4)] assms(5-7) by auto
next
  case Reply_home
  then show ?thesis using cd_home_runs [OF assms(3) Reply_home(4)] assms(5-7) by auto
next
  case (Reply_cd a)
  then show ?thesis using cd_runs [OF assms(3,4) Reply_cd(4,5)] assms(5-7) by auto
next
  case (Reply_ls args out)
  then show ?thesis using ls_runs [OF assms(2-4) Reply_ls(4,5), of out] assms(5-7) by auto
next
  case (Reply_cat a bytes)
  then show ?thesis using cat_runs [OF assms(2-4) Reply_cat(4,5), of bytes] assms(5-7) by auto
next
  case Reply_ps
  then show ?thesis using ps_runs [OF assms(2,3) Reply_ps(4)] assms(5-7) by auto
next
  case (Reply_kill num i)
  then show ?thesis using kill_runs [OF assms(2-4) Reply_kill(3-6), of sc'] assms(5-7) by auto
next
  case (Reply_run num i)
  then show ?thesis using run_test_runs [OF assms(2-4) Reply_run(3-6), of sc'] assms(5-7) by auto
next
  case (Reply_dump len n)
  then show ?thesis using dump_runs [OF assms(3,4) Reply_dump(4-7)] assms(5-7) by auto
qed

text \<open>The line, then Enter.\<close>

definition type_line :: "env \<Rightarrow> u8 list \<Rightarrow> kernel \<Rightarrow> kernel option" where
  "type_line env y = handle_all (shell_on_input env) (y @ [10])"

lemma type_line_ok:
  assumes "at_prompt env rt blocks st k" and "answers env rt y st out st'"
  shows "\<exists>k'. type_line env y k = Some k' \<and> prints out (k_console k) (k_console k') \<and> at_prompt env rt blocks st' k'"
proof -
  obtain d sc d' sc' where st: "st = (d, sc)" "st' = (d', sc')" by (cases st, cases st')
  have a: "console_ok (k_console k)" "\<forall>n. length (env_garbage env n) = n" "path_buffer (k_dir k)" "line_holds k []"
      "heap_ok (k_heap k)" "c_str (k_dir k) = d" "k_router k = rt" "k_scheduler k = sc"
    using assms(1) unfolding st at_prompt_def by simp_all
  obtain b bs where b: "blocks = b # bs" "heap_free_blocks (k_heap k) = b # bs"
    using assms(1) unfolding at_prompt_def by (metis neq_Nil_conv)
  obtain reply where y: "plain y" "length y < 50" "spaces y = []" "replies env rt y (d, sc) reply (d', sc')" "out = y @ 10 # reply @ prompt_text d'"
    using assms(2) unfolding st answers_def by auto
  obtain c line len where t: "handle_all (shell_on_input env) y k = Some (k\<lparr>k_console := c, k_line := line, k_len := len\<rparr>)"
      "prints y (k_console k) c" "line_holds (k\<lparr>k_console := c, k_line := line, k_len := len\<rparr>) y"
    using typed_ok [OF a(1,4) y(1), of env] y(2) by auto
  let ?k = "k\<lparr>k_console := c, k_line := line, k_len := len\<rparr>"
  have r: "runs env ?k y reply d' sc'" by (rule replies_runs [OF y(4) a(2) _ t(3)]) (use a in simp_all)
  have "console_ok (k_console ?k)" "heap_ok (k_heap ?k)" "heap_free_blocks (k_heap ?k) = b # bs"
    using prints_ok [OF t(2)] a(5) b(2) by simp_all
  from enter_runs [OF this(1) a(2) t(3) this(2,3) y(3) r] obtain k' where k': "shell_on_input env 10 ?k = Some k'"
      "prints (10 # reply @ prompt_text d') c (k_console k')" "line_holds k' []" "heap_ok (k_heap k')" "heap_free_blocks (k_heap k') = b # bs"
      "path_buffer (k_dir k')" "c_str (k_dir k') = d'" "k_router k' = k_router ?k" "k_scheduler k' = sc'"
    by auto
  have "type_line env y k = Some k'" unfolding type_line_def using t(1) k'(1) by (simp add: handle_all_append)
  moreover have "prints out (k_console k) (k_console k')" unfolding y(5) by (rule prints_trans [OF t(2) k'(2)])
  moreover have "at_prompt env rt blocks st' k'"
    using k'(3-9) prints_ok [OF k'(2)] a(2,7) b(1) by (simp add: at_prompt_def st)
  ultimately show ?thesis by blast
qed

interpretation sh: simulation "type_line env" "answers env rt" "\<lambda>out k k'. prints out (k_console k) (k_console k')" "at_prompt env rt blocks"
  for env rt blocks
proof unfold_locales
  fix st k y out st'
  show "at_prompt env rt blocks st k \<Longrightarrow> answers env rt y st out st' \<Longrightarrow>
      \<exists>k'. type_line env y k = Some k' \<and> prints out (k_console k) (k_console k') \<and> at_prompt env rt blocks st' k'"
    by (rule type_line_ok)
  show "at_prompt env rt blocks st k \<Longrightarrow> prints [] (k_console k) (k_console k)"
    by (simp add: at_prompt_def prints_nothing)
qed (rule prints_trans)

lemma run_lines: "run_all (type_line env) ys k = handle_all (shell_on_input env) (concat (map (\<lambda>y. y @ [10]) ys)) k"
  by (induction ys arbitrary: k) (simp_all add: handle_all_append type_line_def cong: Option.bind_cong)

text \<open>A whole session.\<close>

lemma keyboard_session_ok:
  assumes "at_prompt env rt blocks st k" and "spec_run (answers env rt) ys st out st'"
    and "map ascii (pressed p (codes cs)) = concat (map (\<lambda>y. y @ [10]) ys)"
  shows "\<exists>k'. keyboard_polls (event_on_keypress env) cs (p, k) = Some (last (p # codes cs), k') \<and>
    prints out (k_console k) (k_console k') \<and> at_prompt env rt blocks st' k'"
proof -
  have e: "event_on_keypress env = shell_on_input env" by (simp add: fun_eq_iff event_on_keypress_def)
  obtain k' where "run_all (type_line env) ys k = Some k'" "prints out (k_console k) (k_console k')" "at_prompt env rt blocks st' k'"
    using sh.all [OF assms(2,1)] by blast
  then show ?thesis unfolding keyboard_polls_eq e assms(3) run_lines [symmetric] by auto
qed

subsection \<open>The property\<close>


lemma sample_session:
  assumes "rt = \<lparr>mount_table = table_of kernel_mounts, router_volume = sample_fs\<rparr>"
  shows "spec_run (answers quiet_env rt) [map_of_char ''cd'', map_of_char ''cat mnt/a'', map_of_char ''ls''] (map_of_char ''/mnt/'', sc)
    (map_of_char ''cd'' @ 10 # prompt_text [47] @
     map_of_char ''cat mnt/a'' @ 10 # cat_text (map_of_char ''/mnt/a'') [0x78, 0x79, 0x7A] @ prompt_text [47] @
     map_of_char ''ls'' @ 10 # ls_text [47] (c_lit ''/mnt'' @ c_lit ''/vfs'' @ c_lit ''/test'') @ prompt_text [47])
    ([47], sc)"
proof -
  have w: "words (strip (map_of_char ''cd'')) = [map_of_char ''cd'']" "words (strip (map_of_char ''cat mnt/a'')) = [map_of_char ''cat'', map_of_char ''mnt/a'']"
      "words (strip (map_of_char ''ls'')) = [map_of_char ''ls'']"
    by (simp_all add: strip_def map_of_char_def words.simps)
  have "path_from [47] (map_of_char ''mnt/a'') = map_of_char ''/mnt/a''" by (simp add: path_from_def map_of_char_def)
  moreover have "file_at rt (map_of_char ''/mnt/a'') [0x78, 0x79, 0x7A]"
    using sample_file_at unfolding prompt_kernel_def assms by simp
  ultimately have c: "replies quiet_env rt (map_of_char ''cat mnt/a'') ([47], sc) (cat_text (map_of_char ''/mnt/a'') [0x78, 0x79, 0x7A]) ([47], sc)"
    using Reply_cat [OF w(2), of rt "[47]" "[0x78, 0x79, 0x7A]" quiet_env sc] by (simp add: shown_at_def map_of_char_def)
  let ?out = "c_lit ''/mnt'' @ c_lit ''/vfs'' @ c_lit ''/test''"
  have "pack 2048 (map (\<lambda>m. take 63 (c_str (snd m))) kernel_mounts) = ?out" by (simp add: c_lit_def map_of_char_def)
  then have "lists rt [47] ?out" using kernel_mounts_ok unfolding lists_def assms
    by (intro exI [of _ kernel_mounts]) simp
  moreover have "set ?out \<inter> {8, 0x7f} = {}" by (simp add: c_lit_def map_of_char_def)
  ultimately have l: "replies quiet_env rt (map_of_char ''ls'') ([47], sc) (ls_text [47] ?out) ([47], sc)"
    using Reply_ls [OF w(3), of rt "[47]" ?out quiet_env sc] by (simp add: ls_path_def)
  have ans: "answers quiet_env rt y (d, sc) (y @ 10 # reply @ prompt_text [47]) ([47], sc)"
    if "replies quiet_env rt y (d, sc) reply ([47], sc)" "plain y" "length y < 50" "spaces y = []" for y d reply
    using that by (auto simp: answers_def)
  have ty: "plain (map_of_char ''cd'')" "length (map_of_char ''cd'') < 50" "spaces (map_of_char ''cd'') = []"
      "plain (map_of_char ''cat mnt/a'')" "length (map_of_char ''cat mnt/a'') < 50" "spaces (map_of_char ''cat mnt/a'') = []"
      "plain (map_of_char ''ls'')" "length (map_of_char ''ls'') < 50" "spaces (map_of_char ''ls'') = []"
    by (simp_all add: plain_def map_of_char_def)
  note step = spec_run.step [where spec = "answers quiet_env rt"] and stop = spec_run.stop [where spec = "answers quiet_env rt"]
  note all = step [OF ans [OF Reply_home [OF w(1)] ty(1-3)] step [OF ans [OF c ty(4-6)] step [OF ans [OF l ty(7-9)] stop]]]
  show ?thesis using all [of "map_of_char ''/mnt/''"] by (simp only: append_assoc append_Cons append_Nil append_Nil2)
qed


end
