(* ===== verification/Kernel_Main.thy ===== *)
theory Kernel_Main
  imports Platform Syscalls Shell_Scripts
begin

section \<open>The main program (kernel\_main.c)\<close>

text \<open>
  The parts that \<^verbatim>\<open>kernel_c_main\<close> is made of, the iteration of its endless loop, and the states the running kernel can
  reach. What the keyboard controller and the serial port answer, the registers and the programs' system calls are
  arbitrary; every step may meet an environment of its own.
\<close>

subsection \<open>Start-up\<close>

text \<open>The sizes that the compiler gives to the types of \<^verbatim>\<open>kernel_stddef.h\<close>. A wrong one is reported, and the kernel stays there for ever.\<close>

datatype c_type = C_u8 | C_s8 | C_u16 | C_s16 | C_u32 | C_s32 | C_u64 | C_s64

definition wrong_size :: "machine \<Rightarrow> machine option" where
  "wrong_size m = do {
     let error_msg = c_lit ''!!! ERROR: Wrong datatype size !!!'';
     _ \<leftarrow> print_string_to_VGA_display_buffer 400 error_msg (length error_msg - 1) m;
     None
   }"

definition check_types :: "(c_type \<Rightarrow> nat) \<Rightarrow> machine \<Rightarrow> machine option" where
  "check_types size_of m =
     (if size_of C_u8 \<noteq> 1 then wrong_size m
      else if size_of C_s8 \<noteq> 1 then wrong_size m
      else if size_of C_u16 \<noteq> 2 then wrong_size m
      else if size_of C_s16 \<noteq> 2 then wrong_size m
      else if size_of C_u32 \<noteq> 4 then wrong_size m
      else if size_of C_s32 \<noteq> 4 then wrong_size m
      else if size_of C_u64 \<noteq> 8 then wrong_size m
      else if size_of C_s64 \<noteq> 8 then wrong_size m
      else Some m)"

text \<open>What compiler, linker and boot loader decide for the start-up.\<close>

record boot =
  boot_sizeof :: "c_type \<Rightarrow> nat"
  boot_addr :: "nat \<Rightarrow> u32"
  boot_handle :: stack_handle
  boot_test_buffer :: "u8 list"
  boot_heap_buffer :: u32
  boot_heap_stack :: "u8 list"
  boot_heap_bytes :: "u8 list"
  boot_gdt_limit :: u16
  boot_gdt_base :: u32
  boot_segments :: "nat \<Rightarrow> u32"
  boot_idt_table :: u32
  boot_handlers :: "u8 \<Rightarrow> u32"
  boot_process_stacks :: u32
  boot_process_buffer :: "u8 list"

text \<open>The size of the pointer \<^verbatim>\<open>hello_msg\<close>, not of its text, bounds what is printed.\<close>

definition say_hello :: "machine \<Rightarrow> machine option" where
  "say_hello m = print_string_to_VGA_display_buffer 400 (c_lit ''Hello from C code!'') (4 - 1) m"

text \<open>The addresses of \<^verbatim>\<open>kernel_c_main\<close>, the ends of the stack, a local variable and the message.\<close>

definition print_addresses :: "env \<Rightarrow> (nat \<Rightarrow> u32) \<Rightarrow> kernel \<Rightarrow> kernel option" where
  "print_addresses env addr k = do {
     k \<leftarrow> on_console (kernel_println ([10, 10] @ map_of_char ''Starting kernel... '' @ [10, 0])) k;
     k \<leftarrow> say env ''kernel_c_main():  entry addr      = 0x%x '' [addr 0] k;
     k \<leftarrow> say env ''kernel_c_main():  STACK_MEM_START = 0x%x '' [addr 1] k;
     k \<leftarrow> say env ''kernel_c_main():  &local_var      = 0x%x '' [addr 2] k;
     k \<leftarrow> say env ''kernel_c_main():  STACK_MEM_END   = 0x%x '' [addr 3] k;
     printf env (map_of_char ''kernel_c_main():  hello_msg       = 0x%x '' @ [10, 10, 0]) [Arg_Int (addr 4)] k
   }"

definition report_stack_unittests :: "int \<Rightarrow> kernel \<Rightarrow> kernel option" where
  "report_stack_unittests failures k =
     (if failures = 0 then println ''Stack unittests: PASSED'' k else println ''Stack unittests: FAILED'' k)"

definition report_heap_unittests :: "int \<Rightarrow> kernel \<Rightarrow> kernel option" where
  "report_heap_unittests failures k =
     (if failures = 0 then println ''Memory allocator unittests: PASSED'' k else println ''Memory allocator unittests: FAILED'' k)"

text \<open>The results of \<^verbatim>\<open>mount_fs\<close> are ignored.\<close>

definition mount_file_systems :: "router \<Rightarrow> router option" where
  "mount_file_systems rt = do {
     rt \<leftarrow> fs_router_init rt;
     (_, rt) \<leftarrow> mount_fs FS_TYPE__TINY_FS (Some (c_lit ''/mnt'')) rt;
     (_, rt) \<leftarrow> mount_fs FS_TYPE__VIRTUAL_FS (Some (c_lit ''/vfs'')) rt;
     (_, rt) \<leftarrow> mount_fs FS_TYPE__TEST_FS (Some (c_lit ''/test'')) rt;
     Some rt
   }"

text \<open>\<^verbatim>\<open>kernel_c_main\<close> up to its loop, in two parts: until the verdict on the stack, and the rest. The result of \<^verbatim>\<open>test_func\<close>, which
  only computes from its arguments, is never used; the self test of the heap leaves to the next initialisation an allocator that it
  overwrites.\<close>

definition start_console :: "env \<Rightarrow> boot \<Rightarrow> kernel \<Rightarrow> kernel option" where
  "start_console env b k = do {
     m \<leftarrow> check_types (boot_sizeof b) (con_machine (k_console k));
     m \<leftarrow> say_hello m;
     c \<leftarrow> kernel_stdio_init ((k_console k)\<lparr>con_machine := m\<rparr>);
     k \<leftarrow> print_addresses env (boot_addr b) (k\<lparr>k_console := c\<rparr>);
     failures \<leftarrow> run_unittests_stack (boot_handle b) (boot_test_buffer b);
     report_stack_unittests failures k
   }"

definition start_components :: "env \<Rightarrow> boot \<Rightarrow> idt \<times> kernel \<Rightarrow> (idt \<times> kernel) option" where
  "start_components env b st = (let (t, k) = st in do {
     failures \<leftarrow> run_unittests_heap_allocator (boot_heap_buffer b) (boot_heap_stack b) (boot_heap_bytes b) (k_heap k);
     k \<leftarrow> report_heap_unittests failures k;
     (_, hb) \<leftarrow> init_heap_memory_allocator (boot_heap_buffer b) (boot_heap_stack b) (k_heap k);
     k \<leftarrow> parse_BIOS_Data_Area env (k\<lparr>k_heap := hb\<rparr>);
     k \<leftarrow> print_GDT_table env (boot_gdt_limit b) (boot_gdt_base b) (boot_segments b) k;
     (t, k) \<leftarrow> configure_interrupt_descriptor_table env (boot_idt_table b) (boot_handlers b) (t, k);
     (t, k) \<leftarrow> print_interrupt_descriptor_table env (boot_idt_table b) (t, k);
     rt \<leftarrow> mount_file_systems (k_router k);
     k \<leftarrow> on_console (kernel_println (10 # c_lit ''Called scheduler_init()'')) (k\<lparr>k_router := rt\<rparr>);
     sc \<leftarrow> scheduler_init (boot_process_stacks b) (boot_process_buffer b) (k_scheduler k);
     k \<leftarrow> shell_init env (k\<lparr>k_scheduler := sc\<rparr>);
     Some (t, k)
   })"

definition kernel_c_main_start :: "env \<Rightarrow> boot \<Rightarrow> idt \<times> kernel \<Rightarrow> (idt \<times> kernel) option" where
  "kernel_c_main_start env b st = do { k \<leftarrow> start_console env b (snd st); start_components env b (fst st, k) }"

text \<open>What \<^verbatim>\<open>kernel_main.c\<close> defines for code that was written for a C library.\<close>

definition malloc :: "u32 \<Rightarrow> heap_bin_contex \<Rightarrow> (u32 \<times> heap_bin_contex) option" where "malloc = heap_malloc"
definition free_pointer :: "u32 \<Rightarrow> heap_bin_contex \<Rightarrow> heap_bin_contex option" where "free_pointer = heap_free"
definition puts :: "u8 list \<Rightarrow> int" where "puts string = 0"
definition putchar :: "int \<Rightarrow> int" where "putchar character = 0"
definition printf_stub :: "u8 list \<Rightarrow> printf_arg list \<Rightarrow> int" where "printf_stub format args = 0"

subsection \<open>The loop\<close>

definition tty_input_poll :: "env \<Rightarrow> u8 \<Rightarrow> u8 \<Rightarrow> kernel \<Rightarrow> kernel option" where
  "tty_input_poll env line_status data k =
     (let val = tty_read line_status data in if val \<noteq> 0xff then event_on_keypress env (val AND 0x7f) k else Some k)"

definition main_loop_step :: "env \<Rightarrow> u8 \<Rightarrow> u8 \<Rightarrow> u8 \<Rightarrow> process_ctx \<Rightarrow> u8 \<times> kernel \<Rightarrow> (process_ctx \<times> u8 \<times> kernel) option" where
  "main_loop_step env scan_code line_status data cpu st = do {
     (previous_scan_code, k) \<leftarrow> keyboard_driver_poll (event_on_keypress env) scan_code st;
     k \<leftarrow> tty_input_poll env line_status data k;
     (cpu', sc) \<leftarrow> schedule cpu (k_scheduler k);
     Some (cpu', previous_scan_code, k\<lparr>k_scheduler := sc\<rparr>)
   }"

text \<open>The state in which \<^verbatim>\<open>kernel_c_main\<close> calls \<^verbatim>\<open>shell_init\<close>: each component as its own initialiser leaves it. The scheduler
  is in the state in which \<^verbatim>\<open>scheduler_init\<close> looks at the allocator's answer, which the code does not determine.\<close>

definition kernel_started :: "kernel \<Rightarrow> bool" where
  "kernel_started k \<longleftrightarrow> console_ok (k_console k) \<and>
     (\<exists>base sb hb0. heap_placed base \<and> length sb = 3 \<and> init_heap_memory_allocator base sb hb0 = Some (True, k_heap k)) \<and>
     (\<exists>rt. mount_table rt = replicate 8 free_entry \<and> mount_file_systems rt = Some (k_router k)) \<and>
     (\<exists>addr sb h r. stack_memory_placed addr \<and> length sb = 32 \<and> scheduler_setup addr sb (zeroed_scheduler h) = Some (r, k_scheduler k)) \<and>
     k_dir k = 47 # replicate 99 0 \<and> k_len k = 0"

text \<open>A step of the running kernel: an iteration of the main loop, a program that calls the kernel, one that gives up the
  processor, or a test thread that starts or runs up to its next \<^verbatim>\<open>schedule()\<close>.\<close>

inductive kernel_step :: "u8 \<times> kernel \<Rightarrow> u8 \<times> kernel \<Rightarrow> bool" where
  main_loop: "main_loop_step env scan_code line_status data cpu st = Some (cpu', st') \<Longrightarrow> kernel_step st st'"
| system_call: "syscall_entry_point_C env n arg1 arg2 arg3 k = Some k' \<Longrightarrow> kernel_step (p, k) (p, k')"
| yields: "schedule cpu (k_scheduler k) = Some (cpu', sc) \<Longrightarrow> kernel_step (p, k) (p, k\<lparr>k_scheduler := sc\<rparr>)"
| thread_starts: "(name, target) \<in> set test_threads \<Longrightarrow> thread_test_start env name k = Some k' \<Longrightarrow> kernel_step (p, k) (p, k')"
| thread_runs: "(name, target) \<in> set test_threads \<Longrightarrow> thread_test_step env msg name target counter k = Some (counter', k') \<Longrightarrow>
    kernel_step (p, k) (p, k')"

inductive kernel_reachable :: "u8 \<times> kernel \<Rightarrow> bool" where
  boot: "kernel_started k \<Longrightarrow> shell_init env k = Some k' \<Longrightarrow> kernel_reachable (0, k')"
| step: "kernel_reachable st \<Longrightarrow> kernel_step st st' \<Longrightarrow> kernel_reachable st'"

inductive_cases kernel_stepE: "kernel_step st st'"

subsection \<open>What every operation keeps\<close>

definition sched_wf :: "scheduler \<Rightarrow> bool" where
  "sched_wf sc \<longleftrightarrow> length (process_list sc) = 16 \<and> is_live (process_list sc) 0 \<and> current_process_index sc < 16"

definition shell_inv :: "router \<Rightarrow> kernel \<Rightarrow> bool" where
  "shell_inv R k \<longleftrightarrow> console_ok (k_console k) \<and> sched_wf (k_scheduler k) \<and> path_buffer (k_dir k) \<and> 0 \<le> k_len k \<and> k_router k = R"

lemma put_string_terminated: "put_string s st = Some st' \<Longrightarrow> terminated s"
  by (induction s arbitrary: st) (auto simp: terminated_def bind_eq_Some_conv split: if_splits)

lemma kernel_print_keeps: "kernel_print s c = Some c' \<Longrightarrow> console_ok c \<Longrightarrow> console_ok c'"
proof -
  assume a: "kernel_print s c = Some c'" and ok: "console_ok c"
  then have "terminated s" using put_string_terminated
    by (auto simp: kernel_print_def terminal_print_def bind_eq_Some_conv)
  then show ?thesis using kernel_print_ok [OF ok] a by fastforce
qed

lemma kernel_println_keeps: "kernel_println s c = Some c' \<Longrightarrow> console_ok c \<Longrightarrow> console_ok c'"
  by (auto simp: kernel_println_def bind_eq_Some_conv dest: kernel_print_keeps)

lemma kernel_printf_keeps: "kernel_printf f a b c = Some c' \<Longrightarrow> console_ok c \<Longrightarrow> console_ok c'"
  by (auto simp: kernel_printf_def bind_eq_Some_conv dest: kernel_print_keeps)

lemma kernel_putchar_keeps: "kernel_putchar ch c = Some c' \<Longrightarrow> console_ok c \<Longrightarrow> console_ok c'"
  using kernel_putchar_ok [of c ch] by fastforce

lemma LOG_keeps: "LOG m ts c = Some c' \<Longrightarrow> console_ok c \<Longrightarrow> console_ok c'"
proof -
  assume a: "LOG m ts c = Some c'" and ok: "console_ok c"
  then obtain s t m' where l: "terminal_printline s (log_terminal c, con_machine c) = Some (t, m')" "c' = c\<lparr>log_terminal := t, con_machine := m'\<rparr>"
    by (auto simp: LOG_def bind_eq_Some_conv)
  then have "terminated s" using put_string_terminated
    by (auto simp: terminal_printline_def terminal_print_def bind_eq_Some_conv)
  then show ?thesis
    using terminal_printline_ok [of s "log_terminal c" "con_machine c"] console_okD [OF ok] l console_ok_log [OF ok] by fastforce
qed

lemma on_console_inv:
  "on_console f k = Some k' \<Longrightarrow> shell_inv R k \<Longrightarrow> (\<And>c c'. f c = Some c' \<Longrightarrow> console_ok c \<Longrightarrow> console_ok c') \<Longrightarrow> shell_inv R k'"
  by (auto simp: on_console_def bind_eq_Some_conv shell_inv_def)

lemma println_inv: "on_console (kernel_println s) k = Some k' \<Longrightarrow> shell_inv R k \<Longrightarrow> shell_inv R k'"
  by (erule on_console_inv, assumption) (rule kernel_println_keeps)

lemma printf_inv: "printf env f a k = Some k' \<Longrightarrow> shell_inv R k \<Longrightarrow> shell_inv R k'"
  unfolding printf_def by (erule on_console_inv, assumption) (rule kernel_printf_keeps)

lemma log_inv: "on_console (LOG m ts) k = Some k' \<Longrightarrow> shell_inv R k \<Longrightarrow> shell_inv R k'"
  by (erule on_console_inv, assumption) (rule LOG_keeps)

lemma putchar_inv: "on_console (kernel_putchar ch) k = Some k' \<Longrightarrow> shell_inv R k \<Longrightarrow> shell_inv R k'"
  by (erule on_console_inv, assumption) (rule kernel_putchar_keeps)

lemma putchars_inv:
  assumes "on_console (for_loop i n body) k = Some k'" and "shell_inv R k" and "\<And>j c c'. body j c = Some c' \<Longrightarrow> \<exists>ch. kernel_putchar ch c = Some c'"
  shows "shell_inv R k'"
proof (rule on_console_inv [OF assms(1,2)])
  fix c c' assume "for_loop i n body c = Some c'" "console_ok c"
  then show "console_ok c'" by (rule for_loop_keeps) (use assms(3) kernel_putchar_keeps in blast)
qed

lemma for_loop_inv:
  "for_loop i n body k = Some k' \<Longrightarrow> shell_inv R k \<Longrightarrow> (\<And>j a b. body j a = Some b \<Longrightarrow> shell_inv R a \<Longrightarrow> shell_inv R b) \<Longrightarrow> shell_inv R k'"
  by (erule for_loop_keeps)

subsection \<open>The commands keep the invariant\<close>

lemma inv_heap [simp]: "shell_inv R (k\<lparr>k_heap := x\<rparr>) = shell_inv R k"
  and inv_line [simp]: "shell_inv R (k\<lparr>k_line := l\<rparr>) = shell_inv R k"
  and inv_offset [simp]: "shell_inv R (k\<lparr>k_dump_offset := o'\<rparr>) = shell_inv R k"
  and inv_buffer [simp]: "shell_inv R (k\<lparr>k_file_buffer := b\<rparr>) = shell_inv R k"
  by (simp_all add: shell_inv_def)

lemma inv_scheduler: "shell_inv R k \<Longrightarrow> sched_wf sc \<Longrightarrow> shell_inv R (k\<lparr>k_scheduler := sc\<rparr>)"
  by (simp add: shell_inv_def)

lemma inv_loaded: "shell_inv R k \<Longrightarrow> sched_wf sc \<Longrightarrow> shell_inv R (k\<lparr>k_file_buffer := b, k_scheduler := sc\<rparr>)"
  by (simp add: shell_inv_def)

lemma inv_sched_wf: "shell_inv R k \<Longrightarrow> sched_wf (k_scheduler k)"
  by (simp add: shell_inv_def)

lemma wf_update: "length ps = 16 \<Longrightarrow> is_live ps 0 \<Longrightarrow> 0 < i \<Longrightarrow> i < 16 \<Longrightarrow> is_live (ps[i := p]) 0"
  by (simp add: is_live_update)

lemma kill_process_wf: "kill_process pid sc = Some sc' \<Longrightarrow> sched_wf sc \<Longrightarrow> sched_wf sc'"
  by (auto simp: kill_process_def bind_eq_Some_conv sched_wf_def rd_def wr_def is_live_update split: if_splits)

lemma kill_current_wf: "kill_current_process sc = Some sc' \<Longrightarrow> sched_wf sc \<Longrightarrow> sched_wf sc'"
  by (auto simp: kill_current_process_def split: if_splits dest: kill_process_wf)

lemma find_free_positive: "find_free_from ps i = Some j \<Longrightarrow> i \<le> j"
  by (induction ps i rule: find_free_from.induct) (auto split: if_splits)

lemma create_process_wf: "create_process name f sc = Some sc' \<Longrightarrow> sched_wf sc \<Longrightarrow> sched_wf sc'"
proof -
  assume a: "create_process name f sc = Some sc'" and wf: "sched_wf sc"
  show ?thesis
  proof (cases "find_free_process_ctx sc")
    case (Some j)
    then have "1 \<le> j" by (auto simp: find_free_process_ctx_def dest: find_free_positive)
    with a wf Some show ?thesis
      by (auto simp: create_process_def init_process_ctx_def bind_eq_Some_conv sched_wf_def wr_def is_live_update split: if_splits)
  qed (use a wf in \<open>simp add: create_process_def\<close>)
qed

lemma next_process_live: "next_process ps i = Some j \<Longrightarrow> j < 16 \<and> is_live ps j"
proof (erule next_process.raw_induct [of "\<lambda>ps i j. j < 16 \<and> is_live ps j", rotated])
  fix np ps i j
  assume ih: "\<And>ps i j. np ps i = Some j \<Longrightarrow> j < 16 \<and> is_live ps j"
    and body: "(do { let i = (i + 1) mod MAX_PROCESS_COUNT; p \<leftarrow> rd ps i; if process_name p = None then np ps i else Some i }) = Some j"
  let ?i = "(i + 1) mod MAX_PROCESS_COUNT"
  obtain p where p: "rd ps ?i = Some p" using body by (auto simp: Let_def bind_eq_Some_conv)
  show "j < 16 \<and> is_live ps j"
  proof (cases "process_name p = None")
    case True
    then show ?thesis using ih body p by (auto simp: Let_def)
  next
    case False
    then have "j = ?i" using body p by (auto simp: Let_def)
    moreover have "?i < 16" by (simp add: MAX_PROCESS_COUNT_def)
    moreover have "p = ps ! ?i" using p by (simp add: rd_def split: if_splits)
    ultimately show ?thesis using False by (simp add: is_live_def)
  qed
qed

lemma schedule_wf: "schedule cpu sc = Some (cpu', sc') \<Longrightarrow> sched_wf sc \<Longrightarrow> sched_wf sc'"
proof -
  assume a: "schedule cpu sc = Some (cpu', sc')" and wf: "sched_wf sc"
  let ?c = "current_process_index sc"
  obtain i where i: "next_process (process_list sc) ?c = Some i"
    using a by (auto simp: schedule_def get_current_process_def move_to_next_process_def Let_def bind_eq_Some_conv)
  then show ?thesis
    using a wf next_process_live [OF i]
    by (auto simp: schedule_def get_current_process_def move_to_next_process_def switch_process_def save_registers_def sched_wf_def
        Let_def bind_eq_Some_conv rd_def wr_def is_live_def nth_list_update split: if_splits)
qed

text \<open>The scheduler always finds a process: the kernel's own is never killed.\<close>

lemma schedule_returns:
  assumes "sched_wf sc"
  shows "\<exists>cpu' sc'. schedule cpu sc = Some (cpu', sc')"
proof -
  have l: "length (process_list sc) = 16" "is_live (process_list sc) 0" "current_process_index sc < 16" using assms by (simp_all add: sched_wf_def)
  obtain a where "next_process (process_list sc) (current_process_index sc) = Some a" "a < 16"
    using turn_order_next [OF l] by blast
  then show ?thesis using l
    by (auto simp: schedule_def get_current_process_def move_to_next_process_def switch_process_def Let_def rd_def wr_def)
qed

lemma cat_inv: "execute__cat env argc argv k = Some k' \<Longrightarrow> shell_inv R k \<Longrightarrow> shell_inv R k'"
  by (auto simp: execute__cat_def command_cat_def bind_eq_Some_conv split: if_splits dest!: println_inv printf_inv elim!: putchars_inv)

lemma ls_inv: "execute__ls env argc argv k = Some k' \<Longrightarrow> shell_inv R k \<Longrightarrow> shell_inv R k'"
  by (auto simp: execute__ls_def Let_def bind_eq_Some_conv split: if_splits dest!: println_inv printf_inv elim!: putchars_inv)

lemma ps_inv: "execute__ps env argc argv k = Some k' \<Longrightarrow> shell_inv R k \<Longrightarrow> shell_inv R k'"
proof -
  have row: "shell_inv R b" if "ps_row env j a = Some b" "shell_inv R a" for j a b
    using that by (auto simp: ps_row_def bind_eq_Some_conv split: option.splits dest!: printf_inv elim!: putchars_inv)
  show "execute__ps env argc argv k = Some k' \<Longrightarrow> shell_inv R k \<Longrightarrow> shell_inv R k'"
    by (auto simp: execute__ps_def bind_eq_Some_conv dest!: printf_inv elim!: for_loop_inv row)
qed

lemma kill_inv: "execute__kill env argc argv k = Some k' \<Longrightarrow> shell_inv R k \<Longrightarrow> shell_inv R k'"
  by (auto simp: execute__kill_def command_kill_def bind_eq_Some_conv split: if_splits
      dest!: println_inv printf_inv intro: inv_scheduler kill_process_wf inv_sched_wf)

lemma run_inv: "execute__run env argc argv k = Some k' \<Longrightarrow> shell_inv R k \<Longrightarrow> shell_inv R k'"
proof -
  have f: "shell_inv R k'" if "run_file env arg k = Some k'" "shell_inv R k" for arg k k'
    using that by (auto simp: run_file_def Let_def bind_eq_Some_conv split: if_splits dest!: printf_inv intro: inv_loaded create_process_wf inv_sched_wf)
  have t: "shell_inv R k'" if "command_run_test env arg k = Some k'" "shell_inv R k" for arg k k'
    using that by (auto simp: command_run_test_def bind_eq_Some_conv split: if_splits prod.splits dest!: printf_inv intro: inv_scheduler create_process_wf inv_sched_wf)
  have l: "shell_inv R b" if "(do { (name, _) \<leftarrow> rd (test_list env) i; printf env (map_of_char ''  %d - %s '' @ [10, 0]) [Arg_Int (of_nat i), Arg_Str (Some name)] a }) = Some b" "shell_inv R a" for i a b
    using that by (auto simp: bind_eq_Some_conv dest!: printf_inv)
  show "execute__run env argc argv k = Some k' \<Longrightarrow> shell_inv R k \<Longrightarrow> shell_inv R k'"
    by (auto simp: execute__run_def bind_eq_Some_conv split: if_splits dest!: println_inv f t elim!: for_loop_inv l)
qed

lemma dump_inv: "execute__dump_data env memory argc argv k = Some k' \<Longrightarrow> shell_inv R k \<Longrightarrow> shell_inv R k'"
proof -
  assume a: "execute__dump_data env memory argc argv k = Some k'" and i: "shell_inv R k"
  let ?body = "\<lambda>row (k, offset). do { line \<leftarrow> dump_line memory offset; k \<leftarrow> on_console (kernel_println line) k;
      offset \<leftarrow> c_int (offset + 16); Some (k, offset) }"
  have l: "shell_inv R k1" if "for_loop i n ?body (k0, of0) = Some (k1, of1)" "shell_inv R k0" for i n k0 of0 k1 of1
  proof -
    have "(\<lambda>a. shell_inv R (fst a)) (k1, of1)"
      by (rule for_loop_keeps [OF that(1)]) (use that(2) in \<open>auto simp: bind_eq_Some_conv dest!: println_inv\<close>)
    then show ?thesis by simp
  qed
  show ?thesis using a i unfolding execute__dump_data_def
    by (auto simp: bind_eq_Some_conv split: if_splits dest!: println_inv l)
qed

lemma hexdump_inv: "execute__hexdump env argc argv k = Some k' \<Longrightarrow> shell_inv R k \<Longrightarrow> shell_inv R k'"
proof -
  assume a: "execute__hexdump env argc argv k = Some k'" and i: "shell_inv R k"
  show ?thesis
  proof (cases "argc < 2")
    case True
    then show ?thesis using a i println_inv by (simp add: execute__hexdump_def)
  next
    case False
    then obtain f p k1 n b where h: "printf env f [Arg_Str (Some p)] k = Some k1" "read_file (env_hello_bin env) (k_router k1) (Some p) (replicate 128 0) 128 = Some (n, b)"
        "(if n > 0
        then do {
          let addr = env_hexdump_buffer env;
          hex_addr \<leftarrow> hex_into (replicate 10 0) 0 (sint addr) 9;
          let memory = (\<lambda>a. let i = unat (a - addr) in if i < length b then b ! i else env_memory env a);
          execute__dump_data env memory 2 [[0], hex_addr] k1
        }
        else printf env (framed ''[hexdump] Unable to read file! ret = %d '') [Arg_Int (of_int n)] k1) = Some k'"
      using a unfolding execute__hexdump_def by (auto simp: bind_eq_Some_conv)
    have k1: "shell_inv R k1" by (rule printf_inv [OF h(1) i])
    show ?thesis
    proof (cases "n > 0")
      case True
      obtain addr memory where m: "addr = env_hexdump_buffer env"
          "memory = (\<lambda>a. let i = unat (a - addr) in if i < length b then b ! i else env_memory env a)" by blast
      have "do { hex_addr \<leftarrow> hex_into (replicate 10 0) 0 (sint addr) 9; execute__dump_data env memory 2 [[0], hex_addr] k1 } = Some k'"
        using h(3) True unfolding m by (simp only: Let_def if_True)
      then show ?thesis using dump_inv k1 by (auto simp: bind_eq_Some_conv)
    next
      case False
      then show ?thesis using h(3) printf_inv k1 by simp
    qed
  qed
qed

lemma println_then:
  assumes "Option.bind (on_console (kernel_println s) k) g = Some k'" and "shell_inv R k"
  obtains k1 where "g k1 = Some k'" and "shell_inv R k1"
  using assms println_inv by (auto simp: bind_eq_Some_conv)

lemma help_inv: "command_help k = Some k' \<Longrightarrow> shell_inv R k \<Longrightarrow> shell_inv R k'"
  unfolding command_help_def by ((erule println_then, assumption)+, erule println_inv, assumption)

lemma unknown_inv: "unknown_command env input k = Some k' \<Longrightarrow> shell_inv R k \<Longrightarrow> shell_inv R k'"
proof -
  have l: "shell_inv R b" if "(do { c \<leftarrow> rd input i; printf env (c_lit '' %x'') [Arg_Int (ucast c)] a }) = Some b" "shell_inv R a" for i a b
    using that by (auto simp: bind_eq_Some_conv dest!: printf_inv)
  show "unknown_command env input k = Some k' \<Longrightarrow> shell_inv R k \<Longrightarrow> shell_inv R k'"
    by (auto simp: unknown_command_def bind_eq_Some_conv dest!: println_inv printf_inv for_loop_inv [OF _ _ l])
qed

lemma mem_copy_length: "mem_copy (Some d) m s n = Some (r, Some p) \<Longrightarrow> length p = length d"
proof -
  assume a: "mem_copy (Some d) m s n = Some (r, Some p)"
  have l: "length p = length d" if "for_loop 0 j (\<lambda>i d. do { b \<leftarrow> rd s i; wr d i b }) d = Some p" for j s and p :: "u8 list"
    by (rule for_loop_keeps [OF that, of "\<lambda>x. length x = length d"]) (auto simp: bind_eq_Some_conv wr_def split: if_splits)
  show ?thesis
  proof (cases s)
    case None
    then show ?thesis using a by (simp add: mem_copy_def)
  next
    case (Some t)
    let ?sz = "if n > m then m else n"
    have "(do { d' \<leftarrow> for_loop 0 (nat ?sz) (\<lambda>i d. do { b \<leftarrow> rd t i; wr d i b }) d; Some (?sz, Some d') }) = Some (r, Some p)"
      using a unfolding Some mem_copy_def Let_def by (simp only: prod.case option.case)
    then have "for_loop 0 (nat ?sz) (\<lambda>i d. do { b \<leftarrow> rd t i; wr d i b }) d = Some p"
      unfolding bind_eq_Some_conv by blast
    then show ?thesis by (rule l)
  qed
qed

lemma set_current_dir_buffer: "set_current_dir p d = Some d' \<Longrightarrow> path_buffer d \<Longrightarrow> path_buffer d'"
proof -
  assume a: "set_current_dir p d = Some d'" and d: "path_buffer d"
  obtain m r e where m: "mem_copy (Some d) 100 (Some p) m = Some (r, Some e)" "wr e 99 0 = Some d'"
    using a unfolding set_current_dir_def by (auto simp: bind_eq_Some_conv)
  have "length e = 100" using mem_copy_length [OF m(1)] d by (simp add: path_buffer_def)
  moreover have "d' = e[99 := 0]" "99 < length e" using m(2) by (auto simp: wr_def split: if_splits)
  ultimately show ?thesis by (simp add: path_buffer_def terminated_def set_update_memI)
qed

lemma cd_buffer: "execute__cd argc argv d = Some d' \<Longrightarrow> path_buffer d \<Longrightarrow> path_buffer d'"
  by (auto simp: execute__cd_def command_cd_def Let_def bind_eq_Some_conv split: if_splits dest: set_current_dir_buffer)

lemma dispatch_inv: "dispatch env argc argv k = Some k' \<Longrightarrow> shell_inv R k \<Longrightarrow> shell_inv R k'"
proof -
  assume a: "dispatch env argc argv k = Some k'" and i: "shell_inv R k"
  have cd: "shell_inv R (k\<lparr>k_dir := d\<rparr>)" if "execute__cd argc argv (k_dir k) = Some d" for d
    using i cd_buffer [OF that] by (simp add: shell_inv_def)
  show ?thesis using a i cd
    by (auto simp: dispatch_def bind_eq_Some_conv split: if_splits
        dest: cat_inv ls_inv ps_inv kill_inv run_inv dump_inv hexdump_inv help_inv unknown_inv)
qed

lemma log_parse_inv: "log_message env s (k\<lparr>k_line := l, k_heap := h\<rparr>) = Some k' \<Longrightarrow> shell_inv R k \<Longrightarrow> shell_inv R k'"
  by (erule log_inv) simp

lemma parse_inv: "parse_arguments env k = Some (argc, argv, k') \<Longrightarrow> shell_inv R k \<Longrightarrow> shell_inv R k'"
  by (auto simp: parse_arguments_def Let_def bind_eq_Some_conv split: option.splits if_splits dest: log_parse_inv)

lemma command_inv: "shell_execute_command env k = Some k' \<Longrightarrow> shell_inv R k \<Longrightarrow> shell_inv R k'"
proof -
  assume a: "shell_execute_command env k = Some k'" and i: "shell_inv R k"
  obtain argc argv k1 where p: "parse_arguments env k = Some (argc, argv, k1)" "shell_inv R k1"
    using a parse_inv [OF _ i] by (auto simp: shell_execute_command_def bind_eq_Some_conv)
  show ?thesis
  proof (cases argv)
    case None
    then show ?thesis using a p println_inv by (simp add: shell_execute_command_def)
  next
    case (Some m)
    obtain mem ptrs where m: "m = (mem, ptrs)" by (cases m)
    obtain k2 k3 hb where d: "dispatch env argc (map (\<lambda>a. drop a (k_line k1)) ptrs) k1 = Some k2" "print_prompt env k2 = Some k3" "k' = k3\<lparr>k_heap := hb\<rparr>"
      using a p(1) Some m by (auto simp: shell_execute_command_def bind_eq_Some_conv)
    show ?thesis using printf_inv [OF d(2) [unfolded print_prompt_def] dispatch_inv [OF d(1) p(2)]] d(3) by simp
  qed
qed

text \<open>What a key keeps: the invariant of the shell, and the free blocks of the heap.\<close>

definition kernel_inv :: "router \<Rightarrow> nat list \<Rightarrow> kernel \<Rightarrow> bool" where
  "kernel_inv R bs k \<longleftrightarrow> shell_inv R k \<and> heap_ok (k_heap k) \<and> heap_free_blocks (k_heap k) = bs"

lemma shell_on_input_inv:
  assumes "shell_on_input env key k = Some k'" and "kernel_inv R bs k"
  shows "kernel_inv R bs k'"
proof -
  obtain k1 where k1: "on_console (kernel_putchar key) k = Some k1" using assms(1) by (auto simp: shell_on_input_def bind_eq_Some_conv)
  have i: "shell_inv R k1" "heap_ok (k_heap k1)" "heap_free_blocks (k_heap k1) = bs"
    using putchar_inv [OF k1] on_console_heap [OF k1] assms(2) by (auto simp: kernel_inv_def)
  have e: "shell_inv R (k2\<lparr>k_len := n, k_line := l\<rparr>)" if "shell_inv R k2" "0 \<le> n" for k2 n l
    using that by (simp add: shell_inv_def)
  show ?thesis
  proof (cases "key = 10 \<or> key = 13")
    case True
    then obtain k2 l where k2: "shell_execute_command env k1 = Some k2" "k' = k2\<lparr>k_len := 0, k_line := l\<rparr>"
      using assms(1) k1 by (auto simp: shell_on_input_def bind_eq_Some_conv)
    show ?thesis using e [OF command_inv [OF k2(1) i(1)], of 0] shell_command_heap_ok [OF i(2) k2(1)] i(3) k2(2) by (simp add: kernel_inv_def)
  next
    case False
    have "k' = k1 \<or> (\<exists>l n. k' = k1\<lparr>k_len := n, k_line := l\<rparr> \<and> 0 \<le> n)"
    proof (cases "key = 8 \<or> key = 0x7f")
      case True
      then have "(if k_len k1 > 0 then do { line \<leftarrow> wr (k_line k1) (nat (k_len k1 - 1)) 0; Some (k1\<lparr>k_len := k_len k1 - 1, k_line := line\<rparr>) }
          else Some k1) = Some k'"
        using assms(1) k1 False by (simp add: shell_on_input_def)
      moreover have "\<exists>l n. k1\<lparr>k_len := k_len k1 - 1, k_line := y\<rparr> = k1\<lparr>k_len := n, k_line := l\<rparr> \<and> 0 \<le> n" if "0 < k_len k1" for y
        using that by (intro exI [of _ y] exI [of _ "k_len k1 - 1"]) simp
      ultimately show ?thesis by (cases "k_len k1 > 0") (auto simp: bind_eq_Some_conv)
    next
      case other: False
      then obtain l where "k' = k1\<lparr>k_len := k_len k1 + 1, k_line := l\<rparr>" "0 \<le> k_len k1"
        using assms(1) k1 False unfolding shell_on_input_def by (auto simp: bind_eq_Some_conv split: if_splits)
      then show ?thesis by (intro disjI2 exI [of _ l] exI [of _ "k_len k1 + 1"]) simp
    qed
    then show ?thesis using e [OF i(1)] i by (auto simp: kernel_inv_def)
  qed
qed


lemma keyboard_inv:
  assumes "keyboard_driver_poll (event_on_keypress env) c (p, k) = Some (p', k')" and "kernel_inv R bs k"
  shows "kernel_inv R bs k'"
  using assms shell_on_input_inv by (auto simp: keyboard_driver_poll_eq event_on_keypress_def split: if_splits)

lemma tty_inv: "tty_input_poll env ls d k = Some k' \<Longrightarrow> kernel_inv R bs k \<Longrightarrow> kernel_inv R bs k'"
  using shell_on_input_inv by (auto simp: tty_input_poll_def event_on_keypress_def Let_def split: if_splits)

lemma schedule_inv: "schedule cpu (k_scheduler k) = Some (cpu', sc) \<Longrightarrow> kernel_inv R bs k \<Longrightarrow> kernel_inv R bs (k\<lparr>k_scheduler := sc\<rparr>)"
  using schedule_wf by (auto simp: kernel_inv_def shell_inv_def)

lemma sys_write_inv: "sys_write env fd buf n k = Some (r, k') \<Longrightarrow> shell_inv R k \<Longrightarrow> shell_inv R k'"
  by (auto simp: sys_write_def bind_eq_Some_conv split: if_splits dest: printf_inv)

lemma sys_exit_inv: "sys_exit env n k = Some k' \<Longrightarrow> shell_inv R k \<Longrightarrow> shell_inv R k'"
  by (auto simp: sys_exit_def bind_eq_Some_conv dest!: printf_inv intro: inv_scheduler kill_current_wf inv_sched_wf)

lemma syscall_heap: "syscall_entry_point_C env n a b c k = Some k' \<Longrightarrow> k_heap k' = k_heap k"
  by (auto simp: syscall_entry_point_C_def sys_write_def sys_exit_def bind_eq_Some_conv split: if_splits dest!: printf_heap)

lemma syscall_inv: "syscall_entry_point_C env n a b c k = Some k' \<Longrightarrow> kernel_inv R bs k \<Longrightarrow> kernel_inv R bs k'"
proof -
  assume a: "syscall_entry_point_C env n a b c k = Some k'" and i: "kernel_inv R bs k"
  have "shell_inv R k'" using a i sys_write_inv sys_exit_inv
    by (auto simp: syscall_entry_point_C_def kernel_inv_def bind_eq_Some_conv split: if_splits)
  then show ?thesis using syscall_heap [OF a] i by (simp add: kernel_inv_def)
qed

lemma printf_kernel_inv: "printf env f args k = Some k' \<Longrightarrow> kernel_inv R bs k \<Longrightarrow> kernel_inv R bs k'"
  by (simp add: kernel_inv_def printf_inv printf_heap)

lemma thread_inv:
  assumes "thread_test_step env msg name target counter k = Some (counter', k')" and "kernel_inv R bs k"
  shows "kernel_inv R bs k'"
proof (cases "of_int counter mod target = 1")
  case True
  then obtain k1 where "printf env (10 # c_lit ''[%s] Still running... '') [Arg_Str (Some name)] k = Some k1"
      "syscall_entry_point_C env 4 1 msg 1 k1 = Some k'"
    using assms(1) by (auto simp: thread_test_step_def INT_80_test_silent_def bind_eq_Some_conv)
  then show ?thesis using syscall_inv printf_kernel_inv [OF _ assms(2)] by blast
next
  case False
  then have "k' = k" using assms(1) by (auto simp: thread_test_step_def bind_eq_Some_conv)
  then show ?thesis using assms(2) by simp
qed

lemma kernel_step_inv: "kernel_step st st' \<Longrightarrow> kernel_inv R bs (snd st) \<Longrightarrow> kernel_inv R bs (snd st')"
proof (induction rule: kernel_step.induct)
  case (main_loop env scan_code line_status data cpu st cpu' st')
  obtain p k where st: "st = (p, k)" by (cases st)
  obtain p1 k1 k2 sc where "keyboard_driver_poll (event_on_keypress env) scan_code (p, k) = Some (p1, k1)"
      "tty_input_poll env line_status data k1 = Some k2" "schedule cpu (k_scheduler k2) = Some (cpu', sc)" "st' = (p1, k2\<lparr>k_scheduler := sc\<rparr>)"
    using main_loop(1) unfolding st main_loop_step_def by (auto simp: bind_eq_Some_conv)
  then show ?case using keyboard_inv tty_inv schedule_inv main_loop(2) unfolding st by fastforce
qed (use syscall_inv schedule_inv printf_kernel_inv thread_inv in \<open>auto simp: thread_test_start_def\<close>)

text \<open>The router as the kernel mounts it on a volume.\<close>

lemma mount_file_systems_ok:
  assumes "mount_table rt = replicate 8 free_entry"
  shows "\<exists>R. mount_file_systems rt = Some R \<and> mount_table R = table_of kernel_mounts \<and> holds_ramdisk (router_volume R)"
proof -
  obtain v where v: "load_ramdisk (router_volume rt) (Some DISK_IMAGE) = Some (0, v)" "holds_ramdisk v" using ramdisk_loaded by blast
  let ?rt = "rt\<lparr>router_volume := v\<rparr>"
  have 1: "fs_router_init rt = Some ?rt" using v(1) by (simp add: fs_router_init_def fs_load_ramdisk_def)
  have t: "mount_table ?rt = table_of []" using assms by (simp add: table_of_def)
  have "mount_all kernel_mounts ?rt = Some (?rt\<lparr>mount_table := table_of kernel_mounts\<rparr>)"
    using mount_all_ok [OF kernel_mounts_ok t] by simp
  then have "mount_file_systems rt = Some (?rt\<lparr>mount_table := table_of kernel_mounts\<rparr>)"
    using 1 by (simp add: mount_file_systems_def split_def)
  then show ?thesis using v(2) by (intro exI [of _ "?rt\<lparr>mount_table := table_of kernel_mounts\<rparr>"]) simp
qed

lemma kernel_reachable_inv:
  "kernel_reachable st \<Longrightarrow> \<exists>R. kernel_inv R [2, 1, 0] (snd st) \<and> mount_table R = table_of kernel_mounts \<and> holds_ramdisk (router_volume R)"
proof (induction rule: kernel_reachable.induct)
  case (boot k env k')
  then obtain base sb hb0 rt addr sb' h r where s: "console_ok (k_console k)"
      "heap_placed base" "length sb = 3" "init_heap_memory_allocator base sb hb0 = Some (True, k_heap k)"
      "mount_table rt = replicate 8 free_entry" "mount_file_systems rt = Some (k_router k)"
      "stack_memory_placed addr" "length sb' = 32" "scheduler_setup addr sb' (zeroed_scheduler h) = Some (r, k_scheduler k)"
      "k_dir k = 47 # replicate 99 0" "k_len k = 0"
    unfolding kernel_started_def by blast
  have "sched_wf (k_scheduler k)" using scheduler_setup_ok [OF s(7,8), of h] s(9) by (auto simp: sched_wf_def sched_ok_def)
  then have i: "shell_inv (k_router k) k" using s by (simp add: shell_inv_def path_buffer_def terminated_def)
  have hp: "heap_ok (k_heap k)" "heap_free_blocks (k_heap k) = [2, 1, 0]" using init_heap_ok [OF s(2,3), of hb0] s(4) by auto
  obtain k1 where "on_console (kernel_println (map_of_char ''Called shell_init()'' @ [10, 10, 0])) k = Some k1" "print_prompt env k1 = Some k'"
    using boot(2) by (auto simp: shell_init_def bind_eq_Some_conv)
  then obtain f a k1 where k1: "on_console (kernel_println f) k = Some k1" "printf env a [Arg_Str (Some (get_current_dir k1))] k1 = Some k'"
    by (auto simp: print_prompt_def)
  have "k_heap k' = k_heap k" using on_console_heap [OF k1(1)] printf_heap [OF k1(2)] by simp
  moreover have "shell_inv (k_router k) k'" by (rule printf_inv [OF k1(2) println_inv [OF k1(1) i]])
  ultimately show ?case using mount_file_systems_ok [OF s(5)] s(6) hp by (auto simp: kernel_inv_def)
next
  case (step st st')
  then show ?case using kernel_step_inv by blast
qed

subsection \<open>Properties\<close>


text \<open>The kernel as it starts with a zeroed memory, for the witness.\<close>

lemma kernel_starts: "\<exists>k k'. kernel_started k \<and> line_holds k [] \<and> shell_init quiet_env k = Some k' \<and> kernel_reachable (0, k')"
proof -
  obtain c where c: "console_ok c" using first_console_ok by blast
  obtain hb where hb: "init_heap_memory_allocator 0x100000 [0, 0, 0] sample_heap = Some (True, hb)"
    using init_heap_ok [of "0x100000" "[0, 0, 0]" sample_heap] by (auto simp: heap_placed_def)
  obtain R where R: "mount_file_systems (empty_router sample_fs) = Some R"
    using mount_file_systems_ok [of "empty_router sample_fs"] by auto
  obtain sc where sc: "scheduler_setup 0x200000 (replicate 32 0) (zeroed_scheduler zero_handle) = Some (None, sc)"
    using scheduler_setup_ok [of "0x200000" "replicate 32 0" zero_handle] by (auto simp: stack_memory_placed_def)
  let ?k = "prompt_kernel c\<lparr>k_heap := hb, k_router := R, k_scheduler := sc, k_dir := 47 # replicate 99 0\<rparr>"
  have k: "kernel_started ?k"
    unfolding kernel_started_def
  proof (intro conjI)
    show "\<exists>base sb hb0. heap_placed base \<and> length sb = 3 \<and> init_heap_memory_allocator base sb hb0 = Some (True, k_heap ?k)"
      using hb by (intro exI [of _ "0x100000"] exI [of _ "[0, 0, 0]"] exI [of _ sample_heap]) (simp add: heap_placed_def)
    show "\<exists>rt. mount_table rt = replicate 8 free_entry \<and> mount_file_systems rt = Some (k_router ?k)"
      using R by (intro exI [of _ "empty_router sample_fs"]) simp
    show "\<exists>addr sb h r. stack_memory_placed addr \<and> length sb = 32 \<and> scheduler_setup addr sb (zeroed_scheduler h) = Some (r, k_scheduler ?k)"
      using sc by (intro exI [of _ "0x200000"] exI [of _ "replicate 32 0"] exI [of _ zero_handle] exI [of _ None]) (simp add: stack_memory_placed_def)
  qed (use c in \<open>simp_all add: prompt_kernel_def\<close>)
  have "terminated (map_of_char ''Called shell_init()'' @ [10, 10, 0])" by (simp add: terminated_def)
  then obtain c1 where c1: "kernel_println (map_of_char ''Called shell_init()'' @ [10, 10, 0]) c = Some c1" "console_ok c1"
    using kernel_println_prints [OF c] prints_ok by blast
  have "console_ok (k_console (?k\<lparr>k_console := c1\<rparr>))" "length (env_garbage quiet_env 256) = 256" "path_buffer (k_dir (?k\<lparr>k_console := c1\<rparr>))"
    using c1(2) by (simp_all add: quiet_env_def path_buffer_def terminated_def)
  from print_prompt_prints [OF this] obtain k' where "print_prompt quiet_env (?k\<lparr>k_console := c1\<rparr>) = Some k'" by blast
  then have "shell_init quiet_env ?k = Some k'" using c1(1) by (simp add: shell_init_def on_console_def prompt_kernel_def)
  moreover have "line_holds ?k []" using prompt_kernel_line [of c] by (simp add: line_holds_def)
  ultimately show ?thesis using k kernel_reachable.boot by blast
qed



end
