(* ===== verification/Boot_Session.thy ===== *)
theory Boot_Session
  imports Kernel_Main
begin

section \<open>From the start to the screen\<close>

text \<open>
  The components together: the kernel that \<^verbatim>\<open>kernel_c_main\<close> has set up, its linked disk image behind \<^verbatim>\<open>/mnt\<close>, and the first
  session at its shell.
\<close>

lemma started_router:
  assumes "kernel_started k"
  shows "mount_table (k_router k) = table_of kernel_mounts" and "holds_ramdisk (router_volume (k_router k))"
proof -
  obtain rt where "mount_table rt = replicate 8 free_entry" "mount_file_systems rt = Some (k_router k)"
    using assms unfolding kernel_started_def by blast
  then show "mount_table (k_router k) = table_of kernel_mounts" "holds_ramdisk (router_volume (k_router k))"
    using mount_file_systems_ok by fastforce+
qed

definition shell_init_text :: "u8 list" where
  "shell_init_text = map_of_char ''Called shell_init()'' @ [10, 10, 10]"

lemma shell_init_ok:
  assumes "console_ok (k_console k)" and "length (env_garbage env 256) = 256" and "path_buffer (k_dir k)"
  shows "\<exists>c. shell_init env k = Some (k\<lparr>k_console := c\<rparr>) \<and> prints (shell_init_text @ prompt_text (c_str (k_dir k))) (k_console k) c"
proof -
  let ?s = "map_of_char ''Called shell_init()'' @ [10, 10, 0]"
  have s: "terminated ?s" "c_str ?s = map_of_char ''Called shell_init()'' @ [10, 10]"
    by (simp_all add: terminated_def map_of_char_def)
  obtain c where c: "kernel_println ?s (k_console k) = Some c" "prints shell_init_text (k_console k) c"
    using kernel_println_prints [OF assms(1) s(1)] unfolding s(2) by (auto simp: shell_init_text_def)
  obtain c' where c': "print_prompt env (k\<lparr>k_console := c\<rparr>) = Some (k\<lparr>k_console := c'\<rparr>)" "prints (prompt_text (c_str (k_dir k))) c c'"
    using print_prompt_prints [of "k\<lparr>k_console := c\<rparr>" env] prints_ok [OF c(2)] assms(2,3) by auto
  show ?thesis using c(1) c'(1) prints_trans [OF c(2) c'(2)] by (auto simp: shell_init_def on_console_def)
qed

lemma started_prompt:
  assumes "kernel_started k" and "\<forall>n. length (env_garbage env n) = n" and "line_holds k []"
  shows "\<exists>k'. shell_init env k = Some k' \<and> prints (shell_init_text @ prompt_text [47]) (k_console k) (k_console k') \<and>
    at_prompt env (k_router k) [2, 1, 0] ([47], k_scheduler k) k'"
proof -
  obtain base sb hb0 where s: "console_ok (k_console k)" "heap_placed base" "length sb = 3"
      "init_heap_memory_allocator base sb hb0 = Some (True, k_heap k)" "k_dir k = 47 # replicate 99 0"
    using assms(1) unfolding kernel_started_def by blast
  have d: "path_buffer (k_dir k)" "c_str (k_dir k) = [47]" using s(5) by (simp_all add: path_buffer_def terminated_def)
  have h: "heap_ok (k_heap k)" "heap_free_blocks (k_heap k) = [2, 1, 0]" using init_heap_ok [OF s(2,3), of hb0] s(4) by auto
  obtain c where c: "shell_init env k = Some (k\<lparr>k_console := c\<rparr>)" "prints (shell_init_text @ prompt_text [47]) (k_console k) c"
    using shell_init_ok [OF s(1) _ d(1), of env] assms(2) d(2) by auto
  have "at_prompt env (k_router k) [2, 1, 0] ([47], k_scheduler k) (k\<lparr>k_console := c\<rparr>)"
    using prints_ok [OF c(2)] assms(2,3) d h by (simp add: at_prompt_def)
  then show ?thesis using c by (intro exI [of _ "k\<lparr>k_console := c\<rparr>"]) simp
qed

text \<open>What the specification of the shell finds below \<^verbatim>\<open>/mnt\<close>.\<close>

definition ramdisk_listing :: "u8 list" where
  "ramdisk_listing = c_lit ''test10'' @ c_lit ''test210'' @ c_lit ''test30'' @ c_lit ''a.out''"

lemma mnt_route:
  assumes "first_dir p = map_of_char ''mnt''" and "0 \<notin> set p"
  shows "route kernel_mounts (p @ [0]) = Some (FS_TYPE__TINY_FS, c_lit ''/mnt'')"
  using assms c_str_append_null [of p "[]"] by (simp add: route_def c_lit_def map_of_char_def first_dir_def)

lemma ramdisk_names: "\<forall>x \<in> set (dir_of v). case x of None \<Rightarrow> True | Some e \<Rightarrow> terminated (fe_name e)" if "holds_ramdisk v" for v
  by (simp add: ramdisk_dir [OF that] terminated_def)

lemma ramdisk_lists:
  assumes t: "mount_table rt = table_of kernel_mounts" and v: "holds_ramdisk (router_volume rt)"
    and p: "first_dir p = map_of_char ''mnt''" "0 \<notin> set p" "4 \<le> length p" "length p \<le> 99"
  shows "lists rt p ramdisk_listing"
proof -
  have "c_str (p @ [0]) = p" using c_str_append_null [OF p(2), of "[]"] by simp
  then have ok: "path_ok (p @ [0])" using p(1,3,4) by (simp add: path_ok_def terminated_def map_of_char_def)
  have "pack 2048 (map fst (List.map_filter id (files (router_volume rt)))) = ramdisk_listing"
    by (simp add: ramdisk_files_ok [OF v] ramdisk_files_def ramdisk_listing_def List.map_filter_def c_lit_def map_of_char_def)
  then show ?thesis
    using t kernel_mounts_ok ok p(2,3) mnt_route [OF p(1,2)] ramdisk_sound [OF v] ramdisk_names [OF v] unfolding lists_def
    by (intro exI [of _ kernel_mounts] conjI disjI2 exI [of _ "c_lit ''/mnt''"]) (auto simp: c_lit_def map_of_char_def)
qed

lemma ramdisk_slots:
  assumes "i < 6" and "ramdisk_files ! i = Some (n, bytes)"
  shows "slot_of n ramdisk_files = int i"
proof -
  have "i = 0 \<or> i = 1 \<or> i = 2 \<or> i = 3 \<or> i = 4 \<or> i = 5" using assms(1) by arith
  then show ?thesis using assms(2)
    by (elim disjE) (auto simp: ramdisk_files_def slot_of_def first_index_def named_def)
qed

lemma ramdisk_file_at:
  assumes t: "mount_table rt = table_of kernel_mounts" and v: "holds_ramdisk (router_volume rt)"
    and n: "Some (n, bytes) \<in> set ramdisk_files"
  shows "file_at rt (map_of_char ''/mnt/'' @ n) bytes"
proof -
  have "length ramdisk_files = 6" by (simp add: ramdisk_files_def)
  then obtain i where i: "i < 6" "ramdisk_files ! i = Some (n, bytes)" using n by (auto simp: in_set_conv_nth)
  have "route kernel_mounts (under (map_of_char ''mnt'') [0]) = Some (FS_TYPE__TINY_FS, c_lit ''/mnt'')"
    by (simp add: route_def c_lit_def map_of_char_def first_dir_def under_def)
  moreover have "map_of_char ''/mnt/'' @ n = 47 # map_of_char ''mnt'' @ 47 # n" "dir_name_ok (map_of_char ''mnt'')"
      "c_str (c_lit ''/mnt'') = 47 # map_of_char ''mnt''"
    by (simp_all add: map_of_char_def c_lit_def dir_name_ok_def)
  ultimately show ?thesis
    using t kernel_mounts_ok ramdisk_sound [OF v] ramdisk_slots [OF i] i(2) ramdisk_files_ok [OF v] unfolding file_at_def
    by (intro exI [of _ kernel_mounts] exI [of _ "map_of_char ''mnt''"] exI [of _ n] exI [of _ "c_lit ''/mnt''"] exI [of _ i] exI [of _ n]) simp
qed

subsection \<open>Properties\<close>



text \<open>Claim C14. The file system that the started kernel serves: \<^verbatim>\<open>/mnt\<close> lists exactly the four files of the linked disk
  image, and reading each of them gives its bytes, across three clusters for \<^verbatim>\<open>test210\<close>.\<close>

theorem started_kernel_serves_files:
  assumes "kernel_started k" and "length buf = 2048"
  shows "get_list_of_files (k_router k) (c_lit ''/mnt'') buf 2048 =
      Some (28, c_lit ''test10'' @ c_lit ''test210'' @ c_lit ''test30'' @ c_lit ''a.out'' @ drop 28 buf) \<and>
    (\<forall>(n, bytes) \<in> {(''test10'', map_of_char ''Cluster 05'' @ [10]), (''test210'', test210_bytes),
        (''test30'', map_of_char ''Cluster 06'' @ 10 # replicate 19 0), (''a.out'', map_of_char ''Cluster 04'' @ [10])}.
      read_file hello (k_router k) (Some (map_of_char ''/mnt/'' @ c_lit n)) buf 2048 = Some (int (length bytes), bytes @ drop (length bytes) buf))"
proof
  note rt = started_router [OF assms(1)]
  have "lists (k_router k) (c_str (c_lit ''/mnt'')) ramdisk_listing"
    by (rule ramdisk_lists [OF rt]) (simp_all add: c_lit_def map_of_char_def first_dir_def)
  moreover have "terminated (c_lit ''/mnt'')" by (simp add: terminated_def c_lit_def)
  moreover have L: "length ramdisk_listing = 28" by (simp add: ramdisk_listing_def c_lit_def map_of_char_def)
  ultimately show "get_list_of_files (k_router k) (c_lit ''/mnt'') buf 2048 =
      Some (28, c_lit ''test10'' @ c_lit ''test210'' @ c_lit ''test30'' @ c_lit ''a.out'' @ drop 28 buf)"
    using get_list_ok [of "k_router k" "c_lit ''/mnt''" ramdisk_listing buf] assms(2) unfolding L by (simp add: ramdisk_listing_def)
  have f: "read_file hello (k_router k) (Some (map_of_char ''/mnt/'' @ c_lit n)) buf 2048 = Some (int (length bytes), bytes @ drop (length bytes) buf)"
    if "Some (map_of_char n, bytes) \<in> set ramdisk_files" "0 \<notin> set (map_of_char n)" "length n \<le> 90" "length bytes \<le> 2048" for n bytes
  proof -
    let ?P = "map_of_char ''/mnt/'' @ c_lit n"
    have "c_str ?P = map_of_char ''/mnt/'' @ map_of_char n"
      using that(2) c_str_append_null [of "map_of_char ''/mnt/'' @ map_of_char n" "[]"] by (simp add: c_lit_def map_of_char_def)
    moreover have "terminated ?P" by (simp add: terminated_def c_lit_def)
    ultimately show ?thesis
      using ramdisk_file_at [OF rt that(1)] that(3,4) assms(2) by (intro read_file_at) (simp_all add: map_of_char_def)
  qed
  show "\<forall>(n, bytes) \<in> {(''test10'', map_of_char ''Cluster 05'' @ [10]), (''test210'', test210_bytes),
        (''test30'', map_of_char ''Cluster 06'' @ 10 # replicate 19 0), (''a.out'', map_of_char ''Cluster 04'' @ [10])}.
      read_file hello (k_router k) (Some (map_of_char ''/mnt/'' @ c_lit n)) buf 2048 = Some (int (length bytes), bytes @ drop (length bytes) buf)"
    using f by (simp add: ramdisk_files_def map_of_char_def test210_bytes_def)
qed

theorem started_kernel_serves_files_witness:
  "\<exists>k. kernel_started k \<and> read_file [] (k_router k) (Some (map_of_char ''/mnt/'' @ c_lit ''test10'')) (replicate 2048 0) 2048 =
     Some (11, map_of_char ''Cluster 05'' @ 10 # replicate 2037 0)"
proof -
  obtain k where k: "kernel_started k" using kernel_starts by blast
  from conjunct2 [OF started_kernel_serves_files [OF k length_replicate, of 0 "[]"]]
  have "read_file [] (k_router k) (Some (map_of_char ''/mnt/'' @ c_lit ''test10'')) (replicate 2048 0) 2048 =
     Some (11, map_of_char ''Cluster 05'' @ 10 # replicate 2037 0)"
    by (simp add: map_of_char_def)
  then show ?thesis using k by blast
qed

end
