(* ===== verification/Start_Up.thy ===== *)
theory Start_Up
  imports Kernel_Main
begin

section \<open>The start-up (kernel\_main.c)\<close>

text \<open>
  What \<^verbatim>\<open>kernel_c_main\<close> does before its loop: the text that is on the screen when the stack has passed its test, and that the run
  behind it is undefined as the code stands.
\<close>

subsection \<open>Up to the self tests\<close>

fun type_size :: "c_type \<Rightarrow> nat" where
  "type_size C_u8 = 1" | "type_size C_s8 = 1" | "type_size C_u16 = 2" | "type_size C_s16 = 2"
| "type_size C_u32 = 4" | "type_size C_s32 = 4" | "type_size C_u64 = 8" | "type_size C_s64 = 8"

lemma check_types_eq: "check_types size_of m = (if size_of = type_size then Some m else None)"
proof -
  have "size_of = type_size \<longleftrightarrow> (\<forall>t \<in> {C_u8, C_s8, C_u16, C_s16, C_u32, C_s32, C_u64, C_s64}. size_of t = type_size t)"
  proof
    assume a: "\<forall>t \<in> {C_u8, C_s8, C_u16, C_s16, C_u32, C_s32, C_u64, C_s64}. size_of t = type_size t"
    show "size_of = type_size" using a by (intro ext) (case_tac x; simp)
  qed simp
  moreover have "wrong_size m = None" by (simp add: wrong_size_def Let_def bind_always_None)
  ultimately show ?thesis by (simp add: check_types_def)
qed

lemma printf_hex:
  assumes "console_ok (k_console k)" and "length (env_garbage env 256) = 256" and "0 \<notin> set pre" and "37 \<notin> set pre"
    and "0 \<notin> set post" and "37 \<notin> set post" and "w \<noteq> 0x80000000" and "length pre + length post \<le> 247"
  shows "\<exists>c. printf env (pre @ 37 # 120 # post @ [0]) [Arg_Int w] k = Some (k\<lparr>k_console := c\<rparr>) \<and>
    prints (pre @ hex_text False (unat w) @ post) (k_console k) c"
proof -
  let ?ds = "map Lit pre @ Hex False False 0 # map Lit post"
  have f: "pre @ 37 # 120 # post @ [0] = concat (map directive_text ?ds) @ [0]"
    using text_lits [of pre] text_lits [of post] by (simp add: width_text_def)
  show ?thesis unfolding f
  proof (rule printf_out [OF assms(1,2)])
    show "list_all printable ?ds" using assms(3-6) by (auto simp: list_all_iff printable_def)
    show "list_all arg_ok [Arg_Int w]" using assms(7) by (simp add: arg_ok_def)
    show "rendered ?ds [Arg_Int w] = Some (pre @ hex_text False (unat w) @ post)"
      using rendered_lits [of post "[]" "[]"] by (simp add: rendered_lits padding_def)
    show "0 \<notin> set (pre @ hex_text False (unat w) @ post)" using assms(3,5) hex_text_chars by simp
    have "unat w < 16 ^ Suc 7" by (rule order_less_le_trans [OF unsigned_less]) simp
    then have "length (hex_text False (unat w)) \<le> 8" using hex_text_short [of "unat w" 7] by simp
    then show "length (pre @ hex_text False (unat w) @ post) \<le> 255" using assms(8) by simp
  qed
qed

text \<open>The text of the start-up, over the addresses that it reports.\<close>

definition address_line :: "char list \<Rightarrow> u32 \<Rightarrow> u8 list" where
  "address_line s w = map_of_char s @ hex_text False (unat w) @ [32, 10]"

definition addresses_text :: "(nat \<Rightarrow> u32) \<Rightarrow> u8 list" where
  "addresses_text addr = [10, 10] @ map_of_char ''Starting kernel... '' @ [10, 10] @
     address_line ''kernel_c_main():  entry addr      = 0x'' (addr 0) @
     address_line ''kernel_c_main():  STACK_MEM_START = 0x'' (addr 1) @
     address_line ''kernel_c_main():  &local_var      = 0x'' (addr 2) @
     address_line ''kernel_c_main():  STACK_MEM_END   = 0x'' (addr 3) @
     address_line ''kernel_c_main():  hello_msg       = 0x'' (addr 4) @ [10]"

definition start_text :: "(nat \<Rightarrow> u32) \<Rightarrow> u8 list" where
  "start_text addr = addresses_text addr @ map_of_char ''Stack unittests: PASSED'' @ [10]"

lemma address_prints:
  assumes "console_ok (k_console k)" and "length (env_garbage env 256) = 256" and "w \<noteq> 0x80000000"
    and "0 \<notin> set (map_of_char s)" and "37 \<notin> set (map_of_char s)" and "length s \<le> 200" and "post \<in> {[32, 10], [32, 10, 10]}"
  shows "\<exists>c. printf env (map_of_char s @ 37 # 120 # post @ [0]) [Arg_Int w] k = Some (k\<lparr>k_console := c\<rparr>) \<and>
    prints (address_line s w @ drop 2 post) (k_console k) c"
proof -
  have p: "0 \<notin> set post" "37 \<notin> set post" "length (map_of_char s) + length post \<le> 247" "post = [32, 10] @ drop 2 post"
    using assms(6,7) by (auto simp: map_of_char_def)
  show ?thesis using printf_hex [OF assms(1,2,4,5) p(1,2) assms(3) p(3)] p(4) by (simp add: address_line_def)
qed

text \<open>An operation that only prints a text, and two of them in a row.\<close>

definition only_prints :: "(kernel \<Rightarrow> kernel option) \<Rightarrow> u8 list \<Rightarrow> bool" where
  "only_prints f txt \<longleftrightarrow> (\<forall>k. console_ok (k_console k) \<longrightarrow> (\<exists>c. f k = Some (k\<lparr>k_console := c\<rparr>) \<and> prints txt (k_console k) c))"

lemma only_printsE:
  assumes "only_prints f txt" and "console_ok c"
  obtains c' where "f (k\<lparr>k_console := c\<rparr>) = Some (k\<lparr>k_console := c'\<rparr>)" and "prints txt c c'"
proof -
  have "console_ok (k_console (k\<lparr>k_console := c\<rparr>))" using assms(2) by simp
  then obtain c' where "f (k\<lparr>k_console := c\<rparr>) = Some (k\<lparr>k_console := c, k_console := c'\<rparr>)" "prints txt (k_console (k\<lparr>k_console := c\<rparr>)) c'"
    using assms(1) unfolding only_prints_def by blast
  then show thesis using that [of c'] by simp
qed

lemma only_prints_bind:
  assumes "only_prints f a" and "only_prints g b"
  shows "only_prints (\<lambda>k. Option.bind (f k) g) (a @ b)"
  unfolding only_prints_def
proof (intro allI impI)
  fix k :: kernel assume "console_ok (k_console k)"
  then obtain c where c: "f k = Some (k\<lparr>k_console := c\<rparr>)" "prints a (k_console k) c"
    using assms(1) unfolding only_prints_def by blast
  obtain c' where "g (k\<lparr>k_console := c\<rparr>) = Some (k\<lparr>k_console := c'\<rparr>)" "prints b c c'"
    by (rule only_printsE [OF assms(2) prints_ok [OF c(2)]])
  then show "\<exists>c. Option.bind (f k) g = Some (k\<lparr>k_console := c\<rparr>) \<and> prints (a @ b) (k_console k) c"
    using c(1) prints_trans [OF c(2)] by (intro exI [of _ c']) simp
qed

lemma println_only_prints: "terminated s \<Longrightarrow> c_str s @ [10] = txt \<Longrightarrow> only_prints (on_console (kernel_println s)) txt"
  using kernel_println_prints unfolding only_prints_def by (fastforce simp: on_console_def)

lemma address_only_prints:
  assumes "f = map_of_char s @ 37 # 120 # post @ [0]" and "length (env_garbage env 256) = 256" and "w \<noteq> 0x80000000"
    and "0 \<notin> set (map_of_char s)" and "37 \<notin> set (map_of_char s)" and "length s \<le> 200" and "post \<in> {[32, 10], [32, 10, 10]}"
  shows "only_prints (printf env f [Arg_Int w]) (address_line s w @ drop 2 post)"
  using address_prints assms unfolding only_prints_def by simp

lemma addresses_print:
  assumes g: "length (env_garbage env 256) = 256" and a: "\<forall>i < 5. addr i \<noteq> 0x80000000"
  shows "only_prints (print_addresses env addr) (addresses_text addr)"
proof -
  have say: "only_prints (say env (s @ ''%x '') [addr i]) (address_line s (addr i))"
    if "i < 5" "0 \<notin> set (map_of_char s)" "37 \<notin> set (map_of_char s)" "length s \<le> 200" for s i
    using address_only_prints [OF _ g, of "map_of_char (s @ ''%x '') @ [10, 0]" s "[32, 10]" "addr i"] a that by (simp add: map_of_char_def)
  have s1: "only_prints (on_console (kernel_println ([10, 10] @ map_of_char ''Starting kernel... '' @ [10, 0])))
      ([10, 10] @ map_of_char ''Starting kernel... '' @ [10, 10])"
    by (rule println_only_prints) (simp_all add: terminated_def map_of_char_def)
  have s2: "only_prints (say env ''kernel_c_main():  entry addr      = 0x%x '' [addr 0]) (address_line ''kernel_c_main():  entry addr      = 0x'' (addr 0))"
    using say [of 0 "''kernel_c_main():  entry addr      = 0x''"] by (simp add: map_of_char_def)
  have s3: "only_prints (say env ''kernel_c_main():  STACK_MEM_START = 0x%x '' [addr 1]) (address_line ''kernel_c_main():  STACK_MEM_START = 0x'' (addr 1))"
    using say [of 1 "''kernel_c_main():  STACK_MEM_START = 0x''"] by (simp add: map_of_char_def)
  have s4: "only_prints (say env ''kernel_c_main():  &local_var      = 0x%x '' [addr 2]) (address_line ''kernel_c_main():  &local_var      = 0x'' (addr 2))"
    using say [of 2 "''kernel_c_main():  &local_var      = 0x''"] by (simp add: map_of_char_def)
  have s5: "only_prints (say env ''kernel_c_main():  STACK_MEM_END   = 0x%x '' [addr 3]) (address_line ''kernel_c_main():  STACK_MEM_END   = 0x'' (addr 3))"
    using say [of 3 "''kernel_c_main():  STACK_MEM_END   = 0x''"] by (simp add: map_of_char_def)
  have s6: "only_prints (printf env (map_of_char ''kernel_c_main():  hello_msg       = 0x%x '' @ [10, 10, 0]) [Arg_Int (addr 4)])
      (address_line ''kernel_c_main():  hello_msg       = 0x'' (addr 4) @ [10])"
    using address_only_prints [OF _ g, of _ "''kernel_c_main():  hello_msg       = 0x''" "[32, 10, 10]" "addr 4"] a by (simp add: map_of_char_def)
  show ?thesis
    unfolding print_addresses_def addresses_text_def
    using only_prints_bind [OF s1 only_prints_bind [OF s2 only_prints_bind [OF s3 only_prints_bind [OF s4 only_prints_bind [OF s5 s6]]]]] by simp
qed

lemma say_hello_ok: "\<exists>m'. say_hello m = Some m' \<and> draws (row_picture (c_lit ''Hello from C code!'') 3 5) m m'"
  using print_string_row [of 3 "c_lit ''Hello from C code!''" 5 m] by (simp add: say_hello_def c_lit_def map_of_char_def)

lemma header_kept: "header_shown m \<Longrightarrow> same_rows {18..<25} m m' \<Longrightarrow> header_shown m'"
  unfolding header_shown_def list_all_iff same_rows_def set_upt by fastforce

lemma start_console_ok:
  assumes "shell_terminal (k_console k) = zeroed_terminal" and "log_terminal (k_console k) = zeroed_terminal"
    and "boot_sizeof b = type_size" and "length (env_garbage env 256) = 256" and "\<forall>i < 5. boot_addr b i \<noteq> 0x80000000"
    and "length (boot_test_buffer b) = 3"
  shows "\<exists>c c'. start_console env b k = Some (k\<lparr>k_console := c'\<rparr>) \<and> console_ok c \<and> header_shown (con_machine c) \<and>
    terminal_lines (shell_terminal c) = [] \<and> tc_current_end_x (shell_terminal c) = 0 \<and> terminal_lines (log_terminal c) = [] \<and>
    prints (start_text (boot_addr b)) c c'"
proof -
  let ?m = "con_machine (k_console k)"
  obtain m where m: "say_hello ?m = Some m" using say_hello_ok by blast
  have "(k_console k)\<lparr>con_machine := m\<rparr> = \<lparr>shell_terminal = zeroed_terminal, log_terminal = zeroed_terminal, con_machine = m\<rparr>"
    using assms(1,2) by (simp add: console.equality)
  then obtain c where c: "kernel_stdio_init ((k_console k)\<lparr>con_machine := m\<rparr>) = Some c" "console_ok c" "header_shown (con_machine c)"
      "terminal_lines (shell_terminal c) = []" "tc_current_end_x (shell_terminal c) = 0" "terminal_lines (log_terminal c) = []"
    using kernel_stdio_init_ok [of m] by metis
  have "only_prints (report_stack_unittests 0) (map_of_char ''Stack unittests: PASSED'' @ [10])"
    unfolding report_stack_unittests_def
    using println_only_prints [of "c_lit ''Stack unittests: PASSED''"] by (simp add: terminated_def c_lit_def map_of_char_def)
  then have p: "only_prints (\<lambda>k. Option.bind (print_addresses env (boot_addr b) k) (report_stack_unittests 0)) (start_text (boot_addr b))"
    unfolding start_text_def by (rule only_prints_bind [OF addresses_print [OF assms(4,5)]])
  obtain c' where c': "Option.bind (print_addresses env (boot_addr b) (k\<lparr>k_console := c\<rparr>)) (report_stack_unittests 0) = Some (k\<lparr>k_console := c'\<rparr>)"
      "prints (start_text (boot_addr b)) c c'"
    by (rule only_printsE [OF p c(2)])
  obtain b0 b1 b2 where "boot_test_buffer b = [b0, b1, b2]" using assms(6) by (auto simp: length_Suc_conv numeral_3_eq_3)
  then have t: "run_unittests_stack (boot_handle b) (boot_test_buffer b) = Some 0" by (simp add: run_unittests_stack_passes)
  show ?thesis
    using c c' m t by (intro exI [of _ c] exI [of _ c']) (simp add: start_console_def check_types_eq assms(3))
qed

lemma start_components_undefined:
  assumes "heap_placed (boot_heap_buffer b)" and "length (boot_heap_stack b) = 3"
  shows "start_components env b st = None"
  by (simp add: start_components_def run_unittests_heap_allocator_undefined [OF assms] split: prod.split)

subsection \<open>Properties\<close>

text \<open>Claim C15. The start-up of the kernel over its zeroed terminals: with the type sizes that \<^verbatim>\<open>check_types\<close> asks for, the header of
  the log stands in its row, the log window is empty, and the shell window shows exactly the start text with the five addresses and
  the passed test of the stack; the greeting that was drawn before the windows is gone. As written the start-up has no defined
  continuation: the self test of the heap then reads behind its array.\<close>

theorem kernel_start_up:
  assumes "shell_terminal (k_console k) = zeroed_terminal" and "log_terminal (k_console k) = zeroed_terminal"
    and "boot_sizeof b = type_size" and "length (env_garbage env 256) = 256" and "\<forall>i < 5. boot_addr b i \<noteq> 0x80000000"
    and "length (boot_test_buffer b) = 3" and "heap_placed (boot_heap_buffer b)" and "length (boot_heap_stack b) = 3"
  shows "\<exists>c. start_console env b k = Some (k\<lparr>k_console := c\<rparr>) \<and> console_ok c \<and> header_shown (con_machine c) \<and>
    terminal_lines (log_terminal c) = [] \<and>
    (terminal_lines (shell_terminal c), tc_current_end_x (shell_terminal c)) = screen_text 17 (start_text (boot_addr b)) ([], 0) \<and>
    shows_lines (con_machine c) (shell_terminal c) \<and> kernel_c_main_start env b (t, k) = None"
proof -
  obtain c c' where c: "start_console env b k = Some (k\<lparr>k_console := c'\<rparr>)" "console_ok c" "header_shown (con_machine c)"
      "terminal_lines (shell_terminal c) = []" "tc_current_end_x (shell_terminal c) = 0" "terminal_lines (log_terminal c) = []"
      "prints (start_text (boot_addr b)) c c'"
    using start_console_ok [OF assms(1-6)] by blast
  have "start_text (boot_addr b) \<noteq> []" by (simp add: start_text_def)
  then have "shows_lines (con_machine c') (shell_terminal c')" "log_terminal c' = log_terminal c" "header_shown (con_machine c')"
      "(terminal_lines (shell_terminal c'), tc_current_end_x (shell_terminal c')) = screen_text 17 (start_text (boot_addr b)) ([], 0)"
    using c header_kept unfolding prints_def by auto
  then show ?thesis
    using c(1,6) prints_ok [OF c(7)] start_components_undefined [OF assms(7,8)]
    by (intro exI [of _ c']) (simp add: kernel_c_main_start_def)
qed

definition sample_boot :: boot where
  "sample_boot = \<lparr>boot_sizeof = type_size, boot_addr = (\<lambda>i. 0x100000), boot_handle = zero_handle, boot_test_buffer = [0, 0, 0],
     boot_heap_buffer = 0x106000, boot_heap_stack = [0, 0, 0], boot_heap_bytes = replicate 480 0, boot_gdt_limit = 0x27, boot_gdt_base = 0x8F5C,
     boot_segments = (\<lambda>_. 8), boot_idt_table = 0x108000, boot_handlers = (\<lambda>_. 0x100400), boot_process_stacks = 0x200000,
     boot_process_buffer = replicate 32 0\<rparr>"

theorem kernel_start_up_witness:
  "\<exists>c. start_console quiet_env sample_boot (prompt_kernel first_console) = Some ((prompt_kernel first_console)\<lparr>k_console := c\<rparr>) \<and>
     header_shown (con_machine c) \<and> terminal_lines (log_terminal c) = [] \<and>
     kernel_c_main_start quiet_env sample_boot (\<lparr>idtr = (0, 0), store_idt = (0, 0), IDT_table = replicate 2048 0\<rparr>, prompt_kernel first_console) = None"
proof -
  have k: "k_console (prompt_kernel first_console) = first_console" by (simp add: prompt_kernel_def)
  show ?thesis
    using kernel_start_up [of "prompt_kernel first_console" sample_boot quiet_env] unfolding k
    by (auto simp: first_console_def sample_boot_def quiet_env_def heap_placed_def)
qed

end
