(* ===== verification/Host_Fuse.thy ===== *)
theory Host_Fuse
  imports Filesystem_Router Format
begin

section \<open>TinyFS on a Linux host (fs/tinyfs/tests)\<close>

text \<open>
  The two programs that run TinyFS outside the kernel: the FUSE driver \<^verbatim>\<open>fuse_test.c\<close> and the script \<^verbatim>\<open>shell_test.c\<close>. What they
  print is a list of bytes that is passed along; the callback \<^verbatim>\<open>filler\<close> of FUSE, whose result they ignore, is the list of the names
  it is called with; the buffer that FUSE hands to a read is a list of the bytes that it asked for. Tracing is switched off.
\<close>

subsection \<open>The C library\<close>

fun strcmp :: "u8 list \<Rightarrow> u8 list \<Rightarrow> int option" where
  "strcmp (a # s) (b # t) = (if a \<noteq> b then Some (int (unat a) - int (unat b)) else if a = 0 then Some 0 else strcmp s t)"
| "strcmp s t = None"

text \<open>\<^verbatim>\<open>%02x\<close>, and the conversions with a width that is filled with spaces.\<close>

definition hex2 :: "u32 \<Rightarrow> u8 list" where "hex2 w = padding True 2 (hex_text False (unat w))"

definition to_right :: "nat \<Rightarrow> u8 list \<Rightarrow> u8 list" where "to_right n txt = replicate (n - length txt) 32 @ txt"

definition string_at :: "u8 list \<Rightarrow> u8 list option" where
  "string_at s = (if terminated s then Some (c_str s) else None)"

definition ENOENT :: int where "ENOENT = 2"
definition ENOSPC :: int where "ENOSPC = 28"
definition S_IFDIR :: u32 where "S_IFDIR = 0x4000"
definition S_IFREG :: u32 where "S_IFREG = 0x8000"

text \<open>The fields of \<^verbatim>\<open>struct stat\<close> that are set.\<close>

record stat =
  st_mode :: u32
  st_nlink :: nat
  st_size :: int

subsection \<open>Showing the volume\<close>

partial_function (option) print_cluster_chain :: "tinyfs \<Rightarrow> u32 \<Rightarrow> u8 list \<Rightarrow> u8 list option" where
  "print_cluster_chain s head_cluster out = do {
     next_cluster \<leftarrow> FAT_get_linked_cluster s head_cluster;
     if next_cluster = 0xFF then Some (out @ hex2 head_cluster)
     else print_cluster_chain s next_cluster (out @ hex2 head_cluster @ map_of_char '' -> '')
   }"

definition print_clusters :: "tinyfs \<Rightarrow> u8 list \<Rightarrow> u8 list option" where
  "print_clusters s out =
     for_loop 1 30 (\<lambda>i out. do {
       next_cluster \<leftarrow> FAT_get_linked_cluster s (of_nat i);
       out \<leftarrow> (if next_cluster \<noteq> 0 then print_cluster_chain s (of_nat i) (out @ map_of_char ''Cluster '')
              else Some (out @ map_of_char ''Cluster FREE''));
       Some (out @ [10])
     }) out"

definition print_table :: "tinyfs \<Rightarrow> u8 list \<Rightarrow> u8 list option" where
  "print_table s out = do {
     count \<leftarrow> rootdir_get_table_size s;
     let out = out @ map_of_char ''   IDX   SIZE   NAME.........   CLUSTERS '' @ [10];
     out \<leftarrow> for_loop 0 (nat count) (\<lambda>i out. do {
       (r, entry) \<leftarrow> rootdir_get_file_entry s (of_nat i);
       if r = 0 then do {
         e \<leftarrow> entry;
         name \<leftarrow> string_at (fe_name e);
         let out = out @ map_of_char ''   '' @ to_right 3 (dec_text i) @ map_of_char ''   '' @ to_right 4 (dec_text (unat (fe_file_size e))) @
           map_of_char ''   '' @ to_right 13 name @ map_of_char ''   '';
         out \<leftarrow> print_cluster_chain s (ucast (fe_data_cluster e)) out;
         Some (out @ [10])
       }
       else Some out
     }) out;
     Some (out @ [10])
   }"

subsection \<open>The FUSE driver (fuse\_test.c)\<close>

definition print_FAT_table :: "tinyfs \<Rightarrow> u8 list \<Rightarrow> u8 list option" where
  "print_FAT_table s out = print_clusters s (out @ 10 # map_of_char ''Allocated clusters: '' @ [10])"

definition print_root_dir_table :: "tinyfs \<Rightarrow> u8 list \<Rightarrow> u8 list option" where
  "print_root_dir_table s out = print_table s (out @ [10])"

definition no_stat :: stat where "no_stat = \<lparr>st_mode = 0, st_nlink = 0, st_size = 0\<rparr>"
definition dir_stat :: stat where "dir_stat = no_stat\<lparr>st_mode := S_IFDIR OR 0x1ED, st_nlink := 2\<rparr>"
definition file_stat :: "int \<Rightarrow> stat" where "file_stat n = no_stat\<lparr>st_mode := S_IFREG OR 0x1FF, st_nlink := 1, st_size := n\<rparr>"

text \<open>The third test is repeated in the source, so its second branch is never taken.\<close>

definition fuse_getattr :: "tinyfs \<Rightarrow> u8 list \<Rightarrow> (int \<times> stat) option" where
  "fuse_getattr s path = do {
     root \<leftarrow> strcmp path (c_lit ''/'');
     if root = 0 then Some (0, dir_stat) else do {
     debug \<leftarrow> strcmp path (c_lit ''/debug'');
     if debug = 0 then Some (0, dir_stat) else do {
     table \<leftarrow> strcmp path (c_lit ''/debug/fat_table'');
     if table = 0 then Some (0, file_stat 1024) else do {
     table \<leftarrow> strcmp path (c_lit ''/debug/fat_table'');
     if table = 0 then Some (0, file_stat (4 * 1024)) else do {
     table \<leftarrow> strcmp path (c_lit ''/debug/root_dir_table'');
     if table = 0 then Some (0, file_stat (4 * 1024)) else do {
     index \<leftarrow> rootdir_find_file s (Some (drop 1 path));
     if index \<ge> 0 then do {
       (_, file) \<leftarrow> rootdir_get_file_entry s (of_int index);
       f \<leftarrow> file;
       Some (0, file_stat (uint (fe_file_size f)))
     }
     else Some (- ENOENT, no_stat)
   }}}}}}"

definition fuse_readdir :: "tinyfs \<Rightarrow> u8 list \<Rightarrow> (int \<times> u8 list list) option" where
  "fuse_readdir s path = do {
     let filled = [c_lit ''.'', c_lit ''..''];
     root \<leftarrow> strcmp path (c_lit ''/'');
     filled \<leftarrow> (if root = 0 then do {
         count \<leftarrow> rootdir_get_table_size s;
         for_loop 0 (nat count) (\<lambda>i filled. do {
           (r, file) \<leftarrow> rootdir_get_file_entry s (of_nat i);
           if r = 0 then do { f \<leftarrow> file; Some (filled @ [fe_name f]) } else Some filled
         }) (filled @ [c_lit ''debug''])
       }
       else Some filled);
     debug \<leftarrow> strcmp path (c_lit ''/debug'');
     Some (0, if debug = 0 then filled @ [c_lit ''root_dir_table'', c_lit ''fat_table''] else filled)
   }"

definition fuse_open :: "u8 list \<Rightarrow> int" where "fuse_open path = 0"

text \<open>\<^verbatim>\<open>size\<close> and \<^verbatim>\<open>offset\<close> are not looked at; a byte that cannot be read leaves the buffer as it is.\<close>

definition fuse_read :: "tinyfs \<Rightarrow> u8 list \<Rightarrow> u8 list \<Rightarrow> nat \<Rightarrow> int \<Rightarrow> u8 list \<Rightarrow> (int \<times> u8 list \<times> u8 list) option" where
  "fuse_read s path buf sz offset out = do {
     table \<leftarrow> strcmp path (c_lit ''/debug/fat_table'');
     if table = 0 then do { out \<leftarrow> print_FAT_table s out; Some (0, buf, out) } else do {
     table \<leftarrow> strcmp path (c_lit ''/debug/root_dir_table'');
     if table = 0 then do { out \<leftarrow> print_root_dir_table s out; Some (0, buf, out) } else do {
     index \<leftarrow> rootdir_find_file s (Some (drop 1 path));
     if index < 0 then Some (- ENOENT, buf, out) else do {
     (r, entry) \<leftarrow> rootdir_get_file_entry s (of_int index);
     if r \<noteq> 0 then Some (- ENOENT, buf, out) else do {
     e \<leftarrow> entry;
     buf \<leftarrow> for_loop 0 (unat (fe_file_size e)) (\<lambda>i buf. do {
       (_, v) \<leftarrow> cluster_read_8bit s (ucast (fe_data_cluster e)) (of_nat i);
       case v of None \<Rightarrow> Some buf | Some byte \<Rightarrow> wr buf i byte
     }) buf;
     Some (uint (fe_file_size e), buf, out)
   }}}}}"

definition fuse_write :: "tinyfs \<Rightarrow> u8 list \<Rightarrow> u8 list \<Rightarrow> u32 \<Rightarrow> int \<Rightarrow> (int \<times> tinyfs) option" where
  "fuse_write s path buf sz offset = do {
     index \<leftarrow> rootdir_find_file s (Some (drop 1 path));
     if index < 0 then Some (- ENOENT, s) else do {
     (r, entry) \<leftarrow> rootdir_get_file_entry s (of_int index);
     if r \<noteq> 0 then Some (-1, s) else do {
     file \<leftarrow> entry;
     (ret, s) \<leftarrow> cluster_write_data s (ucast (fe_data_cluster file)) (of_int offset) buf sz;
     if ret = 0 then do {
       (ret, s) \<leftarrow> rootdir_set_file_size s (of_int index) (ucast (ucast (fe_file_size file) + sz));
       Some (sint sz, s)
     }
     else Some (- ENOSPC, s)
   }}}"

definition fuse_unlink :: "tinyfs \<Rightarrow> u8 list \<Rightarrow> (int \<times> tinyfs) option" where
  "fuse_unlink s path = do {
     (r, s) \<leftarrow> fs_delete s (Some (drop 1 path));
     Some (if r = 0 then 0 else - ENOENT, s)
   }"

definition fuse_create :: "tinyfs \<Rightarrow> u8 list \<Rightarrow> (int \<times> tinyfs) option" where
  "fuse_create s path = do {
     (r, s) \<leftarrow> fs_create_file s (Some (drop 1 path));
     Some (if r \<ge> 0 then 0 else - ENOENT, s)
   }"

definition fuse_flush :: "u8 list \<Rightarrow> int" where "fuse_flush path = 0"

definition fuse_mknod :: "tinyfs \<Rightarrow> u8 list \<Rightarrow> (int \<times> tinyfs) option" where
  "fuse_mknod s path = do {
     (r, s) \<leftarrow> fs_create_file s (Some (drop 1 path));
     Some (if r \<ge> 0 then 0 else - ENOENT, s)
   }"

text \<open>\<^verbatim>\<open>main\<close> around FUSE's loop \<open>fuse_main\<close>, which calls the functions above; its results are ignored.\<close>

definition fuse_test_main :: "(tinyfs \<Rightarrow> tinyfs option) \<Rightarrow> tinyfs \<Rightarrow> tinyfs option" where
  "fuse_test_main fuse_main s = do {
     (_, s) \<leftarrow> fs_load_ramdisk s (Some DISK_IMAGE);
     s \<leftarrow> fuse_main s;
     let _ = fs_store_disk_image s (c_lit ''fuse_disk_out.img'');
     Some s
   }"

subsection \<open>What the driver finds\<close>

lemma strcmp_ok: "terminated s \<Longrightarrow> terminated t \<Longrightarrow> \<exists>r. strcmp s t = Some r \<and> (r = 0 \<longleftrightarrow> c_str s = c_str t)"
proof (induction s t rule: strcmp.induct)
  case (1 a s b t)
  have d: "int (unat a) - int (unat b) = 0 \<longleftrightarrow> a = b" using unat_eqD [of a b] by (simp del: of_nat_unat) blast
  show ?case
  proof (cases "a = b \<and> a \<noteq> 0")
    case True
    then have "terminated s" "terminated t" using 1 by (auto simp: terminated_def)
    from "1.IH" [OF _ _ this] True show ?thesis by simp
  qed (use d in \<open>auto simp del: of_nat_unat\<close>)
qed (simp_all add: terminated_def)

text \<open>The path of a file, and no path that the driver answers by itself.\<close>

definition file_path :: "u8 list \<Rightarrow> bool" where
  "file_path p \<longleftrightarrow> terminated (tl p) \<and> p \<noteq> [] \<and> hd p = 47 \<and>
     c_str p \<notin> map_of_char ` {''/'', ''/debug'', ''/debug/fat_table'', ''/debug/root_dir_table''}"

lemma file_path_test:
  assumes "file_path p" and "q \<in> {''/'', ''/debug'', ''/debug/fat_table'', ''/debug/root_dir_table''}"
  shows "\<exists>r. strcmp p (c_lit q) = Some r \<and> r \<noteq> 0"
proof -
  have t: "terminated p" using assms(1) by (cases p) (auto simp: file_path_def terminated_def)
  have "terminated (c_lit q)" by (simp add: terminated_def c_lit_def)
  moreover have "c_str (c_lit q) = map_of_char q" using assms(2) by (auto simp: c_lit_def map_of_char_def)
  moreover have "c_str p \<noteq> map_of_char q" using assms unfolding file_path_def by blast
  ultimately show ?thesis using strcmp_ok [OF t, of "c_lit q"] by auto
qed

text \<open>What the directory holds under a name.\<close>

definition lookup :: "u8 list \<Rightarrow> (u8 list \<times> u8 list) option list \<Rightarrow> u8 list option" where
  "lookup n d = (if slot_of n d < 0 then None else map_option snd (d ! nat (slot_of n d)))"

lemma tiny_read_loop:
  assumes "view s (fe_head e) = Some vs" and "unat (fe_file_size e) \<le> length vs"
  shows "for_loop 0 (unat (fe_file_size e)) (\<lambda>i buf. do {
       (_, v) \<leftarrow> cluster_read_8bit s (ucast (fe_data_cluster e)) (of_nat i);
       case v of None \<Rightarrow> Some buf | Some byte \<Rightarrow> wr buf i byte
     }) buf = (let c = take (unat (fe_file_size e)) vs in if length c \<le> length buf then Some (c @ drop (length c) buf) else None)"
proof -
  let ?n = "unat (fe_file_size e)"
  have "for_loop 0 ?n (\<lambda>i buf. do {
       (_, v) \<leftarrow> cluster_read_8bit s (ucast (fe_data_cluster e)) (of_nat i);
       case v of None \<Rightarrow> Some buf | Some byte \<Rightarrow> wr buf i byte }) buf = for_loop 0 ?n (\<lambda>i b. wr b i (vs ! i)) buf"
    by (rule for_loop_cong) (simp add: file_byte [OF assms])
  moreover have "map (\<lambda>i. vs ! i) [0..<?n] = take ?n vs" using assms(2) by (intro nth_equalityI) simp_all
  ultimately show ?thesis
    using for_loop_fill [of 0 ?n buf "\<lambda>i. vs ! i"] for_loop_overrun [of 0 buf ?n "\<lambda>i. vs ! i"] assms(2) by (simp add: Let_def)
qed

lemma fuse_getattr_file:
  assumes "fs_sound s" and "file_path p"
  shows "fuse_getattr s p = Some (case lookup (c_str (tl p)) (files s) of
    None \<Rightarrow> (- ENOENT, no_stat) | Some c \<Rightarrow> (0, file_stat (int (length c))))"
proof -
  have t: "terminated (tl p)" "drop 1 p = tl p" using assms(2) by (simp_all add: file_path_def drop_Suc)
  note q = file_path_test [OF assms(2)]
  obtain r1 r2 r3 r4 where r: "strcmp p (c_lit ''/'') = Some r1" "r1 \<noteq> 0" "strcmp p (c_lit ''/debug'') = Some r2" "r2 \<noteq> 0"
      "strcmp p (c_lit ''/debug/fat_table'') = Some r3" "r3 \<noteq> 0" "strcmp p (c_lit ''/debug/root_dir_table'') = Some r4" "r4 \<noteq> 0"
    using q [of "''/''"] q [of "''/debug''"] q [of "''/debug/fat_table''"] q [of "''/debug/root_dir_table''"] by blast
  have f: "rootdir_find_file s (Some (tl p)) = Some (slot_of (c_str (tl p)) (files s))"
    using fs_open_sound [OF assms(1) t(1)] by (simp add: fs_open_def)
  show ?thesis
  proof (cases rule: slot_cases [of "c_str (tl p)" "files s"])
    case 1
    then show ?thesis using r f t(2) by (simp add: fuse_getattr_def lookup_def)
  next
    case (2 i m c)
    obtain e vs where "files s ! i = Some (c_str (fe_name e), content s e)" "unat (fe_file_size e) \<le> length vs"
        "content s e = take (unat (fe_file_size e)) vs" "rootdir_get_file_entry s (of_nat i) = Some (0, Some e)"
      by (rule found_file [OF assms(1) 2(1)])
    then show ?thesis using r f t(2) 2(1) by (simp add: fuse_getattr_def lookup_def)
  qed
qed

lemma fuse_read_file:
  assumes "fs_sound s" and "file_path p"
  shows "fuse_read s p buf sz offset out = (case lookup (c_str (tl p)) (files s) of
    None \<Rightarrow> Some (- ENOENT, buf, out)
  | Some c \<Rightarrow> if length c \<le> length buf then Some (int (length c), c @ drop (length c) buf, out) else None)"
proof -
  have t: "terminated (tl p)" "drop 1 p = tl p" using assms(2) by (simp_all add: file_path_def drop_Suc)
  note q = file_path_test [OF assms(2)]
  obtain r3 r4 where r: "strcmp p (c_lit ''/debug/fat_table'') = Some r3" "r3 \<noteq> 0" "strcmp p (c_lit ''/debug/root_dir_table'') = Some r4" "r4 \<noteq> 0"
    using q [of "''/debug/fat_table''"] q [of "''/debug/root_dir_table''"] by blast
  have f: "rootdir_find_file s (Some (tl p)) = Some (slot_of (c_str (tl p)) (files s))"
    using fs_open_sound [OF assms(1) t(1)] by (simp add: fs_open_def)
  show ?thesis
  proof (cases rule: slot_cases [of "c_str (tl p)" "files s"])
    case 1
    then show ?thesis using r f t(2) by (simp add: fuse_read_def lookup_def)
  next
    case (2 i m c)
    obtain e vs where e: "files s ! i = Some (c_str (fe_name e), content s e)" "view s (fe_head e) = Some vs"
        "unat (fe_file_size e) \<le> length vs" "content s e = take (unat (fe_file_size e)) vs"
        "rootdir_get_file_entry s (of_nat i) = Some (0, Some e)"
      by (rule found_file [OF assms(1) 2(1)])
    show ?thesis using r f t(2) 2(1) e tiny_read_loop [OF e(2,3), of buf] by (simp add: fuse_read_def lookup_def Let_def)
  qed
qed


text \<open>A write whose bytes stay inside the clusters that the file has: they land at their offset, and the size grows by their number.\<close>

lemma fuse_write_inside:
  assumes inv: "fs_inv s" and p: "terminated (tl p)" and sl: "slot_of (c_str (tl p)) (files s) = int i"
    and e: "dir_of s ! i = Some e" and vs: "view s (fe_head e) = Some vs"
    and k: "k + unat n \<le> length vs" and n: "unat n \<le> length buf" and sz: "unat (fe_file_size e) + unat n < 65536"
  shows "\<exists>s'. fuse_write s p buf n (int k) = Some (sint n, s') \<and>
    files s' = (files s)[i := Some (c_str (fe_name e),
      take (unat (fe_file_size e) + unat n) (take k vs @ take (unat n) buf @ drop (k + unat n) vs))] \<and>
    (length vs < unat (fe_file_size e) + unat n \<longrightarrow> \<not> fs_inv s')"
proof -
  have snd: "fs_sound s" using inv by (simp add: fs_inv_sound)
  have i: "i < length (dir_of s)" using first_index_Some(1) [OF sl [unfolded slot_of_def]] by simp
  obtain bs where rb: "rootdir s = Some bs" and db: "dir_of s = entries bs" using fs_inv_root [OF inv] by metis
  have get: "rootdir_get_file_entry s (of_nat i) = Some (0, Some e)"
    using get_entry_entries [OF rb, of i] i e by (simp add: db)
  have find: "rootdir_find_file s (Some (drop (Suc 0) p)) = Some (int i)"
    using fs_open_sound [OF snd p] sl by (simp add: fs_open_def drop_Suc)
  let ?h = "fe_head e" and ?vs = "take k vs @ take (unat n) buf @ drop (k + unat n) vs"
  have b: "length vs < 4294967296" using tinyfs_store.view_bound [OF vs] .
  then have ku: "unat (of_int (int k) :: u32) = k" using k by (simp add: unat_of_nat_u32)
  have "unat (of_int (int k) :: u32) \<le> length vs" "unat (of_int (int k) :: u32) + unat n \<le> room s ?h"
    unfolding ku using k room_lt(1) [OF vs] by simp_all
  from cluster_write_data_ex [OF vs this n] obtain s1 where
    w: "cluster_write_data s ?h (of_int (int k)) buf n = Some (0, s1)" "view s1 ?h = Some ?vs" "tfs_frame s ?h s1"
    unfolding ku using k by auto
  have lv: "length ?vs = length vs" using k n by simp
  have a2: "apart s ?h 2" using fs_inv_entry(1) [OF inv i e] by (simp add: apart_sym)
  let ?x = "ucast (ucast (fe_file_size e) + n :: u32) :: u16"
  have x: "unat ?x = unat (fe_file_size e) + unat n" using sz by (rule unat_size_plus)
  have rb1: "rootdir s1 = Some bs" using frameD(2) [OF w(3) a2] rb by simp
  then have d1: "dir_of s1 = dir_of s" using rb by (simp add: dir_of_def)
  let ?e = "e\<lparr>fe_file_size := ?x\<rparr>"
  have "i < length (dir_of s1)" "dir_of s1 ! i = Some e" using i e by (simp_all add: d1)
  from size_entry [OF rb1 this] obtain s2 where s2: "cluster_write_16bit s1 2 (of_nat i * 16 + of_nat 13) ?x = Some (0, s2)"
      "tfs_frame s1 2 s2" "dir_of s2 = (dir_of s)[i := Some ?e]"
    unfolding d1 by blast
  note d = s2(3)
  have hd: "fe_head ?e = ?h" by (simp add: fe_head_def)
  have v2: "view s2 ?h = Some ?vs"
    using frameD(2) [OF s2(2)] frameD(3) [OF w(3) a2] w(2) by (simp add: apart_sym)
  have other: "view s2 (fe_head e') = view s (fe_head e')" if j: "j < length (dir_of s)" "j \<noteq> i" "dir_of s ! j = Some e'" for j e'
  proof -
    have a: "apart s ?h (fe_head e')" using fs_inv_pair [OF inv i j(1) _ e j(3)] j(2) by simp
    have "apart s1 2 (fe_head e')" using frameD(4) [OF w(3) a2 a] fs_inv_entry(1) [OF inv j(1,3)] by simp
    then show ?thesis using frameD(2) [OF s2(2)] frameD(2) [OF w(3) a] by simp
  qed
  have "files s2 = (files s)[i := Some (c_str (fe_name e), take (unat (fe_file_size e) + unat n) ?vs)]"
  proof (rule nth_equalityI)
    fix j assume "j < length (files s2)"
    then have j: "j < length (dir_of s)" "j < length (dir_of s2)" by (simp_all add: d)
    show "files s2 ! j = (files s)[i := Some (c_str (fe_name e), take (unat (fe_file_size e) + unat n) ?vs)] ! j"
    proof (cases "j = i")
      case True
      then show ?thesis using i files_nth [OF j(2)] v2 x by (simp add: d content_def hd del: take_append)
    next
      case False
      then show ?thesis
        using files_nth [OF j(2)] files_nth [OF j(1)] other [OF j(1) False] by (cases "dir_of s ! j") (simp_all add: d content_def)
    qed
  qed (simp add: d)
  moreover have "\<not> fs_inv s2" if "length vs < unat (fe_file_size e) + unat n"
    using fs_inv_entry(2) [of s2 i ?e] v2 that lv x i by (auto simp: d hd)
  moreover have "fuse_write s p buf n (int k) = Some (sint n, s2)"
    using w(1) s2(1) by (simp add: fuse_write_def find get fe_head_def [symmetric] rootdir_set_file_size_def entry_consts
        calculate_file_entry_offset_def)
  ultimately show ?thesis by blast
qed


subsection \<open>Scripts of callbacks\<close>

text \<open>A user of the mounted volume: files are created and removed by their callbacks, and an append asks for the size of the file and
  writes there. What the callbacks return for an answer of the file operations:\<close>

fun fuse_exec :: "dir_cmd \<Rightarrow> tinyfs \<Rightarrow> (int \<times> tinyfs) option" where
  "fuse_exec (Create f) s = fuse_mknod s (47 # f)"
| "fuse_exec (Append f b n) s = do {
     (r, st) \<leftarrow> fuse_getattr s (47 # f);
     if r \<noteq> 0 then Some (r, s) else fuse_write s (47 # f) b n (st_size st)
   }"
| "fuse_exec (Remove f) s = fuse_unlink s (47 # f)"

fun fuse_answer :: "dir_cmd \<Rightarrow> int \<Rightarrow> int" where
  "fuse_answer (Create f) r = (if r \<ge> 0 then 0 else - ENOENT)"
| "fuse_answer (Append f b n) r = (if r = 0 then sint n else if r = -1 then - ENOENT else - ENOSPC)"
| "fuse_answer (Remove f) r = (if r = 0 then 0 else - ENOENT)"

fun named_file :: "dir_cmd \<Rightarrow> u8 list" where
  "named_file (Create f) = f" | "named_file (Append f b n) = f" | "named_file (Remove f) = f"

lemma fuse_write_at_end:
  assumes inv: "fs_inv s" and f: "terminated f" and sl: "slot_of (c_str f) (files s) = int i"
    and c: "files s ! i = Some (m, c)" and size: "length c + unat n < 65536" and n: "unat n \<le> length b"
  shows "fuse_write s (47 # f) b n (int (length c)) =
    map_option (\<lambda>(r, s'). (fuse_answer (Append f b n) r, s')) (fs_write s (int i) b n)"
proof -
  have snd: "fs_sound s" using inv by (simp add: fs_inv_sound)
  obtain e vs where i: "i < length (dir_of s)" and e: "dir_of s ! i = Some e" "files s ! i = Some (c_str (fe_name e), content s e)"
    and vs: "view s (fe_head e) = Some vs" and sz: "unat (fe_file_size e) \<le> length vs" "content s e = take (unat (fe_file_size e)) vs"
    and get: "rootdir_get_file_entry s (of_nat i) = Some (0, Some e)"
    by (rule found_file [OF snd sl])
  obtain bs where rb: "rootdir s = Some bs" using fs_inv_root [OF inv] by metis
  have full: "fs_full_size s" using inv by (simp add: fs_inv_def)
  have lc: "length c = unat (fe_file_size e)" using e(2) sz c by simp
  have find: "rootdir_find_file s (Some f) = Some (int i)" using fs_open_sound [OF snd f] sl by (simp add: fs_open_def)
  let ?k = "ucast (fe_file_size e) :: u32"
  have k: "unat ?k = unat (fe_file_size e)" "(of_int (int (length c)) :: u32) = ?k"
    by (simp_all add: lc unsigned_ucast_eq take_bit_nat_eq_self_iff order.strict_trans [OF unsigned_less])
  have "unat ?k \<le> length vs" "unat ?k + unat n < 4294967296" using sz size by (simp_all add: k(1) lc)
  from write_data_any [OF vs this(1) n this(2) full] obtain ret s1 vs' where
    w: "cluster_write_data s (fe_head e) ?k b n = Some (ret, s1)" "ret = 0 \<or> ret = - FS_DISK_FULL"
    and vs': "view s1 (fe_head e) = Some vs'" "take (unat (fe_file_size e)) vs' = take (unat (fe_file_size e)) vs" "length vs \<le> length vs'"
      "tfs_frame s (fe_head e) s1"
    unfolding k(1) by (auto split: if_splits)
  note s1 = data_written [OF inv i e(1) vs'(4) vs vs'(1-3)]
  obtain s2 where s2: "cluster_write_16bit s1 2 (of_nat i * 16 + of_nat 13) (ucast (?k + n)) = Some (0, s2)"
    using size_entry [of s1 bs i e "ucast (?k + n)"] rb i e(1) unfolding s1(3,4) by blast
  show ?thesis using w s2
    by (auto simp: fuse_write_def fs_write_def find get k(2) [simplified] fe_head_def [symmetric] rootdir_set_file_size_def entry_consts
        calculate_file_entry_offset_def FS_DISK_FULL_def)
qed

lemma fuse_exec_eq:
  assumes "fs_inv s" and "dir_allowed (files s) c" and "file_path (47 # named_file c)"
  shows "fuse_exec c s = map_option (\<lambda>(r, s'). (fuse_answer c r, s')) (fs_exec c s)"
proof (cases c)
  case (Create f)
  then show ?thesis by (cases "fs_create_file s (Some f)") (simp_all add: fuse_mknod_def split: prod.split)
next
  case (Remove f)
  then show ?thesis by (cases "fs_delete s (Some f)") (simp_all add: fuse_unlink_def split: prod.split)
next
  case (Append f b n)
  have snd: "fs_sound s" using assms(1) by (simp add: fs_inv_sound)
  have f: "terminated f" "unat n \<le> length b" using assms(2) Append by simp_all
  have attr: "fuse_getattr s (47 # f) = Some (case lookup (c_str f) (files s) of None \<Rightarrow> (- ENOENT, no_stat) | Some c \<Rightarrow> (0, file_stat (int (length c))))"
    using fuse_getattr_file [OF snd, of "47 # f"] assms(3) Append by simp
  have open_: "fs_open s (Some f) = Some (slot_of (c_str f) (files s))" by (rule fs_open_eq [OF assms(1) f(1)])
  show ?thesis
  proof (cases rule: slot_cases [of "c_str f" "files s"])
    case 1
    then show ?thesis using attr open_ by (simp add: Append lookup_def ENOENT_def)
  next
    case (2 i m c')
    have "Some (m, c') \<in> set (files s)" using 2(2,3) nth_mem by metis
    then have "length c' + unat n < 65536" using assms(2) Append by auto
    from fuse_write_at_end [OF assms(1) f(1) 2(1,3) this f(2)] show ?thesis
      using attr open_ 2 by (simp add: Append lookup_def file_stat_def no_stat_def)
  qed
qed

lemma fuse_run:
  assumes "fs_inv s" and "dir_ready (- FS_DISK_FULL) (files s) cmds" and "list_all (\<lambda>c. file_path (47 # named_file c)) cmds"
  shows "\<exists>rs s'. dir_run fuse_exec cmds s = Some (map2 fuse_answer cmds rs, s') \<and> fs_inv s' \<and>
    dir_steps (- FS_DISK_FULL) (files s) cmds rs (files s')"
  using assms
proof (induction cmds arbitrary: s)
  case (Cons c cmds)
  obtain r s1 where s1: "fs_exec c s = Some (r, s1)" "fs_inv s1" "dir_step (- FS_DISK_FULL) (files s) c r (files s1)"
    using tinyfs_files.exec_step [of s c] Cons.prems(1,2) by (auto simp: fs_exec_eq)
  have x: "fuse_exec c s = Some (fuse_answer c r, s1)" using fuse_exec_eq [of s c] Cons.prems s1(1) by simp
  have "dir_ready (- FS_DISK_FULL) (files s1) cmds" "list_all (\<lambda>c. file_path (47 # named_file c)) cmds"
    using Cons.prems(2,3) s1(3) by simp_all
  from Cons.IH [OF s1(2) this] obtain rs s' where r: "dir_run fuse_exec cmds s1 = Some (map2 fuse_answer cmds rs, s')" "fs_inv s'"
      "dir_steps (- FS_DISK_FULL) (files s1) cmds rs (files s')" by blast
  have "dir_steps (- FS_DISK_FULL) (files s) (c # cmds) (r # rs) (files s')" by (rule steps_Cons [OF s1(3) r(3)])
  then show ?case using x r(1,2) by (intro exI [of _ "r # rs"] exI [of _ s']) simp
qed (simp add: steps_Nil)

subsection \<open>Properties\<close>



text \<open>Claim C33. The FUSE driver on a sound volume: \<^verbatim>\<open>getattr\<close> of a path reports the length of the file's content and \<^verbatim>\<open>read\<close> gives the
  whole content, or both report that there is none. Size and offset of a read are ignored: a buffer that is shorter than the file is
  overrun, and a read behind the start begins with the first byte again.\<close>

theorem fuse_serves_volume:
  assumes "fs_sound s" and "file_path p"
  shows "fuse_getattr s p = Some (case lookup (c_str (tl p)) (files s) of
      None \<Rightarrow> (- ENOENT, no_stat) | Some c \<Rightarrow> (0, file_stat (int (length c)))) \<and>
    fuse_read s p buf sz offset out = (case lookup (c_str (tl p)) (files s) of
      None \<Rightarrow> Some (- ENOENT, buf, out)
    | Some c \<Rightarrow> if length c \<le> length buf then Some (int (length c), c @ drop (length c) buf, out) else None)"
  using fuse_getattr_file [OF assms] fuse_read_file [OF assms] by blast

theorem fuse_serves_volume_witness:
  "fuse_getattr sample_fs [47, 0x61, 0] = Some (0, file_stat 3) \<and> fuse_getattr sample_fs [47, 0x62, 0] = Some (- ENOENT, no_stat) \<and>
   fuse_read sample_fs [47, 0x61, 0] [0, 0, 0, 0] 4 1 [] = Some (3, [0x78, 0x79, 0x7A, 0], []) \<and>
   fuse_read sample_fs [47, 0x61, 0] [0, 0] 2 0 [] = None"
proof -
  have p: "file_path [47, 0x61, 0]" "file_path [47, 0x62, 0]" by (simp_all add: file_path_def terminated_def map_of_char_def)
  have l: "lookup [0x61] (files sample_fs) = Some [0x78, 0x79, 0x7A]" "lookup [0x62] (files sample_fs) = None"
    by (simp_all add: sample_files lookup_def slot_of_def first_index_def named_def)
  show ?thesis
    using fuse_serves_volume [OF sample_sound p(1), of "[0, 0, 0, 0]" 4 1 "[]"] fuse_serves_volume [OF sample_sound p(1), of "[0, 0]" 2 0 "[]"]
      fuse_serves_volume [OF sample_sound p(2), of "[]" 0 0 "[]"] by (simp add: l)
qed



end
