(* ===== verification/Host_Shell.thy ===== *)
theory Host_Shell
  imports Host_Fuse
begin

section \<open>The script of TinyFS on a Linux host (fs/tinyfs/tests/shell\_test.c)\<close>

text \<open>
  The commands of the script over the volume and the text that is printed, the script itself, and what the listing and \<^verbatim>\<open>cat\<close> show.
\<close>

subsection \<open>The commands\<close>

type_synonym host = "tinyfs \<times> u8 list"

definition print_line :: "u8 list \<Rightarrow> host \<Rightarrow> host" where "print_line txt st = (fst st, snd st @ txt)"

text \<open>A byte that could not be read is undefined; every byte passes the test \<^verbatim>\<open>byte >= 0\<close>.\<close>

definition host_command_cat :: "u8 list option \<Rightarrow> host \<Rightarrow> host option" where
  "host_command_cat filename st = (case filename of
     None \<Rightarrow> Some st
   | Some name \<Rightarrow> do {
       txt \<leftarrow> string_at name;
       let (s, out) = print_line (10 # map_of_char ''> cat '' @ txt @ [10]) st;
       index \<leftarrow> rootdir_find_file s (Some name);
       if index < 0 then Some (s, out @ map_of_char ''cat> File not found!! '' @ [10])
       else do {
         (r, entry) \<leftarrow> rootdir_get_file_entry s (of_int index);
         if r \<noteq> 0 then Some (s, out)
         else do {
           e \<leftarrow> entry;
           out \<leftarrow> for_loop 0 (unat (fe_file_size e)) (\<lambda>i out. do {
             (_, v) \<leftarrow> cluster_read_8bit s (ucast (fe_data_cluster e)) (of_nat i);
             byte \<leftarrow> v;
             Some (out @ [if byte < 32 then 46 else byte])
           }) out;
           Some (s, out @ [10, 10])
         }
       }
     })"

definition host_print_FAT_table :: "host \<Rightarrow> host option" where
  "host_print_FAT_table st = do {
     out \<leftarrow> print_clusters (fst st) (snd st @ map_of_char ''Allocated FAT clusters:'' @ [10]);
     Some (fst st, out)
   }"

definition command_ls_root :: "host \<Rightarrow> host option" where
  "command_ls_root st = do {
     out \<leftarrow> print_table (fst st) (snd st @ map_of_char ''> ls /'' @ [10, 10]);
     Some (fst st, out)
   }"

definition command_rm :: "u8 list \<Rightarrow> host \<Rightarrow> host option" where
  "command_rm filename st = do {
     txt \<leftarrow> string_at filename;
     let (s, out) = print_line (map_of_char ''> rm '' @ txt @ [32, 10]) st;
     (_, s) \<leftarrow> fs_delete s (Some filename);
     command_ls_root (s, out)
   }"

definition command_create_file :: "u8 list \<Rightarrow> host \<Rightarrow> host option" where
  "command_create_file filename st = do {
     txt \<leftarrow> string_at filename;
     let (s, out) = print_line (map_of_char ''> open '' @ txt @ [32, 10]) st;
     (_, s) \<leftarrow> fs_create_file s (Some filename);
     command_ls_root (s, out)
   }"

text \<open>The two loops of the script that fill a file: the message without its terminator, a number of times.\<close>

definition fill_file :: "u8 list \<Rightarrow> nat \<Rightarrow> u8 list \<Rightarrow> host \<Rightarrow> host option" where
  "fill_file filename rounds msg st = do {
     handle \<leftarrow> fs_open (fst st) (Some filename);
     if handle \<ge> 0 then
       for_loop 0 rounds (\<lambda>i (s, out). do {
         (ret, s) \<leftarrow> fs_write s handle msg (of_nat (length msg - 1));
         Some (s, if ret \<noteq> 0 then out @ map_of_char ''fs_write() failed! '' else out)
       }) st
     else Some st
   }"

datatype host_command = Cat string | Rm string | New string | Fill string nat string | Ls

fun run_command :: "host_command \<Rightarrow> host \<Rightarrow> host option" where
  "run_command (Cat n) = host_command_cat (Some (c_lit n))"
| "run_command (Rm n) = command_rm (c_lit n)"
| "run_command (New n) = command_create_file (c_lit n)"
| "run_command (Fill n rounds msg) = fill_file (c_lit n) rounds (c_lit msg)"
| "run_command Ls = command_ls_root"

fun run_commands :: "host_command list \<Rightarrow> host \<Rightarrow> host option" where
  "run_commands [] st = Some st"
| "run_commands (c # cs) st = do { st \<leftarrow> run_command c st; run_commands cs st }"

definition shell_script :: "host_command list" where
  "shell_script =
    [New ''new_file_01'', New ''new_file_02'', New ''new_file_03'', Rm ''Test_10'', New ''new_file_04'',
     Cat ''new_file_04'', Fill ''new_file_04'' 2 ''#__A write to new_file_04 file!'', Cat ''new_file_04'', Cat ''a.out'',
     Fill ''a.out'' 15 ''0123456789'', Cat ''a.out'', Cat ''new_file_04'', Ls,
     Cat ''Test_210'', Rm ''Test_210'', New ''new_file_05'', Rm ''a.out'', New ''new_file_06'',
     Rm ''new_file_04'', Rm ''new_file_01'', Rm ''new_file_05'', Rm ''Test_30'', Rm ''new_file_02'', Rm ''new_file_06'',
     New ''new_file_001'', New ''new_file_002'', New ''new_file_003'', New ''new_file_004'', New ''new_file_005'', New ''new_file_006'',
     New ''new_file_007'', New ''new_file_008'', New ''new_file_009'', New ''new_file_010'', New ''new_file_011'', New ''new_file_012'',
     New ''new_file_013'', New ''new_file_014'', New ''new_file_015'', New ''new_file_016'', New ''new_file_017'', New ''new_file_018'',
     New ''new_file_019'']"

text \<open>\<^verbatim>\<open>main\<close>, over what \<^verbatim>\<open>malloc\<close> answers: the exit code, the volume and the text. The null pointer that is passed for the name is never
  looked at, and the result of \<^verbatim>\<open>fs_store_disk_image\<close> is ignored.\<close>

definition shell_test_main :: "(u32 \<Rightarrow> u8 list option) \<Rightarrow> tinyfs \<Rightarrow> (int \<times> host) option" where
  "shell_test_main malloc s = do {
     let out = 10 # map_of_char ''Shell starting!'' @ [10];
     (ret, s) \<leftarrow> fs_load_disk_image malloc s [];
     if ret < 0 then Some (1, s, out @ map_of_char ''Error returned by fs_load_disk_image()!'' @ [10])
     else do {
       st \<leftarrow> command_ls_root (s, out);
       st \<leftarrow> run_commands shell_script st;
       st \<leftarrow> host_print_FAT_table st;
       let _ = fs_store_disk_image (fst st) (c_lit ''disk_image_out.img'');
       Some (0, st)
     }
   }"

subsection \<open>What the listing shows\<close>

text \<open>The clusters of a chain, and the line of an entry.\<close>

fun chain_text :: "u32 list \<Rightarrow> u8 list" where
  "chain_text [] = []"
| "chain_text [c] = hex2 c"
| "chain_text (c # d # cs) = hex2 c @ map_of_char '' -> '' @ chain_text (d # cs)"

lemma print_chain:
  assumes "fs_wf s"
  shows "chain s cs \<Longrightarrow> print_cluster_chain s (hd cs) out = Some (out @ chain_text cs)"
  using assms
proof (induction s cs arbitrary: out rule: chain.induct)
  case (2 s c)
  then show ?case using get_linked_eq [of s c] by (subst print_cluster_chain.simps) simp
next
  case (3 s c d cs)
  have c: "data_cluster s c" "fat s c = d" "chain s (d # cs)" using 3(2) by auto
  then have "d \<noteq> 0xFF" using data_cluster_lt [OF 3(3), of d] chain_data [OF c(3), of d] by auto
  then show ?case using 3(1) [OF c(3) 3(3)] get_linked_eq [OF 3(3) c(1)] c(2) by (subst print_cluster_chain.simps) simp
qed simp

definition ls_row :: "nat \<Rightarrow> file_entry \<Rightarrow> u32 list \<Rightarrow> u8 list" where
  "ls_row i e cs = map_of_char ''   '' @ to_right 3 (dec_text i) @ map_of_char ''   '' @ to_right 4 (dec_text (unat (fe_file_size e))) @
     map_of_char ''   '' @ to_right 13 (c_str (fe_name e)) @ map_of_char ''   '' @ chain_text cs @ [10]"

definition ls_rows :: "tinyfs \<Rightarrow> u8 list" where
  "ls_rows s = concat (map (\<lambda>i. case dir_of s ! i of None \<Rightarrow> [] | Some e \<Rightarrow> ls_row i e (the (chain_of s (fe_head e)))) [0..<length (dir_of s)])"

definition ls_head :: "u8 list" where
  "ls_head = map_of_char ''   IDX   SIZE   NAME.........   CLUSTERS '' @ [10]"

lemma print_table_ok:
  assumes "fs_sound s" and "\<forall>x \<in> set (dir_of s). case x of None \<Rightarrow> True | Some e \<Rightarrow> terminated (fe_name e)"
  shows "print_table s out = Some (out @ ls_head @ ls_rows s @ [10])"
proof -
  have names: "terminated (fe_name e)" if "i < length (dir_of s)" "dir_of s ! i = Some e" for i e
    using assms(2) nth_mem [OF that(1)] that(2) by auto
  obtain bs where rb: "rootdir s = Some bs" and db: "dir_of s = entries bs" and wf: "fs_wf s" and ok: "dir_ok s bs"
    and len: "length (dir_of s) = length bs div 16"
    using fs_sound_root [OF assms(1)] by metis
  let ?row = "\<lambda>i. case dir_of s ! i of None \<Rightarrow> [] | Some e \<Rightarrow> ls_row i e (the (chain_of s (fe_head e)))"
  let ?body = "\<lambda>i out. do {
       (r, entry) \<leftarrow> rootdir_get_file_entry s (of_nat i);
       if r = 0 then do {
         e \<leftarrow> entry;
         name \<leftarrow> string_at (fe_name e);
         let out = out @ map_of_char ''   '' @ to_right 3 (dec_text i) @ map_of_char ''   '' @ to_right 4 (dec_text (unat (fe_file_size e))) @
           map_of_char ''   '' @ to_right 13 name @ map_of_char ''   '';
         out \<leftarrow> print_cluster_chain s (ucast (fe_data_cluster e)) out;
         Some (out @ [10])
       }
       else Some out
     }"
  have "\<exists>o'. for_loop 0 (length (dir_of s)) ?body (out @ ls_head) = Some o' \<and> o' = out @ ls_head @ concat (map ?row [0..<length (dir_of s)])"
  proof (rule for_loop_rule [where I = "\<lambda>n o'. o' = out @ ls_head @ concat (map ?row [0..<n])"])
    fix j o' assume o': "o' = out @ ls_head @ concat (map ?row [0..<j])" and j: "j < length (dir_of s)"
    have get: "rootdir_get_file_entry s (of_nat j) = Some (case dir_of s ! j of None \<Rightarrow> (-1, None) | Some e \<Rightarrow> (0, Some e))"
      using get_entry_entries [OF rb, of j] j by (simp add: db)
    show "\<exists>t'. ?body j o' = Some t' \<and> t' = out @ ls_head @ concat (map ?row [0..<Suc j])"
    proof (cases "dir_of s ! j")
      case None
      then show ?thesis by (simp add: get o')
    next
      case (Some e)
      obtain vs where "view s (fe_head e) = Some vs" using apart_view [OF wf fs_sound_entry(1) [OF assms(1) j Some]] by blast
      then obtain cs where cs: "chain_of s (fe_head e) = Some cs" "chain s cs" "hd cs = fe_head e"
        using wf by (auto simp: view_def chain_of_iff)
      have "print_cluster_chain s (ucast (fe_data_cluster e)) o'' = Some (o'' @ chain_text cs)" for o''
        using print_chain [OF wf cs(2)] cs(3) by (simp add: fe_head_def)
      then show ?thesis using names [OF j Some] Some cs(1) by (simp add: get o' string_at_def ls_row_def)
    qed
  qed simp_all
  then show ?thesis
    using table_size_eq [OF ok] len by (simp add: print_table_def ls_head_def ls_rows_def Let_def)
qed

text \<open>What \<^verbatim>\<open>cat\<close> makes of a content.\<close>

definition dotted :: "u8 list \<Rightarrow> u8 list" where "dotted = map (\<lambda>b. if b < 32 then 46 else b)"

definition host_cat_text :: "u8 list \<Rightarrow> u8 list option \<Rightarrow> u8 list" where
  "host_cat_text n found = 10 # map_of_char ''> cat '' @ n @ [10] @
     (case found of None \<Rightarrow> map_of_char ''cat> File not found!! '' @ [10] | Some c \<Rightarrow> dotted c @ [10, 10])"

lemma host_cat_ok:
  assumes "fs_sound s" and "terminated name"
  shows "host_command_cat (Some name) (s, out) = Some (s, out @ host_cat_text (c_str name) (lookup (c_str name) (files s)))"
proof -
  have f: "rootdir_find_file s (Some name) = Some (slot_of (c_str name) (files s))"
    using fs_open_sound [OF assms] by (simp add: fs_open_def)
  show ?thesis
  proof (cases rule: slot_cases [of "c_str name" "files s"])
    case 1
    then show ?thesis using f assms(2) by (simp add: host_command_cat_def string_at_def print_line_def host_cat_text_def lookup_def)
  next
    case (2 i m c)
    obtain e vs where e: "files s ! i = Some (c_str (fe_name e), content s e)" "view s (fe_head e) = Some vs"
        "unat (fe_file_size e) \<le> length vs" "content s e = take (unat (fe_file_size e)) vs"
        "rootdir_get_file_entry s (of_nat i) = Some (0, Some e)"
      by (rule found_file [OF assms(1) 2(1)])
    let ?n = "unat (fe_file_size e)"
    let ?body = "\<lambda>i out. do {
             (_, v) \<leftarrow> cluster_read_8bit s (ucast (fe_data_cluster e)) (of_nat i);
             byte \<leftarrow> v;
             Some (out @ [if byte < 32 then 46 else byte])
           }"
    have "\<exists>o'. for_loop 0 ?n ?body o0 = Some o' \<and> o' = o0 @ dotted (take ?n vs)" for o0
    proof (rule for_loop_rule [where I = "\<lambda>n o'. o' = o0 @ dotted (take n vs)"])
      fix j o' assume o': "o' = o0 @ dotted (take j vs)" and j: "j < ?n"
      have "cluster_read_8bit s (ucast (fe_data_cluster e)) (of_nat j) = Some (0, Some (vs ! j))" by (rule file_byte [OF e(2,3) j])
      then show "\<exists>t'. ?body j o' = Some t' \<and> t' = o0 @ dotted (take (Suc j) vs)"
        using e(3) j by (simp add: o' dotted_def take_Suc_conv_app_nth)
    qed (simp_all add: dotted_def)
    then show ?thesis using f assms(2) 2(1) e
      by (simp add: host_command_cat_def string_at_def print_line_def host_cat_text_def lookup_def)
  qed
qed

lemma command_ls_ok:
  assumes "fs_sound s" and "\<forall>x \<in> set (dir_of s). case x of None \<Rightarrow> True | Some e \<Rightarrow> terminated (fe_name e)"
  shows "command_ls_root (s, out) = Some (s, out @ map_of_char ''> ls /'' @ [10, 10] @ ls_head @ ls_rows s @ [10])"
  using print_table_ok [OF assms] by (simp add: command_ls_root_def)

subsection \<open>Properties\<close>

text \<open>Claim C35. What the host program shows of a sound volume with terminated names: \<^verbatim>\<open>cat\<close> prints the content of the named file,
  control characters as dots, or that there is none, and the listing has a line for every entry, with its slot, size, name and the
  clusters of its chain, so the walk along the chains ends. Neither changes the volume.\<close>

theorem host_shell_shows:
  assumes "fs_sound s" and "terminated name"
    and "\<forall>x \<in> set (dir_of s). case x of None \<Rightarrow> True | Some e \<Rightarrow> terminated (fe_name e)"
  shows "host_command_cat (Some name) (s, out) =
      Some (s, out @ host_cat_text (c_str name) (lookup (c_str name) (files s))) \<and>
    command_ls_root (s, out) = Some (s, out @ map_of_char ''> ls /'' @ [10, 10] @ ls_head @ ls_rows s @ [10])"
  using host_cat_ok [OF assms(1,2)] command_ls_ok [OF assms(1,3)] by blast

theorem host_shell_shows_witness:
  "host_command_cat (Some [0x61, 0]) (sample_fs, []) = Some (sample_fs, map_of_char (CHR 0x0A # ''> cat a'') @ 10 # map_of_char ''xyz'' @ [10, 10]) \<and>
   (\<exists>txt. command_ls_root (sample_fs, []) = Some (sample_fs, txt))"
proof -
  have n: "\<forall>x \<in> set (dir_of sample_fs). case x of None \<Rightarrow> True | Some e \<Rightarrow> terminated (fe_name e)"
    by (simp add: sample_dir terminated_def)
  have "terminated [0x61, 0]" by (simp add: terminated_def)
  moreover have "lookup [0x61] (files sample_fs) = Some [0x78, 0x79, 0x7A]"
    by (simp add: sample_files lookup_def slot_of_def first_index_def named_def)
  ultimately show ?thesis
    using host_shell_shows [OF sample_sound _ n, of "[0x61, 0]" "[]"] by (simp add: host_cat_text_def dotted_def map_of_char_def)
qed

end
