(* ===== verification/Riscv_Test.thy ===== *)
theory Riscv_Test
  imports Util
begin

section \<open>The bare-metal test for RISC-V (baremetal\_riscv\_C\_test.c)\<close>

text \<open>
  A program of its own: it writes a greeting to a memory-mapped UART and echoes what arrives. The state is what has been written to
  the data register; each poll meets a line status and, when that says so, a byte. On this target \<^verbatim>\<open>char\<close> is unsigned.
\<close>

definition RISCV_LSR_DATA_READY :: u8 where "RISCV_LSR_DATA_READY = 0x01"

definition riscv_tty_write :: "u8 \<Rightarrow> u8 list \<Rightarrow> u8 list" where
  "riscv_tty_write data uart = uart @ [data]"

definition riscv_tty_read :: "u8 \<Rightarrow> u8 \<Rightarrow> u8" where
  "riscv_tty_read line_status_reg data = (if line_status_reg AND RISCV_LSR_DATA_READY = 0 then 0xff else data)"

fun riscv_print_string :: "u8 list \<Rightarrow> u8 list \<Rightarrow> u8 list option" where
  "riscv_print_string [] uart = None"
| "riscv_print_string (c # str) uart = (if c = 0 then Some uart else riscv_print_string str (riscv_tty_write c uart))"

text \<open>An iteration of the endless loop, and the program up to a number of them.\<close>

definition echo_step :: "u8 \<times> u8 \<Rightarrow> u8 list \<Rightarrow> u8 list" where
  "echo_step p uart = (let val = riscv_tty_read (fst p) (snd p) in if val \<noteq> 0xff then riscv_tty_write val uart else uart)"

definition c_test_main :: "(u8 \<times> u8) list \<Rightarrow> u8 list \<Rightarrow> u8 list option" where
  "c_test_main polls uart = do {
     uart \<leftarrow> riscv_print_string (map_of_char ''Hello from C !'' @ [10, 0]) uart;
     Some (fold echo_step polls uart)
   }"

lemma riscv_print_string_ok: "terminated str \<Longrightarrow> riscv_print_string str uart = Some (uart @ c_str str)"
  by (induction str arbitrary: uart) (auto simp: terminated_def riscv_tty_write_def)

lemma echo_all: "fold echo_step polls uart = uart @ filter (\<lambda>b. b \<noteq> 0xff) (map snd (filter (\<lambda>p. fst p AND RISCV_LSR_DATA_READY \<noteq> 0) polls))"
  by (induction polls arbitrary: uart) (auto simp: echo_step_def riscv_tty_read_def riscv_tty_write_def Let_def)

text \<open>The greeting, and then every byte that arrived, in order, except \<^verbatim>\<open>0xff\<close>, which cannot be told from the absence of one.\<close>

lemma c_test_main_echoes:
  "c_test_main polls uart = Some (uart @ map_of_char ''Hello from C !'' @ 10 #
     filter (\<lambda>b. b \<noteq> 0xff) (map snd (filter (\<lambda>p. fst p AND RISCV_LSR_DATA_READY \<noteq> 0) polls)))"
proof -
  let ?s = "map_of_char ''Hello from C !'' @ [10, 0]"
  have "terminated ?s" "c_str ?s = map_of_char ''Hello from C !'' @ [10]" by (simp_all add: terminated_def map_of_char_def)
  then show ?thesis using riscv_print_string_ok [of ?s uart] by (simp add: c_test_main_def echo_all)
qed

end
